(* ===== verification/Prelude.thy ===== *)
theory Prelude
  imports Main "HOL-Library.Word" "HOL-Library.Monad_Syntax"
begin

text \<open>
  What the components of the kernel share: the machine integer types, the loop
  \<open>for (i = 0; i < n; ++i) if (P(a[i])) return i;\<close> that nearly every table of the
  kernel is searched with, C strings, and the arithmetic of aligning an address to a
  power of two.

  Conventions of the whole development. \<open>uint8_t\<close>, \<open>uint16_t\<close>, \<open>uint32_t\<close> and
  \<open>uint64_t\<close> are words of that width, so \<open>+\<close>, \<open>-\<close> and \<open>*\<close> wrap around as
  they do in C++. The model is of the 32-bit build, where \<open>size_t\<close>, \<open>uintptr_t\<close> and
  pointers are 32 bits wide. A fixed array is a list of the array's length. A pointer into
  a table is the index of the entry, and \<open>nullptr\<close> is \<open>None\<close>. A C string is the list of
  the characters before its terminating NUL.
\<close>

unbundle bit_operations_syntax

type_synonym u8 = "8 word"
type_synonym u16 = "16 word"
type_synonym u32 = "32 word"
type_synonym u64 = "64 word"

type_synonym cstring = "char list"

named_theorems slot_simps "facts on searching a table for its first matching entry"
named_theorems cstring_simps "the C string loops as list functions"


section \<open>Definitions\<close>

subsection \<open>The first entry of a table with a property\<close>

fun find_slot_from :: "('a \<Rightarrow> bool) \<Rightarrow> nat \<Rightarrow> 'a list \<Rightarrow> nat option" where
  "find_slot_from P i [] = None"
| "find_slot_from P i (x # xs) = (if P x then Some i else find_slot_from P (Suc i) xs)"

definition find_slot :: "('a \<Rightarrow> bool) \<Rightarrow> 'a list \<Rightarrow> nat option" where
  "find_slot P xs = find_slot_from P 0 xs"

subsection \<open>Counting the entries of a table\<close>

definition count_slots :: "('a \<Rightarrow> bool) \<Rightarrow> 'a list \<Rightarrow> nat" where
  "count_slots P xs = length (filter P xs)"


section \<open>Lemmas\<close>

subsection \<open>Searching\<close>

lemma find_slot_from_SomeD:
  "find_slot_from P i xs = Some k \<Longrightarrow>
     \<exists>n. k = i + n \<and> n < length xs \<and> P (xs ! n) \<and> (\<forall>j < n. \<not> P (xs ! j))"
proof (induction xs arbitrary: i)
  case Nil
  then show ?case by simp
next
  case (Cons x xs)
  show ?case
  proof (cases "P x")
    case True
    with Cons.prems show ?thesis by (intro exI [of _ 0]) simp
  next
    case False
    with Cons.prems have "find_slot_from P (Suc i) xs = Some k" by simp
    from Cons.IH [OF this] obtain n where
      "k = Suc i + n" "n < length xs" "P (xs ! n)" "\<forall>j < n. \<not> P (xs ! j)" by blast
    with False show ?thesis
      by (intro exI [of _ "Suc n"]) (simp add: All_less_Suc2)
  qed
qed

lemma find_slot_from_SomeI:
  "n < length xs \<Longrightarrow> P (xs ! n) \<Longrightarrow> \<forall>j < n. \<not> P (xs ! j) \<Longrightarrow> find_slot_from P i xs = Some (i + n)"
proof (induction xs arbitrary: i n)
  case Nil
  then show ?case by simp
next
  case (Cons x xs)
  show ?case
  proof (cases n)
    case 0
    with Cons.prems show ?thesis by simp
  next
    case (Suc m)
    with Cons.prems have "\<not> P x" "find_slot_from P (Suc i) xs = Some (Suc i + m)"
      using Cons.IH [of m "Suc i"] by (simp_all add: All_less_Suc2)
    with Suc show ?thesis by simp
  qed
qed

lemma find_slot_Some_iff [slot_simps]:
  "find_slot P xs = Some k \<longleftrightarrow> k < length xs \<and> P (xs ! k) \<and> (\<forall>j < k. \<not> P (xs ! j))"
  unfolding find_slot_def
  using find_slot_from_SomeD [of P 0 xs k] find_slot_from_SomeI [of k xs P 0] by auto

lemma find_slot_from_None_iff: "find_slot_from P i xs = None \<longleftrightarrow> (\<forall>x \<in> set xs. \<not> P x)"
  by (induction xs arbitrary: i) auto

lemma find_slot_None_iff [slot_simps]: "find_slot P xs = None \<longleftrightarrow> (\<forall>x \<in> set xs. \<not> P x)"
  by (simp add: find_slot_def find_slot_from_None_iff)

lemma find_slot_None_nth: "find_slot P xs = None \<longleftrightarrow> (\<forall>k < length xs. \<not> P (xs ! k))"
  by (simp add: find_slot_None_iff all_set_conv_all_nth)

lemma find_slotD:
  assumes "find_slot P xs = Some k"
  shows "k < length xs" and "P (xs ! k)" and "\<And>j. j < k \<Longrightarrow> \<not> P (xs ! j)"
  using assms by (auto simp: find_slot_Some_iff)

lemma find_slot_exists: "k < length xs \<Longrightarrow> P (xs ! k) \<Longrightarrow> \<exists>j. find_slot P xs = Some j"
  by (cases "find_slot P xs") (auto simp: find_slot_None_nth)

text \<open>With at most one match, the search finds it.\<close>

lemma find_slot_unique:
  assumes "k < length xs" and "P (xs ! k)"
    and "\<And>j. j < length xs \<Longrightarrow> P (xs ! j) \<Longrightarrow> j = k"
  shows "find_slot P xs = Some k"
  unfolding find_slot_Some_iff using assms(1,2) assms(3) [OF less_trans] by blast

lemma find_append:
  "find P (xs @ ys) = (case find P xs of None \<Rightarrow> find P ys | Some x \<Rightarrow> Some x)"
  by (induction xs) auto

lemma find_map: "find P (map f xs) = map_option f (find (\<lambda>x. P (f x)) xs)"
  by (induction xs) auto

subsection \<open>Counting\<close>

lemma count_slots_card: "count_slots P xs = card {i. i < length xs \<and> P (xs ! i)}"
  by (simp add: count_slots_def length_filter_conv_card)

lemma count_slots_le: "count_slots P xs \<le> length xs"
  by (simp add: count_slots_def)

lemma count_slots_update:
  assumes "i < length xs"
  shows "count_slots P (xs[i := x]) + (if P (xs ! i) then 1 else 0)
    = count_slots P xs + (if P x then 1 else 0)"
  using assms
proof (induction xs arbitrary: i)
  case Nil
  then show ?case by simp
next
  case (Cons y ys)
  show ?case
  proof (cases i)
    case 0
    then show ?thesis by (simp add: count_slots_def)
  next
    case (Suc j)
    with Cons.prems have "j < length ys" by simp
    from Cons.IH [OF this] Suc show ?thesis by (simp add: count_slots_def)
  qed
qed

lemma count_slots_pos: "i < length xs \<Longrightarrow> P (xs ! i) \<Longrightarrow> 0 < count_slots P xs"
  by (auto simp: count_slots_def filter_empty_conv)

lemma count_slots_0_iff: "count_slots P xs = 0 \<longleftrightarrow> (\<forall>x \<in> set xs. \<not> P x)"
  by (auto simp: count_slots_def filter_empty_conv)

lemma count_slots_replicate: "count_slots P (replicate n x) = (if P x then n else 0)"
  by (simp add: count_slots_def)

subsection \<open>Division rounding up\<close>

lemma ceil_div:
  assumes "0 < m"
  shows "(k + (m - 1)) div m = (if k mod m = 0 then k div m else k div m + (1 :: nat))"
proof -
  have "(k + (m - 1)) div m = (k mod m + (m - 1) + k div m * m) div m" by simp
  also have "\<dots> = k div m + (k mod m + (m - 1)) div m" using assms by (simp only: div_mult_self1)
  also have "(k mod m + (m - 1)) div m = (if k mod m = 0 then 0 else 1)"
  proof (cases "k mod m = 0")
    case False
    then have "m \<le> k mod m + (m - 1)" and "k mod m + (m - 1) - m < m"
      using assms mod_less_divisor [of m k] by linarith+
    then show ?thesis using assms False by (simp add: le_div_geq)
  qed (use assms in simp)
  finally show ?thesis by simp
qed

lemma multiple_gap:
  assumes "a mod m = 0" and "b mod m = 0" and "a < (b :: nat)"
  shows "a + m \<le> b"
proof -
  obtain i j where ij: "a = m * i" "b = m * j" using assms(1,2) by (metis mod_0_imp_dvd dvdE)
  then have "Suc i \<le> j" using assms(3) by simp
  then have "m * Suc i \<le> m * j" by (rule mult_le_mono2)
  then show ?thesis using ij by simp
qed

subsection \<open>Words\<close>

lemma unat_u32_less: "unat (w :: u32) < 2 ^ 32"
  using unsigned_less [of w] by simp

lemma unat_of_nat_u32 [simp]: "n < 2 ^ 32 \<Longrightarrow> unat (of_nat n :: u32) = n"
  by (simp add: unat_of_nat)

lemma and_not_low_bits: "(w :: 'a::len word) AND NOT (2 ^ k - 1) = push_bit k (drop_bit k w)"
  by (rule bit_word_eqI) (auto simp: bit_simps mask_eq_exp_minus_1 [symmetric])

lemma unat_and_not_low_bits:
  "unat ((w :: 'a::len word) AND NOT (2 ^ k - 1)) = unat w div 2 ^ k * 2 ^ k"
proof -
  have le: "unat w div 2 ^ k * 2 ^ k < 2 ^ LENGTH('a)"
    by (meson div_times_less_eq_dividend le_less_trans unsigned_less)
  have "unat (push_bit k (drop_bit k w)) = take_bit LENGTH('a) (unat w div 2 ^ k * 2 ^ k)"
    unfolding unsigned_push_bit_eq unsigned_drop_bit_eq
    by (simp add: push_bit_eq_mult drop_bit_eq_div take_bit_nat_eq_self)
  then show ?thesis
    using le by (simp add: and_not_low_bits take_bit_nat_eq_self)
qed

end
