(* ===== verification/Memory.thy ===== *)
theory Memory
  imports Prelude
begin

text \<open>
  The machine's memory: one byte per 32-bit address, read and written in the little-endian
  multi-byte units the code accesses through its pointers. The kernel's data structures
  that live in raw memory (the boot information, the heap's block headers and free list,
  interrupt frames, user buffers) are read and written with these operations only, so
  that the overlap of two objects is visible in the model.
\<close>

type_synonym mem = "u32 \<Rightarrow> u8"

named_theorems mem_simps "reads of memory after writes"


section \<open>Definitions\<close>

definition read16 :: "mem \<Rightarrow> u32 \<Rightarrow> u16" where
  "read16 m a = ucast (m a) OR push_bit 8 (ucast (m (a + 1)))"

definition read32 :: "mem \<Rightarrow> u32 \<Rightarrow> u32" where
  "read32 m a = ucast (m a) OR push_bit 8 (ucast (m (a + 1)))
     OR push_bit 16 (ucast (m (a + 2))) OR push_bit 24 (ucast (m (a + 3)))"

definition read64 :: "mem \<Rightarrow> u32 \<Rightarrow> u64" where
  "read64 m a = ucast (read32 m a) OR push_bit 32 (ucast (read32 m (a + 4)))"

definition write32 :: "u32 \<Rightarrow> u32 \<Rightarrow> mem \<Rightarrow> mem" where
  "write32 a v m = m(a := ucast v, a + 1 := ucast (drop_bit 8 v),
     a + 2 := ucast (drop_bit 16 v), a + 3 := ucast (drop_bit 24 v))"

fun write_bytes :: "u32 \<Rightarrow> u8 list \<Rightarrow> mem \<Rightarrow> mem" where
  "write_bytes a [] m = m"
| "write_bytes a (b # bs) m = write_bytes (a + 1) bs (m(a := b))"

fun read_bytes :: "mem \<Rightarrow> u32 \<Rightarrow> nat \<Rightarrow> u8 list" where
  "read_bytes m a 0 = []"
| "read_bytes m a (Suc n) = m a # read_bytes m (a + 1) n"

text \<open>\<open>memcpy\<close> and \<open>memset\<close> of \<open>src/kernel/memory.cpp\<close>, byte by byte from the front.\<close>

fun memcpy :: "u32 \<Rightarrow> u32 \<Rightarrow> nat \<Rightarrow> mem \<Rightarrow> mem" where
  "memcpy dst src 0 m = m"
| "memcpy dst src (Suc n) m = memcpy (dst + 1) (src + 1) n (m(dst := m src))"

fun memset :: "u32 \<Rightarrow> u8 \<Rightarrow> nat \<Rightarrow> mem \<Rightarrow> mem" where
  "memset dst value 0 m = m"
| "memset dst value (Suc n) m = memset (dst + 1) value n (m(dst := value))"

text \<open>The bytes \<open>[a, a + n)\<close>, for a range that does not reach the end of the address space.\<close>

definition in_range :: "u32 \<Rightarrow> nat \<Rightarrow> u32 \<Rightarrow> bool" where
  "in_range a n x \<longleftrightarrow> unat a \<le> unat x \<and> unat x < unat a + n"

text \<open>Two ranges that do not overlap.\<close>

definition apart :: "u32 \<Rightarrow> nat \<Rightarrow> u32 \<Rightarrow> nat \<Rightarrow> bool" where
  "apart a n b k \<longleftrightarrow> unat a + n \<le> unat b \<or> unat b + k \<le> unat a"


section \<open>Lemmas\<close>

lemma unat_add_small: "unat (a :: u32) + n < 2 ^ 32 \<Longrightarrow> unat (a + of_nat n) = unat a + n"
  by (simp add: unat_word_ariths unat_of_nat)

lemma unat_add_numeral:
  "unat (a :: u32) + numeral k < 2 ^ 32 \<Longrightarrow> unat (a + numeral k) = unat a + numeral k"
  using unat_add_small [of a "numeral k"] by simp

lemma unat_add_1: "unat (a :: u32) + 1 < 2 ^ 32 \<Longrightarrow> unat (a + 1) = unat a + 1"
  using unat_add_small [of a 1] by simp

lemmas unat_offset = unat_add_small unat_add_numeral unat_add_1

lemma unat_add_nowrap: "unat (a :: u32) + unat b < 2 ^ 32 \<Longrightarrow> unat (a + b) = unat a + unat b"
  by (simp add: unat_word_ariths)

lemma unat_sub_nowrap: "b \<le> (a :: u32) \<Longrightarrow> unat (a - b) = unat a - unat b"
  by (rule unat_sub)

lemma read32_cong:
  "m a = m' b \<Longrightarrow> m (a + 1) = m' (b + 1) \<Longrightarrow> m (a + 2) = m' (b + 2) \<Longrightarrow> m (a + 3) = m' (b + 3)
    \<Longrightarrow> read32 m a = read32 m' b"
  by (simp add: read32_def)

lemma word_split4:
  "ucast (ucast (v :: u32) :: u8) OR push_bit 8 (ucast (ucast (drop_bit 8 v) :: u8))
     OR push_bit 16 (ucast (ucast (drop_bit 16 v) :: u8))
     OR push_bit 24 (ucast (ucast (drop_bit 24 v) :: u8)) = v"
proof (rule bit_word_eqI)
  fix n assume "n < LENGTH(32)"
  then consider "n < 8" | "8 \<le> n" "n < 16" | "16 \<le> n" "n < 24" | "24 \<le> n" "n < 32"
    by fastforce
  then show "bit (ucast (ucast v :: u8) OR push_bit 8 (ucast (ucast (drop_bit 8 v) :: u8))
     OR push_bit 16 (ucast (ucast (drop_bit 16 v) :: u8))
     OR push_bit 24 (ucast (ucast (drop_bit 24 v) :: u8)) :: u32) n = bit v n"
    by cases (auto simp: bit_simps)
qed

lemma read32_write32_same [simp, mem_simps]: "read32 (write32 a v m) a = v"
  unfolding read32_def write32_def using word_split4 [of v] by simp

lemma write32_outside:
  assumes "unat a + 4 \<le> 2 ^ 32" and "\<not> in_range a 4 x"
  shows "write32 a v m x = m x"
proof -
  have "unat (a + 1) = unat a + 1" "unat (a + 2) = unat a + 2" "unat (a + 3) = unat a + 3"
    using assms(1) by (simp_all add: unat_offset)
  with assms(2) have "x \<noteq> a" "x \<noteq> a + 1" "x \<noteq> a + 2" "x \<noteq> a + 3"
    by (auto simp: in_range_def)
  then show ?thesis by (simp add: write32_def)
qed

lemma read32_write32_apart [mem_simps]:
  assumes "unat a + 4 \<le> 2 ^ 32" and "unat b + 4 \<le> 2 ^ 32" and "apart a 4 b 4"
  shows "read32 (write32 a v m) b = read32 m b"
proof -
  have "unat (b + 1) = unat b + 1" "unat (b + 2) = unat b + 2" "unat (b + 3) = unat b + 3"
    using assms(2) by (simp_all add: unat_offset)
  with assms(3) have "\<not> in_range a 4 b" "\<not> in_range a 4 (b + 1)"
    "\<not> in_range a 4 (b + 2)" "\<not> in_range a 4 (b + 3)"
    by (auto simp: in_range_def apart_def)
  then show ?thesis
    using assms(1) by (auto intro!: read32_cong write32_outside)
qed

lemma read32_range_cong:
  assumes "unat a + 4 \<le> 2 ^ 32" and "\<And>x. in_range a 4 x \<Longrightarrow> m' x = m x"
  shows "read32 m' a = read32 m a"
proof -
  have "unat (a + 1) = unat a + 1" "unat (a + 2) = unat a + 2" "unat (a + 3) = unat a + 3"
    using assms(1) by (simp_all add: unat_offset)
  then show ?thesis by (intro read32_cong assms(2)) (simp_all add: in_range_def)
qed

lemma unat_Suc_in_range:
  "unat (a :: u32) + Suc n \<le> 2 ^ 32 \<Longrightarrow> n \<noteq> 0 \<Longrightarrow> unat (a + 1) = unat a + 1"
  by (rule unat_add_1) simp

lemma write_bytes_outside:
  "unat a + length bs \<le> 2 ^ 32 \<Longrightarrow> \<not> in_range a (length bs) x \<Longrightarrow> write_bytes a bs m x = m x"
proof (induction bs arbitrary: a m)
  case Nil
  then show ?case by simp
next
  case (Cons b bs)
  have ne: "x \<noteq> a" using Cons.prems(2) by (auto simp: in_range_def)
  show ?case
  proof (cases "bs = []")
    case True
    with ne show ?thesis by simp
  next
    case False
    with Cons.prems(1) have a1: "unat (a + 1) = unat a + 1"
      by (intro unat_Suc_in_range [of _ "length bs"]) auto
    with Cons.prems have "write_bytes (a + 1) bs (m(a := b)) x = (m(a := b)) x"
      by (intro Cons.IH) (auto simp: in_range_def)
    with ne show ?thesis by simp
  qed
qed

lemma length_read_bytes [simp]: "length (read_bytes m a n) = n"
  by (induction n arbitrary: a) auto

lemma read_bytes_nth: "i < n \<Longrightarrow> read_bytes m a n ! i = m (a + of_nat i)"
proof (induction n arbitrary: a i)
  case 0
  then show ?case by simp
next
  case (Suc n)
  then show ?case by (cases i) (simp_all add: algebra_simps)
qed

lemma read_bytes_cong:
  "(\<And>i. i < n \<Longrightarrow> m (a + of_nat i) = m' (a + of_nat i)) \<Longrightarrow> read_bytes m a n = read_bytes m' a n"
  by (rule nth_equalityI) (simp_all add: read_bytes_nth)

lemma write_bytes_at:
  "unat a + length bs \<le> 2 ^ 32 \<Longrightarrow> i < length bs \<Longrightarrow> write_bytes a bs m (a + of_nat i) = bs ! i"
proof (induction bs arbitrary: a m i)
  case Nil
  then show ?case by simp
next
  case (Cons b bs)
  show ?case
  proof (cases i)
    case 0
    have "write_bytes (a + 1) bs (m(a := b)) a = (m(a := b)) a"
    proof (cases "bs = []")
      case False
      with Cons.prems(1) have "unat (a + 1) = unat a + 1"
        by (intro unat_Suc_in_range [of _ "length bs"]) auto
      with Cons.prems(1) show ?thesis
        by (intro write_bytes_outside) (auto simp: in_range_def)
    qed simp
    with 0 show ?thesis by simp
  next
    case (Suc j)
    with Cons.prems have a1: "unat (a + 1) = unat a + 1"
      by (intro unat_Suc_in_range [of _ "length bs"]) auto
    have "write_bytes (a + 1) bs (m(a := b)) (a + 1 + of_nat j) = bs ! j"
      using Cons.prems Suc a1 by (intro Cons.IH) auto
    with Suc show ?thesis by (simp add: algebra_simps)
  qed
qed

lemma read_bytes_write_bytes [mem_simps]:
  "unat a + length bs \<le> 2 ^ 32 \<Longrightarrow> read_bytes (write_bytes a bs m) a (length bs) = bs"
  by (rule nth_equalityI) (simp_all add: read_bytes_nth write_bytes_at)

lemma write_bytes_append:
  "write_bytes a (bs @ cs) m = write_bytes (a + of_nat (length bs)) cs (write_bytes a bs m)"
  by (induction bs arbitrary: a m) (simp_all add: algebra_simps)

lemma memset_write_bytes: "memset a v n m = write_bytes a (replicate n v) m"
  by (induction n arbitrary: a m) simp_all

text \<open>Between ranges that do not overlap, \<open>memcpy\<close> copies the source's bytes.\<close>

lemma memcpy_write_bytes:
  assumes "unat dst + n \<le> 2 ^ 32" and "unat src + n \<le> 2 ^ 32" and "apart dst n src n"
  shows "memcpy dst src n m = write_bytes dst (read_bytes m src n) m"
  using assms
proof (induction n arbitrary: dst src m)
  case (Suc n)
  show ?case
  proof (cases "n = 0")
    case False
    have d: "unat (dst + 1) = unat dst + 1" "unat (src + 1) = unat src + 1"
      using unat_Suc_in_range [OF Suc.prems(1) False] unat_Suc_in_range [OF Suc.prems(2) False] by simp_all
    have "memcpy (dst + 1) (src + 1) n (m(dst := m src)) =
        write_bytes (dst + 1) (read_bytes (m(dst := m src)) (src + 1) n) (m(dst := m src))"
      using Suc.prems d by (intro Suc.IH) (auto simp: apart_def)
    moreover have "read_bytes (m(dst := m src)) (src + 1) n = read_bytes m (src + 1) n"
    proof (rule read_bytes_cong)
      fix i assume "i < n"
      then have "unat (src + 1 + of_nat i) = unat src + 1 + i"
        using Suc.prems d by (subst unat_add_small) simp_all
      then have "src + 1 + of_nat i \<noteq> dst" using Suc.prems(3) \<open>i < n\<close> by (auto simp: apart_def)
      then show "(m(dst := m src)) (src + 1 + of_nat i) = m (src + 1 + of_nat i)" by simp
    qed
    ultimately show ?thesis by simp
  qed simp
qed simp

end
