(* ===== verification/Multiboot2.thy ===== *)
theory Multiboot2
  imports Memory
begin

text \<open>
  The parser of the boot loader's information structure,
  \<open>src/kernel/boot/multiboot2.cpp\<close>: a chain of tags in raw memory, walked from the
  structure's start plus 8 with each tag's size rounded up to 8. The visitor callback and
  its \<open>user_data\<close> are a function on a caller's state. Both loops read their stride
  from memory, so they are partial functions: \<open>None\<close> is a walk that never ends.

  The lemmas show that on a chain of tags the walk ends and visits exactly the entries of
  the memory map tags in order, that it ends on every structure whose tags
  advance, and that a tag of size zero makes it run forever.
\<close>


section \<open>Definitions\<close>

record memory_map_entry_view =
  base_addr :: u64
  entry_length :: u64
  entry_type :: u32

record module_view =
  mod_start_addr :: u32
  mod_end_addr :: u32
  module_string :: u32

abbreviation (input) kTagTypeEnd :: u32 where "kTagTypeEnd \<equiv> 0"
abbreviation (input) kTagTypeModule :: u32 where "kTagTypeModule \<equiv> 3"
abbreviation (input) kTagTypeMemoryMap :: u32 where "kTagTypeMemoryMap \<equiv> 6"

definition align8 :: "u32 \<Rightarrow> u32" where
  "align8 value = (value + 7) AND NOT 7"

definition memory_map_entry :: "mem \<Rightarrow> u32 \<Rightarrow> memory_map_entry_view" where
  "memory_map_entry m a =
     \<lparr>base_addr = read64 m a, entry_length = read64 m (a + 8), entry_type = read32 m (a + 16)\<rparr>"

text \<open>The inner loop of \<open>visit_memory_map\<close>, over the entries of one memory map tag.\<close>

partial_function (option) visit_entries ::
  "(memory_map_entry_view \<Rightarrow> 's \<Rightarrow> 's) \<Rightarrow> mem \<Rightarrow> u32 \<Rightarrow> u32 \<Rightarrow> u32 \<Rightarrow> 's \<Rightarrow> 's option" where
  "visit_entries visitor m entry_cursor entry_size entries_end s =
     (if entry_cursor + entry_size \<le> entries_end \<and> 24 \<le> entry_size
      then visit_entries visitor m (entry_cursor + entry_size) entry_size entries_end
             (visitor (memory_map_entry m entry_cursor) s)
      else Some s)"

text \<open>The loop over the tags, and the function around it.\<close>

partial_function (option) visit_map_tags ::
  "(memory_map_entry_view \<Rightarrow> 's \<Rightarrow> 's) \<Rightarrow> mem \<Rightarrow> u32 \<Rightarrow> u32 \<Rightarrow> bool \<Rightarrow> 's \<Rightarrow> (bool \<times> 's) option" where
  "visit_map_tags visitor m cursor info_end found s =
     (if cursor + 8 \<le> info_end then
        (let tag_type = read32 m cursor; tag_size = read32 m (cursor + 4) in
         if tag_type = kTagTypeEnd then Some (found, s)
         else if tag_type = kTagTypeMemoryMap \<and> 16 \<le> tag_size then
           visit_entries visitor m (cursor + 16) (read32 m (cursor + 8)) (cursor + tag_size) s \<bind>
             visit_map_tags visitor m (align8 (cursor + tag_size)) info_end True
         else visit_map_tags visitor m (align8 (cursor + tag_size)) info_end found s)
      else Some (found, s))"

definition visit_memory_map ::
  "mem \<Rightarrow> u32 \<Rightarrow> (memory_map_entry_view \<Rightarrow> 's \<Rightarrow> 's) option \<Rightarrow> 's \<Rightarrow> (bool \<times> 's) option" where
  "visit_memory_map m multiboot_info_addr visitor s =
     (case visitor of
        None \<Rightarrow> Some (False, s)
      | Some f \<Rightarrow>
          if multiboot_info_addr = 0 then Some (False, s)
          else visit_map_tags f m (multiboot_info_addr + 8)
                 (multiboot_info_addr + read32 m multiboot_info_addr) False s)"

partial_function (option) visit_module_tags ::
  "(module_view \<Rightarrow> 's \<Rightarrow> 's) \<Rightarrow> mem \<Rightarrow> u32 \<Rightarrow> u32 \<Rightarrow> bool \<Rightarrow> 's \<Rightarrow> (bool \<times> 's) option" where
  "visit_module_tags visitor m cursor info_end found s =
     (if cursor + 8 \<le> info_end then
        (let tag_type = read32 m cursor; tag_size = read32 m (cursor + 4) in
         if tag_type = kTagTypeEnd then Some (found, s)
         else if tag_type = kTagTypeModule \<and> 16 \<le> tag_size then
           visit_module_tags visitor m (align8 (cursor + tag_size)) info_end True
             (visitor \<lparr>mod_start_addr = read32 m (cursor + 8), mod_end_addr = read32 m (cursor + 12),
                module_string = cursor + 16\<rparr> s)
         else visit_module_tags visitor m (align8 (cursor + tag_size)) info_end found s)
      else Some (found, s))"

definition visit_modules ::
  "mem \<Rightarrow> u32 \<Rightarrow> (module_view \<Rightarrow> 's \<Rightarrow> 's) option \<Rightarrow> 's \<Rightarrow> (bool \<times> 's) option" where
  "visit_modules m multiboot_info_addr visitor s =
     (case visitor of
        None \<Rightarrow> Some (False, s)
      | Some f \<Rightarrow>
          if multiboot_info_addr = 0 then Some (False, s)
          else visit_module_tags f m (multiboot_info_addr + 8)
                 (multiboot_info_addr + read32 m multiboot_info_addr) False s)"


section \<open>Lemmas\<close>

subsection \<open>What a finished walk has done\<close>

text \<open>
  A walk that returns has applied the visitor to some entries read from memory, one after
  the other. Invariants of the visitor and facts on single entries lift through this.
\<close>

definition visited :: "mem \<Rightarrow> (memory_map_entry_view \<Rightarrow> 's \<Rightarrow> 's) \<Rightarrow> 's \<Rightarrow> 's \<Rightarrow> bool" where
  "visited m f s s' \<longleftrightarrow> (\<exists>vs. set vs \<subseteq> range (memory_map_entry m) \<and> s' = fold f vs s)"

lemma visited_refl [simp]: "visited m f s s"
  unfolding visited_def by (rule exI [of _ "[]"]) simp

lemma visited_step: "visited m f (f (memory_map_entry m a) s) s' \<Longrightarrow> visited m f s s'"
proof -
  assume "visited m f (f (memory_map_entry m a) s) s'"
  then obtain vs where "set vs \<subseteq> range (memory_map_entry m)" "s' = fold f vs (f (memory_map_entry m a) s)"
    by (auto simp: visited_def)
  then show ?thesis
    unfolding visited_def by (intro exI [of _ "memory_map_entry m a # vs"]) simp
qed

lemma visited_trans: "visited m f s s' \<Longrightarrow> visited m f s' s'' \<Longrightarrow> visited m f s s''"
proof -
  assume "visited m f s s'" "visited m f s' s''"
  then obtain vs vs' where "set vs \<subseteq> range (memory_map_entry m)" "s' = fold f vs s"
    "set vs' \<subseteq> range (memory_map_entry m)" "s'' = fold f vs' s'"
    by (auto simp: visited_def)
  then show ?thesis
    unfolding visited_def by (intro exI [of _ "vs @ vs'"]) simp
qed

lemma visited_invariant:
  assumes "visited m f s s'" and "P s"
    and "\<And>a s. P s \<Longrightarrow> P (f (memory_map_entry m a) s)"
  shows "P s'"
proof -
  obtain vs where vs: "set vs \<subseteq> range (memory_map_entry m)" and s': "s' = fold f vs s"
    using assms(1) by (auto simp: visited_def)
  from vs assms(2) have "P (fold f vs s)"
    by (induction vs arbitrary: s) (auto intro: assms(3))
  with s' show ?thesis by simp
qed

lemma visit_entries_visited:
  assumes "visit_entries f m c z e s = Some s'"
  shows "visited m f s s'"
proof (rule visit_entries.raw_induct [where P = "\<lambda>f m c z e s s'. visited m f s s'", OF _ assms])
  fix g f m c z e s s'
  assume IH: "\<And>f m c z e s s'. g f m c z e s = Some s' \<Longrightarrow> visited m f s s'"
    and eq: "(if c + z \<le> e \<and> 24 \<le> z then g f m (c + z) z e (f (memory_map_entry m c) s)
       else Some s) = Some s'"
  show "visited m f s s'"
  proof (cases "c + z \<le> e \<and> 24 \<le> z")
    case True
    with eq have "visited m f (f (memory_map_entry m c) s) s'" by (auto intro: IH)
    then show ?thesis by (rule visited_step)
  next
    case False
    with eq show ?thesis by auto
  qed
qed

lemma visit_map_tags_visited:
  assumes "visit_map_tags f m c e b s = Some r"
  shows "visited m f s (snd r)"
proof (rule visit_map_tags.raw_induct [where P = "\<lambda>f m c e b s r. visited m f s (snd r)", OF _ assms])
  fix g f m c e b s r
  assume IH: "\<And>f m c e b s r. g f m c e b s = Some r \<Longrightarrow> visited m f s (snd r)"
    and eq: "(if c + 8 \<le> e then
        let tag_type = read32 m c; tag_size = read32 m (c + 4) in
         if tag_type = 0 then Some (b, s)
         else if tag_type = 6 \<and> 16 \<le> tag_size then
           visit_entries f m (c + 16) (read32 m (c + 8)) (c + tag_size) s \<bind>
             g f m (align8 (c + tag_size)) e True
         else g f m (align8 (c + tag_size)) e b s
      else Some (b, s)) = Some r"
  then show "visited m f s (snd r)"
    by (auto simp: Let_def bind_eq_Some_conv split: if_splits
        dest!: IH visit_entries_visited intro: visited_trans)
qed

lemma visit_memory_map_visited:
  "visit_memory_map m addr (Some f) s = Some (found, s') \<Longrightarrow> visited m f s s'"
  by (auto simp: visit_memory_map_def split: if_splits dest: visit_map_tags_visited)

subsection \<open>A tag of size zero\<close>

lemma unat_align8: "unat c + 7 < 2 ^ 32 \<Longrightarrow> unat (align8 c) = (unat c + 7) div 8 * 8"
  using unat_and_not_low_bits [of "c + 7" 3] by (simp add: align8_def unat_add_numeral)

lemma align8_aligned: "unat c mod 8 = 0 \<Longrightarrow> align8 c = c"
proof -
  assume c: "unat c mod 8 = 0"
  have "unat c < 2 ^ 32" by (rule unat_u32_less)
  with c have "unat c + 7 < 2 ^ 32" by simp presburger
  then have "unat (align8 c) = unat c"
    using c by (simp add: unat_align8) presburger
  then show ?thesis by (simp add: word_unat_eq_iff)
qed

text \<open>The walk does not move past a tag whose size field is zero.\<close>

lemma visit_map_tags_zero_size:
  assumes "unat c mod 8 = 0" and "c + 8 \<le> e" and "read32 m c \<noteq> 0" and "read32 m (c + 4) = 0"
  shows "visit_map_tags f m c e b s = None"
proof (rule ccontr)
  assume "visit_map_tags f m c e b s \<noteq> None"
  then obtain r where "visit_map_tags f m c e b s = Some r" by auto
  then have "(m, c, e) \<noteq> (m, c, e)"
  proof (rule visit_map_tags.raw_induct [where
        P = "\<lambda>f m' c' e' b s r. (m', c', e') \<noteq> (m, c, e)", rotated])
    fix g f m' c' e' b s r
    assume IH: "\<And>f m' c' e' b s r. g f m' c' e' b s = Some r \<Longrightarrow> (m', c', e') \<noteq> (m, c, e)"
      and eq: "(if c' + 8 \<le> e' then
          let tag_type = read32 m' c'; tag_size = read32 m' (c' + 4) in
           if tag_type = 0 then Some (b, s)
           else if tag_type = 6 \<and> 16 \<le> tag_size then
             visit_entries f m' (c' + 16) (read32 m' (c' + 8)) (c' + tag_size) s \<bind>
               g f m' (align8 (c' + tag_size)) e' True
           else g f m' (align8 (c' + tag_size)) e' b s
        else Some (b, s)) = Some r"
    show "(m', c', e') \<noteq> (m, c, e)"
    proof
      assume "(m', c', e') = (m, c, e)"
      then have "g f m c e b s = Some r"
        using eq assms by (simp add: align8_aligned)
      from IH [OF this] show False by simp
    qed
  qed
  then show False by simp
qed

subsection \<open>The tags of a well-formed structure\<close>

text \<open>
  The addresses of the tags from a cursor up to the end tag or the end of the structure,
  each at least a header long and not reaching past the end of the address space.
\<close>

definition is_map_tag :: "mem \<Rightarrow> u32 \<Rightarrow> bool" where
  "is_map_tag m c \<longleftrightarrow> read32 m c = kTagTypeMemoryMap \<and> 16 \<le> read32 m (c + 4)"

definition is_module_tag :: "mem \<Rightarrow> u32 \<Rightarrow> bool" where
  "is_module_tag m c \<longleftrightarrow> read32 m c = kTagTypeModule \<and> 16 \<le> read32 m (c + 4)"

definition tag_fits :: "mem \<Rightarrow> u32 \<Rightarrow> bool" where
  "tag_fits m c \<longleftrightarrow> 8 \<le> unat (read32 m (c + 4)) \<and> unat c + unat (read32 m (c + 4)) + 8 \<le> 2 ^ 32
     \<and> (is_map_tag m c \<longrightarrow> unat c + unat (read32 m (c + 4)) + unat (read32 m (c + 8)) < 2 ^ 32)"

inductive tags_at :: "mem \<Rightarrow> u32 \<Rightarrow> u32 \<Rightarrow> u32 list \<Rightarrow> bool" where
  tags_end: "\<not> c + 8 \<le> e \<or> read32 m c = kTagTypeEnd \<Longrightarrow> tags_at m c e []"
| tags_cons: "c + 8 \<le> e \<Longrightarrow> read32 m c \<noteq> kTagTypeEnd \<Longrightarrow> tag_fits m c \<Longrightarrow>
    tags_at m (align8 (c + read32 m (c + 4))) e ts \<Longrightarrow> tags_at m c e (c # ts)"

definition tag_entries :: "mem \<Rightarrow> u32 \<Rightarrow> memory_map_entry_view list" where
  "tag_entries m c =
     (let z = read32 m (c + 8) in
      if is_map_tag m c \<and> 24 \<le> z
      then map (\<lambda>i. memory_map_entry m (c + 16 + of_nat i * z))
             [0..<(unat (read32 m (c + 4)) - 16) div unat z]
      else [])"

definition tag_module :: "mem \<Rightarrow> u32 \<Rightarrow> module_view" where
  "tag_module m c = \<lparr>mod_start_addr = read32 m (c + 8), mod_end_addr = read32 m (c + 12),
     module_string = c + 16\<rparr>"

lemma visit_entries_stop:
  "\<not> (c + z \<le> e \<and> 24 \<le> z) \<Longrightarrow> visit_entries f m c z e s = Some s"
  by (subst visit_entries.simps) argo

lemma visit_entries_exact:
  assumes "24 \<le> z" and "unat e + unat z < 2 ^ 32" and "unat c \<le> unat e"
  shows "visit_entries f m c z e s =
    Some (fold f (map (\<lambda>i. memory_map_entry m (c + of_nat i * z)) [0..<(unat e - unat c) div unat z]) s)"
  using assms(3)
proof (induction "(unat e - unat c) div unat z" arbitrary: c s)
  case 0
  have "0 < unat z" using assms(1) by (auto simp: word_le_nat_alt)
  with 0 have "unat e - unat c < unat z" by (simp add: div_eq_0_iff)
  moreover have "unat (c + z) = unat c + unat z" using assms(2) 0 by (intro unat_add_nowrap) simp
  ultimately have "\<not> c + z \<le> e" using 0 by (simp add: word_le_nat_alt)
  with 0 show ?case by (simp add: visit_entries_stop)
next
  case (Suc n)
  have z: "0 < unat z" using assms(1) by (auto simp: word_le_nat_alt)
  have cz: "unat (c + z) = unat c + unat z" using assms(2) Suc.prems by (intro unat_add_nowrap) simp
  have le: "unat c + unat z \<le> unat e"
    using Suc.hyps(2) Suc.prems z by (metis Suc_neq_Zero div_less le_diff_conv2 not_le add.commute)
  then have d: "n = (unat e - unat (c + z)) div unat z"
    using Suc.hyps(2) z cz by (simp add: le_div_geq diff_diff_left)
  have "visit_entries f m c z e s = visit_entries f m (c + z) z e (f (memory_map_entry m c) s)"
    using le cz assms(1) by (subst visit_entries.simps) (simp add: word_le_nat_alt)
  also have "\<dots> = Some (fold f (map (\<lambda>i. memory_map_entry m (c + z + of_nat i * z)) [0..<n]) (f (memory_map_entry m c) s))"
    using Suc.hyps(1) [OF d] le cz d by simp
  also have "map (\<lambda>i. memory_map_entry m (c + z + of_nat i * z)) [0..<n]
      = map (\<lambda>i. memory_map_entry m (c + of_nat i * z)) [Suc 0..<Suc n]"
    unfolding map_Suc_upt [symmetric] by (simp add: algebra_simps)
  finally show ?case
    unfolding Suc.hyps(2) [symmetric] by (simp add: upt_conv_Cons del: upt_Suc)
qed

lemma visit_entries_tag:
  assumes "is_map_tag m c" and "tag_fits m c"
  shows "visit_entries f m (c + 16) (read32 m (c + 8)) (c + read32 m (c + 4)) s
    = Some (fold f (tag_entries m c) s)"
proof (cases "24 \<le> read32 m (c + 8)")
  case True
  have "unat (c + 16) = unat c + 16" "unat (c + read32 m (c + 4)) = unat c + unat (read32 m (c + 4))"
    using assms by (simp_all add: unat_add_numeral unat_add_nowrap tag_fits_def is_map_tag_def word_le_nat_alt)
  then show ?thesis
    using assms True
    by (subst visit_entries_exact) (simp_all add: tag_fits_def is_map_tag_def tag_entries_def Let_def word_le_nat_alt)
next
  case False
  then show ?thesis by (simp add: visit_entries_stop tag_entries_def)
qed

lemma visit_map_tags_step:
  "visit_map_tags f m c e b s =
     (if c + 8 \<le> e \<and> read32 m c \<noteq> kTagTypeEnd then
        if is_map_tag m c then
          visit_entries f m (c + 16) (read32 m (c + 8)) (c + read32 m (c + 4)) s \<bind>
            visit_map_tags f m (align8 (c + read32 m (c + 4))) e True
        else visit_map_tags f m (align8 (c + read32 m (c + 4))) e b s
      else Some (b, s))"
  by (subst visit_map_tags.simps) (simp add: is_map_tag_def Let_def)

lemma visit_module_tags_step:
  "visit_module_tags f m c e b s =
     (if c + 8 \<le> e \<and> read32 m c \<noteq> kTagTypeEnd then
        if is_module_tag m c then
          visit_module_tags f m (align8 (c + read32 m (c + 4))) e True (f (tag_module m c) s)
        else visit_module_tags f m (align8 (c + read32 m (c + 4))) e b s
      else Some (b, s))"
  by (subst visit_module_tags.simps) (simp add: is_module_tag_def tag_module_def Let_def)

lemma visit_map_tags_exact:
  "tags_at m c e ts \<Longrightarrow> visit_map_tags f m c e b s =
     Some (b \<or> list_ex (is_map_tag m) ts, fold f (concat (map (tag_entries m) ts)) s)"
proof (induction arbitrary: b s rule: tags_at.induct)
  case (tags_end c e m)
  then show ?case by (subst visit_map_tags_step) auto
next
  case (tags_cons c e m ts)
  have "tag_entries m c = []" if "\<not> is_map_tag m c"
    using that by (simp add: tag_entries_def)
  then show ?case
    using tags_cons.hyps visit_entries_tag [of m c f s]
    by (subst visit_map_tags_step) (simp add: tags_cons.IH)
qed

lemma visit_module_tags_exact:
  "tags_at m c e ts \<Longrightarrow> visit_module_tags f m c e b s =
     Some (b \<or> list_ex (is_module_tag m) ts, fold f (map (tag_module m) (filter (is_module_tag m) ts)) s)"
proof (induction arbitrary: b s rule: tags_at.induct)
  case (tags_end c e m)
  then show ?case by (subst visit_module_tags_step) auto
next
  case (tags_cons c e m ts)
  from tags_cons.hyps show ?case
    by (subst visit_module_tags_step) (simp add: tags_cons.IH)
qed

text \<open>A structure whose tags all lie inside it and advance has such a list of tags.\<close>

definition tag_inside :: "mem \<Rightarrow> u32 \<Rightarrow> u32 \<Rightarrow> bool" where
  "tag_inside m e c \<longleftrightarrow> 8 \<le> unat (read32 m (c + 4)) \<and> unat c + unat (read32 m (c + 4)) \<le> unat e
     \<and> (is_map_tag m c \<longrightarrow> unat c + unat (read32 m (c + 4)) + unat (read32 m (c + 8)) < 2 ^ 32)"

lemma tags_at_exists:
  assumes "\<forall>a. unat c \<le> unat a \<and> unat a + 8 \<le> unat e \<and> read32 m a \<noteq> kTagTypeEnd \<longrightarrow> tag_inside m e a"
    and "unat e \<le> 0xFFFFFFF0" and "unat c \<le> 0xFFFFFFF0"
  shows "\<exists>ts. tags_at m c e ts"
  using assms(1,3)
proof (induction "2 ^ 32 - unat c" arbitrary: c rule: less_induct)
  case less
  show ?case
  proof (cases "c + 8 \<le> e \<and> read32 m c \<noteq> kTagTypeEnd")
    case True
    let ?z = "read32 m (c + 4)"
    have "unat (c + 8) = unat c + 8" using less.prems(2) by (intro unat_add_numeral) simp
    with True less.prems(1) have inside: "tag_inside m e c" by (simp add: word_le_nat_alt)
    then have z: "8 \<le> unat ?z" "unat c + unat ?z \<le> 0xFFFFFFF0"
      using assms(2) by (simp_all add: tag_inside_def)
    then have fits: "tag_fits m c" using inside by (simp add: tag_fits_def tag_inside_def)
    have next_c: "unat (align8 (c + ?z)) = (unat c + unat ?z + 7) div 8 * 8"
      using z by (simp add: unat_align8 unat_add_nowrap)
    have gt: "unat c < unat (align8 (c + ?z))" and le: "unat (align8 (c + ?z)) \<le> 0xFFFFFFF0"
      unfolding next_c using z by presburger+
    from gt le less.prems have "\<exists>ts. tags_at m (align8 (c + ?z)) e ts" by (intro less.hyps) auto
    with True fits show ?thesis by (blast intro: tags_cons)
  next
    case False
    then show ?thesis by (blast intro: tags_end)
  qed
qed


section \<open>Properties\<close>

text \<open>
  An example structure at \<open>0x10000\<close>: a memory map tag with one entry, 32 KiB of available
  memory at 1 MiB, then a module tag, then the end tag.
\<close>

definition boot_info :: mem where
  "boot_info = fold (\<lambda>(a, v). write32 a v)
     [(0x10000, 80), (0x10008, 6), (0x1000C, 40), (0x10010, 24), (0x10018, 0x100000),
      (0x10020, 0x8000), (0x10028, 1), (0x10030, 3), (0x10034, 20), (0x10038, 0x200000),
      (0x1003C, 0x201000), (0x10048, 0), (0x1004C, 8)] (\<lambda>_. 0)"

lemma boot_info_fields:
  "read32 boot_info 0x10000 = 80" "read32 boot_info 0x10008 = 6" "read32 boot_info 0x1000C = 40"
  "read32 boot_info 0x10010 = 24" "read32 boot_info 0x10018 = 0x100000" "read32 boot_info 0x1001C = 0"
  "read32 boot_info 0x10020 = 0x8000" "read32 boot_info 0x10024 = 0" "read32 boot_info 0x10028 = 1"
  "read32 boot_info 0x10030 = 3" "read32 boot_info 0x10034 = 20" "read32 boot_info 0x10038 = 0x200000"
  "read32 boot_info 0x1003C = 0x201000" "read32 boot_info 0x10048 = 0"
  by (simp_all add: boot_info_def write32_def read32_def)

lemma boot_info_tags: "tags_at boot_info 0x10008 0x10050 [0x10008, 0x10030]"
proof -
  have "align8 0x10030 = 0x10030" "align8 0x10044 = 0x10048" by (simp_all add: align8_def)
  moreover have "tags_at boot_info 0x10048 0x10050 []"
    by (rule tags_end) (simp add: boot_info_fields)
  moreover have "tag_fits boot_info 0x10008" "tag_fits boot_info 0x10030"
    by (simp_all add: tag_fits_def is_map_tag_def boot_info_fields)
  ultimately show ?thesis
    by (auto intro!: tags_cons simp: boot_info_fields)
qed

text \<open>
  On a structure whose tags all advance, both walks return, the memory map walk has shown the
  visitor exactly the entries of the memory map tags and the module walk exactly the
  module tags, in the order of the structure, and each reports whether it met a tag of
  its kind.
\<close>

theorem multiboot_walks_exact:
  assumes "addr \<noteq> 0" and "tags_at m (addr + 8) (addr + read32 m addr) ts"
  shows "visit_memory_map m addr (Some f) s =
      Some (list_ex (is_map_tag m) ts, fold f (concat (map (tag_entries m) ts)) s)
    \<and> visit_modules m addr (Some g) t =
      Some (list_ex (is_module_tag m) ts, fold g (map (tag_module m) (filter (is_module_tag m) ts)) t)"
  using assms
  by (simp add: visit_memory_map_def visit_modules_def visit_map_tags_exact visit_module_tags_exact)

theorem multiboot_walks_exact_witness:
  "visit_memory_map boot_info 0x10000 (Some (#)) [] =
     Some (True, [\<lparr>base_addr = 0x100000, entry_length = 0x8000, entry_type = 1\<rparr>])
   \<and> visit_modules boot_info 0x10000 (Some (#)) [] =
     Some (True, [\<lparr>mod_start_addr = 0x200000, mod_end_addr = 0x201000, module_string = 0x10040\<rparr>])"
  using multiboot_walks_exact [where m = boot_info and addr = "0x10000" and ts = "[0x10008, 0x10030]"] boot_info_tags
  by (simp add: boot_info_fields is_map_tag_def is_module_tag_def tag_entries_def tag_module_def
      memory_map_entry_def read64_def)

text \<open>
  The walks return on every structure in which each tag is at least a header long and
  lies inside the structure, whatever the tags hold.
\<close>

theorem multiboot_walks_return:
  assumes "\<forall>a. unat (addr + 8) \<le> unat a \<and> unat a + 8 \<le> unat (addr + read32 m addr)
      \<and> read32 m a \<noteq> kTagTypeEnd \<longrightarrow> tag_inside m (addr + read32 m addr) a"
    and "unat (addr + read32 m addr) \<le> 0xFFFFFFF0" and "unat (addr + 8) \<le> 0xFFFFFFF0"
  shows "visit_memory_map m addr visitor s \<noteq> None \<and> visit_modules m addr visitor' t \<noteq> None"
proof -
  obtain ts where "tags_at m (addr + 8) (addr + read32 m addr) ts"
    using tags_at_exists [OF assms] by blast
  then have "visit_map_tags f m (addr + 8) (addr + read32 m addr) False s \<noteq> None"
    "visit_module_tags g m (addr + 8) (addr + read32 m addr) False t \<noteq> None" for f g
    by (simp_all add: visit_map_tags_exact visit_module_tags_exact)
  then show ?thesis
    unfolding visit_memory_map_def visit_modules_def
    by (cases visitor; cases visitor') (simp_all del: not_None_eq)
qed

theorem multiboot_walks_return_witness:
  "visit_memory_map (write32 0x1000C 8 (write32 0x10008 5 (write32 0x10000 16 (\<lambda>_. 0))))
     0x10000 (Some (\<lambda>e n. n + 1)) (0 :: nat) \<noteq> None"
proof -
  define m where "m = write32 0x1000C 8 (write32 0x10008 5 (write32 0x10000 16 (\<lambda>_. 0)))"
  have m: "read32 m 0x10000 = 16" "read32 m 0x10008 = 5" "read32 m 0x1000C = 8"
    by (simp_all add: m_def write32_def read32_def)
  have "a = 0x10008" if "unat (0x10008 :: u32) \<le> unat a" "unat a + 8 \<le> 0x10010" for a :: u32
    using that by (simp add: word_unat_eq_iff)
  then have "tag_inside m 0x10010 a"
    if "unat (0x10008 :: u32) \<le> unat a" "unat a + 8 \<le> 0x10010" for a :: u32
    using that m by (fastforce simp: tag_inside_def is_map_tag_def)
  then show ?thesis
    using multiboot_walks_return [of "0x10000" m "Some (\<lambda>e n. n + 1)" "0 :: nat" None "()"] m
    unfolding m_def [symmetric] by simp
qed

text \<open>
  A tag that is not the end tag and whose size field is zero makes the memory map walk run
  forever: the cursor never moves.
\<close>

theorem multiboot_zero_size_diverges:
  assumes "addr \<noteq> 0" and "unat (addr + 8) mod 8 = 0" and "addr + 16 \<le> addr + read32 m addr"
    and "read32 m (addr + 8) \<noteq> kTagTypeEnd" and "read32 m (addr + 12) = 0"
  shows "visit_memory_map m addr (Some f) s = None"
  using assms visit_map_tags_zero_size [of "addr + 8" "addr + read32 m addr" m f False s]
  by (simp add: visit_memory_map_def add.assoc)

theorem multiboot_zero_size_diverges_witness:
  "visit_memory_map (write32 0x10008 7 (write32 0x10000 64 (\<lambda>_. 0))) 0x10000 (Some (\<lambda>e n. n + 1)) (0 :: nat) = None"
  by (rule multiboot_zero_size_diverges) (simp_all add: write32_def read32_def)

end
