(* ===== verification/Pmm.thy ===== *)
theory Pmm
  imports Multiboot2
begin

text \<open>
  The physical memory manager, \<open>src/kernel/mm/pmm.cpp\<close>: one bit per 4 KiB frame of the
  first 4 GiB, set when the frame is in use or reserved, and a counter of the free frames.

  The lemmas show the invariant that ties the counter to the bitmap and that every
  operation keeps it, what allocation returns on every state, that initialisation
  reserves what it must, and, through the locale \<open>frame_allocator\<close> that the heap's
  page supply and the program loader rely on, that frames handed out are distinct.
\<close>


section \<open>Definitions\<close>

abbreviation (input) kPageSize :: u32 where "kPageSize \<equiv> 4096"
abbreviation (input) kMaxFrames :: u32 where "kMaxFrames \<equiv> 1048576"
abbreviation (input) kMemoryTypeAvailable :: u32 where "kMemoryTypeAvailable \<equiv> 1"
abbreviation (input) kLowMemoryReserveEnd :: u32 where "kLowMemoryReserveEnd \<equiv> 0x00100000"

definition kBitmapSize :: nat where
  "kBitmapSize = 32768"

record pmm =
  g_bitmap :: "u32 list"
  g_total_frames :: u32
  g_free_frames :: u32

definition align_down :: "u32 \<Rightarrow> u32 \<Rightarrow> u32" where
  "align_down value alignment = value AND NOT (alignment - 1)"

definition align_up :: "u32 \<Rightarrow> u32 \<Rightarrow> u32" where
  "align_up value alignment = (value + alignment - 1) AND NOT (alignment - 1)"

definition frame_index_valid :: "u32 \<Rightarrow> bool" where
  "frame_index_valid frame \<longleftrightarrow> frame < kMaxFrames"

definition is_set :: "pmm \<Rightarrow> u32 \<Rightarrow> bool" where
  "is_set s frame =
     (let w = unat (frame div 32); b = unat (frame mod 32)
      in (g_bitmap s ! w) AND push_bit b 1 \<noteq> 0)"

definition set_bit_pmm :: "u32 \<Rightarrow> pmm \<Rightarrow> pmm" where
  "set_bit_pmm frame s =
     (if \<not> frame_index_valid frame then s
      else let w = unat (frame div 32); b = unat (frame mod 32) in
        if \<not> is_set s frame then
          s\<lparr>g_bitmap := (g_bitmap s)[w := (g_bitmap s ! w) OR push_bit b 1],
            g_free_frames := (if 0 < g_free_frames s then g_free_frames s - 1 else g_free_frames s)\<rparr>
        else s)"

definition clear_bit_pmm :: "u32 \<Rightarrow> pmm \<Rightarrow> pmm" where
  "clear_bit_pmm frame s =
     (if \<not> frame_index_valid frame then s
      else let w = unat (frame div 32); b = unat (frame mod 32) in
        if is_set s frame then
          s\<lparr>g_bitmap := (g_bitmap s)[w := (g_bitmap s ! w) AND NOT (push_bit b 1)],
            g_free_frames := g_free_frames s + 1\<rparr>
        else s)"

text \<open>
  The loop of \<open>reserve_range\<close> and \<open>unreserve_range\<close>. Its counter is 64 bits wide and
  stays below \<open>2\<^sup>3\<^sup>2\<close> plus a page, so a natural number follows it exactly.
\<close>

function page_loop :: "(u32 \<Rightarrow> pmm \<Rightarrow> pmm) \<Rightarrow> nat \<Rightarrow> nat \<Rightarrow> pmm \<Rightarrow> pmm" where
  "page_loop f addr e s =
     (if addr < e then page_loop f (addr + 4096) e (f (of_nat (addr div 4096)) s) else s)"
  by pat_completeness auto
termination
  by (relation "measure (\<lambda>(f, addr, e, s). e - addr)") auto

declare page_loop.simps [simp del]

definition range_end :: "u32 \<Rightarrow> nat" where
  "range_end end_addr =
     (let e = unat (align_up end_addr kPageSize); max_phys = unat kMaxFrames * unat kPageSize
      in if e > max_phys then max_phys else e)"

definition reserve_range :: "u32 \<Rightarrow> u32 \<Rightarrow> pmm \<Rightarrow> pmm" where
  "reserve_range start_addr end_addr s =
     page_loop set_bit_pmm (unat (align_down start_addr kPageSize)) (range_end end_addr) s"

definition unreserve_range :: "u32 \<Rightarrow> u32 \<Rightarrow> pmm \<Rightarrow> pmm" where
  "unreserve_range start_addr end_addr s =
     page_loop clear_bit_pmm (unat (align_down start_addr kPageSize)) (range_end end_addr) s"

definition map_visitor :: "memory_map_entry_view \<Rightarrow> pmm \<Rightarrow> pmm" where
  "map_visitor entry s =
     (if entry_type entry \<noteq> kMemoryTypeAvailable \<or> entry_length entry = 0 then s
      else let end64 = base_addr entry + entry_length entry in
        if 0x100000000 \<le> base_addr entry then s
        else let start = ucast (base_addr entry) :: u32;
                 e = (if 0x100000000 \<le> end64 then 0xFFFFF000 else ucast end64 :: u32) in
          if e \<le> start then s else unreserve_range start e s)"

definition pmm_reset :: pmm where
  "pmm_reset = \<lparr>g_bitmap = replicate kBitmapSize 0xFFFFFFFF, g_total_frames = kMaxFrames,
     g_free_frames = 0\<rparr>"

text \<open>\<open>init\<close> does not return when the walk over the boot information does not.\<close>

definition pmm_init :: "mem \<Rightarrow> u32 \<Rightarrow> u32 \<Rightarrow> u32 \<Rightarrow> pmm option" where
  "pmm_init m multiboot_info_addr kernel_start kernel_end =
     (case visit_memory_map m multiboot_info_addr (Some map_visitor) pmm_reset of
        None \<Rightarrow> None
      | Some (_, s) \<Rightarrow>
          Some (reserve_range kernel_start kernel_end (reserve_range 0 kLowMemoryReserveEnd s)))"

text \<open>
  The nested loops of \<open>alloc_frame\<close>. The inner one is \<open>None\<close> when it runs to its end
  without returning from the function.
\<close>

function alloc_bits :: "pmm \<Rightarrow> nat \<Rightarrow> nat \<Rightarrow> (pmm \<times> u32) option" where
  "alloc_bits s w b =
     (if b < 32 then
        (let frame = of_nat w * 32 + of_nat b in
         if \<not> frame_index_valid frame then Some (s, 0)
         else if \<not> is_set s frame then Some (set_bit_pmm frame s, frame * kPageSize)
         else alloc_bits s w (b + 1))
      else None)"
  by pat_completeness auto
termination
  by (relation "measure (\<lambda>(s, w, b). 32 - b)") auto

declare alloc_bits.simps [simp del]

function alloc_words :: "pmm \<Rightarrow> nat \<Rightarrow> pmm \<times> u32" where
  "alloc_words s w =
     (if w < kBitmapSize then
        (if g_bitmap s ! w = 0xFFFFFFFF then alloc_words s (w + 1)
         else case alloc_bits s w 0 of Some r \<Rightarrow> r | None \<Rightarrow> alloc_words s (w + 1))
      else (s, 0))"
  by pat_completeness auto
termination
  by (relation "measure (\<lambda>(s, w). kBitmapSize - w)") auto

declare alloc_words.simps [simp del]

definition alloc_frame :: "pmm \<Rightarrow> pmm \<times> u32" where
  "alloc_frame s = (if g_free_frames s = 0 then (s, 0) else alloc_words s 0)"

definition free_frame :: "u32 \<Rightarrow> pmm \<Rightarrow> pmm" where
  "free_frame phys_addr s =
     (if phys_addr mod kPageSize \<noteq> 0 then s else clear_bit_pmm (phys_addr div kPageSize) s)"

definition total_frames :: "pmm \<Rightarrow> u32" where
  "total_frames s = g_total_frames s"

definition free_frames :: "pmm \<Rightarrow> u32" where
  "free_frames s = g_free_frames s"

text \<open>The free frames by number, and the invariant.\<close>

definition free_set :: "pmm \<Rightarrow> nat set" where
  "free_set s = {f. f < 1048576 \<and> \<not> is_set s (of_nat f)}"

definition pmm_inv :: "pmm \<Rightarrow> bool" where
  "pmm_inv s \<longleftrightarrow> length (g_bitmap s) = kBitmapSize \<and> unat (g_free_frames s) = card (free_set s)"

text \<open>Allocating up to \<open>n\<close> frames in a row, stopping at the first failure, as the heap does.\<close>

fun alloc_seq :: "('s \<Rightarrow> 's \<times> u32) \<Rightarrow> nat \<Rightarrow> 's \<Rightarrow> 's \<times> u32 list" where
  "alloc_seq alloc 0 s = (s, [])"
| "alloc_seq alloc (Suc n) s =
     (case alloc s of (s', a) \<Rightarrow>
        if a = 0 then (s', [])
        else case alloc_seq alloc n s' of (s'', as) \<Rightarrow> (s'', a # as))"

text \<open>
  What the clients of the physical memory manager rely on: a supply of page addresses,
  from which allocation takes one and to which freeing returns one.
\<close>

locale frame_allocator =
  fixes alloc :: "'s \<Rightarrow> 's \<times> u32"
    and free :: "u32 \<Rightarrow> 's \<Rightarrow> 's"
    and inv :: "'s \<Rightarrow> bool"
    and avail :: "'s \<Rightarrow> u32 set"
  assumes alloc_none: "inv s \<Longrightarrow> avail s = {} \<Longrightarrow> alloc s = (s, 0)"
    and alloc_some: "inv s \<Longrightarrow> avail s \<noteq> {} \<Longrightarrow> alloc s = (s', a) \<Longrightarrow>
      inv s' \<and> a \<in> avail s \<and> avail s' = avail s - {a}"
    and avail_nonzero: "inv s \<Longrightarrow> 0 \<notin> avail s"
    and avail_finite: "inv s \<Longrightarrow> finite (avail s)"
    and free_avail: "inv s \<Longrightarrow> a mod 4096 = 0 \<Longrightarrow> a \<noteq> 0 \<Longrightarrow>
      inv (free a s) \<and> avail (free a s) = insert a (avail s)"
begin

lemma alloc_zero_iff: "inv s \<Longrightarrow> alloc s = (s', a) \<Longrightarrow> a = 0 \<longleftrightarrow> avail s = {}"
  using alloc_none [of s] alloc_some [of s s' a] avail_nonzero [of s] by auto

lemma alloc_keeps_inv: "inv s \<Longrightarrow> alloc s = (s', a) \<Longrightarrow> inv s'"
  using alloc_none [of s] alloc_some [of s s' a] by (cases "avail s = {}") auto

lemma alloc_seq_correct:
  assumes "inv s" and "alloc_seq alloc n s = (s', as)"
  shows "inv s' \<and> distinct as \<and> set as \<subseteq> avail s \<and> avail s' = avail s - set as
    \<and> length as = min n (card (avail s))"
  using assms
proof (induction n arbitrary: s as)
  case 0
  then show ?case by simp
next
  case (Suc n)
  obtain t a where a: "alloc s = (t, a)" by (cases "alloc s")
  show ?case
  proof (cases "avail s = {}")
    case True
    with Suc.prems alloc_none [OF Suc.prems(1) True] show ?thesis by simp
  next
    case False
    note t = alloc_some [OF Suc.prems(1) False a]
    then have "a \<noteq> 0" using avail_nonzero [OF Suc.prems(1)] by metis
    obtain u bs where bs: "alloc_seq alloc n t = (u, bs)" by (cases "alloc_seq alloc n t")
    with Suc.prems(2) a \<open>a \<noteq> 0\<close> have as: "as = a # bs" and u: "u = s'" by simp_all
    have IH: "inv s' \<and> distinct bs \<and> set bs \<subseteq> avail t \<and> avail s' = avail t - set bs
        \<and> length bs = min n (card (avail t))"
      using t bs u by (intro Suc.IH) simp_all
    have card: "card (avail s) = Suc (card (avail t))"
      using t avail_finite [OF Suc.prems(1)] card.remove [of "avail s" a] by simp
    have "avail s' = avail s - set as" "set as \<subseteq> avail s" "distinct as"
      using IH t as by auto
    then show ?thesis using IH card as by simp
  qed
qed

end


section \<open>Lemmas\<close>

subsection \<open>Frames and bits\<close>

lemma frame_index_valid_iff: "frame_index_valid f \<longleftrightarrow> unat f < 1048576"
  by (simp add: frame_index_valid_def word_less_nat_alt)

lemma frame_word_less: "frame_index_valid f \<Longrightarrow> unat (f div 32) < kBitmapSize"
  by (simp add: frame_index_valid_iff unat_div kBitmapSize_def)

lemma is_set_bit: "is_set s f \<longleftrightarrow> bit (g_bitmap s ! unat (f div 32)) (unat (f mod 32))"
  by (simp add: is_set_def Let_def and_exp_eq_0_iff_not_bit)

lemma frame_eq_iff:
  "(f :: u32) = g \<longleftrightarrow> unat (f div 32) = unat (g div 32) \<and> unat (f mod 32) = unat (g mod 32)"
  by (metis div_mult_mod_eq word_unat_eq_iff)

lemma frame_mod_less: "unat ((f :: u32) mod 32) < 32"
  by (simp add: unat_mod)

lemma is_set_set_bit:
  assumes "length (g_bitmap s) = kBitmapSize" and "frame_index_valid f"
  shows "is_set (set_bit_pmm f s) g \<longleftrightarrow> g = f \<or> is_set s g"
proof (cases "unat (g div 32) = unat (f div 32)")
  case True
  with assms frame_word_less [OF assms(2)] frame_mod_less [of f] frame_mod_less [of g] show ?thesis
    by (auto simp: set_bit_pmm_def Let_def is_set_bit frame_eq_iff [of g f] bit_or_iff
        bit_exp_iff nth_list_update)
next
  case False
  then show ?thesis
    by (auto simp: set_bit_pmm_def Let_def is_set_bit frame_eq_iff [of g f])
qed

lemma is_set_clear_bit:
  assumes "length (g_bitmap s) = kBitmapSize" and "frame_index_valid f"
  shows "is_set (clear_bit_pmm f s) g \<longleftrightarrow> g \<noteq> f \<and> is_set s g"
proof (cases "unat (g div 32) = unat (f div 32)")
  case True
  with assms frame_word_less [OF assms(2)] frame_mod_less [of f] frame_mod_less [of g] show ?thesis
    by (auto simp: clear_bit_pmm_def Let_def is_set_bit frame_eq_iff [of g f] bit_and_iff
        bit_not_iff bit_exp_iff nth_list_update)
next
  case False
  then show ?thesis
    by (auto simp: clear_bit_pmm_def Let_def is_set_bit frame_eq_iff [of g f])
qed

subsection \<open>The invariant\<close>

lemma finite_free_set [simp]: "finite (free_set s)"
  by (simp add: free_set_def)

lemma card_free_set: "card (free_set s) \<le> 1048576"
proof -
  have "free_set s \<subseteq> {..<1048576}" by (auto simp: free_set_def)
  from card_mono [OF _ this] show ?thesis by simp
qed

lemma mem_free_set: "f \<in> free_set s \<longleftrightarrow> f < 1048576 \<and> \<not> is_set s (of_nat f)"
  by (simp add: free_set_def)

lemma unat_mem_free_set: "frame_index_valid f \<Longrightarrow> unat f \<in> free_set s \<longleftrightarrow> \<not> is_set s f"
  by (simp add: mem_free_set frame_index_valid_iff)

lemma pmm_inv_length: "pmm_inv s \<Longrightarrow> length (g_bitmap s) = kBitmapSize"
  by (simp add: pmm_inv_def)

lemma unat_of_nat_frame: "f < 1048576 \<Longrightarrow> unat (of_nat f :: u32) = f"
  by simp

lemma of_nat_eq_frame: "f < 1048576 \<Longrightarrow> (of_nat f :: u32) = g \<longleftrightarrow> f = unat g"
  by (auto simp: unat_of_nat)

lemma free_set_set_bit:
  "length (g_bitmap s) = kBitmapSize \<Longrightarrow> frame_index_valid f \<Longrightarrow>
     free_set (set_bit_pmm f s) = free_set s - {unat f}"
  by (auto simp: free_set_def is_set_set_bit of_nat_eq_frame)

lemma free_set_clear_bit:
  "length (g_bitmap s) = kBitmapSize \<Longrightarrow> frame_index_valid f \<Longrightarrow>
     free_set (clear_bit_pmm f s) = insert (unat f) (free_set s)"
  by (auto simp: free_set_def is_set_clear_bit of_nat_eq_frame frame_index_valid_iff)

lemma set_bit_idle: "\<not> frame_index_valid f \<or> is_set s f \<Longrightarrow> set_bit_pmm f s = s"
  by (auto simp: set_bit_pmm_def Let_def)

lemma clear_bit_idle: "\<not> frame_index_valid f \<or> \<not> is_set s f \<Longrightarrow> clear_bit_pmm f s = s"
  by (auto simp: clear_bit_pmm_def Let_def)

lemma set_bit_inv:
  assumes inv: "pmm_inv s"
  shows "pmm_inv (set_bit_pmm f s)"
proof (cases "frame_index_valid f \<and> \<not> is_set s f")
  case True
  then have mem: "unat f \<in> free_set s" by (simp add: unat_mem_free_set)
  then have pos: "0 < card (free_set s)" by (auto simp: card_gt_0_iff)
  with inv have free: "0 < g_free_frames s" and "unat (g_free_frames s) = card (free_set s)"
    by (auto simp: pmm_inv_def word_less_nat_alt)
  then have "unat (g_free_frames s - 1) = card (free_set s) - 1"
    by (simp add: unat_minus_one)
  moreover have "free_set (set_bit_pmm f s) = free_set s - {unat f}"
    using inv True by (simp add: free_set_set_bit pmm_inv_length)
  moreover have "g_free_frames (set_bit_pmm f s) = g_free_frames s - 1"
    using True free by (simp add: set_bit_pmm_def Let_def)
  moreover have "length (g_bitmap (set_bit_pmm f s)) = kBitmapSize"
    using True inv by (simp add: set_bit_pmm_def Let_def pmm_inv_def)
  ultimately show ?thesis
    using mem by (simp add: pmm_inv_def)
next
  case False
  then show ?thesis using inv set_bit_idle [of f s] by auto
qed

lemma clear_bit_inv:
  assumes inv: "pmm_inv s"
  shows "pmm_inv (clear_bit_pmm f s)"
proof (cases "frame_index_valid f \<and> is_set s f")
  case True
  then have mem: "unat f \<notin> free_set s" by (simp add: unat_mem_free_set)
  have "unat (g_free_frames s + 1) = card (free_set s) + 1"
    using inv card_free_set [of s] by (simp add: pmm_inv_def unat_word_ariths)
  moreover have "free_set (clear_bit_pmm f s) = insert (unat f) (free_set s)"
    using inv True by (simp add: free_set_clear_bit pmm_inv_length)
  moreover have "g_free_frames (clear_bit_pmm f s) = g_free_frames s + 1"
    using True by (simp add: clear_bit_pmm_def Let_def)
  moreover have "length (g_bitmap (clear_bit_pmm f s)) = kBitmapSize"
    using True inv by (simp add: clear_bit_pmm_def Let_def pmm_inv_def)
  ultimately show ?thesis
    using mem by (simp add: pmm_inv_def)
next
  case False
  then show ?thesis using inv clear_bit_idle [of f s] by auto
qed

lemma page_loop_inv:
  "(\<And>f s. pmm_inv s \<Longrightarrow> pmm_inv (g f s)) \<Longrightarrow> pmm_inv s \<Longrightarrow> pmm_inv (page_loop g a e s)"
proof (induction g a e s rule: page_loop.induct)
  case (1 g a e s)
  then show ?case by (simp add: page_loop.simps [of g a e s])
qed

lemma reserve_range_inv: "pmm_inv s \<Longrightarrow> pmm_inv (reserve_range a b s)"
  unfolding reserve_range_def by (rule page_loop_inv [OF set_bit_inv])

lemma unreserve_range_inv: "pmm_inv s \<Longrightarrow> pmm_inv (unreserve_range a b s)"
  unfolding unreserve_range_def by (rule page_loop_inv [OF clear_bit_inv])

lemma map_visitor_inv: "pmm_inv s \<Longrightarrow> pmm_inv (map_visitor e s)"
  by (simp add: map_visitor_def Let_def unreserve_range_inv)

lemma bit_all_ones: "n < 32 \<Longrightarrow> bit (0xFFFFFFFF :: u32) n"
proof -
  assume "n < 32"
  then have "bit (- 1 :: u32) n" by simp
  moreover have "(- 1 :: u32) = 0xFFFFFFFF" by simp
  ultimately show ?thesis by metis
qed

lemma is_set_reset: "frame_index_valid f \<Longrightarrow> is_set pmm_reset f"
  using frame_word_less [of f] frame_mod_less [of f]
  unfolding is_set_bit pmm_reset_def by (simp only: pmm.simps nth_replicate bit_all_ones)

lemma free_set_reset: "free_set pmm_reset = {}"
  by (auto simp: free_set_def frame_index_valid_iff intro: is_set_reset)

lemma pmm_reset_inv: "pmm_inv pmm_reset"
  using free_set_reset by (simp add: pmm_inv_def) (simp add: pmm_reset_def)

lemma pmm_init_inv:
  assumes "pmm_init m addr ks ke = Some s"
  shows "pmm_inv s"
proof -
  obtain found s0 where "visit_memory_map m addr (Some map_visitor) pmm_reset = Some (found, s0)"
    and s: "s = reserve_range ks ke (reserve_range 0 kLowMemoryReserveEnd s0)"
    using assms by (auto simp: pmm_init_def split: option.splits)
  then have "visited m map_visitor pmm_reset s0" by (intro visit_memory_map_visited)
  then have "pmm_inv s0"
    by (rule visited_invariant) (auto intro: pmm_reset_inv map_visitor_inv)
  with s show ?thesis by (simp add: reserve_range_inv)
qed

lemma clear_set_bit:
  assumes "pmm_inv s" and "frame_index_valid f" and "\<not> is_set s f"
  shows "clear_bit_pmm f (set_bit_pmm f s) = s"
proof -
  define w where "w = g_bitmap s ! unat (f div 32)"
  have len: "unat (f div 32) < length (g_bitmap s)"
    using assms(1) frame_word_less [OF assms(2)] by (simp add: pmm_inv_def)
  have "\<not> bit w (unat (f mod 32))" using assms(3) by (simp add: is_set_bit w_def)
  then have "(w OR push_bit (unat (f mod 32)) 1) AND NOT (push_bit (unat (f mod 32)) 1) = w"
    by (intro bit_eqI) (auto simp: bit_simps)
  moreover have "0 < g_free_frames s"
    using assms by (auto simp: pmm_inv_def word_less_nat_alt card_gt_0_iff unat_mem_free_set [symmetric])
  moreover have "is_set (set_bit_pmm f s) f"
    using assms by (simp add: is_set_set_bit pmm_inv_def)
  ultimately show ?thesis
    using assms(2,3) len by (simp add: clear_bit_pmm_def set_bit_pmm_def Let_def w_def)
qed

subsection \<open>Ranges\<close>

lemma page_loop_fold:
  "page_loop g (4096 * k) e s = fold (\<lambda>f. g (of_nat f)) [k..<(e + 4095) div 4096] s"
proof (induction "e - 4096 * k" arbitrary: k s rule: less_induct)
  case less
  show ?case
  proof (cases "4096 * k < e")
    case True
    then have k: "k < (e + 4095) div 4096"
      by (simp add: Suc_le_eq [symmetric] less_eq_div_iff_mult_less_eq)
    have "page_loop g (4096 * k) e s = page_loop g (4096 * Suc k) e (g (of_nat k) s)"
      using True by (subst page_loop.simps) (simp add: add.commute)
    also have "\<dots> = fold (\<lambda>f. g (of_nat f)) [Suc k..<(e + 4095) div 4096] (g (of_nat k) s)"
      using True by (intro less) simp
    also have "\<dots> = fold (\<lambda>f. g (of_nat f)) [k..<(e + 4095) div 4096] s"
      using k by (simp add: upt_conv_Cons)
    finally show ?thesis .
  next
    case False
    then have "(e + 4095) div 4096 \<le> k" by simp
    with False show ?thesis by (subst page_loop.simps) simp
  qed
qed

lemma length_bitmap_ops [simp]:
  "length (g_bitmap (set_bit_pmm f s)) = length (g_bitmap s)"
  "length (g_bitmap (clear_bit_pmm f s)) = length (g_bitmap s)"
  by (simp_all add: set_bit_pmm_def clear_bit_pmm_def Let_def)

lemma frame_of_nat_valid: "f < 1048576 \<Longrightarrow> frame_index_valid (of_nat f)"
  by (simp add: frame_index_valid_iff unat_of_nat)

lemma is_set_fold_set:
  assumes "\<forall>f \<in> set fs. f < 1048576" and "length (g_bitmap s) = kBitmapSize"
  shows "is_set (fold (\<lambda>f. set_bit_pmm (of_nat f)) fs s) g \<longleftrightarrow> unat g \<in> set fs \<or> is_set s g"
  using assms
proof (induction fs arbitrary: s)
  case Nil
  then show ?case by simp
next
  case (Cons f fs)
  then show ?case
    by (auto simp: is_set_set_bit frame_of_nat_valid of_nat_eq_frame)
qed

lemma is_set_fold_clear:
  assumes "\<forall>f \<in> set fs. f < 1048576" and "length (g_bitmap s) = kBitmapSize"
  shows "is_set (fold (\<lambda>f. clear_bit_pmm (of_nat f)) fs s) g \<longleftrightarrow> unat g \<notin> set fs \<and> is_set s g"
  using assms
proof (induction fs arbitrary: s)
  case Nil
  then show ?case by simp
next
  case (Cons f fs)
  then show ?case
    by (auto simp: is_set_clear_bit frame_of_nat_valid of_nat_eq_frame)
qed

lemma unat_align_down: "unat (align_down a kPageSize) = 4096 * (unat a div 4096)"
  using unat_and_not_low_bits [of a 12] by (simp add: align_down_def)

lemma unat_align_up:
  "unat (align_up a kPageSize) = (if unat a \<le> 0xFFFFF000 then 4096 * ((unat a + 4095) div 4096) else 0)"
proof -
  have "unat (align_up a kPageSize) = unat (a + 4095) div 4096 * 4096"
    using unat_and_not_low_bits [of "a + 4095" 12] by (simp add: align_up_def add.commute)
  moreover have "unat (a + 4095) = unat a + 4095" if "unat a \<le> 0xFFFFF000"
    using that by (simp add: unat_add_numeral)
  moreover have "unat (a + 4095) < 4096" if "\<not> unat a \<le> 0xFFFFF000"
    using that unat_u32_less [of a] by (simp add: unat_word_ariths mod_if) arith
  ultimately show ?thesis by simp
qed

text \<open>
  The frames of an address range: those that the range \<open>[a, b)\<close> touches, rounded outwards
  to whole frames. A range that ends within the last page of the 4 GiB rounds to zero
  and is empty.
\<close>

definition range_frames :: "u32 \<Rightarrow> u32 \<Rightarrow> nat set" where
  "range_frames a b =
     {f. unat a div 4096 \<le> f \<and> f * 4096 < unat b \<and> unat b \<le> 0xFFFFF000}"

lemma range_frames_upt:
  "set [unat a div 4096..<(range_end b + 4095) div 4096] = range_frames a b"
proof (cases "unat b \<le> 0xFFFFF000")
  case True
  have "f < (unat b + 4095) div 4096 \<longleftrightarrow> f * 4096 < unat b" for f
    by (simp add: Suc_le_eq [symmetric] less_eq_div_iff_mult_less_eq)
  moreover have "range_end b = 4096 * ((unat b + 4095) div 4096)"
    using True unat_u32_less [of "align_up b kPageSize"]
    by (simp add: range_end_def Let_def unat_align_up)
  ultimately show ?thesis
    using True by (simp add: range_frames_def set_eq_iff)
next
  case False
  then show ?thesis by (simp add: range_frames_def range_end_def Let_def unat_align_up)
qed

lemma range_frames_less: "f \<in> range_frames a b \<Longrightarrow> f < 1048576"
  by (simp add: range_frames_def)

lemma reserve_range_fold:
  "reserve_range a b s = fold (\<lambda>f. set_bit_pmm (of_nat f)) [unat a div 4096..<(range_end b + 4095) div 4096] s"
  by (simp add: reserve_range_def unat_align_down page_loop_fold)

lemma unreserve_range_fold:
  "unreserve_range a b s = fold (\<lambda>f. clear_bit_pmm (of_nat f)) [unat a div 4096..<(range_end b + 4095) div 4096] s"
  by (simp add: unreserve_range_def unat_align_down page_loop_fold)

lemma is_set_reserve_range:
  assumes "length (g_bitmap s) = kBitmapSize"
  shows "is_set (reserve_range a b s) g \<longleftrightarrow> unat g \<in> range_frames a b \<or> is_set s g"
  unfolding reserve_range_fold
  by (subst is_set_fold_set) (use assms range_frames_upt [of a b] range_frames_less in auto)

lemma is_set_unreserve_range:
  assumes "length (g_bitmap s) = kBitmapSize"
  shows "is_set (unreserve_range a b s) g \<longleftrightarrow> unat g \<notin> range_frames a b \<and> is_set s g"
  unfolding unreserve_range_fold
  by (subst is_set_fold_clear) (use assms range_frames_upt [of a b] range_frames_less in auto)

lemma free_set_reserve_range:
  "length (g_bitmap s) = kBitmapSize \<Longrightarrow> free_set (reserve_range a b s) = free_set s - range_frames a b"
  by (auto simp: free_set_def is_set_reserve_range)

lemma free_set_unreserve_range:
  "length (g_bitmap s) = kBitmapSize \<Longrightarrow> free_set (unreserve_range a b s) = free_set s \<union> range_frames a b"
  using range_frames_less [of _ a b] unat_of_nat_frame
  by (auto simp: free_set_def is_set_unreserve_range simp del: unat_of_nat_u32)

subsection \<open>Allocation\<close>

lemma frame_split:
  assumes "w < kBitmapSize" and "b < 32"
  shows "of_nat w * 32 + of_nat b = (of_nat (w * 32 + b) :: u32)"
    and "unat (of_nat (w * 32 + b) :: u32) = w * 32 + b"
    and "unat ((of_nat (w * 32 + b) :: u32) div 32) = w"
    and "unat ((of_nat (w * 32 + b) :: u32) mod 32) = b"
    and "frame_index_valid (of_nat (w * 32 + b))"
proof -
  show *: "unat (of_nat (w * 32 + b) :: u32) = w * 32 + b"
    using assms by (intro unat_of_nat_u32) (simp add: kBitmapSize_def)
  show "of_nat w * 32 + of_nat b = (of_nat (w * 32 + b) :: u32)" by simp
  show "unat ((of_nat (w * 32 + b) :: u32) div 32) = w"
    unfolding unat_div * using assms by simp
  show "unat ((of_nat (w * 32 + b) :: u32) mod 32) = b"
    unfolding unat_mod * using assms by simp
  show "frame_index_valid (of_nat (w * 32 + b))"
    unfolding frame_index_valid_iff * using assms by (simp add: kBitmapSize_def)
qed

text \<open>The result of a scan that finds its first free frame at \<open>f\<close>.\<close>

definition take_frame :: "pmm \<Rightarrow> nat \<Rightarrow> pmm \<times> u32" where
  "take_frame s f = (set_bit_pmm (of_nat f) s, of_nat f * kPageSize)"

lemma alloc_bits_find:
  assumes "w < kBitmapSize"
  shows "alloc_bits s w b =
    map_option (\<lambda>c. take_frame s (w * 32 + c)) (find (\<lambda>c. \<not> is_set s (of_nat (w * 32 + c))) [b..<32])"
proof (induction "32 - b" arbitrary: b)
  case 0
  then show ?case by (subst alloc_bits.simps) simp
next
  case (Suc n)
  then have b: "b < 32" by simp
  note fs = frame_split [OF assms b]
  have "alloc_bits s w b =
    (if \<not> is_set s (of_nat (w * 32 + b)) then Some (take_frame s (w * 32 + b)) else alloc_bits s w (Suc b))"
    using b fs(5) unfolding alloc_bits.simps [of s w b] Let_def fs(1) take_frame_def by simp
  moreover have "[b..<32] = b # [Suc b..<32]" using b by (rule upt_conv_Cons)
  ultimately show ?case
    using Suc.hyps(1) [of "Suc b"] Suc.hyps(2) by simp
qed

lemma is_set_full_word:
  assumes "w < kBitmapSize" and "g_bitmap s ! w = 0xFFFFFFFF" and "b < 32"
  shows "is_set s (of_nat (w * 32 + b))"
  using frame_split [OF assms(1,3)] assms(2,3) bit_all_ones by (simp only: is_set_bit)

lemma alloc_words_find:
  assumes "w \<le> kBitmapSize"
  shows "alloc_words s w =
    (case find (\<lambda>f. \<not> is_set s (of_nat f)) [w * 32..<1048576] of
       None \<Rightarrow> (s, 0) | Some f \<Rightarrow> take_frame s f)"
  using assms
proof (induction "kBitmapSize - w" arbitrary: w)
  case 0
  then show ?case by (subst alloc_words.simps) (simp add: kBitmapSize_def)
next
  case (Suc n)
  then have w: "w < kBitmapSize" by simp
  then have IH: "alloc_words s (w + 1) =
    (case find (\<lambda>f. \<not> is_set s (of_nat f)) [(w + 1) * 32..<1048576] of
       None \<Rightarrow> (s, 0) | Some f \<Rightarrow> take_frame s f)"
    using Suc.hyps by simp
  let ?first = "find (\<lambda>c. \<not> is_set s (of_nat (w * 32 + c))) [0..<32]"
  have "[w * 32..<1048576] = [w * 32..<w * 32 + 32] @ [w * 32 + 32..<w * 32 + 32 + (1048576 - (w * 32 + 32))]"
    using w by (subst upt_add_eq_append [symmetric]) (simp_all add: kBitmapSize_def)
  also have "[w * 32..<w * 32 + 32] = map (\<lambda>c. w * 32 + c) [0..<32]"
    by (simp add: map_add_upt add.commute)
  also have "[w * 32 + 32..<w * 32 + 32 + (1048576 - (w * 32 + 32))] = [(w + 1) * 32..<1048576]"
    using w by (simp add: kBitmapSize_def add.commute)
  finally have frames: "[w * 32..<1048576] = map (\<lambda>c. w * 32 + c) [0..<32] @ [(w + 1) * 32..<1048576]" .
  have split: "find (\<lambda>f. \<not> is_set s (of_nat f)) [w * 32..<1048576] =
    (case ?first of None \<Rightarrow> find (\<lambda>f. \<not> is_set s (of_nat f)) [(w + 1) * 32..<1048576]
     | Some c \<Rightarrow> Some (w * 32 + c))"
    unfolding frames find_append find_map by (cases ?first) simp_all
  show ?case
  proof (cases "g_bitmap s ! w = 0xFFFFFFFF")
    case True
    then have "?first = None"
      using is_set_full_word [OF w True] by (auto simp: find_None_iff)
    with split True w IH show ?thesis by (subst alloc_words.simps) simp
  next
    case False
    with split w IH show ?thesis
      by (subst alloc_words.simps) (simp add: alloc_bits_find split: option.split)
  qed
qed

text \<open>Allocation takes the lowest free frame, and fails exactly when there is none.\<close>

lemma find_upt_Min:
  assumes "n \<le> k"
  shows "find P [n..<k] = (if {i. n \<le> i \<and> i < k \<and> P i} = {} then None else Some (Min {i. n \<le> i \<and> i < k \<and> P i}))"
  using assms
proof (induction "k - n" arbitrary: n)
  case 0
  then show ?case by simp
next
  case (Suc d)
  then have n: "n < k" by simp
  have IH: "find P [Suc n..<k] = (if {i. Suc n \<le> i \<and> i < k \<and> P i} = {} then None
      else Some (Min {i. Suc n \<le> i \<and> i < k \<and> P i}))"
    using Suc n by simp
  show ?case
  proof (cases "P n")
    case True
    with n have "Min {i. n \<le> i \<and> i < k \<and> P i} = n" by (intro Min_eqI) auto
    with True n show ?thesis by (auto simp: upt_conv_Cons)
  next
    case False
    then have "{i. n \<le> i \<and> i < k \<and> P i} = {i. Suc n \<le> i \<and> i < k \<and> P i}"
      by (auto simp: Suc_le_eq order.strict_iff_order)
    with False n IH show ?thesis by (simp add: upt_conv_Cons)
  qed
qed

lemma alloc_frame_eq:
  assumes "pmm_inv s"
  shows "alloc_frame s = (if free_set s = {} then (s, 0) else take_frame s (Min (free_set s)))"
proof -
  have fs: "{i. 0 \<le> i \<and> i < 1048576 \<and> \<not> is_set s (of_nat i)} = free_set s"
    by (auto simp: free_set_def)
  have "find (\<lambda>f. \<not> is_set s (of_nat f)) [0..<1048576] =
    (if free_set s = {} then None else Some (Min (free_set s)))"
    unfolding fs [symmetric] by (rule find_upt_Min) simp
  then have "alloc_words s 0 = (if free_set s = {} then (s, 0) else take_frame s (Min (free_set s)))"
    by (simp add: alloc_words_find)
  moreover have "g_free_frames s = 0 \<longleftrightarrow> free_set s = {}"
    using assms by (simp add: pmm_inv_def unat_eq_zero [symmetric])
  ultimately show ?thesis by (simp add: alloc_frame_def)
qed

lemma take_frame_facts:
  assumes "pmm_inv s" and "f \<in> free_set s"
  shows "pmm_inv (fst (take_frame s f))"
    and "free_set (fst (take_frame s f)) = free_set s - {f}"
    and "unat (snd (take_frame s f)) = f * 4096"
proof -
  have f: "f < 1048576" using assms(2) by (simp add: mem_free_set)
  show "pmm_inv (fst (take_frame s f))"
    using assms(1) by (simp add: take_frame_def set_bit_inv)
  show "free_set (fst (take_frame s f)) = free_set s - {f}"
    using assms f by (simp add: take_frame_def free_set_set_bit pmm_inv_length frame_of_nat_valid)
  show "unat (snd (take_frame s f)) = f * 4096"
    using f by (simp add: take_frame_def unat_word_ariths)
qed

subsection \<open>The allocator as the interface\<close>

definition avail_frames :: "pmm \<Rightarrow> u32 set" where
  "avail_frames s = (\<lambda>f. of_nat f * kPageSize) ` free_set s"

text \<open>Frame 0 is never free after \<open>init\<close>; its address is the failure value.\<close>

definition pmm_ready :: "pmm \<Rightarrow> bool" where
  "pmm_ready s \<longleftrightarrow> pmm_inv s \<and> is_set s 0"

lemma frame_addr_inj: "inj_on (\<lambda>f. of_nat f * kPageSize) (free_set s)"
proof (rule inj_onI)
  fix f g assume "f \<in> free_set s" "g \<in> free_set s" "of_nat f * kPageSize = of_nat g * kPageSize"
  then have "unat (of_nat f * kPageSize) = unat (of_nat g * kPageSize)" "f < 1048576" "g < 1048576"
    by (simp_all add: mem_free_set)
  then show "f = g" by (simp add: unat_word_ariths)
qed

lemma card_avail_frames: "card (avail_frames s) = card (free_set s)"
  unfolding avail_frames_def by (rule card_image) (rule frame_addr_inj)

lemma frame_addr_zero: "f < 1048576 \<Longrightarrow> of_nat f * kPageSize = 0 \<longleftrightarrow> f = 0"
  by (auto simp: unat_eq_zero [symmetric] unat_word_ariths)

lemma frame_addr_div:
  assumes "a mod kPageSize = 0"
  shows "of_nat (unat (a div kPageSize)) * kPageSize = a" and "frame_index_valid (a div kPageSize)"
proof -
  have "a div kPageSize * kPageSize = a" using assms by (metis add.right_neutral div_mult_mod_eq)
  then show "of_nat (unat (a div kPageSize)) * kPageSize = a" by simp
  show "frame_index_valid (a div kPageSize)"
    using unat_u32_less [of a] by (simp add: frame_index_valid_iff unat_div)
qed

lemma alloc_frame_avail:
  assumes "pmm_ready s" and "avail_frames s \<noteq> {}" and "alloc_frame s = (s', a)"
  shows "pmm_ready s' \<and> a \<in> avail_frames s \<and> avail_frames s' = avail_frames s - {a}"
proof -
  have inv: "pmm_inv s" and zero: "0 \<notin> free_set s"
    using assms(1) by (auto simp: pmm_ready_def mem_free_set)
  have sa: "(s', a) = take_frame s (Min (free_set s))" and m: "Min (free_set s) \<in> free_set s"
    using inv assms(2,3) by (auto simp: avail_frames_def alloc_frame_eq)
  have a: "a = of_nat (Min (free_set s)) * kPageSize" and s': "s' = fst (take_frame s (Min (free_set s)))"
    using sa by (simp_all add: take_frame_def)
  note facts = take_frame_facts [OF inv m, folded s']
  have "avail_frames s' = avail_frames s - {a}"
    using facts(2) m inj_on_image_set_diff [OF frame_addr_inj [of s], of "free_set s" "{Min (free_set s)}"]
    by (simp add: avail_frames_def a)
  moreover have "is_set s' 0"
    using facts(2) zero mem_free_set [of 0 s'] by auto
  ultimately show ?thesis
    using facts(1) m a by (simp add: avail_frames_def pmm_ready_def)
qed

lemma free_frame_avail:
  assumes "pmm_ready s" and al: "a mod kPageSize = 0" and "a \<noteq> 0"
  shows "pmm_ready (free_frame a s) \<and> avail_frames (free_frame a s) = insert a (avail_frames s)"
proof -
  have inv: "pmm_inv s" and zero: "0 \<notin> free_set s"
    using assms(1) by (auto simp: pmm_ready_def mem_free_set)
  note d = frame_addr_div [OF al]
  have fs: "free_set (free_frame a s) = insert (unat (a div kPageSize)) (free_set s)"
    using al d(2) inv by (simp add: free_frame_def free_set_clear_bit pmm_inv_length)
  have "unat (a div kPageSize) \<noteq> 0"
    using d(1) assms(3) by (metis mult_zero_left of_nat_0)
  with fs zero have "0 \<notin> free_set (free_frame a s)" by simp
  then have "is_set (free_frame a s) 0"
    using mem_free_set [of 0 "free_frame a s"] by simp
  moreover have "pmm_inv (free_frame a s)"
    using inv by (simp add: free_frame_def clear_bit_inv)
  ultimately show ?thesis
    using fs d(1) by (simp add: pmm_ready_def avail_frames_def)
qed

lemma avail_frames_nonzero: "pmm_ready s \<Longrightarrow> 0 \<notin> avail_frames s"
proof
  assume "pmm_ready s" "0 \<in> avail_frames s"
  then obtain f where "f \<in> free_set s" "of_nat f * kPageSize = 0" "is_set s 0"
    by (auto simp: avail_frames_def pmm_ready_def)
  then show False
    using frame_addr_zero [of f] by (auto simp: mem_free_set)
qed

interpretation pmm_frames: frame_allocator alloc_frame free_frame pmm_ready avail_frames
proof unfold_locales
  fix s
  show "pmm_ready s \<Longrightarrow> avail_frames s = {} \<Longrightarrow> alloc_frame s = (s, 0)"
    by (simp add: avail_frames_def pmm_ready_def alloc_frame_eq)
  show "finite (avail_frames s)" by (simp add: avail_frames_def)
qed (rule alloc_frame_avail free_frame_avail avail_frames_nonzero; assumption)+

subsection \<open>Initialisation\<close>

lemma unat_low_u64: "(x :: u64) < 0x100000000 \<Longrightarrow> unat (ucast x :: u32) = unat x"
  by (simp add: unsigned_ucast_eq take_bit_nat_eq_self word_less_nat_alt)

text \<open>The end of the range the visitor frees, and the frames it frees.\<close>

definition visitor_end :: "memory_map_entry_view \<Rightarrow> u32" where
  "visitor_end e = (if 0x100000000 \<le> base_addr e + entry_length e then 0xFFFFF000
     else ucast (base_addr e + entry_length e))"

definition visitor_frames :: "memory_map_entry_view \<Rightarrow> nat set" where
  "visitor_frames e = (if entry_type e = kMemoryTypeAvailable \<and> entry_length e \<noteq> 0
       \<and> base_addr e < 0x100000000 \<and> ucast (base_addr e) < visitor_end e
     then range_frames (ucast (base_addr e)) (visitor_end e) else {})"

lemma map_visitor_free_set:
  "pmm_inv s \<Longrightarrow> free_set (map_visitor e s) = free_set s \<union> visitor_frames e"
  by (auto simp: map_visitor_def Let_def visitor_frames_def visitor_end_def [symmetric]
      free_set_unreserve_range pmm_inv_length)

lemma fold_map_visitor:
  "pmm_inv s \<Longrightarrow> pmm_inv (fold map_visitor es s) \<and>
     free_set (fold map_visitor es s) = free_set s \<union> (\<Union>e \<in> set es. visitor_frames e)"
proof (induction es arbitrary: s)
  case (Cons e es)
  from Cons.IH [OF map_visitor_inv [OF Cons.prems]] Cons.prems show ?case
    by (simp add: map_visitor_free_set Un_assoc)
qed simp

lemma unat_sum_le: "unat ((x :: u64) + y) \<le> unat x + unat y"
  by (simp add: unat_word_ariths)

lemma visitor_end_le: "unat (visitor_end e) \<le> unat (base_addr e) + unat (entry_length e)"
proof -
  have "unat (visitor_end e) \<le> unat (base_addr e + entry_length e)"
    by (simp add: visitor_end_def not_le unat_low_u64) (simp add: word_le_nat_alt)
  also have "\<dots> \<le> unat (base_addr e) + unat (entry_length e)" by (rule unat_sum_le)
  finally show ?thesis .
qed

text \<open>
  The visitor frees only frames that an available region touches, and frees every frame below the last page of the 4 GiB
  that lies wholly inside an available region, unless the region ends within that last page: rounding its end up wraps
  to zero, and none of its frames is freed.
\<close>

definition region_touches :: "memory_map_entry_view \<Rightarrow> nat \<Rightarrow> bool" where
  "region_touches e f \<longleftrightarrow> entry_type e = kMemoryTypeAvailable \<and> unat (base_addr e) < (f + 1) * 4096
     \<and> f * 4096 < unat (base_addr e) + unat (entry_length e)"

definition ends_in_last_page :: "memory_map_entry_view \<Rightarrow> bool" where
  "ends_in_last_page e \<longleftrightarrow> 0xFFFFF000 < unat (base_addr e) + unat (entry_length e) \<and> unat (base_addr e) + unat (entry_length e) < 2 ^ 32"

definition region_contains :: "memory_map_entry_view \<Rightarrow> nat \<Rightarrow> bool" where
  "region_contains e f \<longleftrightarrow> entry_type e = kMemoryTypeAvailable \<and> unat (base_addr e) \<le> f * 4096
     \<and> (f + 1) * 4096 \<le> unat (base_addr e) + unat (entry_length e) \<and> unat (base_addr e) + unat (entry_length e) < 2 ^ 64"

text \<open>The frames of the kernel image; \<open>reserve_range\<close> reserves them when the image ends at or below \<open>0xFFFFF000\<close>, and none otherwise.\<close>

definition image_touches :: "u32 \<Rightarrow> u32 \<Rightarrow> nat \<Rightarrow> bool" where
  "image_touches kernel_start kernel_end f \<longleftrightarrow> unat kernel_start div 4096 \<le> f \<and> f * 4096 < unat kernel_end"

lemma range_frames_image:
  "f \<in> range_frames a b \<longleftrightarrow> unat b \<le> 0xFFFFF000 \<and> image_touches a b f"
  by (auto simp: range_frames_def image_touches_def)

lemma visitor_frames_touch: "f \<in> visitor_frames e \<Longrightarrow> region_touches e f"
  using visitor_end_le [of e]
  by (auto simp: visitor_frames_def range_frames_def region_touches_def unat_low_u64 split: if_splits)

lemma visitor_frames_inside:
  assumes "region_contains e f" "(f + 1) * 4096 \<le> 0xFFFFF000" "\<not> ends_in_last_page e"
  shows "f \<in> visitor_frames e"
proof -
  note r = assms(1) [unfolded region_contains_def]
  have sum: "unat (base_addr e + entry_length e) = unat (base_addr e) + unat (entry_length e)"
    using r by (simp add: unat_word_ariths)
  have low: "base_addr e < 0x100000000" using r assms(2) by (simp add: word_less_nat_alt)
  have e: "(f + 1) * 4096 \<le> unat (visitor_end e)" "unat (visitor_end e) \<le> 0xFFFFF000"
    using r assms(2,3) sum
    by (auto simp: visitor_end_def ends_in_last_page_def unat_low_u64 word_le_nat_alt not_le word_less_nat_alt)
  have "entry_length e \<noteq> 0" using r by auto
  moreover have "unat (base_addr e) div 4096 \<le> f"
    using r div_le_mono [of "unat (base_addr e)" "f * 4096" 4096] by simp
  ultimately show ?thesis
    using r low e by (simp add: visitor_frames_def range_frames_def unat_low_u64 word_less_nat_alt)
qed

lemma visitor_frames_last_page:
  assumes "ends_in_last_page e"
  shows "visitor_frames e = {}"
proof -
  have sum: "unat (base_addr e + entry_length e) = unat (base_addr e) + unat (entry_length e)"
    using assms by (simp add: ends_in_last_page_def unat_word_ariths)
  then have "base_addr e + entry_length e < 0x100000000" using assms by (simp add: ends_in_last_page_def word_less_nat_alt)
  then have "unat (visitor_end e) = unat (base_addr e) + unat (entry_length e)"
    using sum by (simp add: visitor_end_def not_le [symmetric] unat_low_u64)
  then show ?thesis using assms by (auto simp: visitor_frames_def range_frames_def ends_in_last_page_def)
qed

lemma pmm_init_free_set:
  assumes "addr \<noteq> 0" and "tags_at m (addr + 8) (addr + read32 m addr) ts"
  shows "\<exists>s. pmm_init m addr ks ke = Some s \<and> free_set s =
    (\<Union>e \<in> set (concat (map (tag_entries m) ts)). visitor_frames e) - {f. f < 256} - range_frames ks ke"
proof -
  let ?s = "fold map_visitor (concat (map (tag_entries m) ts)) pmm_reset"
  have s: "pmm_inv ?s" "free_set ?s = (\<Union>e \<in> set (concat (map (tag_entries m) ts)). visitor_frames e)"
    using fold_map_visitor [OF pmm_reset_inv] free_set_reset by simp_all
  have "pmm_init m addr ks ke = Some (reserve_range ks ke (reserve_range 0 kLowMemoryReserveEnd ?s))"
    using assms by (simp add: pmm_init_def visit_memory_map_def visit_map_tags_exact)
  moreover have "range_frames 0 kLowMemoryReserveEnd = {f. f < 256}"
    by (auto simp: range_frames_def)
  ultimately show ?thesis
    using s by (simp add: free_set_reserve_range pmm_inv_length reserve_range_inv)
qed


section \<open>Properties\<close>

text \<open>A small concrete state: everything reserved but the two frames from 1 MiB on.\<close>

definition pmm_two_free :: pmm where
  "pmm_two_free = unreserve_range 0x100000 0x102000 pmm_reset"

lemma pmm_two_free_inv: "pmm_inv pmm_two_free"
  by (simp add: pmm_two_free_def unreserve_range_inv pmm_reset_inv)

lemma free_set_two_free: "free_set pmm_two_free = {256, 257}"
proof -
  have "range_frames 0x100000 0x102000 = {256, 257}"
    by (auto simp: range_frames_def)
  then show ?thesis
    using free_set_reset pmm_reset_inv
    by (simp add: pmm_two_free_def free_set_unreserve_range pmm_inv_length)
qed

lemma pmm_two_free_ready: "pmm_ready pmm_two_free"
  using pmm_two_free_inv free_set_two_free mem_free_set [of 0 pmm_two_free]
  by (simp add: pmm_ready_def)

text \<open>
  C27. The counter of free frames is at all times the number of clear bits of the bitmap: the
  reset state satisfies this and every operation of the allocator keeps it.
\<close>

theorem pmm_operations_keep_inv:
  assumes "pmm_inv s"
  shows "pmm_inv pmm_reset \<and> pmm_inv (fst (alloc_frame s)) \<and> pmm_inv (free_frame a s)
    \<and> pmm_inv (reserve_range x y s) \<and> pmm_inv (unreserve_range x y s) \<and> pmm_inv (map_visitor e s)
    \<and> (\<forall>t. pmm_init m addr kernel_start kernel_end = Some t \<longrightarrow> pmm_inv t)"
proof -
  have "pmm_inv (fst (alloc_frame s))"
    using assms take_frame_facts(1) [of s "Min (free_set s)"] by (simp add: alloc_frame_eq)
  then show ?thesis
    using assms
    by (simp add: pmm_reset_inv free_frame_def clear_bit_inv reserve_range_inv unreserve_range_inv
        map_visitor_inv pmm_init_inv)
qed

theorem pmm_operations_keep_inv_witness:
  "pmm_inv (fst (alloc_frame pmm_two_free)) \<and> pmm_inv (free_frame 0x100000 pmm_two_free)"
  using pmm_operations_keep_inv [OF pmm_two_free_inv] by blast

text \<open>
  C26. \<open>alloc_frame\<close> fails, leaving the state alone, exactly when no frame is free.
  Otherwise it returns the address of the lowest free frame, marks that frame and no
  other, and takes one from the counter.
\<close>

theorem alloc_frame_lowest:
  assumes "pmm_inv s"
  shows "if free_set s = {} then alloc_frame s = (s, 0)
    else \<exists>s' a. alloc_frame s = (s', a) \<and> unat a = Min (free_set s) * 4096
      \<and> (\<forall>g. is_set s' g \<longleftrightarrow> g = of_nat (Min (free_set s)) \<or> is_set s g)
      \<and> unat (free_frames s) = unat (free_frames s') + 1"
proof (cases "free_set s = {}")
  case False
  define f where "f = Min (free_set s)"
  have f: "f \<in> free_set s" using False by (simp add: f_def)
  then have valid: "frame_index_valid (of_nat f)" by (simp add: mem_free_set frame_of_nat_valid)
  note facts = take_frame_facts [OF assms f]
  have "card (free_set s) = card (free_set s - {f}) + 1"
    using f card.remove [of "free_set s" f] by simp
  then have "unat (free_frames s) = unat (free_frames (fst (take_frame s f))) + 1"
    using facts(1,2) assms unfolding pmm_inv_def free_frames_def by metis
  moreover have "is_set (fst (take_frame s f)) g \<longleftrightarrow> g = of_nat f \<or> is_set s g" for g
    using assms valid by (simp add: take_frame_def is_set_set_bit pmm_inv_length)
  moreover have "alloc_frame s = (fst (take_frame s f), snd (take_frame s f))"
    using False assms by (simp add: alloc_frame_eq f_def)
  ultimately have "\<exists>s' a. alloc_frame s = (s', a) \<and> unat a = f * 4096
      \<and> (\<forall>g. is_set s' g \<longleftrightarrow> g = of_nat f \<or> is_set s g)
      \<and> unat (free_frames s) = unat (free_frames s') + 1"
    using facts(3) by blast
  with False show ?thesis by (simp only: f_def if_False)
qed (use assms in \<open>simp add: alloc_frame_eq\<close>)

theorem alloc_frame_lowest_witness:
  "\<exists>s' a. alloc_frame pmm_two_free = (s', a) \<and> unat a = 0x100000"
  using alloc_frame_lowest [OF pmm_two_free_inv] by (auto simp: free_set_two_free)

text \<open>Freeing a frame just allocated gives back exactly the state before the allocation.\<close>

theorem free_frame_undoes_alloc:
  assumes "pmm_inv s" and "free_set s \<noteq> {}" and "alloc_frame s = (s', a)"
  shows "free_frame a s' = s"
proof -
  define f where "f = Min (free_set s)"
  have f: "f \<in> free_set s" using assms(2) by (simp add: f_def)
  have sa: "(s', a) = take_frame s f" using assms by (simp add: alloc_frame_eq f_def)
  then have a: "unat a = f * 4096" using take_frame_facts(3) [OF assms(1) f] by (metis snd_conv)
  then have "a mod kPageSize = 0" "a div kPageSize = of_nat f"
    using f by (simp_all add: mem_free_set unat_eq_zero [symmetric] unat_mod word_unat_eq_iff unat_div)
  moreover have "s' = set_bit_pmm (of_nat f) s" using sa by (simp add: take_frame_def)
  moreover have "clear_bit_pmm (of_nat f) (set_bit_pmm (of_nat f) s) = s"
    using f assms(1) by (intro clear_set_bit) (simp_all add: mem_free_set frame_of_nat_valid)
  ultimately show ?thesis by (simp add: free_frame_def)
qed

theorem free_frame_undoes_alloc_witness:
  "free_frame (snd (alloc_frame pmm_two_free)) (fst (alloc_frame pmm_two_free)) = pmm_two_free"
  using free_frame_undoes_alloc [OF pmm_two_free_inv] by (simp add: free_set_two_free)

text \<open>
  Frames allocated one after the other are pairwise distinct, non-zero and were all free,
  and the allocator hands out as many as there are.
\<close>

theorem alloc_frames_distinct:
  assumes "pmm_ready s" and "alloc_seq alloc_frame n s = (s', as)"
  shows "distinct as \<and> 0 \<notin> set as \<and> set as \<subseteq> avail_frames s \<and> length as = min n (card (free_set s))
    \<and> avail_frames s' = avail_frames s - set as"
  using pmm_frames.alloc_seq_correct [OF assms] avail_frames_nonzero [OF assms(1)]
  by (auto simp: card_avail_frames)

theorem alloc_frames_distinct_witness:
  "\<exists>s' as. alloc_seq alloc_frame 3 pmm_two_free = (s', as) \<and> distinct as \<and> length as = 2"
proof -
  obtain s' as where a: "alloc_seq alloc_frame 3 pmm_two_free = (s', as)" by fastforce
  have "distinct as" "length as = min 3 (card (free_set pmm_two_free))"
    using alloc_frames_distinct [OF pmm_two_free_ready a] by blast+
  with a show ?thesis by (simp add: free_set_two_free)
qed

text \<open>
  C32. On a well-formed boot information structure, with a kernel image that ends at or below \<open>0xFFFFF000\<close>, \<open>init\<close> returns, and then a frame is free only
  when it is above the first megabyte, not touched by the kernel image, and touched by a
  region that the memory map reports as available; and every frame above the first
  megabyte, below \<open>0xFFFFF000\<close> and outside the kernel image that lies wholly inside such a region is free, unless the region ends
  between \<open>0xFFFFF000\<close> and \<open>2 ^ 32\<close>. When every available region that touches a frame ends there, the frame is not free.
\<close>

theorem pmm_init_free_frames:
  assumes "addr \<noteq> 0" and "tags_at m (addr + 8) (addr + read32 m addr) ts" and "unat kernel_end \<le> 0xFFFFF000"
  shows "\<exists>s. pmm_init m addr kernel_start kernel_end = Some s \<and> pmm_ready s
    \<and> (\<forall>f \<in> free_set s. 256 \<le> f \<and> \<not> image_touches kernel_start kernel_end f
        \<and> list_ex (\<lambda>e. region_touches e f) (concat (map (tag_entries m) ts)))
    \<and> (\<forall>f \<ge> 256. \<not> image_touches kernel_start kernel_end f \<longrightarrow> (f + 1) * 4096 \<le> 0xFFFFF000
        \<longrightarrow> list_ex (\<lambda>e. region_contains e f \<and> \<not> ends_in_last_page e) (concat (map (tag_entries m) ts)) \<longrightarrow> f \<in> free_set s)
    \<and> (\<forall>f. list_all (\<lambda>e. region_touches e f \<longrightarrow> ends_in_last_page e) (concat (map (tag_entries m) ts)) \<longrightarrow> f \<notin> free_set s)"
proof -
  define es where "es = concat (map (tag_entries m) ts)"
  obtain s where s: "pmm_init m addr kernel_start kernel_end = Some s"
    and fs: "free_set s = (\<Union>e \<in> set es. visitor_frames e) - {f. f < 256} - range_frames kernel_start kernel_end"
    using pmm_init_free_set [OF assms(1,2), of kernel_start kernel_end] unfolding es_def by (elim exE conjE)
  have mem: "f \<in> free_set s \<longleftrightarrow> 256 \<le> f \<and> \<not> image_touches kernel_start kernel_end f
      \<and> (\<exists>e \<in> set es. f \<in> visitor_frames e)" for f
    unfolding fs using assms(3) by (simp add: not_less range_frames_image) blast
  have "0 \<notin> free_set s" unfolding mem by simp
  then have "pmm_ready s"
    using pmm_init_inv [OF s] mem_free_set [of 0 s] by (simp add: pmm_ready_def)
  moreover have "\<forall>f \<in> free_set s. 256 \<le> f \<and> \<not> image_touches kernel_start kernel_end f
      \<and> list_ex (\<lambda>e. region_touches e f) es"
  proof
    fix f assume "f \<in> free_set s"
    then show "256 \<le> f \<and> \<not> image_touches kernel_start kernel_end f \<and> list_ex (\<lambda>e. region_touches e f) es"
      unfolding mem list_ex_iff using visitor_frames_touch by blast
  qed
  moreover have "\<forall>f. list_all (\<lambda>e. region_touches e f \<longrightarrow> ends_in_last_page e) es \<longrightarrow> f \<notin> free_set s"
    unfolding mem list_all_iff using visitor_frames_touch visitor_frames_last_page by blast
  moreover have "\<forall>f \<ge> 256. \<not> image_touches kernel_start kernel_end f \<longrightarrow> (f + 1) * 4096 \<le> 0xFFFFF000
      \<longrightarrow> list_ex (\<lambda>e. region_contains e f \<and> \<not> ends_in_last_page e) es \<longrightarrow> f \<in> free_set s"
  proof (intro allI impI)
    fix f :: nat
    assume "256 \<le> f" "\<not> image_touches kernel_start kernel_end f" "(f + 1) * 4096 \<le> 0xFFFFF000"
      "list_ex (\<lambda>e. region_contains e f \<and> \<not> ends_in_last_page e) es"
    then show "f \<in> free_set s"
      unfolding mem list_ex_iff using visitor_frames_inside by blast
  qed
  ultimately show ?thesis
    unfolding es_def [symmetric] using s by (intro exI [of _ s] conjI)
qed

theorem pmm_init_free_frames_witness:
  "\<exists>s. pmm_init boot_info 0x10000 0x100000 0x102000 = Some s \<and> pmm_ready s \<and> 258 \<in> free_set s"
proof -
  have nz: "(0x10000 :: u32) \<noteq> 0" by simp
  have tags: "tags_at boot_info (0x10000 + 8) (0x10000 + read32 boot_info 0x10000) [0x10008, 0x10030]"
    using boot_info_tags by (simp add: boot_info_fields)
  have low: "unat (0x102000 :: u32) \<le> 0xFFFFF000" by simp
  from pmm_init_free_frames [OF nz tags low, of "0x100000"]
  obtain s where s: "pmm_init boot_info 0x10000 0x100000 0x102000 = Some s" "pmm_ready s"
    and free: "\<forall>f \<ge> 256. \<not> image_touches 0x100000 0x102000 f \<longrightarrow> (f + 1) * 4096 \<le> 0xFFFFF000 \<longrightarrow>
        list_ex (\<lambda>e. region_contains e f \<and> \<not> ends_in_last_page e)
        (concat (map (tag_entries boot_info) [0x10008, 0x10030])) \<longrightarrow> f \<in> free_set s"
    by (elim exE conjE)
  have "\<not> image_touches 0x100000 0x102000 258" by (simp add: image_touches_def)
  moreover have "list_ex (\<lambda>e. region_contains e 258 \<and> \<not> ends_in_last_page e) (concat (map (tag_entries boot_info) [0x10008, 0x10030]))"
    by (simp add: tag_entries_def is_map_tag_def boot_info_fields memory_map_entry_def read64_def
        region_contains_def ends_in_last_page_def)
  ultimately have "258 \<in> free_set s" by (intro free [rule_format]) simp_all
  with s show ?thesis by blast
qed

end
