(* ===== verification/Vmm.thy ===== *)
theory Vmm
  imports Pmm
begin

text \<open>
  The virtual memory manager, \<open>src/kernel/mm/vmm.cpp\<close>: one page directory, a pool of 64
  page tables, and for each of the 1024 directory slots the number of the pool table that
  serves it. The addresses at which the linker places the directory and the pool are the
  parameters \<open>pd_addr\<close> and \<open>pt_addr\<close>. The control registers and the \<open>invlpg\<close>
  instructions that the code executes are fields of the state.

  The lemmas show that the tables implement a finite map from page numbers to page table
  entries: mapping a page updates it at one page, unmapping removes that page, and
  address translation looks it up; that the walk the processor does over the page directory
  finds the same entry; and that initialisation is the identity on the first 64 MiB.
\<close>


section \<open>Definitions\<close>

abbreviation (input) kPageEntries :: nat where "kPageEntries \<equiv> 1024"
abbreviation (input) kMaxTables :: u16 where "kMaxTables \<equiv> 64"
abbreviation (input) kPagePresent :: u32 where "kPagePresent \<equiv> 0x1"
abbreviation (input) kPageWrite :: u32 where "kPageWrite \<equiv> 0x2"
abbreviation (input) kPageUser :: u32 where "kPageUser \<equiv> 0x4"

record vmm =
  g_kernel_page_directory :: "u32 list"
  g_page_tables :: "u32 list list"
  g_table_for_dir :: "u16 list"
  g_tables_in_use :: u16
  g_paging_enabled :: bool
  g_current_page_directory :: u32
  cr0 :: u32
  cr3 :: u32
  flushed :: "u32 list"

definition invalid_table_index :: u16 where
  "invalid_table_index = 0xFFFF"

definition clear_page_table :: "u32 list \<Rightarrow> u32 list" where
  "clear_page_table table = replicate kPageEntries 0"

text \<open>A new table is returned as its number in the pool.\<close>

definition alloc_page_table :: "vmm \<Rightarrow> vmm \<times> nat option" where
  "alloc_page_table s =
     (if kMaxTables \<le> g_tables_in_use s then (s, None)
      else let i = unat (g_tables_in_use s) in
        (s\<lparr>g_page_tables := (g_page_tables s)[i := clear_page_table (g_page_tables s ! i)],
           g_tables_in_use := g_tables_in_use s + 1\<rparr>, Some i))"

definition flush_tlb_entry :: "u32 \<Rightarrow> vmm \<Rightarrow> vmm" where
  "flush_tlb_entry virt s = s\<lparr>flushed := virt # flushed s\<rparr>"

definition dir_index :: "u32 \<Rightarrow> nat" where
  "dir_index virt = unat (drop_bit 22 virt AND 0x3FF)"

definition tbl_index :: "u32 \<Rightarrow> nat" where
  "tbl_index virt = unat (drop_bit 12 virt AND 0x3FF)"

definition page_flags :: "bool \<Rightarrow> bool \<Rightarrow> u32" where
  "page_flags write user =
     kPagePresent OR (if write then kPageWrite else 0) OR (if user then kPageUser else 0)"

definition table_addr :: "u32 \<Rightarrow> nat \<Rightarrow> u32" where
  "table_addr pt_addr i = pt_addr + of_nat i * 4096"

text \<open>The first half of \<open>map_page\<close>: the table that serves the address, allocated when missing.\<close>

definition table_for :: "u32 \<Rightarrow> u32 \<Rightarrow> bool \<Rightarrow> bool \<Rightarrow> vmm \<Rightarrow> vmm \<times> nat option" where
  "table_for pt_addr virt write user s =
     (let d = dir_index virt in
      if g_table_for_dir s ! d = invalid_table_index then
        (case alloc_page_table s of
           (s', None) \<Rightarrow> (s', None)
         | (s', Some i) \<Rightarrow>
             (s'\<lparr>g_table_for_dir := (g_table_for_dir s')[d := g_tables_in_use s' - 1],
                 g_kernel_page_directory := (g_kernel_page_directory s')[d :=
                   (table_addr pt_addr i AND 0xFFFFF000) OR page_flags write user]\<rparr>, Some i))
      else (s, Some (unat (g_table_for_dir s ! d))))"

definition set_entry :: "nat \<Rightarrow> nat \<Rightarrow> u32 \<Rightarrow> vmm \<Rightarrow> vmm" where
  "set_entry t i v s = s\<lparr>g_page_tables := (g_page_tables s)[t := (g_page_tables s ! t)[i := v]]\<rparr>"

definition map_page :: "u32 \<Rightarrow> u32 \<Rightarrow> u32 \<Rightarrow> bool \<Rightarrow> bool \<Rightarrow> vmm \<Rightarrow> vmm \<times> bool" where
  "map_page pt_addr virt phys write user s =
     (case table_for pt_addr virt write user s of
        (s', None) \<Rightarrow> (s', False)
      | (s', Some t) \<Rightarrow>
          let s'' = set_entry t (tbl_index virt) ((phys AND 0xFFFFF000) OR page_flags write user) s'
          in (if g_paging_enabled s'' then flush_tlb_entry virt s'' else s'', True))"

definition unmap_page :: "u32 \<Rightarrow> vmm \<Rightarrow> vmm \<times> bool" where
  "unmap_page virt s =
     (let d = dir_index virt; i = tbl_index virt in
      if g_table_for_dir s ! d = invalid_table_index then (s, False)
      else let t = unat (g_table_for_dir s ! d) in
        if (g_page_tables s ! t ! i) AND kPagePresent = 0 then (s, False)
        else let s' = set_entry t i 0 s
          in (if g_paging_enabled s' then flush_tlb_entry virt s' else s', True))"

definition virt_to_phys :: "u32 \<Rightarrow> vmm \<Rightarrow> u32" where
  "virt_to_phys virt s =
     (let d = dir_index virt; i = tbl_index virt in
      if g_table_for_dir s ! d = invalid_table_index then 0
      else let pte = g_page_tables s ! unat (g_table_for_dir s ! d) ! i in
        if pte AND kPagePresent = 0 then 0 else (pte AND 0xFFFFF000) OR (virt AND 0xFFF))"

text \<open>\<open>init\<close>: the loop over the first 64 MiB ignores the result of \<open>map_page\<close>.\<close>

definition vmm_clear :: "u32 \<Rightarrow> vmm \<Rightarrow> vmm" where
  "vmm_clear pd_addr s = s\<lparr>g_tables_in_use := 0,
     g_kernel_page_directory := replicate kPageEntries 0,
     g_table_for_dir := replicate kPageEntries invalid_table_index,
     g_current_page_directory := pd_addr\<rparr>"

definition vmm_init :: "u32 \<Rightarrow> u32 \<Rightarrow> vmm \<Rightarrow> vmm" where
  "vmm_init pd_addr pt_addr s =
     fold (\<lambda>n s. fst (map_page pt_addr (of_nat n * 4096) (of_nat n * 4096) True False s))
       [0..<16384] (vmm_clear pd_addr s)"

definition enable_paging :: "u32 \<Rightarrow> vmm \<Rightarrow> vmm" where
  "enable_paging pd_addr s = s\<lparr>cr3 := pd_addr, cr0 := cr0 s OR 0x80000000,
     g_paging_enabled := True, g_current_page_directory := pd_addr\<rparr>"

definition paging_enabled :: "vmm \<Rightarrow> bool" where
  "paging_enabled s = g_paging_enabled s"

definition kernel_address_space :: "u32 \<Rightarrow> u32" where
  "kernel_address_space pd_addr = pd_addr"

definition current_address_space :: "vmm \<Rightarrow> u32" where
  "current_address_space s = g_current_page_directory s"

definition switch_address_space :: "u32 \<Rightarrow> vmm \<Rightarrow> vmm \<times> bool" where
  "switch_address_space address_space s =
     (if address_space = 0 then (s, False)
      else let pd_phys = virt_to_phys address_space s in
        if pd_phys = 0 then (s, False)
        else (s\<lparr>cr3 := pd_phys, g_current_page_directory := address_space,
                g_paging_enabled := True\<rparr>, True))"

text \<open>
  The specification: the present page table entry of each page number, and the invariant
  on the tables. The last conjunct ties the page directory, which the processor
  reads, to the table numbers, which the code reads.
\<close>

definition translation :: "vmm \<Rightarrow> nat \<Rightarrow> u32 option" where
  "translation s n =
     (let t = g_table_for_dir s ! (n div 1024); pte = g_page_tables s ! unat t ! (n mod 1024) in
      if n < 1048576 \<and> t \<noteq> invalid_table_index \<and> pte AND kPagePresent \<noteq> 0 then Some pte else None)"

definition vmm_inv :: "u32 \<Rightarrow> vmm \<Rightarrow> bool" where
  "vmm_inv pt_addr s \<longleftrightarrow>
     length (g_kernel_page_directory s) = 1024 \<and> length (g_table_for_dir s) = 1024
     \<and> length (g_page_tables s) = 64 \<and> (\<forall>t < 64. length (g_page_tables s ! t) = 1024)
     \<and> g_tables_in_use s \<le> kMaxTables
     \<and> (\<forall>d < 1024. g_table_for_dir s ! d \<noteq> invalid_table_index \<longrightarrow> g_table_for_dir s ! d < g_tables_in_use s)
     \<and> (\<forall>d < 1024. \<forall>d' < 1024. g_table_for_dir s ! d = g_table_for_dir s ! d' \<longrightarrow>
          g_table_for_dir s ! d \<noteq> invalid_table_index \<longrightarrow> d = d')
     \<and> (\<forall>d < 1024. if g_table_for_dir s ! d = invalid_table_index then g_kernel_page_directory s ! d = 0
          else \<exists>w u. g_kernel_page_directory s ! d =
            (table_addr pt_addr (unat (g_table_for_dir s ! d)) AND 0xFFFFF000) OR page_flags w u)"

text \<open>
  The walk of the processor: the directory entry gives the address of a table, which is
  one of the pool, and the table entry gives the frame.
\<close>

definition mmu_walk :: "u32 \<Rightarrow> vmm \<Rightarrow> u32 \<Rightarrow> u32 option" where
  "mmu_walk pt_addr s virt =
     (let pde = g_kernel_page_directory s ! dir_index virt in
      if pde AND kPagePresent = 0 then None
      else let t = unat (((pde AND 0xFFFFF000) - pt_addr) div 4096); pte = g_page_tables s ! t ! tbl_index virt in
        if pte AND kPagePresent = 0 then None else Some ((pte AND 0xFFFFF000) OR (virt AND 0xFFF)))"

text \<open>
  The loop with which the drivers map a device's registers (\<open>map_physical_region\<close> in
  \<open>src/kernel/nvme.cpp\<close>, \<open>ahci.cpp\<close> and \<open>xhci.cpp\<close>): consecutive pages to consecutive frames,
  giving up at the first page that cannot be mapped. What it relies on is the interface
  \<open>page_mapper\<close>: the frame of each page number, changed by a successful mapping at that
  page only.
\<close>

primrec map_region :: "(u32 \<Rightarrow> u32 \<Rightarrow> 's \<Rightarrow> 's \<times> bool) \<Rightarrow> u32 \<Rightarrow> u32 \<Rightarrow> nat list \<Rightarrow> 's \<Rightarrow> 's \<times> bool" where
  "map_region map_op v p [] s = (s, True)"
| "map_region map_op v p (i # is) s =
     (case map_op (v + of_nat i * 4096) (p + of_nat i * 4096) s of
        (s', ok) \<Rightarrow> if ok then map_region map_op v p is s' else (s', False))"

definition page_frame :: "vmm \<Rightarrow> nat \<Rightarrow> u32 option" where
  "page_frame s n = map_option (\<lambda>pte. pte AND 0xFFFFF000) (translation s n)"

locale page_mapper =
  fixes map_op :: "u32 \<Rightarrow> u32 \<Rightarrow> 's \<Rightarrow> 's \<times> bool"
    and inv :: "'s \<Rightarrow> bool"
    and frame :: "'s \<Rightarrow> nat \<Rightarrow> u32 option"
  assumes map_ok: "inv s \<Longrightarrow> map_op v p s = (s', True) \<Longrightarrow>
      inv s' \<and> frame s' = (frame s)(unat v div 4096 \<mapsto> p AND 0xFFFFF000)"
    and map_fail: "inv s \<Longrightarrow> map_op v p s = (s', False) \<Longrightarrow> s' = s"
begin

lemma map_region_inv: "inv s \<Longrightarrow> map_region map_op v p is s = (s', ok) \<Longrightarrow> inv s'"
proof (induction "is" arbitrary: s)
  case (Cons i "is")
  obtain t b where t: "map_op (v + of_nat i * 4096) (p + of_nat i * 4096) s = (t, b)"
    by (cases "map_op (v + of_nat i * 4096) (p + of_nat i * 4096) s")
  show ?case
  proof (cases b)
    case True
    with t Cons.prems map_ok [OF Cons.prems(1)] show ?thesis by (intro Cons.IH [of t]) auto
  next
    case False
    with t Cons.prems map_fail [OF Cons.prems(1)] show ?thesis by auto
  qed
qed simp

lemma map_region_frames:
  assumes "inv s" and "map_region map_op v p is s = (s', True)"
  shows "frame s' = fold (\<lambda>i g. g(unat (v + of_nat i * 4096) div 4096 \<mapsto> (p + of_nat i * 4096) AND 0xFFFFF000)) is (frame s)"
  using assms
proof (induction "is" arbitrary: s)
  case (Cons i "is")
  obtain t where t: "map_op (v + of_nat i * 4096) (p + of_nat i * 4096) s = (t, True)"
    and rest: "map_region map_op v p is t = (s', True)"
    using Cons.prems(2) by (auto split: prod.splits if_splits)
  note ok = map_ok [OF Cons.prems(1) t]
  from Cons.IH [OF ok [THEN conjunct1] rest] ok show ?case by simp
qed simp

end


section \<open>Lemmas\<close>

subsection \<open>Indices and entries\<close>

lemma index_mask: "unat ((w :: u32) AND 0x3FF) = unat w mod 1024"
proof -
  have "w AND 0x3FF = take_bit 10 w" by (simp add: take_bit_eq_mask mask_eq_exp_minus_1)
  then show ?thesis by (simp only: unsigned_take_bit_eq) (simp add: take_bit_eq_mod)
qed

lemma dir_index_div: "dir_index v = unat v div 4096 div 1024"
  using unat_u32_less [of v]
  by (simp add: dir_index_def index_mask drop_bit_eq_div unat_div div_mult2_eq [symmetric])

lemma tbl_index_mod: "tbl_index v = unat v div 4096 mod 1024"
  by (simp add: tbl_index_def index_mask drop_bit_eq_div unat_div)

lemma page_number_less: "unat (v :: u32) div 4096 < 1048576"
  using unat_u32_less [of v] by simp

lemma dir_index_less [simp]: "dir_index v < 1024"
  using page_number_less [of v] by (simp add: dir_index_div)

lemma tbl_index_less [simp]: "tbl_index v < 1024"
  by (simp add: tbl_index_mod)

lemma page_flags_cases: "page_flags w u \<in> {1, 3, 5, 7}"
  by (cases w; cases u) (simp_all add: page_flags_def)

lemma entry_present [simp]: "((p AND 0xFFFFF000) OR page_flags w u) AND 1 = 1"
  using page_flags_cases [of w u] by (auto simp: bit.conj_disj_distrib2 and.assoc)

lemma entry_frame [simp]: "((p AND 0xFFFFF000) OR page_flags w u) AND 0xFFFFF000 = p AND 0xFFFFF000"
  using page_flags_cases [of w u] by (auto simp: bit.conj_disj_distrib2 and.assoc)

lemma page_split: "((v :: u32) AND 0xFFFFF000) OR (v AND 0xFFF) = v"
proof -
  have "(0xFFFFF000 OR 0xFFF :: u32) = - 1" by simp
  then show ?thesis by (metis bit.conj_disj_distrib and.right_neutral)
qed

subsection \<open>The invariant and the translation\<close>

lemma vmm_invD:
  assumes "vmm_inv pt s"
  shows "length (g_kernel_page_directory s) = 1024" and "length (g_table_for_dir s) = 1024"
    and "length (g_page_tables s) = 64" and "\<And>t. t < 64 \<Longrightarrow> length (g_page_tables s ! t) = 1024"
    and "g_tables_in_use s \<le> 64"
  using assms by (simp_all add: vmm_inv_def)

lemma table_index_less:
  assumes "vmm_inv pt s" and "d < 1024" and "g_table_for_dir s ! d \<noteq> invalid_table_index"
  shows "g_table_for_dir s ! d < g_tables_in_use s" and "unat (g_table_for_dir s ! d) < 64"
proof -
  show less: "g_table_for_dir s ! d < g_tables_in_use s" using assms by (simp add: vmm_inv_def)
  have "g_tables_in_use s \<le> 64" using assms(1) by (rule vmm_invD)
  with less show "unat (g_table_for_dir s ! d) < 64" by (simp add: word_le_nat_alt word_less_nat_alt)
qed

lemma table_index_inj:
  assumes "vmm_inv pt s" and "d < 1024" and "d' < 1024"
    and "g_table_for_dir s ! d = g_table_for_dir s ! d'" and "g_table_for_dir s ! d \<noteq> invalid_table_index"
  shows "d = d'"
proof -
  have "\<forall>d < 1024. \<forall>d' < 1024. g_table_for_dir s ! d = g_table_for_dir s ! d' \<longrightarrow>
      g_table_for_dir s ! d \<noteq> invalid_table_index \<longrightarrow> d = d'"
    using assms(1) unfolding vmm_inv_def by (elim conjE)
  with assms(2-5) show ?thesis by simp
qed

lemma directory_entry:
  assumes "vmm_inv pt s" and "d < 1024"
  shows "if g_table_for_dir s ! d = invalid_table_index then g_kernel_page_directory s ! d = 0
    else \<exists>w u. g_kernel_page_directory s ! d =
      (table_addr pt (unat (g_table_for_dir s ! d)) AND 0xFFFFF000) OR page_flags w u"
proof -
  have "\<forall>d < 1024. if g_table_for_dir s ! d = invalid_table_index then g_kernel_page_directory s ! d = 0
      else \<exists>w u. g_kernel_page_directory s ! d =
        (table_addr pt (unat (g_table_for_dir s ! d)) AND 0xFFFFF000) OR page_flags w u"
    using assms(1) unfolding vmm_inv_def by (elim conjE)
  with assms(2) show ?thesis by blast
qed

lemma translation_at:
  "translation s (unat v div 4096) =
     (let t = g_table_for_dir s ! dir_index v; pte = g_page_tables s ! unat t ! tbl_index v in
      if t \<noteq> invalid_table_index \<and> pte AND 1 \<noteq> 0 then Some pte else None)"
  using page_number_less [of v] by (simp add: translation_def dir_index_div tbl_index_mod)

lemma virt_to_phys_translation:
  "virt_to_phys v s = (case translation s (unat v div 4096) of
     None \<Rightarrow> 0 | Some pte \<Rightarrow> (pte AND 0xFFFFF000) OR (v AND 0xFFF))"
  by (simp add: virt_to_phys_def translation_at Let_def)

lemma set_entry_fields [simp]:
  "g_kernel_page_directory (set_entry t i v s) = g_kernel_page_directory s"
  "g_table_for_dir (set_entry t i v s) = g_table_for_dir s"
  "g_tables_in_use (set_entry t i v s) = g_tables_in_use s"
  "g_paging_enabled (set_entry t i v s) = g_paging_enabled s"
  by (simp_all add: set_entry_def)

lemma set_entry_nth:
  assumes "length (g_page_tables s) = 64" and "t < 64" and "t' < 64"
  shows "g_page_tables (set_entry t i v s) ! t' = (if t' = t then (g_page_tables s ! t)[i := v] else g_page_tables s ! t')"
  using assms by (simp add: set_entry_def nth_list_update)

lemma set_entry_inv:
  assumes "vmm_inv pt s" and "t < 64"
  shows "vmm_inv pt (set_entry t i v s)"
  using assms unfolding vmm_inv_def set_entry_fields
  by (simp add: set_entry_def nth_list_update)

lemma set_entry_translation:
  assumes inv: "vmm_inv pt s" and d: "n < 1048576" and valid: "g_table_for_dir s ! (n div 1024) \<noteq> invalid_table_index"
  shows "translation (set_entry (unat (g_table_for_dir s ! (n div 1024))) (n mod 1024) v s) =
    (translation s)(n := if v AND 1 = 0 then None else Some v)"
proof
  fix k
  let ?t = "unat (g_table_for_dir s ! (n div 1024))"
  have nd: "n div 1024 < 1024" using d by simp
  note t = table_index_less(2) [OF inv nd valid]
  show "translation (set_entry ?t (n mod 1024) v s) k = ((translation s)(n := if v AND 1 = 0 then None else Some v)) k"
  proof (cases "k < 1048576 \<and> g_table_for_dir s ! (k div 1024) \<noteq> invalid_table_index")
    case True
    have kd: "k div 1024 < 1024" using True [THEN conjunct1] by simp
    note t' = table_index_less(2) [OF inv kd True [THEN conjunct2]]
    note nth = set_entry_nth [OF vmm_invD(3) [OF inv] t t']
    have iff: "k = n \<longleftrightarrow> unat (g_table_for_dir s ! (k div 1024)) = ?t \<and> k mod 1024 = n mod 1024"
      using table_index_inj [OF inv kd nd _ True [THEN conjunct2]]
      by (metis div_mult_mod_eq word_unat_eq_iff)
    show ?thesis
    proof (cases "unat (g_table_for_dir s ! (k div 1024)) = ?t")
      case eq: True
      then have "g_table_for_dir s ! (k div 1024) = g_table_for_dir s ! (n div 1024)"
        by (simp add: word_unat_eq_iff)
      then show ?thesis
        using True iff nth eq vmm_invD(4) [OF inv t]
        by (auto simp: translation_def Let_def nth_list_update)
    next
      case False
      then show ?thesis using True iff nth by (simp add: translation_def Let_def)
    qed
  next
    case False
    then show ?thesis using d valid by (auto simp: translation_def Let_def)
  qed
qed

subsection \<open>The operations\<close>

lemma alloc_page_table_full: "64 \<le> g_tables_in_use s \<Longrightarrow> alloc_page_table s = (s, None)"
  by (simp add: alloc_page_table_def)

text \<open>The state with table \<open>i = g_tables_in_use\<close> cleared and given to directory slot \<open>d\<close>.\<close>

definition install_table :: "u32 \<Rightarrow> nat \<Rightarrow> u32 \<Rightarrow> vmm \<Rightarrow> vmm" where
  "install_table pt d flags s =
     s\<lparr>g_page_tables := (g_page_tables s)[unat (g_tables_in_use s) := replicate 1024 0],
       g_tables_in_use := g_tables_in_use s + 1,
       g_table_for_dir := (g_table_for_dir s)[d := g_tables_in_use s],
       g_kernel_page_directory := (g_kernel_page_directory s)[d :=
         (table_addr pt (unat (g_tables_in_use s)) AND 0xFFFFF000) OR flags]\<rparr>"

lemma table_for_eq:
  "table_for pt v w u s =
     (if g_table_for_dir s ! dir_index v \<noteq> invalid_table_index
      then (s, Some (unat (g_table_for_dir s ! dir_index v)))
      else if 64 \<le> g_tables_in_use s then (s, None)
      else (install_table pt (dir_index v) (page_flags w u) s, Some (unat (g_tables_in_use s))))"
  by (simp add: table_for_def alloc_page_table_def install_table_def clear_page_table_def Let_def)

lemma install_table_facts:
  assumes inv: "vmm_inv pt s" and d: "d < 1024" and free: "g_table_for_dir s ! d = invalid_table_index"
    and room: "g_tables_in_use s < 64"
  shows "vmm_inv pt (install_table pt d (page_flags w u) s)"
    and "translation (install_table pt d (page_flags w u) s) = translation s"
proof -
  let ?s = "install_table pt d (page_flags w u) s"
  note [simp] = vmm_invD(1-3) [OF inv]
  let ?i = "g_tables_in_use s"
  have i: "unat ?i < 64" "?i \<noteq> invalid_table_index" "unat (?i + 1) = unat ?i + 1"
    using room by (auto simp: word_less_nat_alt invalid_table_index_def unat_word_ariths)
  have old: "g_table_for_dir s ! e < ?i" if "e < 1024" "g_table_for_dir s ! e \<noteq> invalid_table_index" for e
    using table_index_less(1) [OF inv that] .
  have dirs: "g_table_for_dir ?s ! e = (if e = d then ?i else g_table_for_dir s ! e)" if "e < 1024" for e
    using that d by (simp add: install_table_def nth_list_update)
  have pds: "g_kernel_page_directory ?s ! e = (if e = d then (table_addr pt (unat ?i) AND 0xFFFFF000) OR page_flags w u
      else g_kernel_page_directory s ! e)" if "e < 1024" for e
    using that d by (simp add: install_table_def nth_list_update)
  have used: "g_tables_in_use ?s = ?i + 1" by (simp add: install_table_def)
  have "g_table_for_dir ?s ! e < g_tables_in_use ?s"
    if "e < 1024" "g_table_for_dir ?s ! e \<noteq> invalid_table_index" for e
    using that old [OF that(1)] i unfolding used by (auto simp: dirs word_less_nat_alt split: if_splits)
  moreover have "e = e'" if "e < 1024" "e' < 1024" "g_table_for_dir ?s ! e = g_table_for_dir ?s ! e'"
    "g_table_for_dir ?s ! e \<noteq> invalid_table_index" for e e'
    using that old [of e] old [of e'] table_index_inj [OF inv that(1,2)]
    by (auto simp: dirs split: if_splits)
  moreover have "if g_table_for_dir ?s ! e = invalid_table_index then g_kernel_page_directory ?s ! e = 0
      else \<exists>w u. g_kernel_page_directory ?s ! e =
        (table_addr pt (unat (g_table_for_dir ?s ! e)) AND 0xFFFFF000) OR page_flags w u" if "e < 1024" for e
    using directory_entry [OF inv that] i that by (auto simp: dirs pds)
  moreover have "\<forall>t < 64. length (g_page_tables ?s ! t) = 1024"
    using vmm_invD(4) [OF inv] i by (simp add: install_table_def nth_list_update)
  moreover have "length (g_kernel_page_directory ?s) = 1024" "length (g_table_for_dir ?s) = 1024"
    "length (g_page_tables ?s) = 64" "g_tables_in_use ?s \<le> 64"
    using i by (simp_all add: install_table_def word_le_nat_alt)
  ultimately show "vmm_inv pt ?s" unfolding vmm_inv_def by blast
  show "translation ?s = translation s"
  proof
    fix n
    show "translation ?s n = translation s n"
    proof (cases "n < 1048576")
      case True
      then have n: "n div 1024 < 1024" by simp
      have "g_page_tables ?s ! unat (g_table_for_dir s ! (n div 1024)) = g_page_tables s ! unat (g_table_for_dir s ! (n div 1024))"
        if "g_table_for_dir s ! (n div 1024) \<noteq> invalid_table_index"
        using old [OF n that] by (simp add: install_table_def word_less_nat_alt)
      moreover have "g_page_tables ?s ! unat ?i = replicate 1024 0"
        using i by (simp add: install_table_def)
      ultimately show ?thesis
        using free by (cases "n div 1024 = d"; cases "g_table_for_dir s ! (n div 1024) = invalid_table_index")
          (simp_all add: translation_def Let_def dirs n)
    qed (simp add: translation_def)
  qed
qed

lemma flush_facts [simp]:
  "vmm_inv pt (flush_tlb_entry v s) = vmm_inv pt s"
  "translation (flush_tlb_entry v s) = translation s"
  "g_paging_enabled (flush_tlb_entry v s) = g_paging_enabled s"
  by (simp_all add: flush_tlb_entry_def vmm_inv_def translation_def fun_eq_iff Let_def)

text \<open>When \<open>map_page\<close> has no table left for the address.\<close>

definition map_page_full :: "u32 \<Rightarrow> vmm \<Rightarrow> bool" where
  "map_page_full v s \<longleftrightarrow> g_table_for_dir s ! dir_index v = invalid_table_index \<and> g_tables_in_use s = kMaxTables"

lemma map_page_fails:
  "vmm_inv pt s \<Longrightarrow> map_page_full v s \<Longrightarrow> map_page pt v p w u s = (s, False)"
  by (simp add: map_page_def table_for_eq map_page_full_def)

lemma map_page_succeeds:
  assumes inv: "vmm_inv pt s" and ok: "\<not> map_page_full v s" and eq: "map_page pt v p w u s = (s', r)"
  shows "r" and "vmm_inv pt s'"
    and "translation s' = (translation s)(unat v div 4096 \<mapsto> (p AND 0xFFFFF000) OR page_flags w u)"
proof -
  let ?n = "unat v div 4096"
  have room: "g_tables_in_use s < 64" if "g_table_for_dir s ! dir_index v = invalid_table_index"
    using that ok vmm_invD(5) [OF inv] by (auto simp: map_page_full_def)
  define s1 where "s1 = fst (table_for pt v w u s)"
  have s1: "vmm_inv pt s1" "translation s1 = translation s" "g_table_for_dir s1 ! dir_index v \<noteq> invalid_table_index"
    "table_for pt v w u s = (s1, Some (unat (g_table_for_dir s1 ! dir_index v)))"
  proof -
    show "vmm_inv pt s1" "translation s1 = translation s"
      using inv room install_table_facts [OF inv dir_index_less] by (auto simp: s1_def table_for_eq)
    have "g_tables_in_use s \<noteq> invalid_table_index" if "g_table_for_dir s ! dir_index v = invalid_table_index"
      using room [OF that] by (auto simp: invalid_table_index_def)
    then show "g_table_for_dir s1 ! dir_index v \<noteq> invalid_table_index"
      "table_for pt v w u s = (s1, Some (unat (g_table_for_dir s1 ! dir_index v)))"
      using room vmm_invD(2) [OF inv] by (auto simp: s1_def table_for_eq install_table_def)
  qed
  let ?e = "(p AND 0xFFFFF000) OR page_flags w u"
  let ?s2 = "set_entry (unat (g_table_for_dir s1 ! dir_index v)) (tbl_index v) ?e s1"
  have s': "s' = (if g_paging_enabled ?s2 then flush_tlb_entry v ?s2 else ?s2)" and "r"
    using eq s1(4) by (auto simp: map_page_def Let_def)
  then show r by simp
  have "vmm_inv pt ?s2"
    using table_index_less(2) [OF s1(1) dir_index_less s1(3)] s1(1) by (intro set_entry_inv)
  then show "vmm_inv pt s'" using s' by simp
  have "translation ?s2 = (translation s1)(?n := Some ?e)"
    using set_entry_translation [OF s1(1) page_number_less [of v], of ?e] s1(3)
    by (simp add: dir_index_div tbl_index_mod)
  then show "translation s' = (translation s)(?n \<mapsto> ?e)"
    using s' s1(2) by simp
qed

lemma unmap_page_eq:
  assumes inv: "vmm_inv pt s" and eq: "unmap_page v s = (s', r)"
  shows "r \<longleftrightarrow> translation s (unat v div 4096) \<noteq> None" and "vmm_inv pt s'"
    and "translation s' = (translation s)(unat v div 4096 := None)" and "\<not> r \<Longrightarrow> s' = s"
proof -
  let ?n = "unat v div 4096" and ?t = "g_table_for_dir s ! dir_index v"
  let ?s = "set_entry (unat ?t) (tbl_index v) 0 s"
  have present: "translation s ?n \<noteq> None \<longleftrightarrow> ?t \<noteq> invalid_table_index
      \<and> (g_page_tables s ! unat ?t ! tbl_index v) AND 1 \<noteq> 0"
    by (simp add: translation_at Let_def)
  have run: "(s', r) = (if translation s ?n = None then (s, False)
      else (if g_paging_enabled ?s then flush_tlb_entry v ?s else ?s, True))"
    unfolding eq [symmetric] unmap_page_def Let_def using present by auto
  then show "r \<longleftrightarrow> translation s ?n \<noteq> None" "\<not> r \<Longrightarrow> s' = s" by (auto split: if_splits)
  have clear: "vmm_inv pt ?s" "translation ?s = (translation s)(?n := None)" if "translation s ?n \<noteq> None"
  proof -
    from that present have valid: "?t \<noteq> invalid_table_index" by simp
    show "vmm_inv pt ?s"
      using table_index_less(2) [OF inv dir_index_less valid] inv by (intro set_entry_inv)
    show "translation ?s = (translation s)(?n := None)"
      using set_entry_translation [OF inv page_number_less [of v], of 0] valid
      by (simp add: dir_index_div tbl_index_mod)
  qed
  show "vmm_inv pt s'" "translation s' = (translation s)(?n := None)"
    using run clear inv by (auto split: if_splits simp: fun_upd_idem)
qed

subsection \<open>Initialisation\<close>

definition tables_shape :: "vmm \<Rightarrow> bool" where
  "tables_shape s \<longleftrightarrow> length (g_page_tables s) = 64 \<and> (\<forall>t < 64. length (g_page_tables s ! t) = 1024)"

lemma vmm_clear_inv: "tables_shape s \<Longrightarrow> vmm_inv pt (vmm_clear pd s) \<and> translation (vmm_clear pd s) = Map.empty"
  by (auto simp: vmm_inv_def vmm_clear_def tables_shape_def translation_def Let_def)

text \<open>
  After the pages below \<open>k\<close>, slots up to the last one reached have tables, in order, and the rest
  have none, so the pool never runs out.
\<close>

definition init_upto :: "nat \<Rightarrow> vmm \<Rightarrow> bool" where
  "init_upto k s \<longleftrightarrow> unat (g_tables_in_use s) = (k + 1023) div 1024
     \<and> (\<forall>d < 1024. g_table_for_dir s ! d = invalid_table_index \<longleftrightarrow> (k + 1023) div 1024 \<le> d)"

definition identity_map :: "nat \<Rightarrow> nat \<Rightarrow> u32 option" where
  "identity_map k n = (if n < k then Some ((of_nat n * 4096 AND 0xFFFFF000) OR page_flags True False) else None)"

lemma map_page_used:
  assumes inv: "vmm_inv pt s" and eq: "map_page pt v p w u s = (s', r)" and r
  shows "unat (g_tables_in_use s') = (if g_table_for_dir s ! dir_index v = invalid_table_index
      then unat (g_tables_in_use s) + 1 else unat (g_tables_in_use s))"
    and "d \<noteq> dir_index v \<Longrightarrow> g_table_for_dir s' ! d = g_table_for_dir s ! d"
    and "g_table_for_dir s' ! dir_index v \<noteq> invalid_table_index"
proof -
  obtain s1 t where s1: "table_for pt v w u s = (s1, Some t)"
    using eq \<open>r\<close> by (auto simp: map_page_def split: prod.splits option.splits)
  have s': "g_tables_in_use s' = g_tables_in_use s1" "g_table_for_dir s' = g_table_for_dir s1"
    using eq s1 by (auto simp: map_page_def Let_def flush_tlb_entry_def split: if_splits)
  have less: "g_tables_in_use s < 64" if "g_table_for_dir s ! dir_index v = invalid_table_index"
    using that s1 vmm_invD(5) [OF inv] by (auto simp: table_for_eq split: if_splits)
  have inc: "unat (g_tables_in_use s + 1) = unat (g_tables_in_use s) + 1" "g_tables_in_use s \<noteq> invalid_table_index"
    if "g_tables_in_use s < 64"
    using that by (auto simp: word_less_nat_alt unat_word_ariths invalid_table_index_def)
  with less show "unat (g_tables_in_use s') = (if g_table_for_dir s ! dir_index v = invalid_table_index
      then unat (g_tables_in_use s) + 1 else unat (g_tables_in_use s))"
    using s1 s' by (auto simp: table_for_eq install_table_def split: if_splits)
  show "d \<noteq> dir_index v \<Longrightarrow> g_table_for_dir s' ! d = g_table_for_dir s ! d"
    using s1 s' by (auto simp: table_for_eq install_table_def split: if_splits)
  show "g_table_for_dir s' ! dir_index v \<noteq> invalid_table_index"
    using s1 s' less inc vmm_invD(2) [OF inv] by (auto simp: table_for_eq install_table_def split: if_splits)
qed

lemma unat_page_addr: "k < 1048576 \<Longrightarrow> unat (of_nat k * 4096 :: u32) = k * 4096"
  by (simp add: unat_word_ariths)

lemma init_step:
  assumes k: "k < 16384" and inv: "vmm_inv pt s" and upto: "init_upto k s" and tr: "translation s = identity_map k"
    and s': "s' = fst (map_page pt (of_nat k * 4096) (of_nat k * 4096) True False s)"
  shows "vmm_inv pt s' \<and> init_upto (Suc k) s' \<and> translation s' = identity_map (Suc k)"
proof -
  let ?v = "of_nat k * 4096 :: u32"
  obtain r where eq: "map_page pt ?v ?v True False s = (s', r)"
    using s' by (metis prod.collapse)
  have d: "dir_index ?v = k div 1024" using k by (simp add: dir_index_div unat_page_addr)
  have "(k + 1023) div 1024 \<le> 16" using k by simp
  then have "g_tables_in_use s \<noteq> 64" using upto by (auto simp: init_upto_def)
  then have "\<not> map_page_full ?v s" by (simp add: map_page_full_def)
  note ok = map_page_succeeds [OF inv this eq]
  note used = map_page_used [OF inv eq ok(1)]
  have tr': "translation s' = identity_map (Suc k)"
    using ok(3) tr k by (auto simp: identity_map_def unat_page_addr less_Suc_eq)
  have kd: "k div 1024 < 1024" using k by simp
  then have slot: "g_table_for_dir s ! (k div 1024) = invalid_table_index \<longleftrightarrow> (k + 1023) div 1024 \<le> k div 1024"
    using upto by (simp add: init_upto_def)
  have "Suc k + 1023 = k + 1024" by simp
  then have next_k: "(Suc k + 1023) div 1024 = k div 1024 + 1" by (simp only: div_add_self2)
  have ceil: "(k + 1023) div 1024 = (if k mod 1024 = 0 then k div 1024 else k div 1024 + 1)"
    using ceil_div [of 1024 k] by simp
  have "unat (g_tables_in_use s') = k div 1024 + 1"
    using used(1) upto slot ceil by (simp add: init_upto_def d)
  moreover have "g_table_for_dir s' ! e = invalid_table_index \<longleftrightarrow> k div 1024 + 1 \<le> e" if "e < 1024" for e
  proof (cases "e = k div 1024")
    case True
    then show ?thesis using used(3) d by simp
  next
    case False
    then have "g_table_for_dir s' ! e = g_table_for_dir s ! e" using used(2) d by simp
    then show ?thesis using that False upto ceil by (auto simp: init_upto_def)
  qed
  ultimately have "init_upto (Suc k) s'" unfolding init_upto_def next_k by simp
  then show ?thesis using ok(2) tr' by blast
qed

lemma init_loop:
  assumes "tables_shape s" and "k \<le> 16384"
    and t_def: "t = fold (\<lambda>n s. fst (map_page pt (of_nat n * 4096) (of_nat n * 4096) True False s)) [0..<k] (vmm_clear pd s)"
  shows "vmm_inv pt t \<and> init_upto k t \<and> translation t = identity_map k"
  using assms(2) unfolding t_def
proof (induction k)
  case 0
  then show ?case
    using vmm_clear_inv [OF assms(1), of pt pd]
    by (auto simp: init_upto_def identity_map_def vmm_clear_def)
next
  case (Suc k)
  let ?f = "\<lambda>n s. fst (map_page pt (of_nat n * 4096) (of_nat n * 4096) True False s)"
  have step: "fold ?f [0..<Suc k] (vmm_clear pd s) = ?f k (fold ?f [0..<k] (vmm_clear pd s))"
    by simp
  show ?case
    unfolding step using Suc.IH Suc.prems by (intro init_step [OF _ _ _ _ refl]) simp_all
qed

subsection \<open>The walk of the processor\<close>

lemma unat_page_mask: "unat ((w :: u32) AND 0xFFFFF000) = unat w div 4096 * 4096"
proof -
  have "(0xFFFFF000 :: u32) = NOT (2 ^ 12 - 1)" by simp
  then have "unat (w AND 0xFFFFF000) = unat w div 2 ^ 12 * 2 ^ 12"
    using unat_and_not_low_bits [of w 12] by (simp only:)
  then show ?thesis by simp
qed

lemma table_addr_back:
  assumes "pt mod 4096 = 0" and "unat pt + 64 * 4096 \<le> 2 ^ 32" and "t < 64"
  shows "unat (((table_addr pt t AND 0xFFFFF000) - pt) div 4096) = t"
proof -
  have u: "unat (table_addr pt t) = unat pt + t * 4096"
    using assms(2,3) by (simp add: table_addr_def unat_word_ariths)
  have "unat (pt mod 4096) = 0" using assms(1) by simp
  then have "unat pt mod 4096 = 0" by (simp add: unat_mod)
  then have a: "unat (table_addr pt t AND 0xFFFFF000) = unat pt + t * 4096"
    unfolding unat_page_mask u by (simp add: mod_0_imp_dvd)
  then have "unat ((table_addr pt t AND 0xFFFFF000) - pt) = t * 4096"
    by (subst unat_sub) (simp_all add: word_le_nat_alt)
  then show ?thesis by (simp add: unat_div)
qed

lemma mmu_walk_translation:
  assumes inv: "vmm_inv pt s" and "pt mod 4096 = 0" and "unat pt + 64 * 4096 \<le> 2 ^ 32"
  shows "mmu_walk pt s v = map_option (\<lambda>pte. (pte AND 0xFFFFF000) OR (v AND 0xFFF)) (translation s (unat v div 4096))"
proof (cases "g_table_for_dir s ! dir_index v = invalid_table_index")
  case True
  then show ?thesis
    using directory_entry [OF inv dir_index_less [of v]]
    by (simp add: mmu_walk_def Let_def translation_at)
next
  case False
  then obtain w u where pde: "g_kernel_page_directory s ! dir_index v =
      (table_addr pt (unat (g_table_for_dir s ! dir_index v)) AND 0xFFFFF000) OR page_flags w u"
    using directory_entry [OF inv dir_index_less [of v]] by auto
  have "unat (g_table_for_dir s ! dir_index v) < 64"
    using False by (intro table_index_less(2) [OF inv]) simp_all
  note num = table_addr_back [OF assms(2,3) this]
  show ?thesis
    using False num by (simp add: mmu_walk_def Let_def pde translation_at)
qed

subsection \<open>The mapper as the interface\<close>

interpretation vmm_pages: page_mapper "\<lambda>v p. map_page pt v p w u" "vmm_inv pt" page_frame
proof unfold_locales
  fix s v p s'
  assume inv: "vmm_inv pt s"
  show "vmm_inv pt s' \<and> page_frame s' = (page_frame s)(unat v div 4096 \<mapsto> p AND 0xFFFFF000)"
    if m: "map_page pt v p w u s = (s', True)"
  proof -
    have "\<not> map_page_full v s" using m map_page_fails [OF inv] by auto
    note ok = map_page_succeeds [OF inv this m]
    then show ?thesis by (simp add: page_frame_def fun_eq_iff)
  qed
  show "s' = s" if m: "map_page pt v p w u s = (s', False)"
    using m map_page_fails [OF inv, of v p w u] map_page_succeeds(1) [OF inv _ m]
    by (cases "map_page_full v s") simp_all
qed

lemma fold_region:
  fixes v p :: u32
  assumes "unat v mod 4096 = 0" and "unat p mod 4096 = 0"
    and "unat v + n * 4096 \<le> 2 ^ 32" and "unat p + n * 4096 \<le> 2 ^ 32"
  shows "fold (\<lambda>i g. g(unat (v + of_nat i * 4096) div 4096 \<mapsto> (p + of_nat i * 4096) AND 0xFFFFF000)) [0..<n] g k =
    (if unat v div 4096 \<le> k \<and> k < unat v div 4096 + n then Some (p + of_nat (k - unat v div 4096) * 4096) else g k)"
  using assms(3,4)
proof (induction n)
  case 0
  then show ?case by auto
next
  case (Suc n)
  have v: "unat (v + of_nat n * 4096) = unat v + n * 4096" and p: "unat (p + of_nat n * 4096) = unat p + n * 4096"
    using Suc.prems by (simp_all add: unat_word_ariths)
  have "unat (v + of_nat n * 4096) div 4096 = unat v div 4096 + n" unfolding v by simp
  moreover have "(p + of_nat n * 4096) AND 0xFFFFF000 = p + of_nat n * 4096"
    unfolding word_unat_eq_iff unat_page_mask p using assms(2) by (simp add: mod_0_imp_dvd)
  ultimately show ?case
    using Suc by auto
qed


section \<open>Properties\<close>

definition vmm_zero :: vmm where
  "vmm_zero = \<lparr>g_kernel_page_directory = replicate 1024 0, g_page_tables = replicate 64 (replicate 1024 0),
     g_table_for_dir = replicate 1024 0, g_tables_in_use = 0, g_paging_enabled = False,
     g_current_page_directory = 0, cr0 = 0, cr3 = 0, flushed = []\<rparr>"

lemma vmm_zero_shape: "tables_shape vmm_zero"
  by (simp add: tables_shape_def vmm_zero_def)

lemma vmm_clear_zero_inv: "vmm_inv pt (vmm_clear pd vmm_zero)"
  using vmm_clear_inv [OF vmm_zero_shape] by blast

lemma vmm_clear_zero_room: "\<not> map_page_full v (vmm_clear pd vmm_zero)"
  by (simp add: map_page_full_def vmm_clear_def)

text \<open>
  C29. \<open>map_page\<close> implements the update of a finite map from page numbers to page table entries: it
  fails, changing nothing, exactly when the address needs a new table and the pool of 64
  is used up, and otherwise maps that one page with the given flags and keeps the
  invariant of the tables; \<open>unmap_page\<close> removes the page and reports whether it was present.
\<close>

theorem map_unmap_refine_map:
  assumes "vmm_inv pt s"
  shows "(if map_page_full v s then map_page pt v p w u s = (s, False)
      else \<exists>s'. map_page pt v p w u s = (s', True) \<and> vmm_inv pt s'
        \<and> translation s' = (translation s)(unat v div 4096 \<mapsto> (p AND 0xFFFFF000) OR page_flags w u))
    \<and> (\<exists>s' r. unmap_page v s = (s', r) \<and> vmm_inv pt s' \<and> (r \<longleftrightarrow> translation s (unat v div 4096) \<noteq> None)
        \<and> translation s' = (translation s)(unat v div 4096 := None))"
proof -
  obtain s1 r1 where m: "map_page pt v p w u s = (s1, r1)" by fastforce
  obtain s2 r2 where un: "unmap_page v s = (s2, r2)" by fastforce
  show ?thesis
    using map_page_fails [OF assms] map_page_succeeds [OF assms _ m] m
      unmap_page_eq [OF assms un] un by auto
qed

theorem map_unmap_refine_map_witness:
  "\<exists>s'. map_page 0x200000 0xC0001000 0x00105000 True False (vmm_clear 0x1FF000 vmm_zero) = (s', True)
     \<and> vmm_inv 0x200000 s'"
  using map_unmap_refine_map [OF vmm_clear_zero_inv [of "0x200000" "0x1FF000"], where
      v = "0xC0001000" and p = "0x00105000" and w = True and u = False]
    vmm_clear_zero_room by auto

text \<open>
  After a successful \<open>map_page\<close>, every address of the page translates to the same offset of
  the frame, and every address of another page translates as before.
\<close>

theorem map_page_virt_to_phys:
  assumes "vmm_inv pt s" and "map_page pt v p w u s = (s', True)"
  shows "virt_to_phys a s' = (if unat a div 4096 = unat v div 4096
    then (p AND 0xFFFFF000) OR (a AND 0xFFF) else virt_to_phys a s)"
proof -
  have "\<not> map_page_full v s" using assms map_page_fails by fastforce
  from map_page_succeeds(3) [OF assms(1) this assms(2)] show ?thesis
    by (simp add: virt_to_phys_translation)
qed

theorem map_page_virt_to_phys_witness:
  "virt_to_phys 0xC0001234 (fst (map_page 0x200000 0xC0001000 0x00105000 True False (vmm_clear 0x1FF000 vmm_zero)))
     = 0x00105234"
proof -
  obtain s' r where m: "map_page 0x200000 0xC0001000 0x00105000 True False (vmm_clear 0x1FF000 vmm_zero) = (s', r)"
    by fastforce
  with map_page_succeeds(1) [OF vmm_clear_zero_inv vmm_clear_zero_room m] have r by simp
  with m map_page_virt_to_phys [OF vmm_clear_zero_inv, where s' = s' and a = "0xC0001234"]
  show ?thesis by auto
qed

text \<open>
  The processor's walk over the page directory finds for every address exactly what the
  code's own lookup finds: a page the walk does not find translates to zero, and a page it
  finds translates to the address it computes.
\<close>

theorem mmu_walk_agrees:
  assumes "vmm_inv pt s" and "pt mod 4096 = 0" and "unat pt + 64 * 4096 \<le> 2 ^ 32"
  shows "virt_to_phys v s = (case mmu_walk pt s v of None \<Rightarrow> 0 | Some a \<Rightarrow> a)"
  by (simp add: mmu_walk_translation [OF assms] virt_to_phys_translation split: option.split)

theorem mmu_walk_agrees_witness:
  "virt_to_phys 0x1234 (vmm_clear 0x1FF000 vmm_zero) =
     (case mmu_walk 0x200000 (vmm_clear 0x1FF000 vmm_zero) 0x1234 of None \<Rightarrow> 0 | Some a \<Rightarrow> a)"
  by (rule mmu_walk_agrees [OF vmm_clear_zero_inv]) simp_all

text \<open>
  \<open>init\<close> establishes the invariant, maps every address of the first 64 MiB to itself and no
  other address, and uses 16 of the 64 tables.
\<close>

theorem vmm_init_identity:
  assumes "tables_shape s"
  shows "vmm_inv pt (vmm_init pd pt s) \<and> g_tables_in_use (vmm_init pd pt s) = 16
    \<and> virt_to_phys a (vmm_init pd pt s) = (if a < 0x04000000 then a else 0)"
proof -
  have i: "vmm_inv pt (vmm_init pd pt s)" "init_upto 16384 (vmm_init pd pt s)"
    "translation (vmm_init pd pt s) = identity_map 16384"
    using init_loop [OF assms order.refl vmm_init_def] by blast+
  have a: "(of_nat (unat a div 4096) * 4096 :: u32) AND 0xFFFFF000 = a AND 0xFFFFF000"
    using page_number_less [of a]
    by (simp add: word_unat_eq_iff unat_page_mask unat_page_addr)
  have "virt_to_phys a (vmm_init pd pt s) = (if unat a div 4096 < 16384 then a else 0)"
    unfolding virt_to_phys_translation i(3) by (simp add: identity_map_def a page_split)
  moreover have "unat a div 4096 < 16384 \<longleftrightarrow> a < 0x04000000"
    by (simp add: word_less_nat_alt div_less_iff_less_mult)
  moreover have "g_tables_in_use (vmm_init pd pt s) = 16"
    using i(2) by (simp add: init_upto_def word_unat_eq_iff)
  ultimately show ?thesis using i(1) by simp
qed

theorem vmm_init_identity_witness:
  "virt_to_phys 0x00ABCDEF (vmm_init 0x1FF000 0x200000 vmm_zero) = 0x00ABCDEF"
  using vmm_init_identity [OF vmm_zero_shape, of "0x200000" "0x1FF000" "0x00ABCDEF"] by simp

text \<open>
  When the loop that maps a device region succeeds, the \<open>n\<close> pages from the virtual address
  lie on the \<open>n\<close> frames from the physical address in order, and all other pages are as before.
\<close>

theorem map_region_consecutive:
  assumes "vmm_inv pt s" and "map_region (\<lambda>v p. map_page pt v p True False) v p [0..<n] s = (s', True)"
    and "unat v mod 4096 = 0" and "unat p mod 4096 = 0"
    and "unat v + n * 4096 \<le> 2 ^ 32" and "unat p + n * 4096 \<le> 2 ^ 32"
  shows "vmm_inv pt s' \<and> page_frame s' k = (if unat v div 4096 \<le> k \<and> k < unat v div 4096 + n
    then Some (p + of_nat (k - unat v div 4096) * 4096) else page_frame s k)"
  using vmm_pages.map_region_inv [OF assms(1,2)] vmm_pages.map_region_frames [OF assms(1,2)]
    fold_region [OF assms(3-6), of "page_frame s" k] by simp

theorem map_region_consecutive_witness:
  "\<exists>s'. map_region (\<lambda>v p. map_page 0x200000 v p True False) 0xD0000000 0xFEB00000 [0..<1]
       (vmm_clear 0x1FF000 vmm_zero) = (s', True) \<and> page_frame s' 0xD0000 = Some 0xFEB00000"
proof -
  obtain s' r where m: "map_page 0x200000 0xD0000000 0xFEB00000 True False (vmm_clear 0x1FF000 vmm_zero) = (s', r)"
    by fastforce
  with map_page_succeeds(1) [OF vmm_clear_zero_inv vmm_clear_zero_room m]
  have m': "map_region (\<lambda>v p. map_page 0x200000 v p True False) 0xD0000000 0xFEB00000 [0..<1]
      (vmm_clear 0x1FF000 vmm_zero) = (s', True)" by simp
  from map_region_consecutive [OF vmm_clear_zero_inv m', of "0xD0000"] m' show ?thesis by simp
qed

end
