(* ===== verification/Heap.thy ===== *)
theory Heap
  imports Vmm
begin

text \<open>
  The kernel heap, \<open>src/kernel/mm/heap.cpp\<close>, and the C++ allocation operators on it,
  \<open>src/kernel/mm/new_delete.cpp\<close>. The heap lives in raw memory: a free block starts with
  its size and the address of the next free block, an allocated block with a header of
  four words. The state \<open>mm\<close> holds the heap's variables, the memory, and the physical and the
  virtual memory manager that supply its pages. An address of zero is the null pointer.
  The loops that follow the free list are partial functions: \<open>None\<close> is a list that never ends.

  The lemmas show that the list in memory implements a sorted list of free blocks in which
  neighbours are merged, that allocation returns memory disjoint from every block in use
  and from the free list, that freeing gives a block back, and that neither touches the
  contents of another block.
\<close>


section \<open>Definitions\<close>

abbreviation (input) kHeapHeaderMagic :: u32 where "kHeapHeaderMagic \<equiv> 0x57485245"

record mm =
  g_heap_start :: u32
  g_heap_limit :: u32
  g_heap_break :: u32
  g_heap_mapped_end :: u32
  g_free_list :: u32
  g_heap_active_bytes :: u32
  frames :: pmm
  pages :: vmm
  ram :: mem

definition map_next_heap_page :: "u32 \<Rightarrow> mm \<Rightarrow> mm \<times> bool" where
  "map_next_heap_page pt_addr s =
     (if g_heap_limit s \<le> g_heap_mapped_end s then (s, False)
      else case alloc_frame (frames s) of (fr, frame) \<Rightarrow>
        if frame = 0 then (s\<lparr>frames := fr\<rparr>, False)
        else case map_page pt_addr (g_heap_mapped_end s) frame True False (pages s) of (pg, ok) \<Rightarrow>
          if \<not> ok then (s\<lparr>frames := free_frame frame fr, pages := pg\<rparr>, False)
          else (s\<lparr>frames := fr, pages := pg, g_heap_mapped_end := g_heap_mapped_end s + 4096\<rparr>, True))"

definition heap_align_up :: "u32 \<Rightarrow> u32 \<Rightarrow> u32" where
  "heap_align_up value alignment =
     (let a = (if alignment = 0 then 1 else alignment) in (value + a - 1) AND NOT (a - 1))"

text \<open>The fields of a free block and of a block header in memory.\<close>

definition fb_size :: "mem \<Rightarrow> u32 \<Rightarrow> u32" where
  "fb_size m a = read32 m a"

definition fb_next :: "mem \<Rightarrow> u32 \<Rightarrow> u32" where
  "fb_next m a = read32 m (a + 4)"

definition set_size :: "u32 \<Rightarrow> u32 \<Rightarrow> mem \<Rightarrow> mem" where
  "set_size a v m = write32 a v m"

definition set_next :: "u32 \<Rightarrow> u32 \<Rightarrow> mem \<Rightarrow> mem" where
  "set_next a v m = write32 (a + 4) v m"

definition write_header :: "u32 \<Rightarrow> u32 \<Rightarrow> u32 \<Rightarrow> u32 \<Rightarrow> u32 \<Rightarrow> mem \<Rightarrow> mem" where
  "write_header a block_start block_size payload_size magic m =
     write32 (a + 12) magic (write32 (a + 8) payload_size (write32 (a + 4) block_size (write32 a block_start m)))"

text \<open>\<open>insert_free_block\<close>: the walk to the insertion point, and the insertion with its two merges.\<close>

partial_function (option) insert_walk :: "mem \<Rightarrow> u32 \<Rightarrow> u32 \<Rightarrow> u32 \<Rightarrow> (u32 \<times> u32) option" where
  "insert_walk m start prev cur =
     (if cur \<noteq> 0 \<and> cur < start then insert_walk m start cur (fb_next m cur) else Some (prev, cur))"

definition link_block :: "u32 \<Rightarrow> u32 \<Rightarrow> u32 \<Rightarrow> mem \<times> u32 \<Rightarrow> mem \<times> u32" where
  "link_block start prev cur = (\<lambda>(m, fl).
     let m = set_next start cur m
     in if prev = 0 then (m, start) else (set_next prev start m, fl))"

definition merge_prev :: "u32 \<Rightarrow> u32 \<Rightarrow> mem \<Rightarrow> mem \<times> u32" where
  "merge_prev start prev m =
     (if prev \<noteq> 0 \<and> prev + fb_size m prev = start then
        let m = set_size prev (fb_size m prev + fb_size m start) m
        in (set_next prev (fb_next m start) m, prev)
      else (m, start))"

definition merge_next :: "u32 \<Rightarrow> mem \<Rightarrow> mem" where
  "merge_next node m =
     (let cur = fb_next m node in
      if cur \<noteq> 0 \<and> node + fb_size m node = cur then
        let m = set_size node (fb_size m node + fb_size m cur) m
        in set_next node (fb_next m cur) m
      else m)"

definition insert_free_block :: "u32 \<Rightarrow> u32 \<Rightarrow> mem \<times> u32 \<Rightarrow> (mem \<times> u32) option" where
  "insert_free_block start sz = (\<lambda>(m, fl).
     if sz < 8 then Some (m, fl)
     else let m = set_next start 0 (set_size start sz m) in
       map_option (\<lambda>(prev, cur).
         case link_block start prev cur (m, fl) of (m, fl) \<Rightarrow>
         case merge_prev start prev m of (m, node) \<Rightarrow> (merge_next node m, fl))
       (insert_walk m start 0 fl))"

text \<open>
  The arithmetic of \<open>allocate_from_free_list\<close> for one free block: where the header, the
  payload and the end of the allocation come to lie, and what is left before and after;
  \<open>None\<close> when the loop goes on to the next block.
\<close>

definition place_header :: "u32 \<Rightarrow> u32 \<Rightarrow> u32 \<times> u32" where
  "place_header start alignment =
     (let header = heap_align_up (start + 16) alignment;
          header = (if header < start then start else header);
          payload = heap_align_up (header + 16) alignment in
      if payload < header + 16
      then (heap_align_up (start + 16) alignment - 16, heap_align_up (start + 16) alignment)
      else (header, payload))"

definition fit_block :: "u32 \<Rightarrow> u32 \<Rightarrow> u32 \<Rightarrow> u32 \<Rightarrow> (u32 \<times> u32 \<times> u32 \<times> u32 \<times> u32) option" where
  "fit_block start end sz alignment =
     (case place_header start alignment of (header, payload) \<Rightarrow>
      if header < start \<or> end < payload + sz then None
      else let alloc_end = payload + sz; prefix_size = header - start; suffix_size = end - alloc_end in
        (if 0 < prefix_size \<and> prefix_size < 8 then
           let payload = heap_align_up (start + 16) alignment; alloc_end = payload + sz in
           if end < alloc_end then None else Some (start, payload, alloc_end, 0, end - alloc_end)
         else Some (header, payload, alloc_end, prefix_size, suffix_size)) \<bind>
        (\<lambda>(header, payload, alloc_end, prefix_size, suffix_size).
           if 0 < suffix_size \<and> suffix_size < 8 then Some (header, payload, end, prefix_size, 0)
           else Some (header, payload, alloc_end, prefix_size, suffix_size)))"

text \<open>The rest of the loop body: unlink the block, give back what is left, write the header.\<close>

definition carve_block ::
  "u32 \<Rightarrow> u32 \<Rightarrow> u32 \<Rightarrow> u32 \<times> u32 \<times> u32 \<times> u32 \<times> u32 \<Rightarrow> mm \<Rightarrow> (mm \<times> u32) option" where
  "carve_block sz prev cur = (\<lambda>(header, payload, alloc_end, prefix_size, suffix_size) s.
     let next = fb_next (ram s) cur;
         mf = (if prev = 0 then (ram s, next) else (set_next prev next (ram s), g_free_list s)) in
     (if 8 \<le> prefix_size then insert_free_block cur prefix_size mf else Some mf) \<bind>
     (\<lambda>mf. if 8 \<le> suffix_size then insert_free_block alloc_end suffix_size mf else Some mf) \<bind>
     (\<lambda>(m, fl). Some (s\<lparr>ram := write_header header header (alloc_end - header) sz kHeapHeaderMagic m,
        g_free_list := fl, g_heap_active_bytes := g_heap_active_bytes s + sz\<rparr>, payload)))"

partial_function (option) free_list_walk :: "u32 \<Rightarrow> u32 \<Rightarrow> u32 \<Rightarrow> u32 \<Rightarrow> mm \<Rightarrow> (mm \<times> u32) option" where
  "free_list_walk sz alignment prev cur s =
     (if cur = 0 then Some (s, 0)
      else case fit_block cur (cur + fb_size (ram s) cur) sz alignment of
        None \<Rightarrow> free_list_walk sz alignment cur (fb_next (ram s) cur) s
      | Some place \<Rightarrow> carve_block sz prev cur place s)"

definition allocate_from_free_list :: "u32 \<Rightarrow> u32 \<Rightarrow> mm \<Rightarrow> (mm \<times> u32) option" where
  "allocate_from_free_list sz alignment s = free_list_walk sz alignment 0 (g_free_list s) s"

partial_function (option) map_heap_until :: "u32 \<Rightarrow> u32 \<Rightarrow> mm \<Rightarrow> (mm \<times> bool) option" where
  "map_heap_until pt_addr alloc_end s =
     (if g_heap_mapped_end s < alloc_end then
        case map_next_heap_page pt_addr s of (s', ok) \<Rightarrow>
          if ok then map_heap_until pt_addr alloc_end s' else Some (s', False)
      else Some (s, True))"

definition allocate_from_bump :: "u32 \<Rightarrow> u32 \<Rightarrow> u32 \<Rightarrow> mm \<Rightarrow> (mm \<times> u32) option" where
  "allocate_from_bump pt_addr sz alignment s =
     (case place_header (g_heap_break s) alignment of (header, payload) \<Rightarrow>
      let alloc_end = payload + sz in
      if alloc_end < payload \<or> g_heap_limit s < alloc_end then Some (s, 0)
      else map_heap_until pt_addr alloc_end s \<bind> (\<lambda>(s, ok).
        if \<not> ok then Some (s, 0)
        else Some (s\<lparr>g_heap_break := alloc_end,
          ram := write_header header header (alloc_end - header) sz kHeapHeaderMagic (ram s),
          g_heap_active_bytes := g_heap_active_bytes s + sz\<rparr>, payload)))"

definition heap_init :: "u32 \<Rightarrow> u32 \<Rightarrow> mm \<Rightarrow> mm" where
  "heap_init heap_start heap_limit s =
     (let start = heap_align_up heap_start 4096; limit = heap_align_up heap_limit 4096;
          limit = (if limit \<le> start then start else limit) in
      s\<lparr>g_heap_start := start, g_heap_limit := limit, g_heap_break := start,
        g_heap_mapped_end := start, g_free_list := 0, g_heap_active_bytes := 0\<rparr>)"

definition heap_alloc :: "u32 \<Rightarrow> u32 \<Rightarrow> u32 \<Rightarrow> mm \<Rightarrow> (mm \<times> u32) option" where
  "heap_alloc pt_addr sz alignment s =
     (if sz = 0 then Some (s, 0)
      else let alignment = (if alignment = 0 then 1 else alignment) in
        allocate_from_free_list sz alignment s \<bind> (\<lambda>(s, ptr).
          if ptr \<noteq> 0 then Some (s, ptr) else allocate_from_bump pt_addr sz alignment s))"

definition heap_free :: "u32 \<Rightarrow> mm \<Rightarrow> mm option" where
  "heap_free ptr s =
     (if ptr = 0 then Some s
      else let header = ptr - 16 in
        if read32 (ram s) (header + 12) \<noteq> kHeapHeaderMagic then Some s
        else let payload_size = read32 (ram s) (header + 8);
                 active = (if payload_size \<le> g_heap_active_bytes s then g_heap_active_bytes s - payload_size else 0);
                 m = write32 (header + 12) 0 (ram s) in
          map_option (\<lambda>(m, fl). s\<lparr>g_heap_active_bytes := active, ram := m, g_free_list := fl\<rparr>)
            (insert_free_block (read32 m header) (read32 m (header + 4)) (m, g_free_list s)))"

definition mapped_bytes :: "mm \<Rightarrow> u32" where
  "mapped_bytes s = g_heap_mapped_end s - g_heap_start s"

definition used_bytes :: "mm \<Rightarrow> u32" where
  "used_bytes s = g_heap_active_bytes s"

definition operator_new :: "u32 \<Rightarrow> u32 \<Rightarrow> mm \<Rightarrow> (mm \<times> u32) option" where
  "operator_new pt_addr sz s = heap_alloc pt_addr sz 16 s"

definition operator_delete :: "u32 \<Rightarrow> mm \<Rightarrow> mm option" where
  "operator_delete ptr s = heap_free ptr s"

text \<open>
  Two clients of the heap and the virtual memory manager: the copy of the kernel's page
  directory that a new address space starts from (\<open>vmm.cpp\<close>), and the drivers' mapping of
  device registers over pages taken from the heap (\<open>nvme.cpp\<close>).
\<close>

definition create_kernel_clone_address_space :: "u32 \<Rightarrow> mm \<Rightarrow> (mm \<times> u32) option" where
  "create_kernel_clone_address_space pt_addr s =
     heap_alloc pt_addr 4096 4096 s \<bind> (\<lambda>(s, clone_pd).
       if clone_pd = 0 then Some (s, 0)
       else Some (s\<lparr>ram := fold (\<lambda>i. write32 (clone_pd + of_nat i * 4) (g_kernel_page_directory (pages s) ! i))
         [0..<1024] (ram s)\<rparr>, clone_pd))"

definition map_physical_region :: "u32 \<Rightarrow> u64 \<Rightarrow> u32 \<Rightarrow> mm \<Rightarrow> (mm \<times> u32) option" where
  "map_physical_region pt_addr phys sz s =
     (let page_count = (sz + 4095) div 4096 in
      heap_alloc pt_addr (page_count * 4096) 4096 s \<bind> (\<lambda>(s, virt).
        if virt = 0 then Some (s, 0)
        else case map_region (\<lambda>v p. map_page pt_addr v p True False) virt (ucast (phys AND NOT 4095))
               [0..<unat page_count] (pages s) of
          (pg, ok) \<Rightarrow> Some (s\<lparr>pages := pg\<rparr>, if ok then virt else 0)))"

text \<open>
  The free list as a list of blocks: a segment of the chain in memory from \<open>a\<close> to \<open>c\<close>, blocks in
  address order within bounds and with a gap between neighbours, and the bytes they cover.
\<close>

fun fseg :: "mem \<Rightarrow> u32 \<Rightarrow> (u32 \<times> u32) list \<Rightarrow> u32 \<Rightarrow> bool" where
  "fseg m a [] c \<longleftrightarrow> a = c"
| "fseg m a ((b, n) # bs) c \<longleftrightarrow> a = b \<and> b \<noteq> 0 \<and> fb_size m b = n \<and> fseg m (fb_next m b) bs c"

fun fsorted :: "bool \<Rightarrow> nat \<Rightarrow> nat \<Rightarrow> (u32 \<times> u32) list \<Rightarrow> bool" where
  "fsorted gap lo hi [] \<longleftrightarrow> True"
| "fsorted gap lo hi ((b, n) # bs) \<longleftrightarrow>
     lo \<le> unat b \<and> 8 \<le> unat n \<and> unat b + unat n \<le> hi \<and> fsorted gap (unat b + unat n + of_bool gap) hi bs"

definition block_bytes :: "u32 \<times> u32 \<Rightarrow> nat set" where
  "block_bytes bn = {unat (fst bn)..<unat (fst bn) + unat (snd bn)}"

definition fbytes :: "(u32 \<times> u32) list \<Rightarrow> nat set" where
  "fbytes bs = (\<Union>bn \<in> set bs. block_bytes bn)"

fun fl_join :: "u32 \<times> u32 \<Rightarrow> (u32 \<times> u32) list \<Rightarrow> (u32 \<times> u32) list" where
  "fl_join (s, n) [] = [(s, n)]"
| "fl_join (s, n) ((b, k) # bs) = (if s + n = b then (s, n + k) # bs else (s, n) # (b, k) # bs)"

definition fl_insert :: "u32 \<Rightarrow> u32 \<Rightarrow> (u32 \<times> u32) list \<Rightarrow> (u32 \<times> u32) list" where
  "fl_insert s n bs =
     (let xs = takeWhile (\<lambda>b. fst b < s) bs; ys = dropWhile (\<lambda>b. fst b < s) bs in
      if xs = [] then fl_join (s, n) ys
      else case last xs of (p, k) \<Rightarrow>
        if p + k = s then butlast xs @ fl_join (p, k + n) ys else xs @ fl_join (s, n) ys)"


section \<open>Lemmas\<close>

subsection \<open>Fields of free blocks\<close>

definition nodes_apart :: "(u32 \<times> u32) list \<Rightarrow> bool" where
  "nodes_apart bs \<longleftrightarrow> sorted_wrt (\<lambda>b c. apart (fst b) 8 (fst c) 8) bs \<and> (\<forall>b \<in> set bs. unat (fst b) + 8 \<le> 2 ^ 32)"

lemma apart_sym: "apart a n b k \<longleftrightarrow> apart b k a n"
  by (auto simp: apart_def)

lemma fb_same [mem_simps]:
  assumes "unat a + 8 \<le> 2 ^ 32"
  shows "fb_size (set_size a v m) a = v" and "fb_next (set_next a v m) a = v"
    and "fb_next (set_size a v m) a = fb_next m a" and "fb_size (set_next a v m) a = fb_size m a"
proof -
  have a4: "unat (a + 4) = unat a + 4" using assms by (simp add: unat_offset)
  show "fb_size (set_size a v m) a = v" "fb_next (set_next a v m) a = v"
    by (simp_all add: fb_size_def fb_next_def set_size_def set_next_def)
  show "fb_next (set_size a v m) a = fb_next m a" "fb_size (set_next a v m) a = fb_size m a"
    using assms a4 unfolding fb_size_def fb_next_def set_size_def set_next_def
    by (simp_all add: read32_write32_apart apart_def)
qed

lemma fb_other [mem_simps]:
  assumes "unat a + 8 \<le> 2 ^ 32" and "unat b + 8 \<le> 2 ^ 32" and "apart a 8 b 8"
  shows "fb_size (set_size a v m) b = fb_size m b" and "fb_next (set_next a v m) b = fb_next m b"
    and "fb_next (set_size a v m) b = fb_next m b" and "fb_size (set_next a v m) b = fb_size m b"
proof -
  have "unat (a + 4) = unat a + 4" "unat (b + 4) = unat b + 4" using assms by (simp_all add: unat_offset)
  then show "fb_size (set_size a v m) b = fb_size m b" "fb_next (set_next a v m) b = fb_next m b"
    "fb_next (set_size a v m) b = fb_next m b" "fb_size (set_next a v m) b = fb_size m b"
    using assms unfolding fb_size_def fb_next_def set_size_def set_next_def
    by (auto simp: apart_def intro!: read32_write32_apart)
qed

lemma set_outside:
  assumes "unat a + 8 \<le> 2 ^ 32" and "\<not> in_range a 8 x"
  shows "set_size a v m x = m x" and "set_next a v m x = m x"
proof -
  have "unat (a + 4) = unat a + 4" using assms by (simp add: unat_offset)
  then show "set_size a v m x = m x" "set_next a v m x = m x"
    using assms unfolding set_size_def set_next_def
    by (auto simp: in_range_def intro!: write32_outside)
qed

subsection \<open>Segments\<close>

lemma fseg_cong:
  "\<forall>x \<in> set bs. fb_size m' (fst x) = fb_size m (fst x) \<and> fb_next m' (fst x) = fb_next m (fst x) \<Longrightarrow>
     fseg m' a bs c = fseg m a bs c"
  by (induction m a bs c rule: fseg.induct) auto

lemma fseg_append: "fseg m a (xs @ ys) c \<longleftrightarrow> (\<exists>d. fseg m a xs d \<and> fseg m d ys c)"
  by (induction m a xs c rule: fseg.induct) auto

lemma fseg_snoc:
  "fseg m a (xs @ [(b, n)]) c \<longleftrightarrow> fseg m a xs b \<and> b \<noteq> 0 \<and> fb_size m b = n \<and> fb_next m b = c"
  by (auto simp: fseg_append)

lemma fsorted_le: "fsorted g lo hi bs \<Longrightarrow> lo' \<le> lo \<Longrightarrow> fsorted g lo' hi bs"
  by (cases bs) auto

lemma fsorted_weaken: "fsorted g lo hi bs \<Longrightarrow> fsorted False lo hi bs"
proof (induction g lo hi bs rule: fsorted.induct)
  case (2 g lo hi b n bs)
  then have "fsorted False (unat b + unat n + of_bool g) hi bs" by simp
  then have "fsorted False (unat b + unat n) hi bs" by (rule fsorted_le) simp
  with 2 show ?case by simp
qed simp

lemma fsorted_mem: "fsorted g lo hi bs \<Longrightarrow> (b, n) \<in> set bs \<Longrightarrow> lo \<le> unat b \<and> 8 \<le> unat n \<and> unat b + unat n \<le> hi"
proof (induction g lo hi bs rule: fsorted.induct)
  case (2 g lo hi b' n' bs)
  then show ?case by auto
qed simp

lemma fsorted_append:
  "fsorted g lo hi (xs @ ys) \<longleftrightarrow> fsorted g lo hi xs \<and>
     fsorted g (if xs = [] then lo else unat (fst (last xs)) + unat (snd (last xs)) + of_bool g) hi ys"
  by (induction g lo hi xs rule: fsorted.induct) auto

lemma fsorted_nodes_apart:
  assumes "fsorted g lo hi bs" and "hi \<le> 2 ^ 32"
  shows "nodes_apart bs"
  using assms
proof (induction g lo hi bs rule: fsorted.induct)
  case (2 g lo hi b n bs)
  then have IH: "nodes_apart bs" by simp
  have "apart b 8 (fst c) 8" if "c \<in> set bs" for c
    using that 2 fsorted_mem [of g "unat b + unat n + of_bool g" hi bs "fst c" "snd c"] by (simp add: apart_def)
  with IH 2 show ?case by (simp add: nodes_apart_def)
qed (simp add: nodes_apart_def)

lemma nodes_apart_append:
  "nodes_apart (xs @ ys) \<longleftrightarrow> nodes_apart xs \<and> nodes_apart ys \<and> (\<forall>x \<in> set xs. \<forall>y \<in> set ys. apart (fst x) 8 (fst y) 8)"
  by (auto simp: nodes_apart_def sorted_wrt_append)

lemma nodes_apart_Cons:
  "nodes_apart (x # ys) \<longleftrightarrow> unat (fst x) + 8 \<le> 2 ^ 32 \<and> nodes_apart ys \<and> (\<forall>y \<in> set ys. apart (fst x) 8 (fst y) 8)"
  by (auto simp: nodes_apart_def)

lemma nodes_apart_sizes: "map fst bs = map fst bs' \<Longrightarrow> nodes_apart bs = nodes_apart bs'"
proof -
  have "nodes_apart bs \<longleftrightarrow> sorted_wrt (\<lambda>a b. apart a 8 b 8) (map fst bs) \<and> (\<forall>a \<in> set (map fst bs). unat a + 8 \<le> 2 ^ 32)" for bs
    by (simp add: nodes_apart_def sorted_wrt_map)
  then show "map fst bs = map fst bs' \<Longrightarrow> nodes_apart bs = nodes_apart bs'" by metis
qed

text \<open>A write to a node leaves the segments of other nodes alone.\<close>

lemma fseg_set:
  assumes "nodes_apart ys" and "unat a + 8 \<le> 2 ^ 32" and "\<forall>y \<in> set ys. apart a 8 (fst y) 8"
  shows "fseg (set_size a v m) d ys c = fseg m d ys c" and "fseg (set_next a v m) d ys c = fseg m d ys c"
  using assms by (intro fseg_cong ballI conjI fb_other; simp add: nodes_apart_def)+

subsection \<open>The steps of an insertion\<close>

lemma merge_next_fseg:
  assumes seg: "fseg m fl (zs @ (q, j) # ys) 0" and ap: "nodes_apart (zs @ (q, j) # ys)"
  shows "fseg (merge_next q m) fl (zs @ fl_join (q, j) ys) 0"
    and "\<not> in_range q 8 x \<Longrightarrow> merge_next q m x = m x"
proof -
  have q: "unat q + 8 \<le> 2 ^ 32" and zs: "nodes_apart zs" "\<forall>y \<in> set zs. apart q 8 (fst y) 8"
    using ap by (auto simp: nodes_apart_append nodes_apart_Cons apart_sym [of q])
  show "\<not> in_range q 8 x \<Longrightarrow> merge_next q m x = m x"
    using q by (simp add: merge_next_def Let_def set_outside)
  have seg': "fseg m fl zs q" "q \<noteq> 0" "fb_size m q = j" "fseg m (fb_next m q) ys 0"
    using seg by (auto simp: fseg_append)
  show "fseg (merge_next q m) fl (zs @ fl_join (q, j) ys) 0"
  proof (cases ys)
    case Nil
    then show ?thesis using seg seg' by (simp add: merge_next_def)
  next
    case (Cons c ys')
    obtain b k where c: "c = (b, k)" by (cases c)
    have b: "fb_next m q = b" "b \<noteq> 0" "fb_size m b = k" "fseg m (fb_next m b) ys' 0"
      using seg' Cons c by auto
    have ys': "nodes_apart ys'" "\<forall>y \<in> set ys'. apart q 8 (fst y) 8" "apart q 8 b 8" "unat b + 8 \<le> 2 ^ 32"
      using ap Cons c by (auto simp: nodes_apart_append nodes_apart_Cons)
    show ?thesis
    proof (cases "q + j = b")
      case True
      then have "merge_next q m = set_next q (fb_next m b) (set_size q (j + k) m)"
        using b seg'(3) q ys' by (simp add: merge_next_def Let_def fb_other)
      then show ?thesis
        using True Cons c seg' b q zs ys' by (auto simp: fseg_append fseg_set fb_same)
    next
      case False
      then have "merge_next q m = m" using b seg'(3) by (auto simp: merge_next_def)
      then show ?thesis using False Cons c seg by simp
    qed
  qed
qed

lemma merge_prev_fseg:
  assumes seg: "fseg m fl (zs @ (p, k) # (s, n) # ys) 0" and ap: "nodes_apart (zs @ (p, k) # (s, n) # ys)"
    and adj: "p + k = s"
  shows "snd (merge_prev s p m) = p" and "fseg (fst (merge_prev s p m)) fl (zs @ (p, k + n) # ys) 0"
    and "\<not> in_range p 8 x \<Longrightarrow> fst (merge_prev s p m) x = m x"
proof -
  have p: "unat p + 8 \<le> 2 ^ 32" and zs: "nodes_apart zs" "\<forall>y \<in> set zs. apart p 8 (fst y) 8"
    and ys: "nodes_apart ys" "\<forall>y \<in> set ys. apart p 8 (fst y) 8" "apart p 8 s 8" "unat s + 8 \<le> 2 ^ 32"
    using ap by (auto simp: nodes_apart_append nodes_apart_Cons apart_sym [of p])
  have seg': "fseg m fl zs p" "p \<noteq> 0" "fb_size m p = k" "fb_size m s = n" "fseg m (fb_next m s) ys 0"
    using seg by (auto simp: fseg_append)
  have eq: "merge_prev s p m = (set_next p (fb_next m s) (set_size p (k + n) m), p)"
    using seg' adj p ys by (simp add: merge_prev_def Let_def fb_other)
  show "snd (merge_prev s p m) = p" by (simp add: eq)
  show "fseg (fst (merge_prev s p m)) fl (zs @ (p, k + n) # ys) 0"
    using eq seg' p zs ys by (auto simp: fseg_append fseg_set fb_same)
  show "\<not> in_range p 8 x \<Longrightarrow> fst (merge_prev s p m) x = m x"
    using p by (simp add: eq set_outside)
qed

lemma insert_walk_fseg:
  "fseg m a bs 0 \<Longrightarrow> insert_walk m s prev a =
     Some (if takeWhile (\<lambda>b. fst b < s) bs = [] then prev else fst (last (takeWhile (\<lambda>b. fst b < s) bs)),
       case dropWhile (\<lambda>b. fst b < s) bs of [] \<Rightarrow> 0 | y # ys \<Rightarrow> fst y)"
proof (induction bs arbitrary: a prev)
  case Nil
  then show ?case by (subst insert_walk.simps) simp
next
  case (Cons x bs)
  obtain b n where x: "x = (b, n)" by (cases x)
  with Cons.prems have "a = b" "b \<noteq> 0" and "fseg m (fb_next m b) bs 0" by auto
  with Cons.IH [of "fb_next m b" b] x show ?case
    by (subst insert_walk.simps) auto
qed

lemma link_block_fseg:
  assumes seg: "fseg m fl (xs @ ys) 0" and ap: "nodes_apart (xs @ (s, n) # ys)" and s: "s \<noteq> 0" "fb_size m s = n"
    and cur: "fseg m cur ys 0"
    and link: "link_block s (if xs = [] then 0 else fst (last xs)) cur (m, fl) = (m', fl')"
  shows "fseg m' fl' (xs @ (s, n) # ys) 0"
    and "\<not> in_range s 8 x \<Longrightarrow> (xs \<noteq> [] \<Longrightarrow> \<not> in_range (fst (last xs)) 8 x) \<Longrightarrow> m' x = m x"
proof -
  have s8: "unat s + 8 \<le> 2 ^ 32" and ys: "nodes_apart ys" "\<forall>y \<in> set ys. apart s 8 (fst y) 8"
    using ap by (auto simp: nodes_apart_append nodes_apart_Cons)
  have "fseg m' fl' (xs @ (s, n) # ys) 0 \<and>
    (\<not> in_range s 8 x \<longrightarrow> (xs \<noteq> [] \<longrightarrow> \<not> in_range (fst (last xs)) 8 x) \<longrightarrow> m' x = m x)"
  proof (cases xs rule: rev_cases)
    case Nil
    then have m': "m' = set_next s cur m" "fl' = s" using link by (auto simp: link_block_def)
    show ?thesis
      unfolding m' using Nil s s8 ys cur by (simp add: fb_same fseg_set set_outside)
  next
    case (snoc zs pk)
    obtain p k where pk: "pk = (p, k)" by (cases pk)
    have seg': "fseg m fl zs p" "p \<noteq> 0" "fb_size m p = k"
      using seg snoc pk by (auto simp: fseg_append)
    have m': "m' = set_next p s (set_next s cur m)" "fl' = fl"
      using link snoc pk seg'(2) by (simp_all add: link_block_def Let_def)
    have p: "unat p + 8 \<le> 2 ^ 32" "nodes_apart zs" "\<forall>y \<in> set ys. apart p 8 (fst y) 8" "apart p 8 s 8"
      and "\<forall>y \<in> set zs. apart (fst y) 8 p 8" "\<forall>y \<in> set zs. apart (fst y) 8 s 8"
      using ap snoc pk by (simp_all add: nodes_apart_append nodes_apart_Cons)
    then have p': "\<forall>y \<in> set zs. apart p 8 (fst y) 8" "\<forall>y \<in> set zs. apart s 8 (fst y) 8" "apart s 8 p 8"
      using apart_sym by blast+
    have "fseg m' fl zs p" "fseg m' cur ys 0"
      using seg' p p' s8 ys cur unfolding m' by (simp_all add: fseg_set)
    moreover have "fb_size m' p = k" "fb_next m' p = s" "fb_size m' s = n" "fb_next m' s = cur"
      using seg' p p' s s8 unfolding m' by (simp_all add: fb_same fb_other)
    ultimately have "fseg m' fl' (xs @ (s, n) # ys) 0"
      unfolding snoc pk m'(2) append_assoc fseg_append using seg'(2) s(1) by (intro exI [of _ p]) simp
    moreover have "m' x = m x" if "\<not> in_range s 8 x" "\<not> in_range p 8 x"
      unfolding m' using that p s8 by (simp add: set_outside)
    ultimately show ?thesis using snoc pk by simp
  qed
  then show "fseg m' fl' (xs @ (s, n) # ys) 0"
    "\<not> in_range s 8 x \<Longrightarrow> (xs \<noteq> [] \<Longrightarrow> \<not> in_range (fst (last xs)) 8 x) \<Longrightarrow> m' x = m x"
    by blast+
qed

subsection \<open>Insertion\<close>

text \<open>A block that can be inserted: inside the bounds, large enough, and not overlapping the list.\<close>

definition insertable :: "nat \<Rightarrow> nat \<Rightarrow> u32 \<Rightarrow> u32 \<Rightarrow> (u32 \<times> u32) list \<Rightarrow> bool" where
  "insertable lo hi s n bs \<longleftrightarrow> 0 < lo \<and> hi < 2 ^ 32 \<and> fsorted True lo hi bs \<and> lo \<le> unat s \<and> 8 \<le> unat n
     \<and> unat s + unat n \<le> hi \<and> block_bytes (s, n) \<inter> fbytes bs = {}"

lemma fbytes_simps [simp]:
  "fbytes [] = {}" "fbytes (b # bs) = block_bytes b \<union> fbytes bs" "fbytes (xs @ ys) = fbytes xs \<union> fbytes ys"
  by (auto simp: fbytes_def)

lemma unat_join: "unat (a :: u32) + unat b \<le> hi \<Longrightarrow> hi < 2 ^ 32 \<Longrightarrow> unat (a + b) = unat a + unat b"
  by (rule unat_add_nowrap) simp

lemma fl_join_sorted:
  assumes "lo \<le> unat s" and "8 \<le> unat n" and "unat s + unat n \<le> hi" and "hi < 2 ^ 32"
    and "fsorted True (unat s + unat n) hi ys"
  shows "fsorted True lo hi (fl_join (s, n) ys)" and "fbytes (fl_join (s, n) ys) = block_bytes (s, n) \<union> fbytes ys"
proof -
  have "fsorted True lo hi (fl_join (s, n) ys) \<and> fbytes (fl_join (s, n) ys) = block_bytes (s, n) \<union> fbytes ys"
  proof (cases ys)
    case (Cons y ys')
    obtain b k where y: "y = (b, k)" by (cases y)
    have sn: "unat (s + n) = unat s + unat n" using assms(3,4) by (rule unat_join)
    have eq: "s + n = b \<longleftrightarrow> unat s + unat n = unat b" using sn by (auto simp: word_unat_eq_iff)
    have b: "unat s + unat n \<le> unat b" "8 \<le> unat k" "unat b + unat k \<le> hi" "fsorted True (unat b + unat k + 1) hi ys'"
      using assms(5) Cons y by simp_all
    have nk: "unat (n + k) = unat n + unat k"
      by (rule unat_join [of _ _ hi]) (use b assms(4) in simp_all)
    show ?thesis
    proof (cases "s + n = b")
      case True
      then have e: "unat s + unat (n + k) = unat b + unat k" using eq nk by simp
      have "block_bytes (s, n + k) = block_bytes (s, n) \<union> block_bytes (b, k)"
        using True eq nk by (auto simp: block_bytes_def)
      moreover have "fsorted True lo hi ((s, n + k) # ys')"
        unfolding fsorted.simps e using assms(1,2) b(2-4) nk by simp
      ultimately show ?thesis using True Cons y by auto
    next
      case False
      with eq b(1) have "unat s + unat n + 1 \<le> unat b" by simp
      with False show ?thesis using assms b Cons y by simp
    qed
  qed (use assms in simp)
  then show "fsorted True lo hi (fl_join (s, n) ys)" "fbytes (fl_join (s, n) ys) = block_bytes (s, n) \<union> fbytes ys"
    by blast+
qed

lemma fsorted_dropWhile:
  assumes "fsorted g lo hi bs" and "(b, k) \<in> set (dropWhile (\<lambda>b. fst b < s) bs)"
  shows "\<not> b < s"
  using assms
proof (induction g lo hi bs rule: fsorted.induct)
  case (2 g lo hi a n bs)
  show ?case
  proof (cases "a < s")
    case False
    then have "(b, k) = (a, n) \<or> (b, k) \<in> set bs" using 2(3) by auto
    then show ?thesis
      using False 2(2) fsorted_mem [of g "unat a + unat n + of_bool g" hi bs b k]
      by (auto simp: word_less_nat_alt)
  qed (use 2 in simp)
qed simp

lemma insert_split:
  assumes ins: "insertable lo hi s n bs"
    and xs: "xs = takeWhile (\<lambda>b. fst b < s) bs" and ys: "ys = dropWhile (\<lambda>b. fst b < s) bs"
  shows "bs = xs @ ys" and "fsorted True lo hi xs" and "fsorted True (unat s + unat n) hi ys"
    and "xs \<noteq> [] \<Longrightarrow> unat (fst (last xs)) + unat (snd (last xs)) \<le> unat s"
    and "fsorted False lo hi (xs @ (s, n) # ys)"
proof -
  show bs: "bs = xs @ ys" by (simp add: xs ys)
  have so: "fsorted True lo hi bs" using ins by (simp add: insertable_def)
  then show so_xs: "fsorted True lo hi xs" by (simp add: bs fsorted_append)
  have disj: "block_bytes (s, n) \<inter> block_bytes bk = {}" if "bk \<in> set bs" for bk
    using ins that by (auto simp: insertable_def fbytes_def)
  have n: "8 \<le> unat n" using ins by (simp add: insertable_def)
  show last: "unat (fst (last xs)) + unat (snd (last xs)) \<le> unat s" if "xs \<noteq> []"
  proof (rule ccontr)
    assume "\<not> ?thesis"
    moreover have "last xs \<in> set xs" using that by simp
    then have "fst (last xs) < s" "last xs \<in> set bs" by (auto simp: xs dest: set_takeWhileD)
    ultimately have "unat s \<in> block_bytes (s, n) \<inter> block_bytes (last xs)"
      using n by (simp add: block_bytes_def word_less_nat_alt)
    with disj [OF \<open>last xs \<in> set bs\<close>] show False by simp
  qed
  show so_ys: "fsorted True (unat s + unat n) hi ys"
  proof (cases ys)
    case (Cons y ys')
    obtain b k where y: "y = (b, k)" by (cases y)
    have mem: "(b, k) \<in> set ys" using Cons y by simp
    then have "\<not> b < s" unfolding ys by (rule fsorted_dropWhile [OF so])
    have k: "8 \<le> unat k" using fsorted_mem [OF so, of b k] mem by (simp add: bs)
    have "\<not> unat b < unat s + unat n"
    proof
      assume "unat b < unat s + unat n"
      then have "unat b \<in> block_bytes (s, n) \<inter> block_bytes (b, k)"
        using \<open>\<not> b < s\<close> k by (simp add: block_bytes_def word_less_nat_alt)
      with disj [of "(b, k)"] mem show False by (simp add: bs)
    qed
    moreover have "fsorted True (unat b + unat k + 1) hi ys'" "unat b + unat k \<le> hi"
      using so Cons y by (simp_all add: bs fsorted_append)
    ultimately show ?thesis using Cons y k by simp
  qed simp
  show "fsorted False lo hi (xs @ (s, n) # ys)"
    using last so_xs so_ys ins fsorted_weaken [of True _ hi]
    by (simp add: fsorted_append insertable_def)
qed

lemma fl_insert_sorted:
  assumes ins: "insertable lo hi s n bs"
  shows "fsorted True lo hi (fl_insert s n bs)" and "fbytes (fl_insert s n bs) = fbytes bs \<union> block_bytes (s, n)"
proof -
  define xs ys where xs: "xs = takeWhile (\<lambda>b. fst b < s) bs" and ys: "ys = dropWhile (\<lambda>b. fst b < s) bs"
  note sp = insert_split [OF ins xs ys]
  have n: "8 \<le> unat n" "lo \<le> unat s" "unat s + unat n \<le> hi" "hi < 2 ^ 32"
    using ins by (simp_all add: insertable_def)
  have "fsorted True lo hi (fl_insert s n bs) \<and> fbytes (fl_insert s n bs) = fbytes bs \<union> block_bytes (s, n)"
  proof (cases xs rule: rev_cases)
    case Nil
    then have eq: "fl_insert s n bs = fl_join (s, n) ys" by (simp add: fl_insert_def xs ys)
    show ?thesis
      unfolding eq using fl_join_sorted [OF n(2,1,3,4) sp(3)] sp(1) Nil by auto
  next
    case (snoc zs pk)
    obtain p k where pk: "pk = (p, k)" by (cases pk)
    define lo' where "lo' = (if zs = [] then lo else unat (fst (last zs)) + unat (snd (last zs)) + 1)"
    have p: "fsorted True lo hi zs" "lo' \<le> unat p" "8 \<le> unat k" "unat p + unat k \<le> hi" "unat p + unat k \<le> unat s"
      using sp(2,4) snoc pk by (auto simp: fsorted_append lo'_def)
    have pk_eq: "p + k = s \<longleftrightarrow> unat p + unat k = unat s"
      using unat_join [OF p(4) n(4)] by (auto simp: word_unat_eq_iff)
    have eq: "fl_insert s n bs = (if p + k = s then zs @ fl_join (p, k + n) ys else zs @ (p, k) # fl_join (s, n) ys)"
      using snoc pk by (simp add: fl_insert_def xs [symmetric] ys [symmetric] Let_def)
    show ?thesis
    proof (cases "p + k = s")
      case True
      have kn: "unat (k + n) = unat k + unat n"
        by (rule unat_join [of _ _ hi]) (use True pk_eq n in simp_all)
      have sum: "unat p + unat (k + n) = unat s + unat n" using True pk_eq kn by simp
      have k8: "8 \<le> unat (k + n)" using kn n by simp
      note fl_join_sorted [of lo' p "k + n" hi ys, unfolded sum, OF p(2) k8 n(3,4) sp(3)]
      moreover have "block_bytes (p, k + n) = block_bytes (p, k) \<union> block_bytes (s, n)"
        using True pk_eq kn by (auto simp: block_bytes_def)
      ultimately show ?thesis
        unfolding eq using sp(1) True p(1) snoc pk
        by (cases "zs = []") (simp_all add: fsorted_append lo'_def Un_ac)
    next
      case False
      have "fsorted True (unat p + unat k + 1) hi (fl_join (s, n) ys)"
        "fbytes (fl_join (s, n) ys) = block_bytes (s, n) \<union> fbytes ys"
        using False pk_eq n p sp(3) by (intro fl_join_sorted; simp)+
      then show ?thesis
        unfolding eq using sp(1) False p snoc pk
        by (cases "zs = []") (simp_all add: fsorted_append lo'_def Un_ac)
    qed
  qed
  then show "fsorted True lo hi (fl_insert s n bs)" "fbytes (fl_insert s n bs) = fbytes bs \<union> block_bytes (s, n)"
    by blast+
qed

lemma in_range_bytes: "(b, k) \<in> set bs \<Longrightarrow> 8 \<le> unat k \<Longrightarrow> unat x \<notin> fbytes bs \<Longrightarrow> \<not> in_range b 8 x"
  by (fastforce simp: fbytes_def block_bytes_def in_range_def)

lemma fseg_bytes_cong:
  assumes so: "fsorted g lo hi bs" and hi: "hi < 2 ^ 32" and eq: "\<And>x. unat x \<in> fbytes bs \<Longrightarrow> m' x = m x"
  shows "fseg m' a bs c = fseg m a bs c"
proof (rule fseg_cong, intro ballI)
  fix bn assume mem: "bn \<in> set bs"
  obtain b n where bn: "bn = (b, n)" by (cases bn)
  have n: "8 \<le> unat n" "unat b + unat n \<le> hi" using fsorted_mem [OF so] mem bn by auto
  have in8: "m' x = m x" if "in_range b 8 x" for x
    using that in_range_bytes [of b n bs x] n mem bn by (intro eq) auto
  have "unat (b + 4) = unat b + 4" using n hi by (simp add: unat_offset)
  then show "fb_size m' (fst bn) = fb_size m (fst bn) \<and> fb_next m' (fst bn) = fb_next m (fst bn)"
    unfolding fb_size_def fb_next_def bn fst_conv using n hi in8
    by (auto intro!: read32_range_cong simp: in_range_def)
qed

text \<open>The insertion in memory is the insertion into the list, and touches no byte outside the blocks.\<close>

lemma insert_free_block_correct:
  assumes seg: "fseg m fl bs 0" and ins: "insertable lo hi s n bs"
  shows "\<exists>m' fl'. insert_free_block s n (m, fl) = Some (m', fl') \<and> fseg m' fl' (fl_insert s n bs) 0
    \<and> (\<forall>x. unat x \<notin> fbytes bs \<union> block_bytes (s, n) \<longrightarrow> m' x = m x)"
proof -
  define xs ys where xs: "xs = takeWhile (\<lambda>b. fst b < s) bs" and ys: "ys = dropWhile (\<lambda>b. fst b < s) bs"
  note sp = insert_split [OF ins xs ys]
  have n: "0 < lo" "8 \<le> unat n" "lo \<le> unat s" "unat s + unat n \<le> hi" "hi < 2 ^ 32"
    using ins by (simp_all add: insertable_def)
  then have s: "s \<noteq> 0" "unat s + 8 \<le> 2 ^ 32" by auto
  have ap: "nodes_apart (xs @ (s, n) # ys)" using fsorted_nodes_apart [OF sp(5)] n(5) by (meson less_imp_le)
  define m1 where "m1 = set_next s 0 (set_size s n m)"
  have "\<forall>y \<in> set bs. apart s 8 (fst y) 8" "nodes_apart bs"
    using ap by (auto simp: sp(1) nodes_apart_append nodes_apart_Cons apart_sym [of s])
  then have seg1: "fseg m1 fl (xs @ ys) 0" and size1: "fb_size m1 s = n"
    using seg s(2) sp(1) by (simp_all add: m1_def fseg_set fb_same)
  define prev where "prev = (if xs = [] then 0 else fst (last xs))"
  define cur where "cur = (case ys of [] \<Rightarrow> 0 | y # _ \<Rightarrow> fst y)"
  have walk: "insert_walk m1 s 0 fl = Some (prev, cur)"
    unfolding prev_def cur_def xs ys using seg1 [folded sp(1)] by (rule insert_walk_fseg)
  have cur: "fseg m1 cur ys 0"
    using seg1 by (cases ys) (auto simp: fseg_append cur_def)
  obtain m2 fl2 where link: "link_block s prev cur (m1, fl) = (m2, fl2)" by fastforce
  note l = link_block_fseg [OF seg1 ap s(1) size1 cur link [unfolded prev_def]]
  obtain m3 node where mp: "merge_prev s prev m2 = (m3, node)" by fastforce
  have run: "insert_free_block s n (m, fl) = Some (merge_next node m3, fl2)"
    using n(2) walk link mp by (simp add: insert_free_block_def m1_def [symmetric] word_less_nat_alt Let_def)
  have out1: "m1 x = m x" if "unat x \<notin> fbytes bs \<union> block_bytes (s, n)" for x
    using that s(2) n(2) by (auto simp: m1_def block_bytes_def in_range_def set_outside)
  have mem: "8 \<le> unat k" if "(b, k) \<in> set bs" for b k
    using ins that fsorted_mem [of True lo hi bs] by (auto simp: insertable_def)
  have out: "\<not> in_range s 8 x \<and> (\<forall>(b, k) \<in> set bs. \<not> in_range b 8 x)"
    if "unat x \<notin> fbytes bs \<union> block_bytes (s, n)" for x
    using that n(2) in_range_bytes [of _ _ bs x] mem by (auto simp: block_bytes_def in_range_def)
  have out2: "m2 x = m1 x" if "unat x \<notin> fbytes bs \<union> block_bytes (s, n)" for x
    using l(2) [of x] out [OF that] last_in_set [of xs] sp(1)
    by (cases "xs = []"; cases "last xs") auto
  show ?thesis
  proof (cases xs rule: rev_cases)
    case Nil
    then have m3: "m3 = m2" "node = s" using mp by (simp_all add: prev_def merge_prev_def)
    have l1: "fseg m2 fl2 ([] @ (s, n) # ys) 0" and ap1: "nodes_apart ([] @ (s, n) # ys)"
      using l(1) ap Nil by simp_all
    have "fl_insert s n bs = [] @ fl_join (s, n) ys" using Nil by (simp add: fl_insert_def xs ys)
    moreover note r = merge_next_fseg [OF l1 ap1]
    have "merge_next s m2 x = m x" if "unat x \<notin> fbytes bs \<union> block_bytes (s, n)" for x
      using out [OF that] out1 [OF that] out2 [OF that] r(2) by auto
    ultimately show ?thesis
      using run m3 r(1) by auto
  next
    case (snoc zs pk)
    obtain p k where pk: "pk = (p, k)" by (cases pk)
    have prev: "prev = p" using snoc pk by (simp add: prev_def)
    have p: "p \<noteq> 0" "fb_size m2 p = k" "(p, k) \<in> set bs"
      using l(1) snoc pk sp(1) by (auto simp: fseg_append)
    have ins_eq: "fl_insert s n bs = (if p + k = s then zs @ fl_join (p, k + n) ys else xs @ fl_join (s, n) ys)"
      using snoc pk by (simp add: fl_insert_def xs [symmetric] ys [symmetric] Let_def)
    show ?thesis
    proof (cases "p + k = s")
      case True
      have l1: "fseg m2 fl2 (zs @ (p, k) # (s, n) # ys) 0" and ap1: "nodes_apart (zs @ (p, k) # (s, n) # ys)"
        using l(1) ap snoc pk by simp_all
      note q = merge_prev_fseg [OF l1 ap1 True, unfolded mp [unfolded prev] fst_conv snd_conv]
      have "nodes_apart (zs @ (p, k + n) # ys)"
        using ap1 by (auto simp: nodes_apart_append nodes_apart_Cons)
      note r = merge_next_fseg [OF q(2) this]
      have "merge_next node m3 x = m x" if "unat x \<notin> fbytes bs \<union> block_bytes (s, n)" for x
        using out [OF that] out1 [OF that] out2 [OF that] q(1,3) r(2) p(3) by auto
      then show ?thesis
        using run q(1) r(1) ins_eq True by auto
    next
      case False
      then have m3: "m3 = m2" "node = s" using mp p prev by (auto simp: merge_prev_def)
      note r = merge_next_fseg [OF l(1) ap]
      have "merge_next s m2 x = m x" if "unat x \<notin> fbytes bs \<union> block_bytes (s, n)" for x
        using out [OF that] out1 [OF that] out2 [OF that] r(2) by auto
      then show ?thesis
        using run m3 r(1) ins_eq False by auto
    qed
  qed
qed

subsection \<open>Placing an allocation\<close>

definition ceil_to :: "nat \<Rightarrow> nat \<Rightarrow> nat" where
  "ceil_to al v = (v + (al - 1)) div al * al"

lemma ceil_to_facts:
  assumes "0 < al"
  shows "v \<le> ceil_to al v" and "ceil_to al v < v + al" and "al dvd ceil_to al v"
proof -
  show "al dvd ceil_to al v" by (simp add: ceil_to_def)
  have eq: "v + (al - 1) = ceil_to al v + (v + (al - 1)) mod al" by (simp add: ceil_to_def)
  have "(v + (al - 1)) mod al < al" using assms by simp
  with eq assms show "v \<le> ceil_to al v" "ceil_to al v < v + al" by linarith+
qed

lemma ceil_to_add: "al dvd a \<Longrightarrow> ceil_to al (a + v) = a + ceil_to al v"
proof (cases "al = 0")
  case False
  assume "al dvd a"
  then obtain j where a: "a = j * al" by (metis dvd_def mult.commute)
  have eq: "a + v + (al - 1) = v + (al - 1) + j * al" using a by simp
  have "(a + v + (al - 1)) div al = j + (v + (al - 1)) div al"
    unfolding eq using False by (rule div_mult_self1)
  then show ?thesis by (simp add: ceil_to_def a algebra_simps)
qed (simp add: ceil_to_def)

lemma ceil_to_16: "ceil_to (2 ^ k) 16 = max 16 (2 ^ k)"
proof (cases "k \<le> 4")
  case True
  then have "k \<in> {0, 1, 2, 3, 4}" by auto
  then show ?thesis by (auto simp: ceil_to_def)
next
  case False
  then have "(2 :: nat) ^ 5 \<le> 2 ^ k" by (intro power_increasing) auto
  then have "(16 + (2 ^ k - 1)) div 2 ^ k = (1 :: nat)" by (intro div_nat_eqI) auto
  with \<open>2 ^ 5 \<le> 2 ^ k\<close> show ?thesis by (simp add: ceil_to_def max_def)
qed

lemma unat_heap_align_up:
  assumes "k < 32" and "unat v + 2 ^ k \<le> 2 ^ 32"
  shows "unat (heap_align_up v (2 ^ k)) = ceil_to (2 ^ k) (unat v)"
proof -
  have "(2 :: nat) ^ k < 2 ^ 32" using assms(1) by (intro power_strict_increasing) auto
  then have pow: "unat (2 ^ k :: u32) = 2 ^ k" using unat_of_nat_u32 [of "2 ^ k"] by simp
  then have nz: "(2 :: u32) ^ k \<noteq> 0" by (metis power_not_zero unat_0 zero_neq_numeral)
  have m1: "unat (2 ^ k - 1 :: u32) = 2 ^ k - 1" using pow nz by (simp add: unat_minus_one)
  have "unat (v + (2 ^ k - 1)) = unat v + (2 ^ k - 1)"
    using assms(2) m1 by (subst unat_add_nowrap) simp_all
  then show ?thesis
    using unat_and_not_low_bits [of "v + (2 ^ k - 1)" k] nz
    by (simp add: heap_align_up_def Let_def ceil_to_def add_diff_eq)
qed

lemma place_header_eq:
  assumes k: "k < 32" and room: "unat start + 2 * 2 ^ k + 32 \<le> 2 ^ 32" and eq: "place_header start (2 ^ k) = (h, p)"
  shows "unat h = ceil_to (2 ^ k) (unat start + 16)" and "unat p = unat h + max 16 (2 ^ k)"
    and "unat start + 16 \<le> unat h" and "unat h < unat start + 16 + 2 ^ k" and "2 ^ k dvd unat p"
proof -
  let ?al = "2 ^ k :: nat"
  have s16: "unat (start + 16) = unat start + 16" using room by (intro unat_add_numeral) simp
  define h0 where "h0 = heap_align_up (start + 16) (2 ^ k)"
  have h0: "unat h0 = ceil_to ?al (unat start + 16)"
    unfolding h0_def s16 [symmetric] using room by (intro unat_heap_align_up k) (simp add: s16)
  note c = ceil_to_facts [of ?al "unat start + 16"]
  have h16: "unat (h0 + 16) = unat h0 + 16" using room c h0 by (intro unat_add_numeral) simp
  have p0: "unat (heap_align_up (h0 + 16) (2 ^ k)) = unat h0 + max 16 ?al"
    using room c h0 h16 by (subst unat_heap_align_up [OF k]) (simp_all add: ceil_to_add ceil_to_16)
  have "\<not> h0 < start" "\<not> heap_align_up (h0 + 16) (2 ^ k) < h0 + 16"
    using c h0 h16 p0 by (simp_all add: word_less_nat_alt)
  then have "h = h0" and p: "p = heap_align_up (h0 + 16) (2 ^ k)"
    using eq by (auto simp: place_header_def Let_def h0_def)
  then show "unat h = ceil_to ?al (unat start + 16)" "unat p = unat h + max 16 ?al"
    "unat start + 16 \<le> unat h" "unat h < unat start + 16 + ?al"
    using h0 p0 c by simp_all
  have "?al dvd max 16 ?al" using ceil_to_facts(3) [of ?al 16] by (simp add: ceil_to_16)
  then show "?al dvd unat p"
    using c h0 p0 p by simp
qed

text \<open>
  What a successful placement satisfies, in natural numbers: room before the header and
  after the allocation is either nothing or enough for a free block.
\<close>

definition placed :: "nat \<Rightarrow> nat \<Rightarrow> nat \<Rightarrow> nat \<Rightarrow> u32 \<times> u32 \<times> u32 \<times> u32 \<times> u32 \<Rightarrow> bool" where
  "placed start end n al = (\<lambda>(h, p, e, pre, suf).
     start + 16 \<le> unat h \<and> unat p = unat h + max 16 al \<and> al dvd unat p \<and> unat p + n \<le> unat e \<and> unat e \<le> end
     \<and> unat pre = unat h - start \<and> unat suf = end - unat e \<and> (unat suf = 0 \<or> 8 \<le> unat suf))"

lemma fit_block_placed:
  assumes k: "k < 32" and room: "unat start + 2 * 2 ^ k + 32 + unat n < 2 ^ 32"
    and fit: "fit_block start end n (2 ^ k) = Some r"
  shows "placed (unat start) (unat end) (unat n) (2 ^ k) r"
proof -
  obtain h p where hp: "place_header start (2 ^ k) = (h, p)" by fastforce
  have "unat start + 2 * 2 ^ k + 32 \<le> 2 ^ 32" using room by simp
  note ph = place_header_eq [OF k this hp]
  have p32: "unat p \<le> unat start + 2 * 2 ^ k + 32" using ph(2,4) by simp
  have pn: "unat (p + n) = unat p + unat n" using room p32 by (intro unat_add_nowrap) simp
  have pre: "unat (h - start) = unat h - unat start"
    using ph(3) by (intro unat_sub) (simp add: word_le_nat_alt)
  have "\<not> h < start" "\<not> h - start < 8" using ph(3) pre by (simp_all add: word_less_nat_alt)
  then have le: "p + n \<le> end" and r: "r = (if 0 < end - (p + n) \<and> end - (p + n) < 8 then (h, p, end, h - start, 0)
      else (h, p, p + n, h - start, end - (p + n)))"
    using fit hp by (auto simp: fit_block_def Let_def not_less split: if_splits)
  have suf: "unat (end - (p + n)) = unat end - (unat p + unat n)" "unat p + unat n \<le> unat end"
    using le pn by (simp_all add: unat_sub word_le_nat_alt)
  show ?thesis
    unfolding r using ph pn pre suf by (auto simp: placed_def word_less_nat_alt)
qed

end
