(* ===== verification/Heap_Alloc.thy ===== *)
theory Heap_Alloc
  imports Heap
begin

text \<open>
  Allocation and release on the kernel heap: the invariant that ties the blocks in use and
  the free list to memory, and what \<open>heap_alloc\<close> and \<open>heap_free\<close> of theory \<open>Heap\<close> do to it.
\<close>


section \<open>Lemmas\<close>

subsection \<open>The heap invariant\<close>

text \<open>
  A block in use: header address, end, payload address and payload size. The heap is
  well formed with free blocks \<open>fs\<close> and blocks in use \<open>ls\<close> when the chain in memory is \<open>fs\<close>, in order
  and merged, when every block in use has its header in memory, when no two of all these
  blocks overlap, and when the byte counter is the sum of the payload sizes in use.
\<close>

type_synonym used_block = "u32 \<times> u32 \<times> u32 \<times> u32"

definition used_range :: "used_block \<Rightarrow> nat set" where
  "used_range = (\<lambda>(h, e, p, n). {unat h..<unat e})"

definition header_at :: "mem \<Rightarrow> used_block \<Rightarrow> bool" where
  "header_at m = (\<lambda>(h, e, p, n). read32 m h = h \<and> read32 m (h + 4) = e - h \<and> read32 m (h + 8) = n
     \<and> read32 m (h + 12) = kHeapHeaderMagic)"

definition used_inside :: "nat \<Rightarrow> nat \<Rightarrow> used_block \<Rightarrow> bool" where
  "used_inside lo hi = (\<lambda>(h, e, p, n). lo \<le> unat h \<and> unat h + 16 \<le> unat p \<and> unat p + unat n \<le> unat e \<and> unat e \<le> hi)"

definition payload_sum :: "used_block list \<Rightarrow> nat" where
  "payload_sum ls = sum_list (map (\<lambda>(h, e, p, n). unat n) ls)"

definition heap_wf :: "mm \<Rightarrow> (u32 \<times> u32) list \<Rightarrow> used_block list \<Rightarrow> bool" where
  "heap_wf s fs ls \<longleftrightarrow>
     0 < unat (g_heap_start s) \<and> g_heap_start s \<le> g_heap_break s \<and> g_heap_break s \<le> g_heap_limit s
     \<and> unat (g_heap_mapped_end s) mod 4096 = 0 \<and> unat (g_heap_limit s) mod 4096 = 0
     \<and> fseg (ram s) (g_free_list s) fs 0 \<and> fsorted True (unat (g_heap_start s)) (unat (g_heap_break s)) fs
     \<and> (\<forall>b \<in> set ls. used_inside (unat (g_heap_start s)) (unat (g_heap_break s)) b \<and> header_at (ram s) b
          \<and> used_range b \<inter> fbytes fs = {})
     \<and> sorted_wrt (\<lambda>b c. used_range b \<inter> used_range c = {}) ls
     \<and> unat (g_heap_active_bytes s) = payload_sum ls"

lemma header_at_cong:
  assumes "header_at m b" and "used_inside lo hi b" and "hi < 2 ^ 32"
    and "\<And>x. unat x \<in> used_range b \<Longrightarrow> m' x = m x"
  shows "header_at m' b"
proof -
  obtain h e p n where b: "b = (h, e, p, n)" by (cases b)
  have h16: "unat h + 16 \<le> unat e" "unat e < 2 ^ 32" using assms(2,3) by (auto simp: b used_inside_def)
  have off: "unat (h + 4) = unat h + 4" "unat (h + 8) = unat h + 8" "unat (h + 12) = unat h + 12"
    using h16 by (simp_all add: unat_offset)
  have "m' x = m x" if "unat h \<le> unat x" "unat x < unat h + 16" for x
    using that h16 by (intro assms(4)) (simp add: b used_range_def)
  then have "read32 m' h = read32 m h" "read32 m' (h + 4) = read32 m (h + 4)"
    "read32 m' (h + 8) = read32 m (h + 8)" "read32 m' (h + 12) = read32 m (h + 12)"
    using h16 off by (auto intro!: read32_range_cong simp: in_range_def)
  then show ?thesis using assms(1) by (simp add: b header_at_def)
qed

lemma write_header_outside:
  assumes "unat a + 16 \<le> 2 ^ 32" and "\<not> in_range a 16 x"
  shows "write_header a u v w z m x = m x"
proof -
  have "unat (a + 4) = unat a + 4" "unat (a + 8) = unat a + 8" "unat (a + 12) = unat a + 12"
    using assms(1) by (simp_all add: unat_offset)
  then have "\<not> in_range a 4 x" "\<not> in_range (a + 4) 4 x" "\<not> in_range (a + 8) 4 x" "\<not> in_range (a + 12) 4 x"
    "unat (a + 4) + 4 \<le> 2 ^ 32" "unat (a + 8) + 4 \<le> 2 ^ 32" "unat (a + 12) + 4 \<le> 2 ^ 32"
    using assms by (auto simp: in_range_def)
  then show ?thesis
    using assms(1) by (simp add: write_header_def write32_outside)
qed

lemma write_header_at:
  assumes "unat a + 16 \<le> 2 ^ 32"
  shows "read32 (write_header a u v w z m) a = u" and "read32 (write_header a u v w z m) (a + 4) = v"
    and "read32 (write_header a u v w z m) (a + 8) = w" and "read32 (write_header a u v w z m) (a + 12) = z"
proof -
  have "unat (a + 4) = unat a + 4" "unat (a + 8) = unat a + 8" "unat (a + 12) = unat a + 12"
    using assms(1) by (simp_all add: unat_offset)
  then show "read32 (write_header a u v w z m) a = u" "read32 (write_header a u v w z m) (a + 4) = v"
    "read32 (write_header a u v w z m) (a + 8) = w" "read32 (write_header a u v w z m) (a + 12) = z"
    using assms by (simp_all add: write_header_def read32_write32_apart apart_def)
qed

text \<open>Taking a block out of the chain.\<close>

lemma unlink_fseg:
  assumes seg: "fseg m fl (xs @ (c, k) # ys) 0" and ap: "nodes_apart (xs @ (c, k) # ys)"
    and eq: "(m', fl') = (if xs = [] then (m, fb_next m c) else (set_next (fst (last xs)) (fb_next m c) m, fl))"
  shows "fseg m' fl' (xs @ ys) 0" and "(\<forall>b \<in> set xs. \<not> in_range (fst b) 8 x) \<Longrightarrow> m' x = m x"
proof -
  have "fseg m' fl' (xs @ ys) 0 \<and> ((\<forall>b \<in> set xs. \<not> in_range (fst b) 8 x) \<longrightarrow> m' x = m x)"
  proof (cases xs rule: rev_cases)
    case Nil
    then show ?thesis using eq seg by simp
  next
    case (snoc zs pj)
    obtain p j where pj: "pj = (p, j)" by (cases pj)
    have m': "m' = set_next p (fb_next m c) m" "fl' = fl" using eq snoc pj by simp_all
    have seg': "fseg m fl zs p" "p \<noteq> 0" "fb_size m p = j" "fseg m (fb_next m c) ys 0"
      using seg snoc pj by (auto simp: fseg_append)
    have p: "unat p + 8 \<le> 2 ^ 32" "nodes_apart zs" "nodes_apart ys" "\<forall>y \<in> set ys. apart p 8 (fst y) 8"
      "\<forall>y \<in> set zs. apart (fst y) 8 p 8"
      using ap snoc pj by (simp_all add: nodes_apart_append nodes_apart_Cons)
    then have p': "\<forall>y \<in> set zs. apart p 8 (fst y) 8" using apart_sym by blast
    have "fseg m' fl zs p" "fseg m' (fb_next m c) ys 0"
      using seg' p p' unfolding m' by (simp_all add: fseg_set)
    moreover have "fb_size m' p = j" "fb_next m' p = fb_next m c"
      using seg' p unfolding m' by (simp_all add: fb_same)
    ultimately have "fseg m' fl' (xs @ ys) 0"
      unfolding snoc pj m'(2) append_assoc fseg_append using seg'(2) by (intro exI [of _ p]) simp
    moreover have "m' x = m x" if "\<not> in_range p 8 x" unfolding m' using that p by (simp add: set_outside)
    ultimately show ?thesis using snoc pj by simp
  qed
  then show "fseg m' fl' (xs @ ys) 0" "(\<forall>b \<in> set xs. \<not> in_range (fst b) 8 x) \<Longrightarrow> m' x = m x" by blast+
qed

lemma fsorted_remove: "fsorted True lo hi (xs @ (c, k) # ys) \<Longrightarrow>
    fsorted True lo hi (xs @ ys) \<and> block_bytes (c, k) \<inter> fbytes (xs @ ys) = {}"
proof (induction xs arbitrary: lo)
  case Nil
  then have so: "fsorted True (unat c + unat k + 1) hi ys" "lo \<le> unat c" by simp_all
  then have "fsorted True lo hi ys" by (elim fsorted_le) simp
  moreover have "block_bytes (c, k) \<inter> block_bytes x = {}" if "x \<in> set ys" for x
    using that fsorted_mem [OF so(1), of "fst x" "snd x"] by (auto simp: block_bytes_def)
  ultimately show ?case by (auto simp: fbytes_def)
next
  case (Cons x xs)
  obtain b n where x: "x = (b, n)" by (cases x)
  have so: "fsorted True (unat b + unat n + 1) hi (xs @ (c, k) # ys)" using Cons.prems x by simp
  have "unat b + unat n + 1 \<le> unat c" using fsorted_mem [OF so, of c k] by simp
  then have "block_bytes (c, k) \<inter> block_bytes (b, n) = {}" by (auto simp: block_bytes_def)
  with Cons.IH [OF so] Cons.prems x show ?case by auto
qed

lemma heap_wfD:
  assumes "heap_wf s fs ls"
  shows "0 < unat (g_heap_start s)" and "unat (g_heap_start s) \<le> unat (g_heap_break s)"
    and "fseg (ram s) (g_free_list s) fs 0"
    and "fsorted True (unat (g_heap_start s)) (unat (g_heap_break s)) fs"
    and "\<And>b. b \<in> set ls \<Longrightarrow> used_inside (unat (g_heap_start s)) (unat (g_heap_break s)) b"
    and "\<And>b. b \<in> set ls \<Longrightarrow> header_at (ram s) b"
    and "\<And>b. b \<in> set ls \<Longrightarrow> used_range b \<inter> fbytes fs = {}"
    and "sorted_wrt (\<lambda>b c. used_range b \<inter> used_range c = {}) ls"
    and "unat (g_heap_active_bytes s) = payload_sum ls"
  using assms by (simp_all add: heap_wf_def word_le_nat_alt)

text \<open>The payloads in use fit into the heap, so that the byte counter does not wrap.\<close>

lemma payload_sum_le:
  assumes "\<forall>b \<in> set ls. used_inside lo hi b" and "sorted_wrt (\<lambda>b c. used_range b \<inter> used_range c = {}) ls"
  shows "payload_sum ls \<le> card (\<Union>b \<in> set ls. used_range b)"
  using assms
proof (induction ls)
  case (Cons b ls)
  obtain h e p n where b: "b = (h, e, p, n)" by (cases b)
  have fin: "finite (used_range c)" for c by (cases c) (simp add: used_range_def)
  have "used_range b \<inter> (\<Union>c \<in> set ls. used_range c) = {}" using Cons.prems(2) by auto
  then have "card (\<Union>c \<in> set (b # ls). used_range c) = card (used_range b) + card (\<Union>c \<in> set ls. used_range c)"
    by (simp add: card_Un_disjoint fin)
  moreover have "unat n \<le> card (used_range b)"
    using Cons.prems(1) by (auto simp: b used_inside_def used_range_def)
  moreover have "payload_sum ls \<le> card (\<Union>c \<in> set ls. used_range c)" using Cons by simp
  ultimately show ?case by (simp add: b payload_sum_def)
qed (simp add: payload_sum_def)

lemma payload_sum_bound:
  assumes "\<forall>b \<in> set ls. used_inside lo hi b" and "sorted_wrt (\<lambda>b c. used_range b \<inter> used_range c = {}) ls"
  shows "payload_sum ls \<le> hi"
proof -
  have "(\<Union>b \<in> set ls. used_range b) \<subseteq> {..<hi}"
    using assms(1) by (fastforce simp: used_inside_def used_range_def)
  from card_mono [OF _ this] payload_sum_le [OF assms] show ?thesis by simp
qed

text \<open>
  Adding a block in use: the step shared by both ways to allocate. The new block \<open>[h, e)\<close> is
  disjoint from the old ones and from the new free list, the memory of the old ones is
  unchanged, and the header has been written.
\<close>

lemma heap_wf_add:
  assumes wf: "heap_wf s fs ls"
    and s': "g_heap_start s' = g_heap_start s" "g_heap_break s \<le> g_heap_break s'" "g_heap_break s' \<le> g_heap_limit s'"
      "unat (g_heap_mapped_end s') mod 4096 = 0" "unat (g_heap_limit s') mod 4096 = 0"
      "g_heap_active_bytes s' = g_heap_active_bytes s + n"
    and free: "fseg (ram s') (g_free_list s') fs' 0"
      "fsorted True (unat (g_heap_start s)) (unat (g_heap_break s')) fs'" "fbytes fs' \<subseteq> fbytes fs"
    and new: "used_inside (unat (g_heap_start s)) (unat (g_heap_break s')) (h, e, p, n)" "header_at (ram s') (h, e, p, n)"
      "used_range (h, e, p, n) \<inter> fbytes fs' = {}" "\<And>b. b \<in> set ls \<Longrightarrow> used_range (h, e, p, n) \<inter> used_range b = {}"
    and keep: "\<And>b x. b \<in> set ls \<Longrightarrow> unat x \<in> used_range b \<Longrightarrow> ram s' x = ram s x"
  shows "heap_wf s' fs' ((h, e, p, n) # ls)"
proof -
  note d = heap_wfD [OF wf]
  have hi: "unat (g_heap_break s) \<le> unat (g_heap_break s')" using s'(2) by (simp add: word_le_nat_alt)
  have ins: "used_inside (unat (g_heap_start s)) (unat (g_heap_break s')) b" if "b \<in> set ls" for b
    using d(5) [OF that] hi by (auto simp: used_inside_def)
  have hdr: "header_at (ram s') b" if "b \<in> set ls" for b
    using header_at_cong [OF d(6,5) [OF that] _ keep [OF that]] unat_u32_less by blast
  have disj: "used_range b \<inter> fbytes fs' = {}" if "b \<in> set ls" for b
    using d(7) [OF that] free(3) by blast
  have sw: "sorted_wrt (\<lambda>b c. used_range b \<inter> used_range c = {}) ((h, e, p, n) # ls)"
    using d(8) new(4) by simp
  have "payload_sum ((h, e, p, n) # ls) \<le> unat (g_heap_break s')"
    using ins new(1) by (intro payload_sum_bound [where lo = "unat (g_heap_start s)", OF _ sw]) simp
  then have "payload_sum ls + unat n < 2 ^ 32"
    using unat_u32_less [of "g_heap_break s'"] by (simp add: payload_sum_def)
  then have act: "unat (g_heap_active_bytes s') = payload_sum ((h, e, p, n) # ls)"
    using s'(6) d(9) by (simp add: unat_add_nowrap payload_sum_def)
  have "g_heap_start s \<le> g_heap_break s'"
    using s'(2) d(2) by (simp add: word_le_nat_alt)
  then show ?thesis
    unfolding heap_wf_def using s' d(1) free(1,2) new ins hdr disj sw act by simp
qed

subsection \<open>Allocation\<close>

text \<open>
  The effect of a successful allocation of \<open>n\<close> bytes aligned to \<open>al\<close>: a new block in use whose
  payload starts at \<open>p\<close>, aligned, with the header directly before it or, for an alignment
  above 16, one alignment unit before it; the blocks already in use keep their contents.
\<close>

definition allocated :: "mm \<Rightarrow> used_block list \<Rightarrow> u32 \<Rightarrow> nat \<Rightarrow> mm \<Rightarrow> u32 \<Rightarrow> bool" where
  "allocated s ls n al s' p \<longleftrightarrow> (\<exists>fs' h e. heap_wf s' fs' ((h, e, p, n) # ls)
     \<and> unat p = unat h + max 16 al \<and> al dvd unat p
     \<and> (\<forall>b \<in> set ls. \<forall>x. unat x \<in> used_range b \<longrightarrow> ram s' x = ram s x))"

lemma allocatedI:
  "heap_wf s' fs' ((h, e, p, n) # ls) \<Longrightarrow> unat p = unat h + max 16 al \<Longrightarrow> al dvd unat p \<Longrightarrow>
    (\<And>b x. b \<in> set ls \<Longrightarrow> unat x \<in> used_range b \<Longrightarrow> ram s' x = ram s x) \<Longrightarrow> allocated s ls n al s' p"
  unfolding allocated_def by blast

lemma carve_block_correct:
  assumes wf: "heap_wf s (xs @ (c, k) # ys) ls"
    and placed: "placed (unat c) (unat c + unat k) (unat n) al (h, p, e, pre, suf)"
    and prev: "prev = (if xs = [] then 0 else fst (last xs))"
  shows "\<exists>s'. carve_block n prev c (h, p, e, pre, suf) s = Some (s', p) \<and> allocated s ls n al s' p"
proof -
  note d = heap_wfD [OF wf]
  let ?lo = "unat (g_heap_start s)" and ?hi = "unat (g_heap_break s)"
  have hi: "?hi < 2 ^ 32" by (rule unat_u32_less)
  have ck: "?lo \<le> unat c" "8 \<le> unat k" "unat c + unat k \<le> ?hi" using fsorted_mem [OF d(4), of c k] by simp_all
  note pl = placed [unfolded placed_def prod.case]
  have ap: "nodes_apart (xs @ (c, k) # ys)" using fsorted_nodes_apart [OF d(4)] hi by (meson less_imp_le)
  define m0 fl0 where "m0 = fst (if prev = 0 then (ram s, fb_next (ram s) c) else (set_next prev (fb_next (ram s) c) (ram s), g_free_list s))"
    and "fl0 = snd (if prev = 0 then (ram s, fb_next (ram s) c) else (set_next prev (fb_next (ram s) c) (ram s), g_free_list s))"
  have "prev = 0 \<longleftrightarrow> xs = []"
    using prev d(1,4) fsorted_mem [OF d(4), of "fst (last xs)" "snd (last xs)"] last_in_set [of xs] by auto
  then have eq0: "(m0, fl0) = (if xs = [] then (ram s, fb_next (ram s) c)
      else (set_next (fst (last xs)) (fb_next (ram s) c) (ram s), g_free_list s))"
    by (simp add: m0_def fl0_def prev)
  note u = unlink_fseg [OF d(3) ap eq0]
  note r = fsorted_remove [OF d(4)]
  have mem8: "8 \<le> unat n" if "(b, n) \<in> set (xs @ (c, k) # ys)" for b n using fsorted_mem [OF d(4) that] by simp
  have out0: "m0 x = ram s x" if "unat x \<notin> fbytes (xs @ (c, k) # ys)" for x
    using that mem8 in_range_bytes [of _ _ "xs @ (c, k) # ys" x] by (intro u(2)) fastforce
  have pre: "block_bytes (c, pre) \<subseteq> block_bytes (c, k)" "unat c + unat pre = unat h" "16 \<le> unat pre" "unat h \<le> ?hi"
    using pl ck by (auto simp: block_bytes_def)
  have ins1: "insertable ?lo ?hi c pre (xs @ ys)"
    unfolding insertable_def using d(1) hi r ck pre by auto
  obtain m1 fl1 where i1: "insert_free_block c pre (m0, fl0) = Some (m1, fl1)" "fseg m1 fl1 (fl_insert c pre (xs @ ys)) 0"
    "\<forall>x. unat x \<notin> fbytes (xs @ ys) \<union> block_bytes (c, pre) \<longrightarrow> m1 x = m0 x"
    using insert_free_block_correct [OF u(1) ins1] by blast
  note f1 = fl_insert_sorted [OF ins1]
  define fs1 where "fs1 = fl_insert c pre (xs @ ys)"
  have e: "unat e + unat suf = unat c + unat k" "unat h + 16 \<le> unat p" "unat p + unat n \<le> unat e" "unat e \<le> ?hi"
    using pl ck by auto
  have part: "block_bytes (e, suf) \<subseteq> block_bytes (c, k)" "{unat h..<unat e} \<subseteq> block_bytes (c, k)"
    "block_bytes (e, suf) \<inter> block_bytes (c, pre) = {}" "{unat h..<unat e} \<inter> block_bytes (c, pre) = {}"
    "{unat h..<unat e} \<inter> block_bytes (e, suf) = {}"
    using e pre(2,3) by (auto simp: block_bytes_def)
  have away: "x \<notin> fbytes xs" "x \<notin> fbytes ys" if "x \<in> block_bytes (c, k)" for x
    using that r by auto
  have "\<exists>m2 fl2 fs2. (if 8 \<le> suf then insert_free_block e suf (m1, fl1) else Some (m1, fl1)) = Some (m2, fl2)
      \<and> fseg m2 fl2 fs2 0 \<and> fsorted True ?lo ?hi fs2 \<and> fbytes fs2 = fbytes fs1 \<union> block_bytes (e, suf)
      \<and> (\<forall>x. unat x \<notin> fbytes fs1 \<union> block_bytes (e, suf) \<longrightarrow> m2 x = m1 x)"
  proof (cases "8 \<le> suf")
    case True
    have "block_bytes (e, suf) \<inter> fbytes fs1 = {}"
      using f1(2) part away by (auto simp: fs1_def)
    then have ins2: "insertable ?lo ?hi e suf fs1"
      unfolding insertable_def using d(1) hi f1(1) ck e pl True by (auto simp: fs1_def word_le_nat_alt)
    show ?thesis
      using True insert_free_block_correct [OF i1(2) [folded fs1_def] ins2] fl_insert_sorted [OF ins2] by auto
  next
    case False
    then have "unat suf = 0" using pl by (auto simp: word_le_nat_alt)
    then show ?thesis
      using False i1(2) f1(1) by (auto simp: fs1_def block_bytes_def)
  qed
  then obtain m2 fl2 fs2 where i2: "(if 8 \<le> suf then insert_free_block e suf (m1, fl1) else Some (m1, fl1)) = Some (m2, fl2)"
    "fseg m2 fl2 fs2 0" "fsorted True ?lo ?hi fs2" "fbytes fs2 = fbytes fs1 \<union> block_bytes (e, suf)"
    "\<forall>x. unat x \<notin> fbytes fs1 \<union> block_bytes (e, suf) \<longrightarrow> m2 x = m1 x" by blast
  define s' where "s' = s\<lparr>ram := write_header h h (e - h) n kHeapHeaderMagic m2, g_free_list := fl2,
    g_heap_active_bytes := g_heap_active_bytes s + n\<rparr>"
  have run: "carve_block n prev c (h, p, e, pre, suf) s = Some (s', p)"
    using i1(1) i2(1) pre(3)
    by (simp add: carve_block_def Let_def m0_def fl0_def s'_def word_le_nat_alt)
  have fs2: "fbytes fs2 = fbytes xs \<union> fbytes ys \<union> block_bytes (c, pre) \<union> block_bytes (e, suf)"
    using i2(4) f1(2) by (simp add: fs1_def)
  have sub: "fbytes fs2 \<subseteq> fbytes (xs @ (c, k) # ys)" unfolding fs2 using pre(1) part(1) by auto
  have new: "{unat h..<unat e} \<inter> fbytes fs2 = {}" unfolding fs2 using part(2,4,5) away by blast
  have h16: "unat h + 16 \<le> 2 ^ 32" using e hi by simp
  have outw: "ram s' x = m2 x" if "unat x \<notin> {unat h..<unat e}" for x
    using that e h16 by (auto simp: s'_def in_range_def intro!: write_header_outside)
  have keep: "ram s' x = ram s x" if "unat x \<notin> fbytes (xs @ (c, k) # ys)" for x
  proof -
    have "unat x \<notin> {unat h..<unat e}" "unat x \<notin> fbytes fs1 \<union> block_bytes (e, suf)"
      "unat x \<notin> fbytes (xs @ ys) \<union> block_bytes (c, pre)"
      using that part sub i2(4) pre(1) by auto
    then show ?thesis using outw i2(5) i1(3) out0 [OF that] by simp
  qed
  have seg: "fseg (ram s') fl2 fs2 0"
  proof -
    have "ram s' x = m2 x" if "unat x \<in> fbytes fs2" for x using that new by (intro outw) blast
    then show ?thesis using i2(2) fseg_bytes_cong [OF i2(3) hi, of "ram s'" m2] by blast
  qed
  have hdr: "header_at (ram s') (h, e, p, n)"
    using write_header_at [OF h16] by (simp add: header_at_def s'_def)
  have used: "unat x \<notin> fbytes (xs @ (c, k) # ys)" if "b \<in> set ls" "unat x \<in> used_range b" for b x
    using d(7) [OF that(1)] that(2) by blast
  have "heap_wf s' fs2 ((h, e, p, n) # ls)"
  proof (rule heap_wf_add [OF wf])
    show "fseg (ram s') (g_free_list s') fs2 0" using seg by (simp add: s'_def)
    show "fsorted True ?lo (unat (g_heap_break s')) fs2" using i2(3) by (simp add: s'_def)
    show "used_inside ?lo (unat (g_heap_break s')) (h, e, p, n)"
      using e ck pre by (simp add: s'_def used_inside_def)
    show "used_range (h, e, p, n) \<inter> fbytes fs2 = {}" using new by (simp add: used_range_def)
    show "used_range (h, e, p, n) \<inter> used_range b = {}" if "b \<in> set ls" for b
      using d(7) [OF that] part(2) by (auto simp: used_range_def)
    show "ram s' x = ram s x" if "b \<in> set ls" "unat x \<in> used_range b" for b x
      using keep [OF used [OF that]] .
  qed (use wf hdr sub in \<open>simp_all add: s'_def heap_wf_def\<close>)
  then have "allocated s ls n al s' p" using pl keep [OF used] by (blast intro: allocatedI)
  with run show ?thesis by blast
qed

text \<open>Enough address space above the heap for the rounding and the size not to wrap around.\<close>

definition heap_room :: "mm \<Rightarrow> u32 \<Rightarrow> nat \<Rightarrow> bool" where
  "heap_room s n k \<longleftrightarrow> k < 32 \<and> unat (g_heap_break s) + 2 * 2 ^ k + 32 + unat n < 2 ^ 32"

lemma free_list_walk_correct:
  assumes "heap_wf s (xs @ ys) ls" and room: "heap_room s n k" and "fseg (ram s) c ys 0"
    and "prev = (if xs = [] then 0 else fst (last xs))"
  shows "\<exists>s' p. free_list_walk n (2 ^ k) prev c s = Some (s', p)
    \<and> (if p = 0 then s' = s else allocated s ls n (2 ^ k) s' p)"
  using assms(1,3,4)
proof (induction ys arbitrary: xs c prev)
  case Nil
  then show ?case by (subst free_list_walk.simps) simp
next
  case (Cons y ys)
  obtain b j where y: "y = (b, j)" by (cases y)
  have c: "c = b" "c \<noteq> 0" "fb_size (ram s) c = j" "fseg (ram s) (fb_next (ram s) c) ys 0"
    using Cons.prems(2) y by auto
  have bj: "unat b + unat j \<le> unat (g_heap_break s)" "8 \<le> unat j"
    using fsorted_mem [OF heap_wfD(4) [OF Cons.prems(1)], of b j] y by simp_all
  have bj': "unat (b + j) = unat b + unat j"
    using bj unat_u32_less [of "g_heap_break s"] by (intro unat_add_nowrap) simp
  show ?case
  proof (cases "fit_block b (b + j) n (2 ^ k)")
    case None
    have "\<exists>s' p. free_list_walk n (2 ^ k) b (fb_next (ram s) b) s = Some (s', p)
        \<and> (if p = 0 then s' = s else allocated s ls n (2 ^ k) s' p)"
      using Cons.prems(1) y c by (intro Cons.IH [of "xs @ [(b, j)]"]) simp_all
    with None c show ?thesis by (subst free_list_walk.simps) simp
  next
    case (Some r)
    obtain h p e pre suf where r: "r = (h, p, e, pre, suf)" by (cases r)
    have "placed (unat b) (unat b + unat j) (unat n) (2 ^ k) r"
      using fit_block_placed [OF _ _ Some] room bj by (simp add: heap_room_def bj')
    from carve_block_correct [OF Cons.prems(1) [unfolded y] this [unfolded r] Cons.prems(3)]
    obtain s' where s': "carve_block n prev b r s = Some (s', p)" "allocated s ls n (2 ^ k) s' p"
      unfolding r by blast
    then have "p \<noteq> 0" by (auto simp: allocated_def)
    with s' Some c show ?thesis by (subst free_list_walk.simps) simp
  qed
qed

text \<open>Mapping further pages ends, and changes neither the memory nor the block structure.\<close>

lemma map_next_heap_page_facts:
  assumes "map_next_heap_page pt s = (s', ok)"
  shows "g_heap_start s' = g_heap_start s" "g_heap_limit s' = g_heap_limit s" "g_heap_break s' = g_heap_break s"
    "g_free_list s' = g_free_list s" "g_heap_active_bytes s' = g_heap_active_bytes s" "ram s' = ram s"
    "g_heap_mapped_end s' = (if ok then g_heap_mapped_end s + 4096 else g_heap_mapped_end s)"
    "ok \<Longrightarrow> g_heap_mapped_end s < g_heap_limit s"
  using assms by (auto simp: map_next_heap_page_def split: if_splits prod.splits)

lemma heap_wf_page:
  assumes wf: "heap_wf s fs ls" and m: "map_next_heap_page pt s = (s', ok)"
  shows "heap_wf s' fs ls"
proof -
  note f = map_next_heap_page_facts [OF m]
  have "unat (g_heap_mapped_end s') mod 4096 = 0"
  proof (cases ok)
    case True
    have "unat (g_heap_mapped_end s) mod 4096 = 0" using wf by (simp add: heap_wf_def)
    then have "unat (g_heap_mapped_end s + 4096) mod 4096 = 0"
      by (simp add: unat_word_ariths mod_mod_cancel)
    with f(7) True show ?thesis by simp
  qed (use wf f in \<open>simp add: heap_wf_def\<close>)
  then show ?thesis using wf f(1-6) by (simp add: heap_wf_def)
qed

definition same_blocks :: "mm \<Rightarrow> mm \<Rightarrow> bool" where
  "same_blocks s s' \<longleftrightarrow> g_heap_start s' = g_heap_start s \<and> g_heap_limit s' = g_heap_limit s
     \<and> g_heap_break s' = g_heap_break s \<and> g_free_list s' = g_free_list s
     \<and> g_heap_active_bytes s' = g_heap_active_bytes s \<and> ram s' = ram s"

lemma same_blocks_trans: "same_blocks s t \<Longrightarrow> same_blocks t u \<Longrightarrow> same_blocks s u"
  by (simp add: same_blocks_def)

lemma map_heap_until_correct:
  assumes "heap_wf s fs ls" and "e \<le> g_heap_limit s"
  shows "\<exists>s' ok. map_heap_until pt e s = Some (s', ok) \<and> heap_wf s' fs ls \<and> same_blocks s s'
    \<and> (ok \<longrightarrow> e \<le> g_heap_mapped_end s')"
  using assms
proof (induction "unat (g_heap_limit s) - unat (g_heap_mapped_end s)" arbitrary: s rule: less_induct)
  case less
  show ?case
  proof (cases "g_heap_mapped_end s < e")
    case True
    obtain t ok where t: "map_next_heap_page pt s = (t, ok)" by fastforce
    note f = map_next_heap_page_facts [OF t]
    note wf = heap_wf_page [OF less.prems(1) t]
    have same: "same_blocks s t" using f by (simp add: same_blocks_def)
    show ?thesis
    proof (cases ok)
      case ok: True
      let ?a = "unat (g_heap_mapped_end s)" and ?l = "unat (g_heap_limit s)"
      have al: "?a mod 4096 = 0" "?l mod 4096 = 0" "?a < ?l"
        using less.prems(1) f(8) ok by (simp_all add: heap_wf_def word_less_nat_alt)
      then have "?a + 4096 \<le> ?l" by (rule multiple_gap)
      then have "unat (g_heap_mapped_end t) = ?a + 4096"
        using f(7) ok unat_u32_less [of "g_heap_limit s"] by (simp add: unat_word_ariths)
      then have "?l - unat (g_heap_mapped_end t) < ?l - ?a" using al by simp
      then have "\<exists>s' ok. map_heap_until pt e t = Some (s', ok) \<and> heap_wf s' fs ls \<and> same_blocks t s'
          \<and> (ok \<longrightarrow> e \<le> g_heap_mapped_end s')"
        using wf less.prems(2) f(2) by (intro less.hyps) simp_all
      moreover have "map_heap_until pt e s = map_heap_until pt e t"
        using True t ok by (subst map_heap_until.simps) simp
      ultimately show ?thesis using same_blocks_trans [OF same] by metis
    next
      case False
      with True t wf same show ?thesis
        by (intro exI [of _ t] exI [of _ False]) (simp add: map_heap_until.simps [of pt e s])
    qed
  next
    case False
    then have "map_heap_until pt e s = Some (s, True)" by (subst map_heap_until.simps) simp
    with False less.prems show ?thesis
      by (intro exI [of _ s] exI [of _ True]) (simp add: same_blocks_def)
  qed
qed

lemma fsorted_hi: "fsorted g lo hi bs \<Longrightarrow> hi \<le> hi' \<Longrightarrow> fsorted g lo hi' bs"
  by (induction g lo hi bs rule: fsorted.induct) auto

lemma allocate_from_bump_correct:
  assumes wf: "heap_wf s fs ls" and room: "heap_room s n k"
  shows "\<exists>s' p. allocate_from_bump pt n (2 ^ k) s = Some (s', p)
    \<and> (if p = 0 then heap_wf s' fs ls \<and> same_blocks s s' else allocated s ls n (2 ^ k) s' p)"
proof -
  obtain h p where hp: "place_header (g_heap_break s) (2 ^ k) = (h, p)" by fastforce
  have k: "k < 32" "unat (g_heap_break s) + 2 * 2 ^ k + 32 \<le> 2 ^ 32" using room by (simp_all add: heap_room_def)
  note ph = place_header_eq [OF k hp]
  have pn: "unat (p + n) = unat p + unat n"
    using room ph(2,4) by (intro unat_add_nowrap) (simp add: heap_room_def max_def split: if_splits)
  then have nw: "\<not> p + n < p" by (simp add: word_less_nat_alt)
  have p0: "p \<noteq> 0" using ph(2,3) by auto
  show ?thesis
  proof (cases "g_heap_limit s < p + n")
    case True
    then show ?thesis
      using hp wf by (simp add: allocate_from_bump_def Let_def same_blocks_def)
  next
    case False
    obtain t ok where t: "map_heap_until pt (p + n) s = Some (t, ok)" "heap_wf t fs ls" "same_blocks s t"
      using map_heap_until_correct [OF wf, of "p + n" pt] False by (meson not_less)
    show ?thesis
    proof (cases ok)
      case ok: True
      define s' where "s' = t\<lparr>g_heap_break := p + n, ram := write_header h h (p + n - h) n kHeapHeaderMagic (ram t),
        g_heap_active_bytes := g_heap_active_bytes t + n\<rparr>"
      have run: "allocate_from_bump pt n (2 ^ k) s = Some (s', p)"
        using hp t(1) ok False nw by (simp add: allocate_from_bump_def Let_def s'_def)
      have same: "g_heap_break t = g_heap_break s" "g_heap_start t = g_heap_start s" "ram t = ram s" "g_heap_limit t = g_heap_limit s"
        using t(3) by (simp_all add: same_blocks_def)
      note d = heap_wfD [OF t(2)]
      have h16: "unat h + 16 \<le> unat p" using ph(2) by simp
      have h32: "unat h + 16 \<le> 2 ^ 32" using h16 unat_u32_less [of p] by simp
      have le: "unat (g_heap_break t) \<le> unat (p + n)" "unat (g_heap_break t) \<le> unat h"
        using ph(3) h16 pn same by simp_all
      have keep: "ram s' x = ram t x" if "unat x < unat (g_heap_break t)" for x
        using that le(2) h32 by (auto simp: s'_def in_range_def intro!: write_header_outside)
      have below: "unat x < unat (g_heap_break t)" if "b \<in> set ls" "unat x \<in> used_range b" for b x
        using d(5) [OF that(1)] that(2) by (auto simp: used_inside_def used_range_def)
      have fbelow: "x < unat (g_heap_break t)" if "x \<in> fbytes fs" for x
        using that fsorted_mem [OF d(4)] by (fastforce simp: fbytes_def block_bytes_def)
      have "heap_wf s' fs ((h, p + n, p, n) # ls)"
      proof (rule heap_wf_add [OF t(2)])
        show "g_heap_break t \<le> g_heap_break s'" using le by (simp add: s'_def word_le_nat_alt)
        show "g_heap_break s' \<le> g_heap_limit s'" using False same by (simp add: s'_def)
        show "fseg (ram s') (g_free_list s') fs 0"
          using d(3) fseg_bytes_cong [OF d(4) unat_u32_less, of "ram s'" "ram t"] keep fbelow by (simp add: s'_def)
        show "fsorted True (unat (g_heap_start t)) (unat (g_heap_break s')) fs"
          using fsorted_hi [OF d(4)] le by (simp add: s'_def)
        show "used_inside (unat (g_heap_start t)) (unat (g_heap_break s')) (h, p + n, p, n)"
          using d(2) le h16 pn by (simp add: s'_def used_inside_def)
        show "header_at (ram s') (h, p + n, p, n)"
          using write_header_at [OF h32] by (simp add: header_at_def s'_def)
        show "used_range (h, p + n, p, n) \<inter> fbytes fs = {}"
          using fbelow le(2) by (fastforce simp: used_range_def)
        show "used_range (h, p + n, p, n) \<inter> used_range b = {}" if "b \<in> set ls" for b
          using d(5) [OF that] le(2) by (auto simp: used_range_def used_inside_def)
        show "ram s' x = ram t x" if "b \<in> set ls" "unat x \<in> used_range b" for b x
          using keep [OF below [OF that]] .
      qed (use t(2) in \<open>simp_all add: s'_def heap_wf_def\<close>)
      moreover have "ram s' x = ram s x" if "b \<in> set ls" "unat x \<in> used_range b" for b x
        using keep [OF below [OF that]] same(3) by simp
      ultimately have "allocated s ls n (2 ^ k) s' p" using ph(2,5) by (intro allocatedI)
      with run p0 show ?thesis by auto
    next
      case nok: False
      then have "allocate_from_bump pt n (2 ^ k) s = Some (t, 0)"
        using hp t(1) False nw by (simp add: allocate_from_bump_def Let_def)
      then show ?thesis using t by simp
    qed
  qed
qed

lemma heap_alloc_correct:
  assumes wf: "heap_wf s fs ls" and room: "heap_room s n k"
  shows "\<exists>s' p. heap_alloc pt n (2 ^ k) s = Some (s', p)
    \<and> (if p = 0 then heap_wf s' fs ls \<and> same_blocks s s' else allocated s ls n (2 ^ k) s' p)"
proof (cases "n = 0")
  case True
  then show ?thesis using wf by (simp add: heap_alloc_def same_blocks_def)
next
  case False
  have "unat (2 ^ k :: u32) = 2 ^ k"
    using room unat_of_nat_u32 [of "2 ^ k"] power_strict_increasing [of k 32 "2 :: nat"] by (simp add: heap_room_def)
  then have nz: "(2 :: u32) ^ k \<noteq> 0" by (metis power_not_zero unat_0 zero_neq_numeral)
  obtain t q where t: "free_list_walk n (2 ^ k) 0 (g_free_list s) s = Some (t, q)"
    "if q = 0 then t = s else allocated s ls n (2 ^ k) t q"
    using free_list_walk_correct [of s "[]" fs ls n k "g_free_list s" 0] wf room heap_wfD(3) [OF wf] by auto
  show ?thesis
  proof (cases "q = 0")
    case True
    then show ?thesis
      using t False nz allocate_from_bump_correct [OF wf room, of pt]
      by (simp add: heap_alloc_def allocate_from_free_list_def)
  next
    case q: False
    then show ?thesis
      using t False nz by (auto simp: heap_alloc_def allocate_from_free_list_def)
  qed
qed

subsection \<open>Release\<close>

lemma heap_free_correct:
  assumes wf: "heap_wf s fs (us @ (h, e, p, n) # vs)" and p: "unat p = unat h + 16"
  shows "\<exists>s'. heap_free p s = Some s' \<and> heap_wf s' (fl_insert h (e - h) fs) (us @ vs)
    \<and> fbytes (fl_insert h (e - h) fs) = fbytes fs \<union> {unat h..<unat e}
    \<and> (\<forall>b \<in> set (us @ vs). \<forall>x. unat x \<in> used_range b \<longrightarrow> ram s' x = ram s x)"
proof -
  let ?b = "(h, e, p, n)" and ?ls = "us @ (h, e, p, n) # vs"
  let ?lo = "unat (g_heap_start s)" and ?hi = "unat (g_heap_break s)"
  note d = heap_wfD [OF wf]
  have hi: "?hi < 2 ^ 32" by (rule unat_u32_less)
  have ins: "?lo \<le> unat h" "unat p + unat n \<le> unat e" "unat e \<le> ?hi"
    using d(5) [of ?b] by (simp_all add: used_inside_def)
  have hdr: "read32 (ram s) h = h" "read32 (ram s) (h + 4) = e - h" "read32 (ram s) (h + 8) = n"
    "read32 (ram s) (h + 12) = kHeapHeaderMagic"
    using d(6) [of ?b] by (simp_all add: header_at_def)
  have "p = h + 16" using p ins hi by (simp add: word_unat_eq_iff unat_offset)
  then have ph: "p - 16 = h" "p \<noteq> 0" using p by auto
  have eh: "unat (e - h) = unat e - unat h" using ins p by (intro unat_sub) (simp add: word_le_nat_alt)
  have off: "unat (h + 4) = unat h + 4" "unat (h + 12) = unat h + 12" using ins hi p by (simp_all add: unat_offset)
  define m where "m = write32 (h + 12) 0 (ram s)"
  have out: "m x = ram s x" if "unat x \<notin> {unat h..<unat e}" for x
    using that ins p off hi by (auto simp: m_def in_range_def intro!: write32_outside)
  have rd: "read32 m h = h" "read32 m (h + 4) = e - h"
    using hdr off ins p hi by (simp_all add: m_def read32_write32_apart apart_def)
  have bb: "block_bytes (h, e - h) = {unat h..<unat e}" using eh ins p by (simp add: block_bytes_def)
  have disj: "{unat h..<unat e} \<inter> fbytes fs = {}" using d(7) [of ?b] by (simp add: used_range_def)
  have seg: "fseg m (g_free_list s) fs 0"
    using d(3) fseg_bytes_cong [OF d(4) hi, of m "ram s"] out disj by blast
  have insb: "insertable ?lo ?hi h (e - h) fs"
    unfolding insertable_def using d(1,4) hi ins p eh bb disj by simp
  obtain m' fl' where i: "insert_free_block h (e - h) (m, g_free_list s) = Some (m', fl')"
    "fseg m' fl' (fl_insert h (e - h) fs) 0" "\<forall>x. unat x \<notin> fbytes fs \<union> {unat h..<unat e} \<longrightarrow> m' x = m x"
    using insert_free_block_correct [OF seg insb] unfolding bb by blast
  note fl = fl_insert_sorted [OF insb, unfolded bb]
  have act: "unat (g_heap_active_bytes s) = unat n + payload_sum (us @ vs)"
    using d(9) by (simp add: payload_sum_def)
  then have act': "n \<le> g_heap_active_bytes s" "unat (g_heap_active_bytes s - n) = payload_sum (us @ vs)"
    by (simp_all add: word_le_nat_alt unat_sub)
  define s' where "s' = s\<lparr>g_heap_active_bytes := g_heap_active_bytes s - n, ram := m', g_free_list := fl'\<rparr>"
  have run: "heap_free p s = Some s'"
    using ph hdr act'(1) rd i(1) by (simp add: heap_free_def Let_def m_def [symmetric] s'_def)
  have sw: "used_range b \<inter> used_range ?b = {}" if "b \<in> set (us @ vs)" for b
    using d(8) that by (auto simp: sorted_wrt_append)
  have keep: "ram s' x = ram s x" if "b \<in> set (us @ vs)" "unat x \<in> used_range b" for b x
  proof -
    have "unat x \<notin> fbytes fs" "unat x \<notin> {unat h..<unat e}"
      using d(7) [of b] sw [OF that(1)] that by (auto simp: used_range_def)
    then show ?thesis using i(3) out by (simp add: s'_def)
  qed
  have hdr': "header_at (ram s') b" if "b \<in> set (us @ vs)" for b
    using that by (intro header_at_cong [OF d(6,5) hi keep [OF that]]) auto
  have "\<forall>b \<in> set (us @ vs). used_inside ?lo ?hi b \<and> header_at (ram s') b
      \<and> used_range b \<inter> fbytes (fl_insert h (e - h) fs) = {}"
  proof
    fix b assume b: "b \<in> set (us @ vs)"
    then have "used_range b \<inter> fbytes fs = {}" "used_inside ?lo ?hi b" using d(5,7) [of b] by auto
    moreover have "used_range b \<inter> {unat h..<unat e} = {}" using sw [OF b] by (simp add: used_range_def)
    ultimately show "used_inside ?lo ?hi b \<and> header_at (ram s') b
        \<and> used_range b \<inter> fbytes (fl_insert h (e - h) fs) = {}"
      unfolding fl(2) Int_Un_distrib using hdr' [OF b] by simp
  qed
  moreover have "sorted_wrt (\<lambda>b c. used_range b \<inter> used_range c = {}) (us @ vs)"
    using d(8) by (simp add: sorted_wrt_append)
  ultimately have "heap_wf s' (fl_insert h (e - h) fs) (us @ vs)"
    using wf i(2) fl(1) act'(2) unfolding heap_wf_def by (simp add: s'_def)
  with run fl(2) keep show ?thesis by blast
qed

subsection \<open>Initialisation\<close>

lemma heap_align_up_page: "heap_align_up v 4096 = align_up v 4096"
  by (simp add: heap_align_up_def align_up_def)

lemma heap_init_wf:
  assumes "0 < unat heap_start" and "unat heap_start \<le> 0xFFFFF000"
  shows "heap_wf (heap_init heap_start heap_limit s) [] []"
proof -
  have start: "unat (align_up heap_start 4096) = 4096 * ((unat heap_start + 4095) div 4096)"
    using assms(2) by (simp add: unat_align_up)
  have "0 < unat (align_up heap_start 4096)" unfolding start using assms(1) by (simp add: div_greater_zero_iff)
  moreover have "unat (align_up v 4096) mod 4096 = 0" for v by (simp add: unat_align_up)
  ultimately show ?thesis
    by (simp add: heap_wf_def heap_init_def Let_def heap_align_up_page payload_sum_def) (meson linear)
qed


section \<open>Properties\<close>

text \<open>An empty heap at 1 MiB in a machine with the two free frames there and no page mapped.\<close>

definition mm_fresh :: mm where
  "mm_fresh = heap_init 0x100000 0x102000
     \<lparr>g_heap_start = 0, g_heap_limit = 0, g_heap_break = 0, g_heap_mapped_end = 0, g_free_list = 0,
      g_heap_active_bytes = 0, frames = pmm_two_free, pages = vmm_clear 0x1FF000 vmm_zero, ram = (\<lambda>_. 0)\<rparr>"

lemma mm_fresh_wf: "heap_wf mm_fresh [] []"
  unfolding mm_fresh_def by (rule heap_init_wf) simp_all

lemma mm_fresh_room: "heap_room mm_fresh 100 4"
  by (simp add: heap_room_def mm_fresh_def heap_init_def heap_align_up_def)

text \<open>
  C3. Inserting a block into the chain of free blocks in memory terminates and implements the
  insertion into a sorted list of blocks with merging of adjacent blocks: the chain then
  is that list, still in order with gaps between neighbours, it covers exactly the old bytes
  and the new ones, and no byte of memory outside them has changed.
\<close>

theorem insert_free_block_refines:
  assumes "fseg m fl bs 0" and "insertable lo hi start sz bs"
  shows "\<exists>m' fl'. insert_free_block start sz (m, fl) = Some (m', fl') \<and> fseg m' fl' (fl_insert start sz bs) 0
    \<and> fsorted True lo hi (fl_insert start sz bs)
    \<and> fbytes (fl_insert start sz bs) = fbytes bs \<union> {unat start..<unat start + unat sz}
    \<and> (\<forall>x. unat x \<notin> fbytes bs \<union> {unat start..<unat start + unat sz} \<longrightarrow> m' x = m x)"
  using insert_free_block_correct [OF assms] fl_insert_sorted [OF assms(2)] by (simp add: block_bytes_def)

theorem insert_free_block_refines_witness:
  "\<exists>m' fl'. insert_free_block 0x2000 64 (write32 0x1004 0 (write32 0x1000 0x1000 (\<lambda>_. 0)), 0x1000) = Some (m', fl')
     \<and> fseg m' fl' [(0x1000, 0x1040)] 0"
proof -
  have "fseg (write32 0x1004 0 (write32 0x1000 0x1000 (\<lambda>_. 0))) 0x1000 [(0x1000, 0x1000)] 0"
    by (simp add: fb_size_def fb_next_def write32_def read32_def)
  moreover have "insertable 0x1000 0x10000 0x2000 64 [(0x1000, 0x1000)]"
    by (auto simp: insertable_def block_bytes_def)
  moreover have "fl_insert 0x2000 64 [(0x1000, 0x1000)] = [(0x1000, 0x1040)]"
    by (simp add: fl_insert_def)
  ultimately show ?thesis
    using insert_free_block_refines [of _ "0x1000" "[(0x1000, 0x1000)]" "0x1000" "0x10000" "0x2000" 64] by metis
qed

text \<open>
  C1. On a well-formed heap, with a power of two as alignment and room in the address space,
  \<open>heap_alloc\<close> terminates. Either it returns null and the heap's blocks are as before, or
  it returns an aligned payload of a new block that overlaps neither a block in use nor the
  free list, the heap stays well formed with that block added, and no byte of a block
  already in use has changed.
\<close>

theorem heap_alloc_fresh_block:
  assumes "heap_wf s fs ls" and "heap_room s n k"
  shows "\<exists>s' p. heap_alloc pt n (2 ^ k) s = Some (s', p)
    \<and> (if p = 0 then heap_wf s' fs ls \<and> ram s' = ram s
       else \<exists>fs' h e. heap_wf s' fs' ((h, e, p, n) # ls) \<and> unat p = unat h + max 16 (2 ^ k) \<and> 2 ^ k dvd unat p
         \<and> (\<forall>b \<in> set ls. \<forall>x. unat x \<in> used_range b \<longrightarrow> ram s' x = ram s x))"
proof -
  obtain s' p where a: "heap_alloc pt n (2 ^ k) s = Some (s', p)"
    "if p = 0 then heap_wf s' fs ls \<and> same_blocks s s' else allocated s ls n (2 ^ k) s' p"
    using heap_alloc_correct [OF assms] by blast
  then show ?thesis
    by (intro exI [of _ s'] exI [of _ p]) (cases "p = 0"; simp add: same_blocks_def allocated_def)
qed

theorem heap_alloc_fresh_block_witness:
  "\<exists>s' p. heap_alloc 0x200000 100 16 mm_fresh = Some (s', p)"
  using heap_alloc_fresh_block [OF mm_fresh_wf mm_fresh_room, of "0x200000"] by auto

text \<open>
  C2. \<open>heap_free\<close> of a block whose payload follows its header directly, as for every alignment up to 16,
  terminates, adds exactly the bytes of the block to the free list, takes its payload
  size off the byte counter, keeps the heap well formed, and leaves the contents of all
  other blocks alone.
\<close>

theorem heap_free_returns_block:
  assumes "heap_wf s fs (us @ (h, e, p, n) # vs)" and "unat p = unat h + 16"
  shows "\<exists>s'. heap_free p s = Some s' \<and> heap_wf s' (fl_insert h (e - h) fs) (us @ vs)
    \<and> fbytes (fl_insert h (e - h) fs) = fbytes fs \<union> {unat h..<unat e}
    \<and> unat (used_bytes s') + unat n = unat (used_bytes s)
    \<and> (\<forall>b \<in> set (us @ vs). \<forall>x. unat x \<in> used_range b \<longrightarrow> ram s' x = ram s x)"
proof -
  obtain s' where s': "heap_free p s = Some s'" "heap_wf s' (fl_insert h (e - h) fs) (us @ vs)"
    "fbytes (fl_insert h (e - h) fs) = fbytes fs \<union> {unat h..<unat e}"
    "\<forall>b \<in> set (us @ vs). \<forall>x. unat x \<in> used_range b \<longrightarrow> ram s' x = ram s x"
    using heap_free_correct [OF assms] by blast
  have "unat (used_bytes s') + unat n = unat (used_bytes s)"
    using heap_wfD(9) [OF assms(1)] heap_wfD(9) [OF s'(2)] by (simp add: used_bytes_def payload_sum_def)
  with s' show ?thesis by blast
qed

text \<open>A heap with one block in use: 16 bytes of payload at \<open>0x100020\<close>.\<close>

definition mm_one :: mm where
  "mm_one = mm_fresh\<lparr>g_heap_break := 0x100030, g_heap_active_bytes := 16,
     ram := write_header 0x100010 0x100010 32 16 kHeapHeaderMagic (\<lambda>_. 0)\<rparr>"

lemma mm_one_wf: "heap_wf mm_one [] [(0x100010, 0x100030, 0x100020, 16)]"
proof -
  have "header_at (ram mm_one) (0x100010, 0x100030, 0x100020, 16)"
    using write_header_at [of "0x100010"] by (simp add: mm_one_def header_at_def)
  then show ?thesis
    by (simp add: heap_wf_def mm_one_def mm_fresh_def heap_init_def heap_align_up_def used_inside_def payload_sum_def)
qed

theorem heap_free_returns_block_witness:
  "\<exists>s'. heap_free 0x100020 mm_one = Some s' \<and> heap_wf s' [(0x100010, 32)] []"
  using heap_free_returns_block [of mm_one "[]" "[]" "0x100010" "0x100030" "0x100020" 16 "[]"] mm_one_wf
  by (auto simp: fl_insert_def)

end
