(* ===== verification/RamFs.thy ===== *)
theory RamFs
  imports Heap_Alloc
begin

text \<open>
  The file system in memory, \<open>src/kernel/fs/ramfs.cpp\<close> with the types of \<open>vfs.hpp\<close> and
  \<open>ramfs.hpp\<close>: a table of 64 inodes that hold absolute path names, and a table of 32
  open files. An inode's data is the byte buffer its pointer owns, \<open>None\<close> for the null
  pointer. The array \<open>new uint8_t[n]\<close> takes from the kernel heap is the result of a
  parameter \<open>new_bytes\<close> on the heap's state: no result when the search of the heap does not
  end, no array when there is no memory. Every public operation holds the file
  system's lock from its first to its last statement, so each is one step here.
  The loop that doubles a capacity is a partial function: it never ends when no
  power of two times the old capacity reaches the size in 32 bits.
\<close>


section \<open>Definitions\<close>

abbreviation (input) slash :: char where "slash \<equiv> CHR 0x2F"
abbreviation (input) kOpenRead :: u32 where "kOpenRead \<equiv> 1"
abbreviation (input) kOpenWrite :: u32 where "kOpenWrite \<equiv> 2"
abbreviation (input) kOpenCreate :: u32 where "kOpenCreate \<equiv> 4"
abbreviation (input) kOpenTruncate :: u32 where "kOpenTruncate \<equiv> 8"
abbreviation (input) kFdOffset :: int where "kFdOffset \<equiv> 3"
abbreviation (input) kMaxInodes :: nat where "kMaxInodes \<equiv> 64"
abbreviation (input) kMaxFds :: nat where "kMaxFds \<equiv> 32"

record inode =
  used :: bool
  is_directory :: bool
  iname :: cstring
  idata :: "u8 list option"
  isize :: u32
  icapacity :: u32

record file_descriptor =
  fd_used :: bool
  fd_inode :: "nat option"
  fd_offset :: u32
  fd_flags :: u32

record dir_entry =
  entry_name :: cstring
  entry_is_directory :: bool

record ramfs =
  m_inodes :: "inode list"
  m_fds :: "file_descriptor list"

type_synonym 'h new_bytes = "'h \<Rightarrow> u32 \<Rightarrow> ('h \<times> u8 list option) option"

subsection \<open>Text\<close>

definition copy_text :: "cstring \<Rightarrow> nat \<Rightarrow> cstring" where
  "copy_text src max_size = take (max_size - 1) src"

fun text_equal :: "cstring \<Rightarrow> cstring \<Rightarrow> bool" where
  "text_equal (a # as) (b # bs) = (if a \<noteq> b then False else text_equal as bs)"
| "text_equal as bs = (as = [] \<and> bs = [])"

definition text_len :: "cstring \<Rightarrow> nat" where
  "text_len text = length text"

fun text_starts_with :: "cstring \<Rightarrow> cstring \<Rightarrow> bool" where
  "text_starts_with text [] = True"
| "text_starts_with [] (p # ps) = False"
| "text_starts_with (t # ts) (p # ps) = (if t \<noteq> p then False else text_starts_with ts ps)"

text \<open>\<open>copy_bytes\<close> into a buffer at an offset; a copy past the end makes the buffer longer than it was.\<close>

definition copy_bytes :: "u8 list \<Rightarrow> nat \<Rightarrow> u8 list \<Rightarrow> u8 list" where
  "copy_bytes dst off src = take off dst @ src @ drop (off + length src) dst"

fun norm_loop :: "nat \<Rightarrow> cstring \<Rightarrow> cstring \<Rightarrow> bool \<Rightarrow> cstring option" where
  "norm_loop out_size [] out prev_slash = Some out"
| "norm_loop out_size (c # cs) out prev_slash =
     (if c = slash then
        if prev_slash then norm_loop out_size cs out prev_slash
        else if out_size \<le> length out + 1 then None
        else norm_loop out_size cs (out @ [slash]) True
      else if out_size \<le> length out + 1 then None
      else norm_loop out_size cs (out @ [c]) False)"

definition normalize_path :: "cstring option \<Rightarrow> nat \<Rightarrow> cstring option" where
  "normalize_path path out_size =
     (case path of
        None \<Rightarrow> None
      | Some p \<Rightarrow>
          if out_size < 2 then None
          else case p of
            [] \<Rightarrow> None
          | c # cs \<Rightarrow>
              if c \<noteq> slash then None
              else map_option (\<lambda>out. if 1 < length out \<and> last out = slash then butlast out else out)
                (norm_loop out_size cs [slash] True))"

subsection \<open>Tables\<close>

definition free_inode :: inode where
  "free_inode = \<lparr>used = False, is_directory = False, iname = [], idata = None, isize = 0, icapacity = 0\<rparr>"

definition free_fd :: file_descriptor where
  "free_fd = \<lparr>fd_used = False, fd_inode = None, fd_offset = 0, fd_flags = 0\<rparr>"

definition find_inode :: "ramfs \<Rightarrow> cstring \<Rightarrow> nat option" where
  "find_inode fs path = find_slot (\<lambda>i. used i \<and> text_equal (iname i) path) (m_inodes fs)"

definition create_inode :: "cstring \<Rightarrow> bool \<Rightarrow> ramfs \<Rightarrow> ramfs \<times> nat option" where
  "create_inode path dir fs =
     (case find_slot (\<lambda>i. \<not> used i) (m_inodes fs) of
        None \<Rightarrow> (fs, None)
      | Some k \<Rightarrow> (fs\<lparr>m_inodes := (m_inodes fs)[k := \<lparr>used = True, is_directory = dir,
          iname = copy_text path 64, idata = None, isize = 0, icapacity = 0\<rparr>]\<rparr>, Some k))"

fun last_slash_from :: "nat \<Rightarrow> int \<Rightarrow> cstring \<Rightarrow> int" where
  "last_slash_from i best [] = best"
| "last_slash_from i best (c # cs) = last_slash_from (Suc i) (if c = slash then int i else best) cs"

definition parent_of :: "cstring \<Rightarrow> cstring" where
  "parent_of p = (let k = last_slash_from 0 (-1) p in if k \<le> 0 then take 1 p else take (nat k) p)"

definition parent_directory_exists :: "ramfs \<Rightarrow> cstring \<Rightarrow> bool" where
  "parent_directory_exists fs p =
     (if text_equal p [slash] then True
      else if text_len p < 2 then False
      else if 64 \<le> text_len p then False
      else case find_inode fs (parent_of (copy_text p 64)) of
        None \<Rightarrow> False
      | Some d \<Rightarrow> is_directory (m_inodes fs ! d))"

definition alloc_fd :: "ramfs \<Rightarrow> int" where
  "alloc_fd fs = (case find_slot (\<lambda>f. \<not> fd_used f) (m_fds fs) of None \<Rightarrow> -1 | Some i \<Rightarrow> int i)"

definition get_fd :: "int \<Rightarrow> ramfs \<Rightarrow> nat option" where
  "get_fd fd fs =
     (let index = fd - kFdOffset in
      if index < 0 \<or> int kMaxFds \<le> index then None
      else if \<not> fd_used (m_fds fs ! nat index) then None
      else Some (nat index))"

partial_function (option) grow_capacity :: "u32 \<Rightarrow> u32 \<Rightarrow> u32 option" where
  "grow_capacity new_capacity required =
     (if new_capacity < required then grow_capacity (new_capacity * 2) required else Some new_capacity)"

definition ensure_capacity :: "'h new_bytes \<Rightarrow> inode \<Rightarrow> u32 \<Rightarrow> 'h \<Rightarrow> (inode \<times> 'h \<times> bool) option" where
  "ensure_capacity new_bytes i required h =
     (if required \<le> icapacity i then Some (i, h, True)
      else grow_capacity (if icapacity i = 0 then 64 else icapacity i) required \<bind> (\<lambda>cap.
        map_option (\<lambda>(h', r). case r of
            None \<Rightarrow> (i, h', False)
          | Some new_data \<Rightarrow>
              (i\<lparr>idata := Some (case idata i of
                   None \<Rightarrow> new_data
                 | Some old \<Rightarrow> if 0 < isize i then copy_bytes new_data 0 (take (unat (isize i)) old) else new_data),
                 icapacity := cap\<rparr>, h', True))
          (new_bytes h cap)))"

subsection \<open>Operations\<close>

definition ramfs_clear :: ramfs where
  "ramfs_clear = \<lparr>m_inodes = replicate kMaxInodes free_inode, m_fds = replicate kMaxFds free_fd\<rparr>"

definition ramfs_reset :: ramfs where
  "ramfs_reset = fst (create_inode [slash] True ramfs_clear)"

definition set_inode :: "nat \<Rightarrow> inode \<Rightarrow> ramfs \<Rightarrow> ramfs" where
  "set_inode k i fs = fs\<lparr>m_inodes := (m_inodes fs)[k := i]\<rparr>"

definition set_fd :: "nat \<Rightarrow> file_descriptor \<Rightarrow> ramfs \<Rightarrow> ramfs" where
  "set_fd k f fs = fs\<lparr>m_fds := (m_fds fs)[k := f]\<rparr>"

definition ramfs_open :: "cstring option \<Rightarrow> u32 \<Rightarrow> ramfs \<Rightarrow> ramfs \<times> int" where
  "ramfs_open path flags fs =
     (case normalize_path path 64 of
        None \<Rightarrow> (fs, -1)
      | Some p \<Rightarrow>
          if text_equal p [slash] then (fs, -1)
          else case (case find_inode fs p of
              Some k \<Rightarrow> (fs, Some k)
            | None \<Rightarrow>
                if flags AND kOpenCreate = 0 then (fs, None)
                else if \<not> parent_directory_exists fs p then (fs, None)
                else create_inode p False fs) of
            (fs, None) \<Rightarrow> (fs, -1)
          | (fs, Some k) \<Rightarrow>
              if is_directory (m_inodes fs ! k) then (fs, -1)
              else let fs = (if flags AND kOpenTruncate \<noteq> 0 \<and> flags AND kOpenWrite \<noteq> 0
                     then set_inode k ((m_inodes fs ! k)\<lparr>isize := 0\<rparr>) fs else fs);
                   fd_index = alloc_fd fs in
                if fd_index < 0 then (fs, -1)
                else (set_fd (nat fd_index) \<lparr>fd_used = True, fd_inode = Some k, fd_offset = 0, fd_flags = flags\<rparr> fs,
                      fd_index + kFdOffset))"

text \<open>\<open>read\<close> also returns the bytes it puts into the caller's buffer; \<open>buf\<close> says whether that is not null.\<close>

definition ramfs_read :: "int \<Rightarrow> bool \<Rightarrow> u32 \<Rightarrow> ramfs \<Rightarrow> ramfs \<times> int \<times> u8 list" where
  "ramfs_read fd buf count fs =
     (if \<not> buf then (fs, -1, [])
      else case get_fd fd fs of
        None \<Rightarrow> (fs, -1, [])
      | Some d \<Rightarrow> let desc = m_fds fs ! d in
          case fd_inode desc of
            None \<Rightarrow> (fs, -1, [])
          | Some k \<Rightarrow>
              if fd_flags desc AND kOpenRead = 0 then (fs, -1, [])
              else let i = m_inodes fs ! k in
                if isize i \<le> fd_offset desc then (fs, 0, [])
                else let remaining = isize i - fd_offset desc;
                         n = (if count < remaining then count else remaining) in
                  (set_fd d (desc\<lparr>fd_offset := fd_offset desc + n\<rparr>) fs, sint n,
                   take (unat n) (drop (unat (fd_offset desc)) (case idata i of None \<Rightarrow> [] | Some b \<Rightarrow> b))))"

definition ramfs_write :: "'h new_bytes \<Rightarrow> int \<Rightarrow> u8 list option \<Rightarrow> u32 \<Rightarrow> ramfs \<Rightarrow> 'h \<Rightarrow> (ramfs \<times> 'h \<times> int) option" where
  "ramfs_write new_bytes fd buf count fs h =
     (case buf of
        None \<Rightarrow> Some (fs, h, -1)
      | Some src \<Rightarrow>
          case get_fd fd fs of
            None \<Rightarrow> Some (fs, h, -1)
          | Some d \<Rightarrow> let desc = m_fds fs ! d in
              case fd_inode desc of
                None \<Rightarrow> Some (fs, h, -1)
              | Some k \<Rightarrow>
                  if fd_flags desc AND kOpenWrite = 0 then Some (fs, h, -1)
                  else let stop = fd_offset desc + count in
                    map_option (\<lambda>(i, h, ok).
                      if \<not> ok then (fs, h, -1)
                      else let i = i\<lparr>idata := map_option (\<lambda>b. copy_bytes b (unat (fd_offset desc)) (take (unat count) src)) (idata i)\<rparr>;
                               i = (if isize i < stop then i\<lparr>isize := stop\<rparr> else i) in
                        (set_fd d (desc\<lparr>fd_offset := stop\<rparr>) (set_inode k i fs), h, sint count))
                    (ensure_capacity new_bytes (m_inodes fs ! k) stop h))"

definition ramfs_close :: "int \<Rightarrow> ramfs \<Rightarrow> ramfs \<times> int" where
  "ramfs_close fd fs =
     (case get_fd fd fs of None \<Rightarrow> (fs, -1) | Some d \<Rightarrow> (set_fd d free_fd fs, 0))"

definition ramfs_md :: "cstring option \<Rightarrow> ramfs \<Rightarrow> ramfs \<times> int" where
  "ramfs_md path fs =
     (case normalize_path path 64 of
        None \<Rightarrow> (fs, -1)
      | Some p \<Rightarrow>
          if text_equal p [slash] then (fs, 0)
          else case find_inode fs p of
            Some k \<Rightarrow> (fs, if is_directory (m_inodes fs ! k) then 0 else -1)
          | None \<Rightarrow>
              if \<not> parent_directory_exists fs p then (fs, -1)
              else case create_inode p True fs of
                (fs, None) \<Rightarrow> (fs, -1)
              | (fs, Some _) \<Rightarrow> (fs, 0))"

text \<open>The name of an inode below the directory \<open>p\<close>, when it is one of its direct children.\<close>

definition child_name :: "cstring \<Rightarrow> cstring \<Rightarrow> cstring option" where
  "child_name p name =
     (let child =
        (if text_equal p [slash] then
           if take 1 name \<noteq> [slash] \<or> length name = 1 then None else Some (drop 1 name)
         else if 64 \<le> text_len p + 1 then None
         else if \<not> text_starts_with name (p @ [slash]) then None
         else Some (drop (text_len p + 1) name)) in
      case child of None \<Rightarrow> None
      | Some c \<Rightarrow> if c = [] \<or> slash \<in> set c then None else Some c)"

fun readdir_loop :: "cstring \<Rightarrow> nat \<Rightarrow> inode list \<Rightarrow> dir_entry list \<Rightarrow> dir_entry list" where
  "readdir_loop p max_entries [] out = out"
| "readdir_loop p max_entries (i # is) out =
     (if max_entries \<le> length out then out
      else if \<not> used i \<or> text_equal (iname i) p then readdir_loop p max_entries is out
      else case child_name p (iname i) of
        None \<Rightarrow> readdir_loop p max_entries is out
      | Some c \<Rightarrow> readdir_loop p max_entries is
          (out @ [\<lparr>entry_name = copy_text c 64, entry_is_directory = is_directory i\<rparr>]))"

definition ramfs_readdir :: "cstring option \<Rightarrow> bool \<Rightarrow> u32 \<Rightarrow> ramfs \<Rightarrow> int \<times> dir_entry list" where
  "ramfs_readdir path entries max_entries fs =
     (if \<not> entries \<or> max_entries = 0 then (-1, [])
      else case normalize_path path 64 of
        None \<Rightarrow> (-1, [])
      | Some p \<Rightarrow>
          case find_inode fs p of
            None \<Rightarrow> (-1, [])
          | Some d \<Rightarrow>
              if \<not> is_directory (m_inodes fs ! d) then (-1, [])
              else let out = readdir_loop p (unat max_entries) (m_inodes fs) [] in (int (length out), out))"

definition fd_busy :: "nat \<Rightarrow> ramfs \<Rightarrow> bool" where
  "fd_busy k fs = list_ex (\<lambda>f. fd_used f \<and> fd_inode f = Some k) (m_fds fs)"

definition ramfs_rd :: "cstring option \<Rightarrow> ramfs \<Rightarrow> ramfs \<times> int" where
  "ramfs_rd path fs =
     (case normalize_path path 64 of
        None \<Rightarrow> (fs, -1)
      | Some p \<Rightarrow>
          if text_equal p [slash] then (fs, -1)
          else case find_inode fs p of
            None \<Rightarrow> (fs, -1)
          | Some k \<Rightarrow>
              if \<not> is_directory (m_inodes fs ! k) then (fs, -1)
              else if 64 \<le> text_len (copy_text p 64) + 1 then (fs, -1)
              else if list_ex (\<lambda>i. used i \<and> \<not> text_equal (iname i) p \<and>
                     text_starts_with (iname i) (copy_text p 64 @ [slash])) (m_inodes fs) then (fs, -1)
              else if fd_busy k fs then (fs, -1)
              else (set_inode k free_inode fs, 0))"

definition ramfs_unlink :: "cstring option \<Rightarrow> ramfs \<Rightarrow> ramfs \<times> int" where
  "ramfs_unlink path fs =
     (case normalize_path path 64 of
        None \<Rightarrow> (fs, -1)
      | Some p \<Rightarrow>
          if text_equal p [slash] then (fs, -1)
          else case find_inode fs p of
            None \<Rightarrow> (fs, -1)
          | Some k \<Rightarrow>
              if is_directory (m_inodes fs ! k) then (fs, -1)
              else if fd_busy k fs then (fs, -1)
              else (set_inode k ((m_inodes fs ! k)\<lparr>used := False, iname := [], isize := 0, icapacity := 0,
                     idata := None\<rparr>) fs, 0))"

subsection \<open>Initial contents\<close>

definition bytes_of :: "cstring \<Rightarrow> u8 list" where
  "bytes_of = map (\<lambda>c. of_nat (of_char c))"

definition kInitElf :: "u8 list" where
  "kInitElf = [
    0x7F, 0x45, 0x4C, 0x46, 0x01, 0x01, 0x01, 0x00, 0x00, 0x00, 0x00, 0x00,
    0x00, 0x00, 0x00, 0x00, 0x02, 0x00, 0x03, 0x00, 0x01, 0x00, 0x00, 0x00,
    0x54, 0x00, 0x00, 0x08, 0x34, 0x00, 0x00, 0x00, 0x00, 0x00, 0x00, 0x00,
    0x00, 0x00, 0x00, 0x00, 0x34, 0x00, 0x20, 0x00, 0x01, 0x00, 0x00, 0x00,
    0x00, 0x00, 0x00, 0x00, 0x01, 0x00, 0x00, 0x00, 0x00, 0x00, 0x00, 0x00,
    0x00, 0x00, 0x00, 0x08, 0x00, 0x00, 0x00, 0x08, 0x62, 0x00, 0x00, 0x00,
    0x62, 0x00, 0x00, 0x00, 0x05, 0x00, 0x00, 0x00, 0x00, 0x10, 0x00, 0x00,
    0xB8, 0x02, 0x00, 0x00, 0x00, 0xBB, 0x2A, 0x00, 0x00, 0x00, 0xCD, 0x80,
    0xEB, 0xFE]"

text \<open>
  \<open>init\<close> creates a fixed sequence of directories and files, stopping at the first failure.
  A file gets its bytes through \<open>ensure_capacity\<close>. \<open>None\<close> is a loop that does not end.
\<close>

datatype seed = Seed_Dir cstring | Seed_File cstring "u8 list"

fun seed_entry :: "'h new_bytes \<Rightarrow> seed \<Rightarrow> ramfs \<times> 'h \<Rightarrow> (ramfs \<times> 'h \<times> bool) option" where
  "seed_entry new_bytes (Seed_Dir path) (fs, h) =
     (case create_inode path True fs of (fs, None) \<Rightarrow> Some (fs, h, False) | (fs, Some _) \<Rightarrow> Some (fs, h, True))"
| "seed_entry new_bytes (Seed_File path content) (fs, h) =
     (case create_inode path False fs of
        (fs, None) \<Rightarrow> Some (fs, h, False)
      | (fs, Some k) \<Rightarrow> map_option (\<lambda>(i, h, ok).
          if \<not> ok then (fs, h, False)
          else (set_inode k (i\<lparr>idata := map_option (\<lambda>b. copy_bytes b 0 content) (idata i),
                  isize := of_nat (length content)\<rparr>) fs, h, True))
          (ensure_capacity new_bytes (m_inodes fs ! k) (of_nat (length content)) h))"

fun seed_all :: "'h new_bytes \<Rightarrow> seed list \<Rightarrow> ramfs \<times> 'h \<Rightarrow> (ramfs \<times> 'h \<times> bool) option" where
  "seed_all new_bytes [] (fs, h) = Some (fs, h, True)"
| "seed_all new_bytes (x # xs) fsh =
     seed_entry new_bytes x fsh \<bind> (\<lambda>(fs, h, ok). if ok then seed_all new_bytes xs (fs, h) else Some (fs, h, False))"

definition kHomeEntries :: "cstring list" where
  "kHomeEntries = [''Desktop'', ''Documents'', ''Downloads'', ''Images'', ''Musics'', ''Templates'',
     ''Videos'', ''Workspace'', ''Docs'']"

text \<open>The path \<open>seed_home\<close> builds in its 64-byte buffer, \<open>None\<close> where it gives up.\<close>

definition home_path :: "cstring \<Rightarrow> cstring \<Rightarrow> cstring option" where
  "home_path base entry =
     (let path = take 63 base in
      if path = [] \<or> 64 \<le> length path + 1 then None
      else let path = (if last path \<noteq> slash then path @ [slash] else path) in
        if length entry \<le> 63 - length path then Some (path @ entry) else None)"

fun seed_home :: "'h new_bytes \<Rightarrow> cstring \<Rightarrow> cstring list \<Rightarrow> ramfs \<times> 'h \<Rightarrow> (ramfs \<times> 'h \<times> bool) option" where
  "seed_home new_bytes base [] (fs, h) = Some (fs, h, True)"
| "seed_home new_bytes base (e # es) (fs, h) =
     (case home_path base e of
        None \<Rightarrow> Some (fs, h, False)
      | Some path \<Rightarrow> seed_entry new_bytes (Seed_Dir path) (fs, h) \<bind>
          (\<lambda>(fs, h, ok). if ok then seed_home new_bytes base es (fs, h) else Some (fs, h, False)))"

definition kSeeds :: "seed list" where
  "kSeeds = [Seed_Dir ''/'', Seed_File ''/test.txt'' (bytes_of (''Hello from ramfs!'' @ [CHR 0x0A])),
     Seed_Dir ''/bin'', Seed_Dir ''/home'', Seed_Dir ''/home/root'', Seed_Dir ''/root'', Seed_Dir ''/etc'',
     Seed_Dir ''/usr'', Seed_Dir ''/usr/bin'', Seed_Dir ''/usr/share'', Seed_Dir ''/usr/share/doc'',
     Seed_Dir ''/usr/share/doc/wirth'', Seed_Dir ''/var'', Seed_Dir ''/var/lib'', Seed_Dir ''/var/lib/wirth'',
     Seed_Dir ''/var/lib/wirth/pkgdb'', Seed_Dir ''/opt'', Seed_Dir ''/opt/demo'', Seed_Dir ''/etc/apt'',
     Seed_Dir ''/etc/apt/sources.list.d'',
     Seed_File ''/etc/passwd'' (bytes_of (''root:x:0:0:root:/root:/bin/init.elf'' @ [CHR 0x0A])),
     Seed_File ''/root/.profile'' []]"

definition ramfs_init :: "'h new_bytes \<Rightarrow> 'h \<Rightarrow> (ramfs \<times> 'h \<times> bool) option" where
  "ramfs_init new_bytes h =
     seed_all new_bytes kSeeds (ramfs_clear, h) \<bind> (\<lambda>(fs, h, ok). if \<not> ok then Some (fs, h, False)
     else seed_home new_bytes ''/root'' kHomeEntries (fs, h) \<bind> (\<lambda>(fs, h, ok). if \<not> ok then Some (fs, h, False)
     else seed_home new_bytes ''/home/root'' kHomeEntries (fs, h) \<bind> (\<lambda>(fs, h, ok). if \<not> ok then Some (fs, h, False)
     else seed_entry new_bytes (Seed_File ''/bin/init.elf'' kInitElf) (fs, h))))"


section \<open>Lemmas on text and paths\<close>

lemma text_equal_eq [simp]: "text_equal a b \<longleftrightarrow> a = b"
  by (induction a b rule: text_equal.induct) auto

lemma text_len_length [simp]: "text_len t = length t"
  by (simp add: text_len_def)

lemma text_starts_with_append: "text_starts_with t p \<longleftrightarrow> (\<exists>r. t = p @ r)"
  by (induction t p rule: text_starts_with.induct) auto

lemma copy_text_id [simp]: "length s < n \<Longrightarrow> copy_text s n = s"
  by (simp add: copy_text_def)

lemma last_slash_from_none: "slash \<notin> set b \<Longrightarrow> last_slash_from i k b = k"
  by (induction b arbitrary: i) auto

lemma last_slash_from_split:
  "slash \<notin> set b \<Longrightarrow> last_slash_from i k (a @ slash # b) = int (i + length a)"
  by (induction a arbitrary: i k) (auto simp: last_slash_from_none)

subsection \<open>The components of a path\<close>

text \<open>What a path means: the names between its slashes. Empty names do not count.\<close>

function components :: "cstring \<Rightarrow> cstring list" where
  "components [] = []"
| "components (c # cs) =
     (if c = slash then components cs
      else (c # takeWhile (\<lambda>x. x \<noteq> slash) cs) # components (dropWhile (\<lambda>x. x \<noteq> slash) cs))"
  by pat_completeness auto
termination
  by (relation "measure length") (auto simp: length_dropWhile_le less_Suc_eq_le)

definition path_of :: "cstring list \<Rightarrow> cstring" where
  "path_of cs = (if cs = [] then [slash] else concat (map (\<lambda>c. slash # c) cs))"

definition valid_names :: "cstring list \<Rightarrow> bool" where
  "valid_names cs \<longleftrightarrow> list_all (\<lambda>c. c \<noteq> [] \<and> slash \<notin> set c) cs"

definition normal_path :: "cstring \<Rightarrow> bool" where
  "normal_path p \<longleftrightarrow> path_of (components p) = p"

lemma valid_names_components: "valid_names (components p)"
  by (induction p rule: components.induct) (auto simp: valid_names_def dest: set_takeWhileD)

lemma components_name_append:
  assumes "slash \<notin> set c" "c \<noteq> []" "r = [] \<or> hd r = slash"
  shows "components (c @ r) = c # components r"
proof -
  obtain a as where c: "c = a # as" using assms(2) by (cases c) auto
  have as: "\<And>x. x \<in> set as \<Longrightarrow> x \<noteq> slash" using assms(1) c by auto
  have "takeWhile (\<lambda>x. x \<noteq> slash) r = []" "dropWhile (\<lambda>x. x \<noteq> slash) r = r"
    using assms(3) by (cases r; simp)+
  then have "takeWhile (\<lambda>x. x \<noteq> slash) (as @ r) = as" "dropWhile (\<lambda>x. x \<noteq> slash) (as @ r) = r"
    using as by (simp_all add: takeWhile_append2 dropWhile_append2)
  then show ?thesis using c assms(1) by auto
qed

lemma components_concat: "valid_names cs \<Longrightarrow> components (concat (map (\<lambda>c. slash # c) cs)) = cs"
proof (induction cs)
  case (Cons c cs)
  have "concat (map (\<lambda>c. slash # c) cs) = [] \<or> hd (concat (map (\<lambda>c. slash # c) cs)) = slash"
    by (cases cs) auto
  with Cons show ?case
    using components_name_append [of c "concat (map (\<lambda>c. slash # c) cs)"] by (simp add: valid_names_def)
qed simp

lemma components_path_of [simp]: "valid_names cs \<Longrightarrow> components (path_of cs) = cs"
  by (auto simp: path_of_def components_concat)

lemma normal_path_of [simp]: "valid_names cs \<Longrightarrow> normal_path (path_of cs)"
  by (simp add: normal_path_def)

lemma normal_path_root [simp]: "normal_path [slash]"
  by (simp add: normal_path_def path_of_def)

lemma path_of_snoc: "path_of (cs @ [c]) = (if cs = [] then [] else path_of cs) @ slash # c"
  by (simp add: path_of_def)

lemma parent_of_snoc:
  assumes "valid_names (cs @ [c])"
  shows "parent_of (path_of (cs @ [c])) = path_of cs"
proof -
  let ?p = "if cs = [] then [] else path_of cs"
  have "slash \<notin> set c" using assms by (simp add: valid_names_def)
  then have *: "last_slash_from 0 (-1) (path_of (cs @ [c])) = int (length ?p)"
    unfolding path_of_snoc using last_slash_from_split [of c 0 "-1" ?p] by simp
  have "cs \<noteq> [] \<Longrightarrow> 0 < length (path_of cs)" by (cases cs) (auto simp: path_of_def)
  then show ?thesis unfolding parent_of_def * Let_def
    by (auto simp: path_of_snoc path_of_def)
qed

lemma normal_path_cases:
  assumes "normal_path p" "p \<noteq> [slash]"
  obtains cs c where "valid_names (cs @ [c])" "p = path_of (cs @ [c])" "parent_of p = path_of cs"
proof -
  have "components p \<noteq> []" using assms by (auto simp: normal_path_def path_of_def)
  then obtain cs c where "components p = cs @ [c]" by (meson rev_exhaust)
  then have "valid_names (cs @ [c])" "p = path_of (cs @ [c])"
    using valid_names_components [of p] assms(1) by (simp_all add: normal_path_def)
  then show thesis using that parent_of_snoc by metis
qed

lemma normal_path_length: "normal_path p \<Longrightarrow> p \<noteq> [slash] \<Longrightarrow> 2 \<le> length p"
  by (erule (1) normal_path_cases) (auto simp: path_of_snoc valid_names_def Suc_le_eq)

lemma normal_path_parent: "normal_path p \<Longrightarrow> p \<noteq> [slash] \<Longrightarrow> normal_path (parent_of p)"
  by (erule (1) normal_path_cases) (simp add: valid_names_def)

lemma normal_path_child:
  assumes "normal_path p" "p \<noteq> [slash]" "parent_of p \<noteq> [slash]"
  shows "\<exists>c. p = parent_of p @ slash # c"
proof -
  obtain cs c where "p = path_of (cs @ [c])" "parent_of p = path_of cs"
    using normal_path_cases [OF assms(1,2)] by metis
  moreover from this have "cs \<noteq> []" using assms(3) by (auto simp: path_of_def)
  ultimately show ?thesis using path_of_snoc [of cs c] by auto
qed

lemma parent_of_neq: "normal_path p \<Longrightarrow> p \<noteq> [slash] \<Longrightarrow> parent_of p \<noteq> p"
  by (erule (1) normal_path_cases) (auto simp: path_of_snoc path_of_def valid_names_def)

subsection \<open>Normalizing a path\<close>

text \<open>The characters the loop appends, and how long they may be.\<close>

fun squeeze :: "bool \<Rightarrow> cstring \<Rightarrow> cstring" where
  "squeeze prev [] = []"
| "squeeze prev (c # cs) =
     (if c = slash then if prev then squeeze True cs else slash # squeeze True cs else c # squeeze False cs)"

lemma norm_loop_squeeze:
  "length out < n \<Longrightarrow> norm_loop n cs out prev =
     (if length out + length (squeeze prev cs) < n then Some (out @ squeeze prev cs) else None)"
proof (induction cs arbitrary: out prev)
  case (Cons c cs)
  show ?case
  proof (cases "length out + 1 < n")
    case True
    then show ?thesis using Cons.IH [of "out @ [slash]"] Cons.IH [of "out @ [c]"] Cons.IH [of out] Cons.prems
      by auto
  next
    case False
    then show ?thesis using Cons.IH [of out] Cons.prems by auto
  qed
qed simp

lemma squeeze_Nil_iff: "squeeze True cs = [] \<longleftrightarrow> components cs = []"
  by (induction cs) auto

lemma squeeze_name_append: "slash \<notin> set w \<Longrightarrow> squeeze False (w @ r) = w @ squeeze False r"
  by (induction w) auto

definition strip_slash :: "cstring \<Rightarrow> cstring" where
  "strip_slash out = (if 1 < length out \<and> last out = slash then butlast out else out)"

lemma strip_slash_append:
  "x \<noteq> [] \<Longrightarrow> strip_slash (x @ slash # y) = (if y = [] then x else x @ strip_slash (slash # y))"
  by (auto simp: strip_slash_def butlast_append)

lemma strip_squeeze: "strip_slash (slash # squeeze True cs) = path_of (components cs)"
proof (induction cs rule: components.induct)
  case 1
  then show ?case by (simp add: strip_slash_def path_of_def)
next
  case (2 c cs)
  show ?case
  proof (cases "c = slash")
    case True
    with 2 show ?thesis by simp
  next
    case False
    obtain w r where w: "takeWhile (\<lambda>x. x \<noteq> slash) cs = w" and r: "dropWhile (\<lambda>x. x \<noteq> slash) cs = r"
      by blast
    have cs: "cs = w @ r" using takeWhile_dropWhile_id [of "\<lambda>x. x \<noteq> slash" cs] by (simp only: w r)
    have sw: "slash \<notin> set w" unfolding w [symmetric] by (auto dest: set_takeWhileD)
    have sq: "squeeze True (c # cs) = (c # w) @ squeeze False r"
      using False squeeze_name_append [OF sw, of r] by (simp add: cs)
    have comp: "components (c # cs) = (c # w) # components r" using False by (simp add: w r)
    show ?thesis
    proof (cases r)
      case Nil
      have "slash \<noteq> last (c # w)" using sw False by auto
      with Nil show ?thesis unfolding sq comp by (auto simp: strip_slash_def path_of_def)
    next
      case (Cons d r')
      then have d: "d = slash" using hd_dropWhile [of "\<lambda>x. x \<noteq> slash" cs] r by simp
      then have IH: "strip_slash (slash # squeeze True r') = path_of (components r')"
        using 2(2) [OF False] Cons by (simp add: r)
      have "strip_slash (slash # squeeze True (c # cs)) = strip_slash ((slash # c # w) @ slash # squeeze True r')"
        unfolding sq Cons d by simp
      also have "\<dots> = path_of (components (c # cs))"
        using IH squeeze_Nil_iff [of r'] unfolding strip_slash_append [OF list.distinct(2)] comp Cons d
        by (auto simp: path_of_def)
      finally show ?thesis .
    qed
  qed
qed

lemma normalize_path_eq:
  assumes "2 \<le> n"
  shows "normalize_path (Some p) n =
    (if p \<noteq> [] \<and> hd p = slash \<and> length (squeeze False p) < n then Some (path_of (components p)) else None)"
proof (cases p)
  case (Cons c cs)
  show ?thesis
  proof (cases "c = slash")
    case True
    have *: "norm_loop n cs [slash] True =
        (if Suc (length (squeeze True cs)) < n then Some (slash # squeeze True cs) else None)"
      using norm_loop_squeeze [of "[slash]" n cs True] assms by simp
    show ?thesis
      using assms True Cons strip_squeeze [of cs] unfolding strip_slash_def
      by (simp add: normalize_path_def *)
  qed (use assms Cons in \<open>simp add: normalize_path_def\<close>)
qed (use assms in \<open>simp add: normalize_path_def\<close>)

lemma squeeze_length_path: "length (path_of (components cs)) \<le> Suc (length (squeeze True cs))"
  unfolding strip_squeeze [symmetric] by (simp add: strip_slash_def)

lemma normalize_pathD:
  assumes "normalize_path path 64 = Some p"
  shows "normal_path p" and "length p < 64"
proof -
  obtain q where q: "path = Some q" using assms by (cases path) (auto simp: normalize_path_def)
  then have *: "hd q = slash" "q \<noteq> []" "length (squeeze False q) < 64" "p = path_of (components q)"
    using assms by (auto simp: normalize_path_eq split: if_splits)
  then show "normal_path p" using valid_names_components by simp
  obtain cs where "q = slash # cs" using * by (cases q) auto
  with * squeeze_length_path [of cs] show "length p < 64" by simp
qed

text \<open>A path that is already normal and fits is left as it is.\<close>

lemma squeeze_concat: "valid_names cs \<Longrightarrow> squeeze False (concat (map (\<lambda>c. slash # c) cs)) = concat (map (\<lambda>c. slash # c) cs)"
proof (induction cs)
  case (Cons c cs)
  obtain d ds where "c = d # ds" "d \<noteq> slash" "slash \<notin> set ds"
    using Cons.prems by (cases c) (auto simp: valid_names_def)
  then show ?case using Cons squeeze_name_append [of ds] by (simp add: valid_names_def)
qed simp

lemma normalize_path_normal:
  assumes "normal_path p" "length p < n" "2 \<le> n"
  shows "normalize_path (Some p) n = Some p"
proof (cases "p = [slash]")
  case True
  then show ?thesis using assms by (simp add: normalize_path_eq path_of_def)
next
  case False
  then obtain cs c where p: "valid_names (cs @ [c])" "p = path_of (cs @ [c])"
    using normal_path_cases [OF assms(1)] by metis
  have "squeeze False p = p" using squeeze_concat [OF p(1)] p(2) by (simp add: path_of_def)
  moreover have "p \<noteq> []" "hd p = slash" using p(2) by (cases cs; simp add: path_of_def)+
  ultimately show ?thesis using assms by (simp add: normalize_path_eq normal_path_def)
qed

end
