(* ===== verification/RamFs_Inv.thy ===== *)
theory RamFs_Inv
  imports RamFs
begin

text \<open>
  What the file system of \<open>RamFs\<close> promises. The abstract file system is a map from
  normal paths to directories and files with contents, and a map from descriptors to the
  path, position and flags of an open file. The invariant says the tables are consistent
  (one inode per name, sizes within the buffers, descriptors that name live files) and
  the map is a tree. Each operation of the code is a function on that abstract state.
\<close>


section \<open>Definitions\<close>

datatype node = Dir | File "u8 list"

record abs_fs =
  tree :: "cstring \<rightharpoonup> node"
  files :: "int \<rightharpoonup> cstring \<times> u32 \<times> u32"

definition buffer :: "inode \<Rightarrow> u8 list" where
  "buffer i = (case idata i of None \<Rightarrow> [] | Some b \<Rightarrow> b)"

definition contents :: "inode \<Rightarrow> u8 list" where
  "contents i = take (unat (isize i)) (buffer i)"

definition node_of :: "inode \<Rightarrow> node" where
  "node_of i = (if is_directory i then Dir else File (contents i))"

definition lookup :: "ramfs \<Rightarrow> cstring \<rightharpoonup> inode" where
  "lookup fs p = map_option (\<lambda>k. m_inodes fs ! k) (find_inode fs p)"

definition open_file :: "ramfs \<Rightarrow> int \<rightharpoonup> cstring \<times> u32 \<times> u32" where
  "open_file fs fd = map_option (\<lambda>d. let f = m_fds fs ! d in
     (iname (m_inodes fs ! the (fd_inode f)), fd_offset f, fd_flags f)) (get_fd fd fs)"

definition fs_abs :: "ramfs \<Rightarrow> abs_fs" where
  "fs_abs fs = \<lparr>tree = (\<lambda>p. map_option node_of (lookup fs p)), files = open_file fs\<rparr>"

text \<open>The capacities that doubling from 64 can give.\<close>

definition doubles :: "u32 set" where
  "doubles = {0, 0x40, 0x80, 0x100, 0x200, 0x400, 0x800, 0x1000, 0x2000, 0x4000, 0x8000, 0x10000, 0x20000, 0x40000, 0x80000, 0x100000,
     0x200000, 0x400000, 0x800000, 0x1000000, 0x2000000, 0x4000000, 0x8000000, 0x10000000, 0x20000000, 0x40000000, 0x80000000}"

definition inode_ok :: "inode \<Rightarrow> bool" where
  "inode_ok i \<longleftrightarrow> (used i \<longrightarrow>
     unat (icapacity i) = length (buffer i) \<and> isize i \<le> icapacity i \<and> length (iname i) < 64 \<and> icapacity i \<in> doubles)"

lemma doubles_step: "c \<in> doubles \<Longrightarrow> c * 2 \<in> doubles" "c \<in> doubles \<Longrightarrow> c \<le> 0x80000000"
  unfolding doubles_def by (elim insertE emptyE; simp)+

lemma doubles_start [simp]: "64 \<in> doubles" "0 \<in> doubles"
  by (simp_all add: doubles_def)

definition fd_ok :: "inode list \<Rightarrow> file_descriptor \<Rightarrow> bool" where
  "fd_ok is f \<longleftrightarrow> (fd_used f \<longrightarrow> (case fd_inode f of
     None \<Rightarrow> False | Some k \<Rightarrow> k < length is \<and> used (is ! k) \<and> \<not> is_directory (is ! k)))"

definition unique_names :: "inode list \<Rightarrow> bool" where
  "unique_names is \<longleftrightarrow> (\<forall>j k. j < length is \<and> k < length is \<and> used (is ! j) \<and> used (is ! k)
     \<and> iname (is ! j) = iname (is ! k) \<longrightarrow> j = k)"

definition tables_ok :: "ramfs \<Rightarrow> bool" where
  "tables_ok fs \<longleftrightarrow> length (m_inodes fs) = 64 \<and> length (m_fds fs) = 32 \<and>
     list_all inode_ok (m_inodes fs) \<and> list_all (fd_ok (m_inodes fs)) (m_fds fs) \<and> unique_names (m_inodes fs)"

definition tree_ok :: "(cstring \<rightharpoonup> node) \<Rightarrow> bool" where
  "tree_ok t \<longleftrightarrow> t [slash] = Some Dir \<and>
     (\<forall>p \<in> dom t. normal_path p \<and> (p \<noteq> [slash] \<longrightarrow> t (parent_of p) = Some Dir))"

definition ramfs_inv :: "ramfs \<Rightarrow> bool" where
  "ramfs_inv fs \<longleftrightarrow> tables_ok fs \<and> tree_ok (tree (fs_abs fs))"

text \<open>Whether the inode table has a free entry.\<close>

definition room :: "ramfs \<Rightarrow> bool" where
  "room fs \<longleftrightarrow> find_slot (\<lambda>i. \<not> used i) (m_inodes fs) \<noteq> None"

subsection \<open>The operations on the abstract state\<close>

definition spec_md :: "bool \<Rightarrow> cstring option \<Rightarrow> abs_fs \<Rightarrow> abs_fs \<times> int" where
  "spec_md space path a =
     (case normalize_path path 64 of
        None \<Rightarrow> (a, -1)
      | Some p \<Rightarrow> (case tree a p of
          Some Dir \<Rightarrow> (a, 0)
        | Some (File _) \<Rightarrow> (a, -1)
        | None \<Rightarrow> if tree a (parent_of p) = Some Dir \<and> space
            then (a\<lparr>tree := (tree a)(p \<mapsto> Dir)\<rparr>, 0) else (a, -1)))"

definition opened :: "cstring \<Rightarrow> abs_fs \<Rightarrow> bool" where
  "opened p a \<longleftrightarrow> (\<exists>fd off fl. files a fd = Some (p, off, fl))"

definition spec_unlink :: "cstring option \<Rightarrow> abs_fs \<Rightarrow> abs_fs \<times> int" where
  "spec_unlink path a =
     (case normalize_path path 64 of
        None \<Rightarrow> (a, -1)
      | Some p \<Rightarrow> (case tree a p of
          Some (File _) \<Rightarrow> if opened p a then (a, -1) else (a\<lparr>tree := (tree a)(p := None)\<rparr>, 0)
        | _ \<Rightarrow> (a, -1)))"

definition spec_rd :: "cstring option \<Rightarrow> abs_fs \<Rightarrow> abs_fs \<times> int" where
  "spec_rd path a =
     (case normalize_path path 64 of
        None \<Rightarrow> (a, -1)
      | Some p \<Rightarrow>
          if p \<noteq> [slash] \<and> tree a p = Some Dir \<and> length p < 63 \<and> (\<forall>r. tree a (p @ slash # r) = None)
          then (a\<lparr>tree := (tree a)(p := None)\<rparr>, 0) else (a, -1))"

definition spec_open :: "bool \<Rightarrow> cstring option \<Rightarrow> u32 \<Rightarrow> abs_fs \<Rightarrow> abs_fs \<times> int" where
  "spec_open space path flags a =
     (case normalize_path path 64 of
        None \<Rightarrow> (a, -1)
      | Some p \<Rightarrow>
          (case (case tree a p of
              Some Dir \<Rightarrow> None
            | Some (File _) \<Rightarrow> Some (tree a)
            | None \<Rightarrow> if flags AND kOpenCreate \<noteq> 0 \<and> tree a (parent_of p) = Some Dir \<and> space
                then Some ((tree a)(p \<mapsto> File [])) else None) of
            None \<Rightarrow> (a, -1)
          | Some t \<Rightarrow>
              let t = (if flags AND kOpenTruncate \<noteq> 0 \<and> flags AND kOpenWrite \<noteq> 0 then t(p \<mapsto> File []) else t) in
              (case find (\<lambda>fd. files a fd = None) (map (\<lambda>i. int i + kFdOffset) [0..<32]) of
                 None \<Rightarrow> (a\<lparr>tree := t\<rparr>, -1)
               | Some fd \<Rightarrow> (\<lparr>tree = t, files = (files a)(fd \<mapsto> (p, 0, flags))\<rparr>, fd))))"

definition spec_close :: "int \<Rightarrow> abs_fs \<Rightarrow> abs_fs \<times> int" where
  "spec_close fd a = (if files a fd = None then (a, -1) else (a\<lparr>files := (files a)(fd := None)\<rparr>, 0))"

definition spec_read :: "int \<Rightarrow> u32 \<Rightarrow> abs_fs \<Rightarrow> abs_fs \<times> int \<times> u8 list" where
  "spec_read fd count a =
     (case files a fd of
        None \<Rightarrow> (a, -1, [])
      | Some (p, off, fl) \<Rightarrow>
          if fl AND kOpenRead = 0 then (a, -1, [])
          else (case tree a p of
              Some (File c) \<Rightarrow> let bs = take (unat count) (drop (unat off) c) in
                (a\<lparr>files := (files a)(fd \<mapsto> (p, off + of_nat (length bs), fl))\<rparr>,
                 sint (of_nat (length bs) :: u32), bs)
            | _ \<Rightarrow> (a, -1, [])))"


section \<open>Tables\<close>

lemma tables_okD:
  assumes "tables_ok fs"
  shows "length (m_inodes fs) = 64" "length (m_fds fs) = 32"
    and "\<And>k. k < 64 \<Longrightarrow> inode_ok (m_inodes fs ! k)"
    and "\<And>d. d < 32 \<Longrightarrow> fd_ok (m_inodes fs) (m_fds fs ! d)"
    and "\<And>j k. j < 64 \<Longrightarrow> k < 64 \<Longrightarrow> used (m_inodes fs ! j) \<Longrightarrow> used (m_inodes fs ! k) \<Longrightarrow>
      iname (m_inodes fs ! j) = iname (m_inodes fs ! k) \<Longrightarrow> j = k"
  using assms by (auto simp: tables_ok_def list_all_length unique_names_def)

lemma find_inode_Some_iff:
  assumes "tables_ok fs"
  shows "find_inode fs p = Some k \<longleftrightarrow> k < 64 \<and> used (m_inodes fs ! k) \<and> iname (m_inodes fs ! k) = p"
proof
  assume "find_inode fs p = Some k"
  then show "k < 64 \<and> used (m_inodes fs ! k) \<and> iname (m_inodes fs ! k) = p"
    using tables_okD(1) [OF assms] by (auto simp: find_inode_def dest: find_slotD)
next
  assume "k < 64 \<and> used (m_inodes fs ! k) \<and> iname (m_inodes fs ! k) = p"
  then show "find_inode fs p = Some k" unfolding find_inode_def
    using tables_okD(1,5) [OF assms] by (intro find_slot_unique) auto
qed

lemma lookup_Some_iff:
  assumes "tables_ok fs"
  shows "lookup fs p = Some i \<longleftrightarrow> (\<exists>k < 64. m_inodes fs ! k = i \<and> used i \<and> iname i = p)"
  unfolding lookup_def using find_inode_Some_iff [OF assms] by (auto simp: map_option_eq_Some)

lemma lookup_nth:
  "tables_ok fs \<Longrightarrow> k < 64 \<Longrightarrow> used (m_inodes fs ! k) \<Longrightarrow> lookup fs (iname (m_inodes fs ! k)) = Some (m_inodes fs ! k)"
  by (auto simp: lookup_Some_iff)

lemma get_fd_Some_iff:
  "get_fd fd fs = Some d \<longleftrightarrow> fd = int d + 3 \<and> d < 32 \<and> fd_used (m_fds fs ! d)"
  by (auto simp: get_fd_def Let_def)

lemma set_inode_sel [simp]:
  "m_inodes (set_inode k i fs) = (m_inodes fs)[k := i]" "m_fds (set_inode k i fs) = m_fds fs"
  by (simp_all add: set_inode_def)

lemma set_fd_sel [simp]:
  "m_fds (set_fd d f fs) = (m_fds fs)[d := f]" "m_inodes (set_fd d f fs) = m_inodes fs"
  by (simp_all add: set_fd_def)

lemma get_fd_set_inode [simp]: "get_fd fd (set_inode k i fs) = get_fd fd fs"
  by (simp add: get_fd_def Let_def)

lemma lookup_set_fd [simp]: "lookup (set_fd d f fs) = lookup fs"
  by (simp add: fun_eq_iff lookup_def find_inode_def)

lemma tables_ok_set_fd:
  "tables_ok fs \<Longrightarrow> fd_ok (m_inodes fs) f \<Longrightarrow> tables_ok (set_fd d f fs)"
  by (auto simp: tables_ok_def list_all_iff dest: set_update_subset_insert [THEN subsetD])

lemma tables_ok_set_inode:
  assumes ok: "tables_ok fs" and k: "k < 64" and i: "inode_ok i"
    and fresh: "\<And>j. j < 64 \<Longrightarrow> j \<noteq> k \<Longrightarrow> used i \<Longrightarrow> used (m_inodes fs ! j) \<Longrightarrow> iname (m_inodes fs ! j) \<noteq> iname i"
    and fds: "\<And>f. f \<in> set (m_fds fs) \<Longrightarrow> fd_used f \<Longrightarrow> fd_inode f = Some k \<Longrightarrow> used i \<and> \<not> is_directory i"
  shows "tables_ok (set_inode k i fs)"
proof -
  have upd: "(m_inodes fs)[k := i] ! j = (if j = k then i else m_inodes fs ! j)" for j
    using k tables_okD(1) [OF ok] by simp
  have "unique_names ((m_inodes fs)[k := i])"
    unfolding unique_names_def upd
  proof (intro allI impI)
    fix j j'
    assume "j < length ((m_inodes fs)[k := i]) \<and> j' < length ((m_inodes fs)[k := i]) \<and>
      used (if j = k then i else m_inodes fs ! j) \<and> used (if j' = k then i else m_inodes fs ! j') \<and>
      iname (if j = k then i else m_inodes fs ! j) = iname (if j' = k then i else m_inodes fs ! j')"
    then show "j = j'" using tables_okD(1,5) [OF ok] fresh [of j] fresh [of j'] by (auto split: if_splits)
  qed
  moreover have "list_all inode_ok ((m_inodes fs)[k := i])"
    using tables_okD(1,3) [OF ok] i by (simp add: list_all_length upd)
  moreover have "list_all (fd_ok ((m_inodes fs)[k := i])) (m_fds fs)"
    unfolding list_all_iff fd_ok_def
  proof (intro ballI impI)
    fix f assume f: "f \<in> set (m_fds fs)" "fd_used f"
    then have "fd_ok (m_inodes fs) f" using ok by (simp add: tables_ok_def list_all_iff)
    with f fds [OF f] show "case fd_inode f of None \<Rightarrow> False | Some k' \<Rightarrow> k' < length ((m_inodes fs)[k := i]) \<and>
        used ((m_inodes fs)[k := i] ! k') \<and> \<not> is_directory ((m_inodes fs)[k := i] ! k')"
      by (auto simp: fd_ok_def upd split: option.splits)
  qed
  ultimately show ?thesis using tables_okD(1,2) [OF ok] by (simp add: tables_ok_def)
qed

lemma lookup_set_inode:
  assumes "tables_ok fs" "tables_ok (set_inode k i fs)" "k < 64"
  shows "lookup (set_inode k i fs) p =
    (if used i \<and> iname i = p then Some i
     else if used (m_inodes fs ! k) \<and> iname (m_inodes fs ! k) = p then None else lookup fs p)"
proof (cases "lookup (set_inode k i fs) p")
  case None
  then have no: "\<And>j. j < 64 \<Longrightarrow> \<not> (used ((m_inodes fs)[k := i] ! j) \<and> iname ((m_inodes fs)[k := i] ! j) = p)"
    using lookup_Some_iff [OF assms(2), of p] by (metis option.distinct(1) set_inode_sel(1))
  have 1: "\<not> (used i \<and> iname i = p)" using no [OF assms(3)] tables_okD(1) [OF assms(1)] assms(3) by simp
  show ?thesis
  proof (cases "lookup fs p")
    case (Some x)
    then obtain j where j: "j < 64" "m_inodes fs ! j = x" "used x" "iname x = p"
      using lookup_Some_iff [OF assms(1)] by blast
    then have "j = k" using no [OF j(1)] by (metis nth_list_update_neq)
    with j 1 None show ?thesis by auto
  qed (use 1 None in auto)
next
  case (Some x)
  then obtain j where j: "j < 64" "(m_inodes fs)[k := i] ! j = x" "used x" "iname x = p"
    using lookup_Some_iff [OF assms(2)] by auto
  show ?thesis
  proof (cases "j = k")
    case True
    then show ?thesis using j Some tables_okD(1) [OF assms(1)] by auto
  next
    case False
    then have x: "m_inodes fs ! j = x" using j by simp
    have "\<not> (used i \<and> iname i = p)"
      using tables_okD(5) [OF assms(2), of j k] tables_okD(1) [OF assms(1)] j False assms(3) by auto
    moreover have "\<not> (used (m_inodes fs ! k) \<and> iname (m_inodes fs ! k) = p)"
      using tables_okD(5) [OF assms(1), of j k] j x False assms(3) by auto
    moreover have "lookup fs p = Some x" using lookup_Some_iff [OF assms(1)] j x by blast
    ultimately show ?thesis using Some by (simp only: if_False)
  qed
qed

section \<open>Updates of the tables as updates of the abstract state\<close>

lemma fs_abs_sel [simp]:
  "tree (fs_abs fs) p = map_option node_of (lookup fs p)" "files (fs_abs fs) = open_file fs"
  by (simp_all add: fs_abs_def)

lemma fd_target:
  assumes "tables_ok fs" "get_fd fd fs = Some d"
  obtains k where "fd_inode (m_fds fs ! d) = Some k" "k < 64" "used (m_inodes fs ! k)"
    "\<not> is_directory (m_inodes fs ! k)" "d < 32"
proof -
  have d: "d < 32" "fd_used (m_fds fs ! d)" using assms(2) by (auto simp: get_fd_Some_iff)
  then have "fd_ok (m_inodes fs) (m_fds fs ! d)" using tables_okD(4) [OF assms(1)] by blast
  then show thesis using d that tables_okD(1) [OF assms(1)] by (auto simp: fd_ok_def split: option.splits)
qed

lemma open_file_set_inode:
  assumes ok: "tables_ok fs" and k: "k < 64"
    and same: "\<And>f. f \<in> set (m_fds fs) \<Longrightarrow> fd_used f \<Longrightarrow> fd_inode f = Some k \<Longrightarrow> iname i = iname (m_inodes fs ! k)"
  shows "open_file (set_inode k i fs) = open_file fs"
proof
  fix fd
  show "open_file (set_inode k i fs) fd = open_file fs fd"
  proof (cases "get_fd fd fs")
    case None
    then show ?thesis by (simp add: open_file_def)
  next
    case (Some d)
    then obtain k' where k': "fd_inode (m_fds fs ! d) = Some k'" "k' < 64" "d < 32"
      using fd_target [OF ok] by metis
    have "fd_used (m_fds fs ! d)" "m_fds fs ! d \<in> set (m_fds fs)"
      using Some k'(3) tables_okD(2) [OF ok] by (auto simp: get_fd_Some_iff)
    then have "k' = k \<Longrightarrow> iname i = iname (m_inodes fs ! k)" using same k'(1) by blast
    then show ?thesis using Some k' k tables_okD(1) [OF ok]
      by (cases "k' = k") (simp_all add: open_file_def Let_def)
  qed
qed

lemma fs_abs_new:
  assumes "tables_ok fs" "tables_ok (set_inode k i fs)" "k < 64" "\<not> used (m_inodes fs ! k)" "used i"
  shows "fs_abs (set_inode k i fs) = (fs_abs fs)\<lparr>tree := (tree (fs_abs fs))(iname i \<mapsto> node_of i)\<rparr>"
proof -
  have "open_file (set_inode k i fs) = open_file fs"
    using assms(1,3,4) by (intro open_file_set_inode) (auto simp: tables_ok_def list_all_iff fd_ok_def)
  then show ?thesis using lookup_set_inode [OF assms(1-3)] assms(4,5) by (simp add: fs_abs_def fun_eq_iff)
qed

lemma fs_abs_same:
  assumes "tables_ok fs" "tables_ok (set_inode k i fs)" "k < 64" "used (m_inodes fs ! k)" "used i"
    and "iname i = iname (m_inodes fs ! k)"
  shows "fs_abs (set_inode k i fs) = (fs_abs fs)\<lparr>tree := (tree (fs_abs fs))(iname i \<mapsto> node_of i)\<rparr>"
  using lookup_set_inode [OF assms(1-3)] open_file_set_inode [of fs k i] assms by (simp add: fs_abs_def fun_eq_iff)

lemma fs_abs_delete:
  assumes "tables_ok fs" "tables_ok (set_inode k i fs)" "k < 64" "used (m_inodes fs ! k)" "\<not> used i"
    and "\<not> fd_busy k fs"
  shows "fs_abs (set_inode k i fs) = (fs_abs fs)\<lparr>tree := (tree (fs_abs fs))(iname (m_inodes fs ! k) := None)\<rparr>"
proof -
  have "open_file (set_inode k i fs) = open_file fs"
    using assms(1,3,6) by (intro open_file_set_inode) (auto simp: fd_busy_def list_ex_iff)
  then show ?thesis using lookup_set_inode [OF assms(1-3)] assms(4,5) by (auto simp: fs_abs_def fun_eq_iff)
qed

lemma fd_busy_opened:
  assumes "tables_ok fs" "k < 64" "used (m_inodes fs ! k)"
  shows "fd_busy k fs \<longleftrightarrow> opened (iname (m_inodes fs ! k)) (fs_abs fs)"
proof
  assume "fd_busy k fs"
  then obtain d where d: "d < 32" "fd_used (m_fds fs ! d)" "fd_inode (m_fds fs ! d) = Some k"
    using tables_okD(2) [OF assms(1)] by (auto simp: fd_busy_def list_ex_iff in_set_conv_nth)
  then have "get_fd (int d + 3) fs = Some d" by (simp add: get_fd_Some_iff)
  with d have "open_file fs (int d + 3) = Some (iname (m_inodes fs ! k), fd_offset (m_fds fs ! d), fd_flags (m_fds fs ! d))"
    by (simp add: open_file_def Let_def)
  then show "opened (iname (m_inodes fs ! k)) (fs_abs fs)" by (auto simp: opened_def)
next
  assume "opened (iname (m_inodes fs ! k)) (fs_abs fs)"
  then obtain fd d where d: "get_fd fd fs = Some d" "iname (m_inodes fs ! the (fd_inode (m_fds fs ! d))) = iname (m_inodes fs ! k)"
    by (auto simp: opened_def open_file_def Let_def)
  obtain k' where k': "fd_inode (m_fds fs ! d) = Some k'" "k' < 64" "used (m_inodes fs ! k')" "d < 32"
    using fd_target [OF assms(1) d(1)] by metis
  then have "k' = k" using tables_okD(5) [OF assms(1), of k' k] assms d by simp
  with k' d tables_okD(2) [OF assms(1)] show "fd_busy k fs"
    by (auto simp: fd_busy_def list_ex_iff get_fd_Some_iff intro!: bexI [of _ "m_fds fs ! d"])
qed

lemma fs_abs_set_fd:
  assumes "tables_ok fs" "d < 32"
  shows "fs_abs (set_fd d f fs) = (fs_abs fs)\<lparr>files := (open_file fs)(int d + 3 := if fd_used f
    then Some (iname (m_inodes fs ! the (fd_inode f)), fd_offset f, fd_flags f) else None)\<rparr>"
proof -
  have get: "get_fd fd (set_fd d f fs) = (if fd = int d + 3 then if fd_used f then Some d else None else get_fd fd fs)" for fd
    using assms(2) tables_okD(2) [OF assms(1)] by (auto simp: get_fd_def Let_def nth_list_update split: if_splits)
  have "open_file (set_fd d f fs) = (open_file fs)(int d + 3 := if fd_used f
    then Some (iname (m_inodes fs ! the (fd_inode f)), fd_offset f, fd_flags f) else None)"
    using assms(2) tables_okD(2) [OF assms(1)]
    by (auto simp: fun_eq_iff open_file_def get Let_def get_fd_Some_iff split: option.splits)
      (auto simp: map_option_case get_fd_def Let_def split: option.splits)
  then show ?thesis by (simp add: fs_abs_def)
qed

lemma open_file_None: "open_file fs fd = None \<longleftrightarrow> get_fd fd fs = None"
  by (simp add: open_file_def)

subsection \<open>Creating an inode\<close>

lemma parent_directory_exists_iff:
  assumes "tables_ok fs" "normal_path p" "p \<noteq> [slash]" "length p < 64"
  shows "parent_directory_exists fs p \<longleftrightarrow> tree (fs_abs fs) (parent_of p) = Some Dir"
  using normal_path_length [OF assms(2,3)] assms(3,4)
  by (auto simp: parent_directory_exists_def lookup_def node_of_def split: option.splits)

lemma create_inode_correct:
  assumes ok: "tables_ok fs" and new: "tree (fs_abs fs) p = None" and len: "length p < 64" and sp: "room fs"
  obtains fs' k where "create_inode p dir fs = (fs', Some k)" "tables_ok fs'" "k < 64"
    "fs_abs fs' = (fs_abs fs)\<lparr>tree := (tree (fs_abs fs))(p \<mapsto> (if dir then Dir else File []))\<rparr>"
    "used (m_inodes fs' ! k)" "iname (m_inodes fs' ! k) = p" "is_directory (m_inodes fs' ! k) = dir"
    "m_fds fs' = m_fds fs" "buffer (m_inodes fs' ! k) = []" "icapacity (m_inodes fs' ! k) = 0" "isize (m_inodes fs' ! k) = 0"
proof -
  let ?i = "\<lparr>used = True, is_directory = dir, iname = copy_text p 64, idata = None, isize = 0, icapacity = 0\<rparr>"
  obtain k where k: "find_slot (\<lambda>i. \<not> used i) (m_inodes fs) = Some k" using sp by (auto simp: room_def)
  then have k64: "k < 64" "\<not> used (m_inodes fs ! k)"
    using find_slotD [OF k] tables_okD(1) [OF ok] by auto
  have none: "lookup fs p = None" using new by simp
  have ok': "tables_ok (set_inode k ?i fs)"
  proof (rule tables_ok_set_inode [OF ok k64(1)])
    show "inode_ok ?i" using len by (simp add: inode_ok_def buffer_def)
    show "iname (m_inodes fs ! j) \<noteq> iname ?i" if "j < 64" "used (m_inodes fs ! j)" for j
      using lookup_nth [OF ok that] none len by auto
    show "used ?i \<and> \<not> is_directory ?i" if "f \<in> set (m_fds fs)" "fd_used f" "fd_inode f = Some k" for f
      using that k64(2) ok by (auto simp: tables_ok_def list_all_iff fd_ok_def)
  qed
  have "fs_abs (set_inode k ?i fs) = (fs_abs fs)\<lparr>tree := (tree (fs_abs fs))(p \<mapsto> (if dir then Dir else File []))\<rparr>"
    using fs_abs_new [OF ok ok' k64] len by (simp add: node_of_def contents_def)
  moreover have "create_inode p dir fs = (set_inode k ?i fs, Some k)" using k by (simp add: create_inode_def set_inode_def)
  ultimately show thesis using that ok' k64(1) tables_okD(1) [OF ok] len by (simp add: buffer_def)
qed

lemma create_inode_full: "\<not> room fs \<Longrightarrow> create_inode p dir fs = (fs, None)"
  by (simp add: room_def create_inode_def)

end
