(* ===== verification/RamFs_Ops.thy ===== *)
theory RamFs_Ops
  imports RamFs_Inv
begin

text \<open>
  Every operation of the file system keeps the invariant and does to the abstract state
  what its specification says, on every branch.
\<close>


section \<open>The tree\<close>

lemma tree_okI:
  assumes "t [slash] = Some Dir" "\<And>p n. t p = Some n \<Longrightarrow> normal_path p"
    and "\<And>p n. t p = Some n \<Longrightarrow> p \<noteq> [slash] \<Longrightarrow> t (parent_of p) = Some Dir"
  shows "tree_ok t"
  unfolding tree_ok_def using assms by blast

lemma tree_okD:
  assumes "tree_ok t"
  shows "t [slash] = Some Dir" "t p = Some n \<Longrightarrow> normal_path p"
    and "t p = Some n \<Longrightarrow> p \<noteq> [slash] \<Longrightarrow> t (parent_of p) = Some Dir"
  using assms by (simp_all add: tree_ok_def dom_def)

lemma tree_ok_insert:
  assumes t: "tree_ok t" and p: "normal_path p" "p \<noteq> [slash]" "t (parent_of p) = Some Dir" "t p = None"
  shows "tree_ok (t(p \<mapsto> n))"
proof (rule tree_okI)
  show "(t(p \<mapsto> n)) [slash] = Some Dir" using tree_okD(1) [OF t] p by simp
  fix q m assume q: "(t(p \<mapsto> n)) q = Some m"
  show "normal_path q" using q p tree_okD(2) [OF t] by (simp split: if_splits)
  assume "q \<noteq> [slash]"
  then have "t (parent_of q) = Some Dir" using q p tree_okD(3) [OF t] by (simp split: if_splits)
  then show "(t(p \<mapsto> n)) (parent_of q) = Some Dir" using p(4) by auto
qed

lemma tree_ok_file:
  assumes t: "tree_ok t" and p: "t p = Some (File c)"
  shows "tree_ok (t(p \<mapsto> File c'))"
proof (rule tree_okI)
  show "(t(p \<mapsto> File c')) [slash] = Some Dir" using tree_okD(1) [OF t] p by auto
  fix q m assume q: "(t(p \<mapsto> File c')) q = Some m"
  then have "\<exists>m'. t q = Some m'" using p by (simp split: if_splits)
  then obtain m' where m': "t q = Some m'" ..
  then show "normal_path q" by (rule tree_okD(2) [OF t])
  assume "q \<noteq> [slash]"
  then show "(t(p \<mapsto> File c')) (parent_of q) = Some Dir" using tree_okD(3) [OF t m'] p by auto
qed

lemma tree_ok_delete:
  assumes t: "tree_ok t" and p: "p \<noteq> [slash]" "\<And>q. q \<in> dom t \<Longrightarrow> q \<noteq> [slash] \<Longrightarrow> parent_of q \<noteq> p"
  shows "tree_ok (t(p := None))"
proof (rule tree_okI)
  show "(t(p := None)) [slash] = Some Dir" using tree_okD(1) [OF t] p by simp
  fix q m assume "(t(p := None)) q = Some m"
  then have q: "t q = Some m" by (simp split: if_splits)
  then show "normal_path q" by (rule tree_okD(2) [OF t])
  assume "q \<noteq> [slash]"
  then show "(t(p := None)) (parent_of q) = Some Dir" using tree_okD(3) [OF t q] p(2) [of q] q by auto
qed

lemma ramfs_invD:
  assumes "ramfs_inv fs"
  shows "tables_ok fs" "tree_ok (tree (fs_abs fs))" "tree (fs_abs fs) [slash] = Some Dir"
    and "\<And>p. tree (fs_abs fs) p \<noteq> None \<Longrightarrow> normal_path p"
    and "\<And>p. tree (fs_abs fs) p \<noteq> None \<Longrightarrow> p \<noteq> [slash] \<Longrightarrow> tree (fs_abs fs) (parent_of p) = Some Dir"
  using assms tree_okD [of "tree (fs_abs fs)"] unfolding ramfs_inv_def by blast+

lemma find_inode_tree:
  assumes "tables_ok fs"
  shows "find_inode fs p = Some k \<Longrightarrow> k < 64 \<and> used (m_inodes fs ! k) \<and> iname (m_inodes fs ! k) = p \<and>
      tree (fs_abs fs) p = Some (node_of (m_inodes fs ! k))"
    and "find_inode fs p = None \<longleftrightarrow> tree (fs_abs fs) p = None"
  using find_inode_Some_iff [OF assms] by (auto simp: lookup_def)

declare fs_abs_sel(1) [simp del]

lemma node_of_simps [simp]:
  "node_of i = Dir \<longleftrightarrow> is_directory i"
  "Dir = node_of i \<longleftrightarrow> is_directory i"
  "node_of i = File c \<longleftrightarrow> \<not> is_directory i \<and> c = contents i"
  by (auto simp: node_of_def)


section \<open>Directories\<close>

lemma ramfs_md_correct:
  assumes inv: "ramfs_inv fs" and run: "ramfs_md path fs = (fs', r)"
  shows "ramfs_inv fs' \<and> (fs_abs fs', r) = spec_md (room fs) path (fs_abs fs)"
proof (cases "normalize_path path 64")
  case None
  then show ?thesis using run inv by (simp add: ramfs_md_def spec_md_def)
next
  case (Some p)
  note p = normalize_pathD [OF Some] and ok = ramfs_invD(1) [OF inv]
  show ?thesis
  proof (cases "find_inode fs p")
    case None
    then have none: "tree (fs_abs fs) p = None" and nr: "p \<noteq> [slash]"
      using find_inode_tree(2) [OF ok] ramfs_invD(3) [OF inv] by auto
    show ?thesis
    proof (cases "tree (fs_abs fs) (parent_of p) = Some Dir \<and> room fs")
      case True
      obtain fs1 k where c: "create_inode p True fs = (fs1, Some k)" "tables_ok fs1"
        "fs_abs fs1 = (fs_abs fs)\<lparr>tree := (tree (fs_abs fs))(p \<mapsto> Dir)\<rparr>"
        by (rule create_inode_correct [OF ok none p(2), where dir = True]) (use True in simp_all)
      have "fs' = fs1" "r = 0" using run Some None nr c True parent_directory_exists_iff [OF ok p(1) nr p(2)]
        by (auto simp: ramfs_md_def)
      moreover have "ramfs_inv fs1"
        using tree_ok_insert [OF ramfs_invD(2) [OF inv] p(1) nr] True none c by (simp add: ramfs_inv_def)
      ultimately show ?thesis using Some none True c by (simp add: spec_md_def)
    next
      case False
      then have "fs' = fs" "r = -1"
        using run Some None nr parent_directory_exists_iff [OF ok p(1) nr p(2)] create_inode_full [of fs p True]
        by (auto simp: ramfs_md_def split: if_splits)
      then show ?thesis using Some none False inv by (auto simp: spec_md_def)
    qed
  next
    case k: (Some k)
    note n = find_inode_tree(1) [OF ok k]
    show ?thesis
    proof (cases "p = [slash]")
      case True
      then show ?thesis using run Some inv ramfs_invD(3) [OF inv] by (auto simp: ramfs_md_def spec_md_def)
    next
      case False
      then show ?thesis using run Some k n inv by (auto simp: ramfs_md_def spec_md_def split: node.splits)
    qed
  qed
qed

lemma tables_ok_delete:
  assumes "tables_ok fs" "k < 64" "\<not> fd_busy k fs" "\<not> used i"
  shows "tables_ok (set_inode k i fs)"
  using assms by (intro tables_ok_set_inode) (auto simp: inode_ok_def fd_busy_def list_ex_iff)

lemma children_lookup:
  assumes "tables_ok fs"
  shows "list_ex (\<lambda>i. used i \<and> iname i \<noteq> p \<and> text_starts_with (iname i) (p @ [slash])) (m_inodes fs)
    \<longleftrightarrow> (\<exists>r. lookup fs (p @ slash # r) \<noteq> None)"
proof
  assume "list_ex (\<lambda>i. used i \<and> iname i \<noteq> p \<and> text_starts_with (iname i) (p @ [slash])) (m_inodes fs)"
  then obtain i r where "i \<in> set (m_inodes fs)" and i: "used i" "iname i = p @ slash # r"
    by (auto simp: list_ex_iff text_starts_with_append)
  then obtain k where "k < 64" "m_inodes fs ! k = i"
    using tables_okD(1) [OF assms] by (metis in_set_conv_nth)
  then have "lookup fs (p @ slash # r) = Some i" using i lookup_Some_iff [OF assms] by blast
  then show "\<exists>r. lookup fs (p @ slash # r) \<noteq> None" by (intro exI [of _ r]) simp
next
  assume "\<exists>r. lookup fs (p @ slash # r) \<noteq> None"
  then obtain r i where "lookup fs (p @ slash # r) = Some i" by blast
  then obtain k where k: "k < 64" "m_inodes fs ! k = i" "used i" "iname i = p @ slash # r"
    using lookup_Some_iff [OF assms] by blast
  moreover have "i \<in> set (m_inodes fs)" using k(1,2) tables_okD(1) [OF assms] nth_mem by metis
  ultimately show "list_ex (\<lambda>i. used i \<and> iname i \<noteq> p \<and> text_starts_with (iname i) (p @ [slash])) (m_inodes fs)"
    unfolding list_ex_iff text_starts_with_append by (intro bexI [of _ i]) simp_all
qed

lemma ramfs_rd_correct:
  assumes inv: "ramfs_inv fs" and run: "ramfs_rd path fs = (fs', r)"
  shows "ramfs_inv fs' \<and> (fs_abs fs', r) = spec_rd path (fs_abs fs)"
proof (cases "normalize_path path 64")
  case None
  then show ?thesis using run inv by (simp add: ramfs_rd_def spec_rd_def)
next
  case (Some p)
  note p = normalize_pathD [OF Some] and ok = ramfs_invD(1) [OF inv]
  have below: "list_ex (\<lambda>i. used i \<and> \<not> text_equal (iname i) p \<and> text_starts_with (iname i) (copy_text p 64 @ [slash]))
      (m_inodes fs) \<longleftrightarrow> (\<exists>r. tree (fs_abs fs) (p @ slash # r) \<noteq> None)"
    using children_lookup [OF ok] p(2) by (simp add: fs_abs_sel(1))
  show ?thesis
  proof (cases "p \<noteq> [slash] \<and> tree (fs_abs fs) p = Some Dir \<and> length p < 63 \<and> (\<forall>r. tree (fs_abs fs) (p @ slash # r) = None)")
    case True
    obtain k where k: "find_inode fs p = Some k" using True find_inode_tree(2) [OF ok, of p] by fastforce
    note n = find_inode_tree(1) [OF ok k]
    then have d: "is_directory (m_inodes fs ! k)" using True by auto
    have nb: "\<not> fd_busy k fs"
      using ok d by (auto simp: tables_ok_def list_all_iff fd_ok_def fd_busy_def list_ex_iff)
    have "fs' = set_inode k free_inode fs" "r = 0"
      using run Some True k d below nb p(2) by (auto simp: ramfs_rd_def)
    moreover have ok': "tables_ok (set_inode k free_inode fs)"
      using tables_ok_delete [OF ok _ nb] n by (simp add: free_inode_def)
    moreover have a: "fs_abs (set_inode k free_inode fs) = (fs_abs fs)\<lparr>tree := (tree (fs_abs fs))(p := None)\<rparr>"
      using fs_abs_delete [OF ok ok' _ _ _ nb] n by (simp add: free_inode_def)
    moreover have "tree_ok ((tree (fs_abs fs))(p := None))"
    proof (rule tree_ok_delete [OF ramfs_invD(2) [OF inv]])
      show "p \<noteq> [slash]" using True by simp
      fix q assume q: "q \<in> dom (tree (fs_abs fs))" "q \<noteq> [slash]"
      then have nq: "normal_path q" using ramfs_invD(4) [OF inv] by blast
      show "parent_of q \<noteq> p"
      proof
        assume pq: "parent_of q = p"
        then obtain c where "q = p @ slash # c" using normal_path_child [OF nq q(2)] True by auto
        then show False using q(1) True by auto
      qed
    qed
    ultimately show ?thesis using Some True by (simp add: ramfs_inv_def spec_rd_def)
  next
    case False
    have "fs' = fs \<and> r = -1"
    proof (cases "find_inode fs p")
      case (Some k)
      note n = find_inode_tree(1) [OF ok Some]
      show ?thesis using run \<open>normalize_path path 64 = Some p\<close> Some False n below p(2)
        by (auto simp: ramfs_rd_def split: if_splits)
    qed (use run Some in \<open>auto simp: ramfs_rd_def split: if_splits\<close>)
    then show ?thesis using Some False inv by (auto simp: spec_rd_def)
  qed
qed

lemma ramfs_unlink_correct:
  assumes inv: "ramfs_inv fs" and run: "ramfs_unlink path fs = (fs', r)"
  shows "ramfs_inv fs' \<and> (fs_abs fs', r) = spec_unlink path (fs_abs fs)"
proof (cases "normalize_path path 64")
  case None
  then show ?thesis using run inv by (simp add: ramfs_unlink_def spec_unlink_def)
next
  case (Some p)
  note p = normalize_pathD [OF Some] and ok = ramfs_invD(1) [OF inv]
  show ?thesis
  proof (cases "find_inode fs p")
    case None
    then have "tree (fs_abs fs) p = None" using find_inode_tree(2) [OF ok] by blast
    with None show ?thesis using run Some inv by (auto simp: ramfs_unlink_def spec_unlink_def split: if_splits)
  next
    case k: (Some k)
    note n = find_inode_tree(1) [OF ok k]
    have busy: "fd_busy k fs \<longleftrightarrow> opened p (fs_abs fs)" using fd_busy_opened [OF ok] n by auto
    show ?thesis
    proof (cases "\<not> is_directory (m_inodes fs ! k) \<and> \<not> fd_busy k fs")
      case True
      let ?i = "(m_inodes fs ! k)\<lparr>used := False, iname := [], isize := 0, icapacity := 0, idata := None\<rparr>"
      have nr: "p \<noteq> [slash]" using ramfs_invD(3) [OF inv] n True by auto
      have "fs' = set_inode k ?i fs" "r = 0" using run Some k True nr by (auto simp: ramfs_unlink_def)
      moreover have ok': "tables_ok (set_inode k ?i fs)" using tables_ok_delete [OF ok] True n by simp
      moreover have "fs_abs (set_inode k ?i fs) = (fs_abs fs)\<lparr>tree := (tree (fs_abs fs))(p := None)\<rparr>"
        using fs_abs_delete [OF ok ok'] True n by simp
      moreover have "tree_ok ((tree (fs_abs fs))(p := None))"
      proof (rule tree_ok_delete [OF ramfs_invD(2) [OF inv] nr])
        fix q assume "q \<in> dom (tree (fs_abs fs))" "q \<noteq> [slash]"
        then have "tree (fs_abs fs) (parent_of q) = Some Dir" using ramfs_invD(5) [OF inv] by blast
        then show "parent_of q \<noteq> p" using n True by auto
      qed
      ultimately show ?thesis using Some True n busy by (simp add: ramfs_inv_def spec_unlink_def node_of_def)
    next
      case False
      then show ?thesis using run Some k n busy inv
        by (auto simp: ramfs_unlink_def spec_unlink_def split: if_splits node.splits)
    qed
  qed
qed

section \<open>Descriptors\<close>

lemma ramfs_inv_set_fd:
  assumes "ramfs_inv fs" "fd_ok (m_inodes fs) f"
  shows "ramfs_inv (set_fd d f fs)"
  using assms tables_ok_set_fd [of fs f d] by (simp add: ramfs_inv_def fs_abs_def)

lemma ramfs_close_correct:
  assumes inv: "ramfs_inv fs" and run: "ramfs_close fd fs = (fs', r)"
  shows "ramfs_inv fs' \<and> (fs_abs fs', r) = spec_close fd (fs_abs fs)"
proof (cases "get_fd fd fs")
  case None
  then show ?thesis using run inv open_file_None [of fs fd] by (simp add: ramfs_close_def spec_close_def)
next
  case (Some d)
  then have d: "d < 32" "fd = int d + 3" by (auto simp: get_fd_Some_iff)
  have "fd_ok (m_inodes fs) free_fd" by (simp add: fd_ok_def free_fd_def)
  then have "ramfs_inv (set_fd d free_fd fs)" by (rule ramfs_inv_set_fd [OF inv])
  then show ?thesis
    using run Some d fs_abs_set_fd [OF ramfs_invD(1) [OF inv] d(1), of free_fd]
      open_file_None [of fs fd]
    by (simp add: ramfs_close_def spec_close_def free_fd_def)
qed

text \<open>The lowest free descriptor, as an abstract search.\<close>

lemma find_upt_slot: "find P (map f [0..<n]) = map_option f (find_slot (\<lambda>i. P (f i)) [0..<n])"
proof -
  have *: "find (\<lambda>i. P (f i)) [m..<m + k] = find_slot_from (\<lambda>i. P (f i)) m [m..<m + k]" for m k
  proof (induction k arbitrary: m)
    case (Suc k)
    have "[m..<m + Suc k] = m # [Suc m..<Suc m + k]" by (simp add: upt_conv_Cons del: upt_Suc)
    then show ?case using Suc.IH [of "Suc m"] by (simp del: upt_Suc)
  qed simp
  show ?thesis using * [of 0 n] by (simp add: find_map find_slot_def)
qed

lemma alloc_fd_find:
  assumes "tables_ok fs"
  shows "find (\<lambda>fd. open_file fs fd = None) (map (\<lambda>i. int i + 3) [0..<32])
    = map_option (\<lambda>i. int i + 3) (find_slot (\<lambda>f. \<not> fd_used f) (m_fds fs))"
proof -
  have free: "open_file fs (int i + 3) = None \<longleftrightarrow> \<not> fd_used (m_fds fs ! i)" if "i < 32" for i
    using that by (simp add: open_file_None get_fd_def)
  have "find_slot (\<lambda>i. open_file fs (int i + 3) = None) [0..<32] = find_slot (\<lambda>f. \<not> fd_used f) (m_fds fs)"
  proof (cases "find_slot (\<lambda>f. \<not> fd_used f) (m_fds fs)")
    case None
    then have "find_slot (\<lambda>i. open_file fs (int i + 3) = None) [0..<32] = None"
      unfolding find_slot_None_nth using free tables_okD(2) [OF assms] by auto
    with None show ?thesis by simp
  next
    case (Some k)
    then have "find_slot (\<lambda>i. open_file fs (int i + 3) = None) [0..<32] = Some k"
      unfolding find_slot_Some_iff using free tables_okD(2) [OF assms] by auto
    with Some show ?thesis by simp
  qed
  then show ?thesis by (simp add: find_upt_slot)
qed

text \<open>The second half of \<open>open\<close>, once there is an inode.\<close>

definition open_found :: "nat \<Rightarrow> u32 \<Rightarrow> ramfs \<Rightarrow> ramfs \<times> int" where
  "open_found k flags fs =
     (if is_directory (m_inodes fs ! k) then (fs, -1)
      else let fs = (if flags AND kOpenTruncate \<noteq> 0 \<and> flags AND kOpenWrite \<noteq> 0
             then set_inode k ((m_inodes fs ! k)\<lparr>isize := 0\<rparr>) fs else fs);
           fd_index = alloc_fd fs in
        if fd_index < 0 then (fs, -1)
        else (set_fd (nat fd_index) \<lparr>fd_used = True, fd_inode = Some k, fd_offset = 0, fd_flags = flags\<rparr> fs,
              fd_index + kFdOffset))"

definition spec_open_found :: "cstring \<Rightarrow> u32 \<Rightarrow> abs_fs \<Rightarrow> abs_fs \<times> int" where
  "spec_open_found p flags a =
     (let t = (if flags AND kOpenTruncate \<noteq> 0 \<and> flags AND kOpenWrite \<noteq> 0 then (tree a)(p \<mapsto> File []) else tree a) in
      case find (\<lambda>fd. files a fd = None) (map (\<lambda>i. int i + kFdOffset) [0..<32]) of
        None \<Rightarrow> (a\<lparr>tree := t\<rparr>, -1)
      | Some fd \<Rightarrow> (\<lparr>tree = t, files = (files a)(fd \<mapsto> (p, 0, flags))\<rparr>, fd))"

lemma truncate_correct:
  assumes inv: "ramfs_inv fs" and k: "k < 64" "used (m_inodes fs ! k)" "\<not> is_directory (m_inodes fs ! k)"
  shows "ramfs_inv (set_inode k ((m_inodes fs ! k)\<lparr>isize := 0\<rparr>) fs) \<and>
    fs_abs (set_inode k ((m_inodes fs ! k)\<lparr>isize := 0\<rparr>) fs) =
      (fs_abs fs)\<lparr>tree := (tree (fs_abs fs))(iname (m_inodes fs ! k) \<mapsto> File [])\<rparr>"
proof -
  note ok = ramfs_invD(1) [OF inv]
  let ?i = "(m_inodes fs ! k)\<lparr>isize := 0\<rparr>"
  have ok': "tables_ok (set_inode k ?i fs)"
  proof (rule tables_ok_set_inode [OF ok k(1)])
    show "inode_ok ?i" using tables_okD(3) [OF ok k(1)] by (simp add: inode_ok_def buffer_def)
    show "iname (m_inodes fs ! j) \<noteq> iname ?i" if "j < 64" "j \<noteq> k" "used (m_inodes fs ! j)" for j
      using tables_okD(5) [OF ok that(1) k(1) that(3) k(2)] that(2) by auto
  qed (use k in simp)
  have a: "fs_abs (set_inode k ?i fs) = (fs_abs fs)\<lparr>tree := (tree (fs_abs fs))(iname (m_inodes fs ! k) \<mapsto> File [])\<rparr>"
    using fs_abs_same [OF ok ok' k(1,2)] k by (simp add: node_of_def contents_def)
  have "tree (fs_abs fs) (iname (m_inodes fs ! k)) = Some (File (contents (m_inodes fs ! k)))"
    using lookup_nth [OF ok k(1,2)] k(3) by (simp add: fs_abs_sel(1))
  then show ?thesis using a ok' tree_ok_file [OF ramfs_invD(2) [OF inv]] by (simp add: ramfs_inv_def)
qed

lemma open_fd_correct:
  assumes inv: "ramfs_inv fs" and k: "k < 64" "used (m_inodes fs ! k)" "\<not> is_directory (m_inodes fs ! k)"
    and run: "(let fd_index = alloc_fd fs in
        if fd_index < 0 then (fs, -1)
        else (set_fd (nat fd_index) \<lparr>fd_used = True, fd_inode = Some k, fd_offset = 0, fd_flags = flags\<rparr> fs,
              fd_index + 3)) = (fs', r)"
  shows "ramfs_inv fs' \<and> (fs_abs fs', r) =
    (case find (\<lambda>fd. files (fs_abs fs) fd = None) (map (\<lambda>i. int i + 3) [0..<32]) of
       None \<Rightarrow> (fs_abs fs, -1)
     | Some fd \<Rightarrow> ((fs_abs fs)\<lparr>files := (files (fs_abs fs))(fd \<mapsto> (iname (m_inodes fs ! k), 0, flags))\<rparr>, fd))"
proof -
  note ok = ramfs_invD(1) [OF inv]
  show ?thesis
  proof (cases "find_slot (\<lambda>f. \<not> fd_used f) (m_fds fs)")
    case None
    then show ?thesis using run inv alloc_fd_find [OF ok] by (auto simp: alloc_fd_def)
  next
    case (Some d)
    then have d: "d < 32" using tables_okD(2) [OF ok] by (auto dest: find_slotD)
    let ?f = "\<lparr>fd_used = True, fd_inode = Some k, fd_offset = 0, fd_flags = flags\<rparr>"
    have "fd_ok (m_inodes fs) ?f" using k tables_okD(1) [OF ok] by (simp add: fd_ok_def)
    then have i: "ramfs_inv (set_fd d ?f fs)" by (rule ramfs_inv_set_fd [OF inv])
    have "fs' = set_fd d ?f fs" "r = int d + 3" using run Some by (auto simp: alloc_fd_def)
    then show ?thesis using i Some alloc_fd_find [OF ok] fs_abs_set_fd [OF ok d, of ?f] by simp
  qed
qed

lemma open_found_correct:
  assumes inv: "ramfs_inv fs" and k: "k < 64" "used (m_inodes fs ! k)" "\<not> is_directory (m_inodes fs ! k)"
    and run: "open_found k flags fs = (fs', r)"
  shows "ramfs_inv fs' \<and> (fs_abs fs', r) = spec_open_found (iname (m_inodes fs ! k)) flags (fs_abs fs)"
proof (cases "flags AND kOpenTruncate \<noteq> 0 \<and> flags AND kOpenWrite \<noteq> 0")
  case True
  let ?fs = "set_inode k ((m_inodes fs ! k)\<lparr>isize := 0\<rparr>) fs"
  have len: "k < length (m_inodes fs)" using k(1) tables_okD(1) [OF ramfs_invD(1) [OF inv]] by simp
  have i: "ramfs_inv ?fs" and a: "fs_abs ?fs = (fs_abs fs)\<lparr>tree := (tree (fs_abs fs))(iname (m_inodes fs ! k) \<mapsto> File [])\<rparr>"
    using truncate_correct [OF inv k] by blast+
  have f: "open_file ?fs = open_file fs" using a by (metis fs_abs_sel(2) abs_fs.select_convs(2) abs_fs.surjective abs_fs.update_convs(1))
  have "(let fd_index = alloc_fd ?fs in
        if fd_index < 0 then (?fs, -1)
        else (set_fd (nat fd_index) \<lparr>fd_used = True, fd_inode = Some k, fd_offset = 0, fd_flags = flags\<rparr> ?fs,
              fd_index + 3)) = (fs', r)"
    using run k(3) True by (simp add: open_found_def Let_def)
  from open_fd_correct [OF i _ _ _ this] k len a f True show ?thesis
    by (simp add: spec_open_found_def split: option.splits)
next
  case False
  then have "(let fd_index = alloc_fd fs in
        if fd_index < 0 then (fs, -1)
        else (set_fd (nat fd_index) \<lparr>fd_used = True, fd_inode = Some k, fd_offset = 0, fd_flags = flags\<rparr> fs,
              fd_index + 3)) = (fs', r)"
    using run k(3) by (auto simp: open_found_def Let_def)
  from open_fd_correct [OF inv k this] False show ?thesis
    by (auto simp: spec_open_found_def split: option.splits)
qed

lemma ramfs_open_found:
  "ramfs_open path flags fs =
     (case normalize_path path 64 of
        None \<Rightarrow> (fs, -1)
      | Some p \<Rightarrow>
          if p = [slash] then (fs, -1)
          else case find_inode fs p of
              Some k \<Rightarrow> open_found k flags fs
            | None \<Rightarrow>
                if flags AND kOpenCreate = 0 \<or> \<not> parent_directory_exists fs p then (fs, -1)
                else case create_inode p False fs of (fs, None) \<Rightarrow> (fs, -1) | (fs, Some k) \<Rightarrow> open_found k flags fs)"
  unfolding ramfs_open_def open_found_def by (simp split: option.split prod.split)

lemma ramfs_open_correct:
  assumes inv: "ramfs_inv fs" and run: "ramfs_open path flags fs = (fs', r)"
  shows "ramfs_inv fs' \<and> (fs_abs fs', r) = spec_open (room fs) path flags (fs_abs fs)"
proof (cases "normalize_path path 64")
  case None
  then show ?thesis using run inv by (simp add: ramfs_open_def spec_open_def)
next
  case (Some p)
  note p = normalize_pathD [OF Some] and ok = ramfs_invD(1) [OF inv]
  show ?thesis
  proof (cases "find_inode fs p")
    case None
    then have none: "tree (fs_abs fs) p = None" and nr: "p \<noteq> [slash]"
      using find_inode_tree(2) [OF ok] ramfs_invD(3) [OF inv] by auto
    note par = parent_directory_exists_iff [OF ok p(1) nr p(2)]
    show ?thesis
    proof (cases "flags AND kOpenCreate \<noteq> 0 \<and> tree (fs_abs fs) (parent_of p) = Some Dir \<and> room fs")
      case True
      obtain fs1 k where c: "create_inode p False fs = (fs1, Some k)" "tables_ok fs1" "k < 64"
        "fs_abs fs1 = (fs_abs fs)\<lparr>tree := (tree (fs_abs fs))(p \<mapsto> File [])\<rparr>"
        "used (m_inodes fs1 ! k)" "iname (m_inodes fs1 ! k) = p" "\<not> is_directory (m_inodes fs1 ! k)"
        by (rule create_inode_correct [OF ok none p(2), where dir = False]) (use True in simp_all)
      have inv1: "ramfs_inv fs1"
        using tree_ok_insert [OF ramfs_invD(2) [OF inv] p(1) nr] True none c by (simp add: ramfs_inv_def)
      have "open_found k flags fs1 = (fs', r)" using run Some None nr True par c(1) by (simp add: ramfs_open_found)
      from open_found_correct [OF inv1 c(3,5,7) this] show ?thesis
        using Some none True c(4,6) by (simp add: spec_open_def spec_open_found_def Let_def cong: option.case_cong)
    next
      case False
      then have "fs' = fs" "r = -1"
        using run Some None nr par create_inode_full [of fs p False] by (auto simp: ramfs_open_found split: if_splits)
      then show ?thesis using Some none False inv by (auto simp: spec_open_def)
    qed
  next
    case k: (Some k)
    note n = find_inode_tree(1) [OF ok k]
    show ?thesis
    proof (cases "is_directory (m_inodes fs ! k)")
      case True
      then have "fs' = fs" "r = -1" using run Some k by (auto simp: ramfs_open_found open_found_def split: if_splits)
      then show ?thesis using Some n True inv by (simp add: spec_open_def node_of_def)
    next
      case False
      then have nr: "p \<noteq> [slash]" using ramfs_invD(3) [OF inv] n by auto
      then have "open_found k flags fs = (fs', r)" using run Some k by (simp add: ramfs_open_found)
      from open_found_correct [OF inv _ _ False this] show ?thesis
        using Some n False by (simp add: spec_open_def spec_open_found_def node_of_def)
    qed
  qed
qed

section \<open>Reading\<close>

lemma contents_length:
  assumes "tables_ok fs" "k < 64" "used (m_inodes fs ! k)"
  shows "length (contents (m_inodes fs ! k)) = unat (isize (m_inodes fs ! k))"
  using tables_okD(3) [OF assms(1,2)] assms(3) by (simp add: inode_ok_def contents_def word_le_nat_alt)

lemma ramfs_read_correct:
  assumes inv: "ramfs_inv fs" and run: "ramfs_read fd True count fs = (fs', r, bs)"
  shows "ramfs_inv fs' \<and> (fs_abs fs', r, bs) = spec_read fd count (fs_abs fs)"
proof (cases "get_fd fd fs")
  case None
  then show ?thesis using run inv by (simp add: ramfs_read_def spec_read_def open_file_def)
next
  case (Some d)
  note ok = ramfs_invD(1) [OF inv]
  obtain k where k: "fd_inode (m_fds fs ! d) = Some k" "k < 64" "used (m_inodes fs ! k)"
    "\<not> is_directory (m_inodes fs ! k)" "d < 32" using fd_target [OF ok Some] .
  let ?f = "m_fds fs ! d" and ?i = "m_inodes fs ! k"
  have fd: "fd = int d + 3" using Some by (simp add: get_fd_Some_iff)
  have fdu: "fd_used ?f" using Some by (simp add: get_fd_Some_iff)
  have of: "open_file fs fd = Some (iname ?i, fd_offset ?f, fd_flags ?f)"
    using Some k by (simp add: open_file_def Let_def)
  have t: "tree (fs_abs fs) (iname ?i) = Some (File (contents ?i))"
    using lookup_nth [OF ok k(2,3)] k(4) by (simp add: fs_abs_sel(1))
  note len = contents_length [OF ok k(2,3)]
  show ?thesis
  proof (cases "fd_flags ?f AND kOpenRead = 0")
    case True
    then show ?thesis using run Some k inv of by (simp add: ramfs_read_def spec_read_def)
  next
    case rd: False
    show ?thesis
    proof (cases "isize ?i \<le> fd_offset ?f")
      case True
      then have "drop (unat (fd_offset ?f)) (contents ?i) = []" using len by (simp add: word_le_nat_alt)
      moreover have "fs' = fs" "r = 0" "bs = []" using run Some k rd True by (simp_all add: ramfs_read_def)
      moreover have "(fs_abs fs)\<lparr>files := (open_file fs)(fd \<mapsto> (iname ?i, fd_offset ?f, fd_flags ?f))\<rparr> = fs_abs fs"
        using of by (simp add: fs_abs_def fun_upd_idem)
      ultimately show ?thesis using inv rd of t by (simp add: spec_read_def)
    next
      case False
      let ?n = "if count < isize ?i - fd_offset ?f then count else isize ?i - fd_offset ?f"
      let ?g = "?f\<lparr>fd_offset := fd_offset ?f + ?n\<rparr>"
      have n: "unat ?n = min (unat count) (unat (isize ?i) - unat (fd_offset ?f))"
        using False by (simp add: word_less_nat_alt word_le_nat_alt unat_sub min_def)
      have bs: "take (unat count) (drop (unat (fd_offset ?f)) (contents ?i)) = take (unat ?n) (drop (unat (fd_offset ?f)) (buffer ?i))"
        unfolding n contents_def drop_take take_take ..
      have lb: "length (take (unat count) (drop (unat (fd_offset ?f)) (contents ?i))) = unat ?n"
        using len unfolding n by simp
      have "fs' = set_fd d ?g fs" "r = sint ?n" "bs = take (unat ?n) (drop (unat (fd_offset ?f)) (buffer ?i))"
        using run Some k rd False by (simp_all add: ramfs_read_def Let_def buffer_def)
      moreover have "ramfs_inv (set_fd d ?g fs)"
        using k tables_okD(1) [OF ok] by (intro ramfs_inv_set_fd [OF inv]) (simp add: fd_ok_def)
      moreover have "fs_abs (set_fd d ?g fs) = (fs_abs fs)\<lparr>files := (open_file fs)(fd \<mapsto> (iname ?i, fd_offset ?f + ?n, fd_flags ?f))\<rparr>"
        using fs_abs_set_fd [OF ok k(5), of ?g] k(1) fdu by (simp add: fd)
      moreover have "of_nat (length (take (unat count) (drop (unat (fd_offset ?f)) (contents ?i)))) = ?n" unfolding lb by simp
      ultimately show ?thesis using rd of t bs by (simp add: spec_read_def Let_def del: length_take length_drop)
    qed
  qed
qed

section \<open>Writing\<close>

lemma grow_capacity_reaches:
  assumes "0 < c" "required \<le> 0x80000000"
  shows "\<exists>cap. grow_capacity c required = Some cap \<and> required \<le> cap"
  using assms
proof (induction "unat required - unat c" arbitrary: c rule: less_induct)
  case less
  show ?case
  proof (cases "c < required")
    case True
    have c: "unat c < 2 ^ 31" "0 < unat c" "unat c < unat required"
      using True less.prems by (auto simp: word_less_nat_alt word_le_nat_alt)
    then have d: "unat (c * 2) = unat c * 2" by (simp add: unat_mult_lem [THEN iffD1])
    have "unat required - unat (c * 2) < unat required - unat c" "0 < c * 2"
      using c d by (auto simp: word_less_nat_alt)
    from less.hyps [OF this] less.prems True show ?thesis by (subst grow_capacity.simps) simp
  next
    case False
    then show ?thesis by (subst grow_capacity.simps) simp
  qed
qed

lemma doubles_powers: "doubles = insert 0 ((\<lambda>k. 2 ^ k) ` {6..<32 :: nat})"
  unfolding doubles_def set_upt [symmetric] by (simp add: upt_rec)

lemma doubles_power: "c \<in> doubles \<Longrightarrow> c \<noteq> 0 \<Longrightarrow> \<exists>k. unat c = 2 ^ k"
proof -
  have "unat (2 ^ k :: u32) = 2 ^ k" if "k < 32" for k :: nat
    using that unat_of_nat_u32 [of "2 ^ k"] power_strict_increasing [of k 32 "2 :: nat"] by simp
  then show "c \<in> doubles \<Longrightarrow> c \<noteq> 0 \<Longrightarrow> \<exists>k. unat c = 2 ^ k" unfolding doubles_powers by fastforce
qed

lemma doubles_half:
  assumes "c \<in> doubles" "N \<in> doubles" "c < N"
  shows "c * 2 \<le> N"
proof (cases "c = 0")
  case False
  obtain j k where j: "unat c = 2 ^ j" "unat N = 2 ^ k" using doubles_power assms False by (metis word_not_simps(1))
  then have "j < k" using assms(3) by (simp add: word_less_nat_alt)
  then have "(2 :: nat) ^ Suc j \<le> 2 ^ k" by (intro power_increasing) simp_all
  moreover have "unat (c * 2) \<le> unat c * 2" by (simp add: unat_word_ariths)
  ultimately show ?thesis using j by (simp add: word_le_nat_alt)
qed simp

text \<open>From a capacity of the doubling the loop ends at another one, and does not pass one that is enough.\<close>

lemma grow_capacity_doubling:
  assumes "grow_capacity c required = Some cap" "c \<in> doubles"
  shows "cap \<in> doubles \<and> (\<forall>N \<in> doubles. c \<le> N \<and> required \<le> N \<longrightarrow> cap \<le> N)"
proof -
  have "c \<in> doubles \<longrightarrow> cap \<in> doubles \<and> (\<forall>N \<in> doubles. c \<le> N \<and> required \<le> N \<longrightarrow> cap \<le> N)"
  proof (rule grow_capacity.raw_induct [where P = "\<lambda>c r x. c \<in> doubles \<longrightarrow>
      x \<in> doubles \<and> (\<forall>N \<in> doubles. c \<le> N \<and> r \<le> N \<longrightarrow> x \<le> N)", OF _ assms(1)])
    fix g c r and x :: u32
    assume IH: "\<And>c r x. g c r = Some x \<Longrightarrow> c \<in> doubles \<longrightarrow> x \<in> doubles \<and> (\<forall>N \<in> doubles. c \<le> N \<and> r \<le> N \<longrightarrow> x \<le> N)"
      and eq: "(if c < r then g (c * 2) r else Some c) = Some x"
    show "c \<in> doubles \<longrightarrow> x \<in> doubles \<and> (\<forall>N \<in> doubles. c \<le> N \<and> r \<le> N \<longrightarrow> x \<le> N)"
    proof (cases "c < r")
      case True
      then have "g (c * 2) r = Some x" using eq by simp
      from IH [OF this] show ?thesis using doubles_half doubles_step(1) True by (meson less_le_trans)
    next
      case False
      then show ?thesis using eq by simp
    qed
  qed
  with assms(2) show ?thesis by blast
qed

definition moved :: "inode \<Rightarrow> u8 list \<Rightarrow> u8 list" where
  "moved i new_data = (case idata i of
     None \<Rightarrow> new_data
   | Some old \<Rightarrow> if 0 < isize i then copy_bytes new_data 0 (take (unat (isize i)) old) else new_data)"

text \<open>Either the buffer is large enough, or the outcome is that of one request for the next capacity.\<close>

lemma ensure_capacity_cases:
  assumes ok: "inode_ok i" and u: "used i" and req: "required \<le> 0x80000000"
  obtains (enough) "required \<le> icapacity i" "ensure_capacity new_bytes i required h = Some (i, h, True)"
  | (asks) cap where "required \<le> cap" "0 < cap" "\<And>N. N \<in> doubles \<Longrightarrow> 64 \<le> N \<Longrightarrow> required \<le> N \<Longrightarrow> cap \<le> N"
      "ensure_capacity new_bytes i required h = map_option (\<lambda>(h', r). case r of None \<Rightarrow> (i, h', False)
         | Some nd \<Rightarrow> (i\<lparr>idata := Some (moved i nd), icapacity := cap\<rparr>, h', True)) (new_bytes h cap)"
      "\<And>nd. length nd = unat cap \<Longrightarrow> inode_ok (i\<lparr>idata := Some (moved i nd), icapacity := cap\<rparr>) \<and>
         contents (i\<lparr>idata := Some (moved i nd), icapacity := cap\<rparr>) = contents i"
proof (cases "required \<le> icapacity i")
  case True
  then show ?thesis by (intro enough) (simp_all add: ensure_capacity_def)
next
  case False
  let ?c = "if icapacity i = 0 then 64 else icapacity i"
  obtain cap where cap: "grow_capacity ?c required = Some cap" "required \<le> cap"
    using grow_capacity_reaches [OF _ req, of ?c] by (cases "icapacity i = 0") (auto simp: word_gt_0)
  have "?c \<in> doubles" using ok u by (simp add: inode_ok_def)
  note dbl = grow_capacity_doubling [OF cap(1) this]
  show ?thesis
  proof (rule asks)
    show "0 < cap" "required \<le> cap" using False cap(2) by (auto simp: not_le intro: le_less_trans [of 0] less_le_trans)
    show "cap \<le> N" if "N \<in> doubles" "64 \<le> N" "required \<le> N" for N using dbl that False by (auto split: if_splits)
    show "ensure_capacity new_bytes i required h = map_option (\<lambda>(h', r). case r of None \<Rightarrow> (i, h', False)
        | Some nd \<Rightarrow> (i\<lparr>idata := Some (moved i nd), icapacity := cap\<rparr>, h', True)) (new_bytes h cap)"
      using False cap(1) by (cases "new_bytes h cap") (auto simp: ensure_capacity_def moved_def split: option.splits)
    fix nd :: "u8 list" assume lnd: "length nd = unat cap"
    have sz: "unat (isize i) \<le> length (buffer i)" "unat (isize i) \<le> unat cap"
      using ok u False cap(2) by (auto simp: inode_ok_def word_le_nat_alt)
    have "length (moved i nd) = unat cap" "take (unat (isize i)) (moved i nd) = contents i"
      using sz lnd by (auto simp: moved_def buffer_def copy_bytes_def contents_def word_gt_0 unat_eq_0 split: option.splits)
    then show "inode_ok (i\<lparr>idata := Some (moved i nd), icapacity := cap\<rparr>) \<and>
        contents (i\<lparr>idata := Some (moved i nd), icapacity := cap\<rparr>) = contents i"
      using ok u sz dbl by (simp add: inode_ok_def buffer_def contents_def word_le_nat_alt)
  qed
qed

text \<open>
  What the file system relies on of the kernel heap: on a heap in order a request of at most 512 MiB returns and
  leaves the heap in order, and an array has the length that was asked for.
\<close>

locale byte_allocator =
  fixes new_bytes :: "'h new_bytes" and in_order :: "'h \<Rightarrow> bool"
  assumes new_length: "new_bytes h n = Some (h', Some b) \<Longrightarrow> length b = unat n"
    and new_returns: "in_order h \<Longrightarrow> n \<le> 0x20000000 \<Longrightarrow> \<exists>h' r. new_bytes h n = Some (h', r) \<and> in_order h'"
begin

lemma ensure_capacity_works:
  assumes ok: "inode_ok i" and u: "used i" and req: "required \<le> 0x80000000"
  obtains (diverges) "ensure_capacity new_bytes i required h = None" "\<not> (in_order h \<and> required \<le> 0x20000000)"
  | (refused) h' n where "ensure_capacity new_bytes i required h = Some (i, h', False)" "new_bytes h n = Some (h', None)"
      "in_order h \<and> required \<le> 0x20000000 \<Longrightarrow> in_order h'"
  | (grown) h' d cap where "ensure_capacity new_bytes i required h = Some (i\<lparr>idata := d, icapacity := cap\<rparr>, h', True)"
      "required \<le> cap" "inode_ok (i\<lparr>idata := d, icapacity := cap\<rparr>)" "contents (i\<lparr>idata := d, icapacity := cap\<rparr>) = contents i"
      "in_order h \<and> required \<le> 0x20000000 \<Longrightarrow> in_order h'"
proof (cases rule: ensure_capacity_cases [OF assms, of new_bytes h])
  case 1
  then show ?thesis using ok by (intro grown [where d = "idata i" and cap = "icapacity i" and h' = h]) simp_all
next
  case (2 cap)
  have "0x20000000 \<in> doubles" by (simp add: doubles_def)
  then have small: "required \<le> 0x20000000 \<Longrightarrow> cap \<le> 0x20000000" using 2(3) by simp
  show ?thesis
  proof (cases "new_bytes h cap")
    case None
    then show ?thesis using 2(4) small new_returns [of h cap] by (intro diverges) auto
  next
    case (Some hr)
    obtain h' r where hr: "hr = (h', r)" by (cases hr)
    then have order: "in_order h \<and> required \<le> 0x20000000 \<Longrightarrow> in_order h'" using Some small new_returns [of h cap] by auto
    show ?thesis
    proof (cases r)
      case None
      then show ?thesis using 2(4) Some hr order by (intro refused [of h' cap]) simp_all
    next
      case nd: (Some nd)
      then show ?thesis using 2 Some hr order 2(5) [OF new_length]
        by (intro grown [where d = "Some (moved i nd)" and cap = cap and h' = h']) simp_all
    qed
  qed
qed

end

text \<open>The heap grants the next \<open>k\<close> requests of at most \<open>N\<close> bytes, whatever they are.\<close>

fun plenty :: "'h new_bytes \<Rightarrow> nat \<Rightarrow> u32 \<Rightarrow> 'h \<Rightarrow> bool" where
  "plenty nb 0 N h \<longleftrightarrow> True"
| "plenty nb (Suc k) N h \<longleftrightarrow>
     (\<forall>n. 0 < n \<and> n \<le> N \<longrightarrow> (\<exists>h' b. nb h n = Some (h', Some b) \<and> length b = unat n \<and> plenty nb k N h'))"

lemma plenty_mono: "plenty nb (Suc k) N h \<Longrightarrow> plenty nb k N h"
  by (induction k arbitrary: h) (simp, metis plenty.simps(2))

lemma ensure_capacity_plenty:
  assumes "inode_ok i" "used i" "required \<le> N" "N \<in> doubles" "64 \<le> N" "plenty nb (Suc k) N h"
  obtains h' d cap where "ensure_capacity nb i required h = Some (i\<lparr>idata := d, icapacity := cap\<rparr>, h', True)"
    "required \<le> cap" "inode_ok (i\<lparr>idata := d, icapacity := cap\<rparr>)" "contents (i\<lparr>idata := d, icapacity := cap\<rparr>) = contents i"
    "plenty nb k N h'"
proof -
  have req: "required \<le> 0x80000000" using assms(3) doubles_step(2) [OF assms(4)] by (rule order_trans)
  show ?thesis
  proof (cases rule: ensure_capacity_cases [OF assms(1,2) req, of nb h])
    case 1
    then show ?thesis using assms(1) plenty_mono [OF assms(6)]
      by (intro that [where d = "idata i" and cap = "icapacity i" and h' = h]) simp_all
  next
    case (2 cap)
    have "0 < cap \<and> cap \<le> N" using 2(2,3) assms(3-5) by blast
    then obtain h' nd where "nb h cap = Some (h', Some nd)" "length nd = unat cap" "plenty nb k N h'"
      using assms(6) unfolding plenty.simps by blast
    then show ?thesis using 2 by (intro that [where d = "Some (moved i nd)" and cap = cap and h' = h']) simp_all
  qed
qed

lemma copy_bytes_length: "off + length src \<le> length dst \<Longrightarrow> length (copy_bytes dst off src) = length dst"
  by (simp add: copy_bytes_def)

text \<open>The contents of a file after a copy into its buffer. A gap keeps what the buffer had there.\<close>

lemma copy_bytes_contents:
  assumes "off + length src \<le> length b" "n \<le> length b"
  shows "take (max n (off + length src)) (copy_bytes b off src)
    = copy_bytes (take n b @ take (off - n) (drop n b)) off src"
proof (cases "n \<le> off")
  case True
  then have "take n b @ take (off - n) (drop n b) = take off b" using take_add [of n "off - n" b] by simp
  then show ?thesis using True assms by (simp add: copy_bytes_def max_def)
next
  case False
  then have *: "take n b @ take (off - n) (drop n b) = take n b" by simp
  show ?thesis
  proof (cases "off + length src \<le> n")
    case True
    then show ?thesis unfolding * using False assms
      by (simp add: copy_bytes_def max_def min_def drop_take)
  next
    case F2: False
    then show ?thesis unfolding * using False assms
      by (simp add: copy_bytes_def max_def min_def)
  qed
qed

text \<open>What a write does to an inode whose buffer is large enough.\<close>

definition written :: "inode \<Rightarrow> u32 \<Rightarrow> u8 list \<Rightarrow> u32 \<Rightarrow> inode" where
  "written i off src count =
     (let i = i\<lparr>idata := map_option (\<lambda>b. copy_bytes b (unat off) (take (unat count) src)) (idata i)\<rparr> in
      if isize i < off + count then i\<lparr>isize := off + count\<rparr> else i)"

lemma written_correct:
  assumes ok: "inode_ok i" "used i" and len: "length src = unat count" and fit: "unat off + unat count \<le> 0x80000000"
    and cap: "off + count \<le> icapacity i"
  obtains gap where "inode_ok (written i off src count)" "length gap = unat off - unat (isize i)"
    "contents (written i off src count) = copy_bytes (contents i @ gap) (unat off) src"
proof -
  have s: "unat (off + count) = unat off + unat count"
    using fit by (simp add: unat_add_lem [THEN iffD1])
  have b: "unat (icapacity i) = length (buffer i)" "unat (isize i) \<le> length (buffer i)"
    using ok by (auto simp: inode_ok_def word_le_nat_alt)
  then have f: "unat off + length src \<le> length (buffer i)" using cap s len by (simp add: word_le_nat_alt)
  have buf: "buffer (written i off src count) = copy_bytes (buffer i) (unat off) src"
    using len f by (cases "idata i") (simp_all add: written_def Let_def buffer_def copy_bytes_def)
  have sz: "unat (isize (written i off src count)) = max (unat (isize i)) (unat off + length src)"
    using s len by (simp add: written_def Let_def word_less_nat_alt)
  have "inode_ok (written i off src count)"
    using ok b f cap s buf sz copy_bytes_length [OF f]
    by (auto simp: inode_ok_def written_def Let_def word_le_nat_alt)
  moreover have "contents (written i off src count) =
      copy_bytes (contents i @ take (unat off - unat (isize i)) (drop (unat (isize i)) (buffer i))) (unat off) src"
    unfolding contents_def [of "written i off src count"] buf sz contents_def [of i]
    by (rule copy_bytes_contents [OF f b(2)])
  ultimately show thesis using f by (intro that) auto
qed

lemma write_file_correct:
  assumes inv: "ramfs_inv fs" and fd: "get_fd fd fs = Some d" "fd_inode (m_fds fs ! d) = Some k"
    and i: "inode_ok i" "used i" "\<not> is_directory i" "iname i = iname (m_inodes fs ! k)"
  shows "let fs' = set_fd d ((m_fds fs ! d)\<lparr>fd_offset := stop\<rparr>) (set_inode k i fs) in
    ramfs_inv fs' \<and> fs_abs fs' = (fs_abs fs)\<lparr>
      tree := (tree (fs_abs fs))(iname (m_inodes fs ! k) \<mapsto> File (contents i)),
      files := (open_file fs)(fd \<mapsto> (iname (m_inodes fs ! k), stop, fd_flags (m_fds fs ! d)))\<rparr>"
proof -
  note ok = ramfs_invD(1) [OF inv]
  have k: "k < 64" "used (m_inodes fs ! k)" "\<not> is_directory (m_inodes fs ! k)" "d < 32"
    using fd_target [OF ok fd(1)] fd(2) by (metis option.sel)+
  have d: "fd = int d + 3" "fd_used (m_fds fs ! d)" using fd(1) by (auto simp: get_fd_Some_iff)
  let ?f = "(m_fds fs ! d)\<lparr>fd_offset := stop\<rparr>" and ?fs = "set_inode k i fs"
  have ok': "tables_ok ?fs"
  proof (rule tables_ok_set_inode [OF ok k(1) i(1)])
    show "iname (m_inodes fs ! j) \<noteq> iname i" if "j < 64" "j \<noteq> k" "used (m_inodes fs ! j)" for j
      using tables_okD(5) [OF ok that(1) k(1) that(3) k(2)] that(2) i(4) by auto
  qed (use i in simp)
  have a: "fs_abs ?fs = (fs_abs fs)\<lparr>tree := (tree (fs_abs fs))(iname (m_inodes fs ! k) \<mapsto> File (contents i))\<rparr>"
    using fs_abs_same [OF ok ok' k(1,2) i(2,4)] i by (simp add: node_of_def)
  have t: "tree (fs_abs fs) (iname (m_inodes fs ! k)) = Some (File (contents (m_inodes fs ! k)))"
    using lookup_nth [OF ok k(1,2)] k(3) by (simp add: fs_abs_sel(1))
  have "ramfs_inv ?fs" using a ok' tree_ok_file [OF ramfs_invD(2) [OF inv] t] by (simp add: ramfs_inv_def)
  then have "ramfs_inv (set_fd d ?f ?fs)"
    using k fd i tables_okD(1) [OF ok] by (intro ramfs_inv_set_fd) (simp_all add: fd_ok_def)
  moreover have "open_file ?fs = open_file fs"
    using a by (metis fs_abs_sel(2) abs_fs.select_convs(2) abs_fs.surjective abs_fs.update_convs(1))
  moreover have "iname (m_inodes ?fs ! k) = iname (m_inodes fs ! k)" using k(1) i(4) tables_okD(1) [OF ok] by simp
  ultimately show ?thesis using fs_abs_set_fd [OF ok' k(4), of ?f] a d fd(2) by (simp add: Let_def)
qed

lemma ramfs_write_written:
  assumes "get_fd fd fs = Some d" "fd_inode (m_fds fs ! d) = Some k" "fd_flags (m_fds fs ! d) AND kOpenWrite \<noteq> 0"
  shows "ramfs_write new_bytes fd (Some src) count fs h =
    map_option (\<lambda>(i, h, ok). if \<not> ok then (fs, h, -1)
      else (set_fd d ((m_fds fs ! d)\<lparr>fd_offset := fd_offset (m_fds fs ! d) + count\<rparr>)
             (set_inode k (written i (fd_offset (m_fds fs ! d)) src count) fs), h, sint count))
    (ensure_capacity new_bytes (m_inodes fs ! k) (fd_offset (m_fds fs ! d) + count) h)"
  unfolding ramfs_write_def written_def Let_def using assms by simp

text \<open>A write is one request for capacity for the file of the descriptor, and then the copy.\<close>

lemma write_target:
  fixes nb :: "'h new_bytes"
  assumes inv: "ramfs_inv fs" and f: "files (fs_abs fs) fd = Some (p, off, fl)" and w: "fl AND kOpenWrite \<noteq> 0"
    and len: "length src = unat count" and fit: "unat off + unat count \<le> 0x80000000"
  obtains i where "inode_ok i" "used i"
    "ensure_capacity nb i (off + count) h = None \<Longrightarrow> ramfs_write nb fd (Some src) count fs h = None"
    "\<And>h'. ensure_capacity nb i (off + count) h = Some (i, h', False) \<Longrightarrow> ramfs_write nb fd (Some src) count fs h = Some (fs, h', -1)"
    "\<And>h' dt cap. ensure_capacity nb i (off + count) h = Some (i\<lparr>idata := dt, icapacity := cap\<rparr>, h', True) \<Longrightarrow>
       off + count \<le> cap \<Longrightarrow> inode_ok (i\<lparr>idata := dt, icapacity := cap\<rparr>) \<Longrightarrow>
       contents (i\<lparr>idata := dt, icapacity := cap\<rparr>) = contents i \<Longrightarrow>
       \<exists>fs' c gap. ramfs_write nb fd (Some src) count fs h = Some (fs', h', sint count) \<and> ramfs_inv fs' \<and>
         tree (fs_abs fs) p = Some (File c) \<and> length gap = unat off - length c \<and>
         fs_abs fs' = (fs_abs fs)\<lparr>tree := (tree (fs_abs fs))(p \<mapsto> File (copy_bytes (c @ gap) (unat off) src)),
           files := (files (fs_abs fs))(fd \<mapsto> (p, off + count, fl))\<rparr>"
proof -
  note ok = ramfs_invD(1) [OF inv]
  obtain d where d: "get_fd fd fs = Some d" using f by (auto simp: open_file_def)
  obtain k where k: "fd_inode (m_fds fs ! d) = Some k" "k < 64" "used (m_inodes fs ! k)" "\<not> is_directory (m_inodes fs ! k)"
    using fd_target [OF ok d] by metis
  let ?i = "m_inodes fs ! k"
  have p: "p = iname ?i" "off = fd_offset (m_fds fs ! d)" "fl = fd_flags (m_fds fs ! d)"
    using f d k by (auto simp: open_file_def Let_def)
  have t: "tree (fs_abs fs) p = Some (File (contents ?i))"
    using lookup_nth [OF ok k(2,3)] k(4) p by (simp add: fs_abs_sel(1))
  note run = ramfs_write_written [OF d k(1), of nb src count h, folded p, OF w]
  show ?thesis
  proof (rule that)
    show "inode_ok ?i" "used ?i" using tables_okD(3) [OF ok k(2)] k(3) by simp_all
    fix h' dt cap
    let ?j = "?i\<lparr>idata := dt, icapacity := cap\<rparr>"
    assume g: "ensure_capacity nb ?i (off + count) h = Some (?j, h', True)" "off + count \<le> cap" "inode_ok ?j" "contents ?j = contents ?i"
    have j: "used ?j" "off + count \<le> icapacity ?j" using k(3) g(2) by simp_all
    obtain gap where gap: "inode_ok (written ?j off src count)" "length gap = unat off - unat (isize ?j)"
      "contents (written ?j off src count) = copy_bytes (contents ?j @ gap) (unat off) src"
      by (rule written_correct [OF g(3) j(1) len fit j(2)])
    have wr: "used (written ?j off src count)" "\<not> is_directory (written ?j off src count)" "iname (written ?j off src count) = iname ?i"
      using k by (simp_all add: written_def Let_def)
    have "length gap = unat off - length (contents ?i)" using gap(2) contents_length [OF ok k(2,3)] by simp
    then show "\<exists>fs' c gap. ramfs_write nb fd (Some src) count fs h = Some (fs', h', sint count) \<and> ramfs_inv fs' \<and>
         tree (fs_abs fs) p = Some (File c) \<and> length gap = unat off - length c \<and>
         fs_abs fs' = (fs_abs fs)\<lparr>tree := (tree (fs_abs fs))(p \<mapsto> File (copy_bytes (c @ gap) (unat off) src)),
           files := (files (fs_abs fs))(fd \<mapsto> (p, off + count, fl))\<rparr>"
      using write_file_correct [OF inv d k(1) gap(1) wr, of "off + count"] t g gap(3) p
      by (intro exI [of _ "set_fd d ((m_fds fs ! d)\<lparr>fd_offset := off + count\<rparr>) (set_inode k (written ?j off src count) fs)"]
          exI [of _ "contents ?i"] exI [of _ gap]) (simp add: run Let_def)
  qed (simp_all add: run)
qed

text \<open>With memory to spare a write is never refused.\<close>

lemma write_plenty:
  assumes "ramfs_inv fs" "files (fs_abs fs) fd = Some (p, off, fl)" "fl AND kOpenWrite \<noteq> 0" "length src = unat count"
    and lim: "unat off + unat count \<le> unat N" "N \<in> doubles" "64 \<le> N" and h: "plenty nb (Suc k) N h"
  obtains fs' h' c gap where "ramfs_write nb fd (Some src) count fs h = Some (fs', h', sint count)" "ramfs_inv fs'"
      "tree (fs_abs fs) p = Some (File c)" "length gap = unat off - length c"
      "fs_abs fs' = (fs_abs fs)\<lparr>tree := (tree (fs_abs fs))(p \<mapsto> File (copy_bytes (c @ gap) (unat off) src)),
         files := (files (fs_abs fs))(fd \<mapsto> (p, off + count, fl))\<rparr>" "plenty nb k N h'"
proof -
  have "unat N \<le> unat (0x80000000 :: u32)" using doubles_step(2) [OF lim(2)] by (simp only: word_le_nat_alt)
  then have fit: "unat off + unat count \<le> 0x80000000" using lim(1) by simp
  then have req: "off + count \<le> N" using lim(1) by (simp add: word_le_nat_alt unat_add_lem [THEN iffD1])
  obtain i where i: "inode_ok i" "used i"
    "\<And>h' dt cap. ensure_capacity nb i (off + count) h = Some (i\<lparr>idata := dt, icapacity := cap\<rparr>, h', True) \<Longrightarrow>
       off + count \<le> cap \<Longrightarrow> inode_ok (i\<lparr>idata := dt, icapacity := cap\<rparr>) \<Longrightarrow>
       contents (i\<lparr>idata := dt, icapacity := cap\<rparr>) = contents i \<Longrightarrow>
       \<exists>fs' c gap. ramfs_write nb fd (Some src) count fs h = Some (fs', h', sint count) \<and> ramfs_inv fs' \<and>
         tree (fs_abs fs) p = Some (File c) \<and> length gap = unat off - length c \<and>
         fs_abs fs' = (fs_abs fs)\<lparr>tree := (tree (fs_abs fs))(p \<mapsto> File (copy_bytes (c @ gap) (unat off) src)),
           files := (files (fs_abs fs))(fd \<mapsto> (p, off + count, fl))\<rparr>"
    using write_target [OF assms(1-4) fit, of nb h] by metis
  obtain h' d cap where e: "ensure_capacity nb i (off + count) h = Some (i\<lparr>idata := d, icapacity := cap\<rparr>, h', True)"
    "off + count \<le> cap" "inode_ok (i\<lparr>idata := d, icapacity := cap\<rparr>)" "contents (i\<lparr>idata := d, icapacity := cap\<rparr>) = contents i"
    "plenty nb k N h'" by (rule ensure_capacity_plenty [OF i(1,2) req lim(2,3) h])
  from i(3) [OF e(1-4)] that e(5) show ?thesis by blast
qed

context byte_allocator
begin

lemma write_cases:
  assumes inv: "ramfs_inv fs" and f: "files (fs_abs fs) fd = Some (p, off, fl)" and w: "fl AND kOpenWrite \<noteq> 0"
    and len: "length src = unat count" and fit: "unat off + unat count \<le> 0x80000000"
  obtains (diverges) "ramfs_write new_bytes fd (Some src) count fs h = None" "\<not> (in_order h \<and> unat off + unat count \<le> 0x20000000)"
  | (refused) h' n where "ramfs_write new_bytes fd (Some src) count fs h = Some (fs, h', -1)" "new_bytes h n = Some (h', None)"
      "in_order h \<and> unat off + unat count \<le> 0x20000000 \<Longrightarrow> in_order h'"
  | (wrote) fs' h' c gap where "ramfs_write new_bytes fd (Some src) count fs h = Some (fs', h', sint count)" "ramfs_inv fs'"
      "tree (fs_abs fs) p = Some (File c)" "length gap = unat off - length c"
      "fs_abs fs' = (fs_abs fs)\<lparr>tree := (tree (fs_abs fs))(p \<mapsto> File (copy_bytes (c @ gap) (unat off) src)),
         files := (files (fs_abs fs))(fd \<mapsto> (p, off + count, fl))\<rparr>"
      "in_order h \<and> unat off + unat count \<le> 0x20000000 \<Longrightarrow> in_order h'"
proof -
  have req: "off + count \<le> 0x80000000" "(off + count \<le> 0x20000000) = (unat off + unat count \<le> 0x20000000)"
    using fit by (simp_all add: word_le_nat_alt unat_add_lem [THEN iffD1])
  show ?thesis
  proof (rule write_target [OF assms, of new_bytes h])
    fix i
    assume i: "inode_ok i" "used i"
      and run: "ensure_capacity new_bytes i (off + count) h = None \<Longrightarrow> ramfs_write new_bytes fd (Some src) count fs h = None"
      "\<And>h'. ensure_capacity new_bytes i (off + count) h = Some (i, h', False) \<Longrightarrow>
         ramfs_write new_bytes fd (Some src) count fs h = Some (fs, h', -1)"
      and wr: "\<And>h' dt cap. ensure_capacity new_bytes i (off + count) h = Some (i\<lparr>idata := dt, icapacity := cap\<rparr>, h', True) \<Longrightarrow>
       off + count \<le> cap \<Longrightarrow> inode_ok (i\<lparr>idata := dt, icapacity := cap\<rparr>) \<Longrightarrow>
       contents (i\<lparr>idata := dt, icapacity := cap\<rparr>) = contents i \<Longrightarrow>
       \<exists>fs' c gap. ramfs_write new_bytes fd (Some src) count fs h = Some (fs', h', sint count) \<and> ramfs_inv fs' \<and>
         tree (fs_abs fs) p = Some (File c) \<and> length gap = unat off - length c \<and>
         fs_abs fs' = (fs_abs fs)\<lparr>tree := (tree (fs_abs fs))(p \<mapsto> File (copy_bytes (c @ gap) (unat off) src)),
           files := (files (fs_abs fs))(fd \<mapsto> (p, off + count, fl))\<rparr>"
    show ?thesis
    proof (cases rule: ensure_capacity_works [OF i req(1), of h, unfolded req(2)])
      case 1
      then show ?thesis using run by (intro diverges) simp_all
    next
      case (2 h' n)
      then show ?thesis using run by (intro refused [of h' n]) simp_all
    next
      case (3 h' dt cap)
      with wr [OF 3(1-4)] wrote show ?thesis by blast
    qed
  qed
qed

end

end
