(* ===== verification/Heap_Bytes.thy ===== *)
theory Heap_Bytes
  imports RamFs_Ops
begin

text \<open>
  The kernel heap of \<open>Heap\<close> as the provider of the file system's buffers: a heap in order stays in order, and
  a heap with an empty free list and mapped room above its break grants what fits there.
\<close>

section \<open>Definitions\<close>

text \<open>The array a \<open>new uint8_t[n]\<close> gets from the kernel heap, with the bytes that are in it.\<close>

definition heap_new_bytes :: "u32 \<Rightarrow> mm new_bytes" where
  "heap_new_bytes pt_addr h n =
     map_option (\<lambda>(h', p). (h', if p = 0 then None else Some (read_bytes (ram h') p (unat n)))) (operator_new pt_addr n h)"

text \<open>
  The heap is well formed and ends at or below \<open>0xDFFFF000\<close>, so that no sum of an address of the heap and a
  request of at most 512 MiB wraps. The kernel's heap is \<open>0xD0000000 .. 0xD1000000\<close>.
\<close>

definition heap_in_order :: "mm \<Rightarrow> bool" where
  "heap_in_order h \<longleftrightarrow> (\<exists>fs ls. heap_wf h fs ls) \<and> g_heap_limit h \<le> 0xDFFFF000"

section \<open>A heap in order stays in order\<close>

lemma carve_block_limit: "carve_block n prev cur place s = Some (s', p) \<Longrightarrow> g_heap_limit s' = g_heap_limit s"
  by (auto simp: carve_block_def Let_def bind_eq_Some_conv split: prod.splits)

lemma free_list_walk_limit:
  assumes "free_list_walk n al prev cur s = Some r"
  shows "g_heap_limit (fst r) = g_heap_limit s"
proof (rule free_list_walk.raw_induct [where P = "\<lambda>n al prev cur s r. g_heap_limit (fst r) = g_heap_limit s", OF _ assms])
  fix f n al prev cur s and r :: "mm \<times> u32"
  assume IH: "\<And>n al prev cur s r. f n al prev cur s = Some r \<Longrightarrow> g_heap_limit (fst r) = g_heap_limit s"
    and eq: "(if cur = 0 then Some (s, 0) else case fit_block cur (cur + fb_size (ram s) cur) n al of
      None \<Rightarrow> f n al cur (fb_next (ram s) cur) s | Some place \<Rightarrow> carve_block n prev cur place s) = Some r"
  show "g_heap_limit (fst r) = g_heap_limit s"
    using eq IH carve_block_limit [of n prev cur _ s "fst r" "snd r"] by (auto split: if_splits option.splits)
qed

lemma map_heap_until_limit:
  assumes "map_heap_until pt e s = Some r"
  shows "g_heap_limit (fst r) = g_heap_limit s"
proof (rule map_heap_until.raw_induct [where P = "\<lambda>pt e s r. g_heap_limit (fst r) = g_heap_limit s", OF _ assms])
  fix f pt e s and r :: "mm \<times> bool"
  assume IH: "\<And>pt e s r. f pt e s = Some r \<Longrightarrow> g_heap_limit (fst r) = g_heap_limit s"
    and eq: "(if g_heap_mapped_end s < e then case map_next_heap_page pt s of (s', ok) \<Rightarrow>
      if ok then f pt e s' else Some (s', False) else Some (s, True)) = Some r"
  obtain t ok where t: "map_next_heap_page pt s = (t, ok)" by fastforce
  show "g_heap_limit (fst r) = g_heap_limit s"
    using eq IH [of pt e t r] map_next_heap_page_facts(2) [OF t] unfolding t by (cases r) (auto split: if_splits)
qed

lemma heap_alloc_limit:
  assumes "heap_alloc pt n al s = Some (s', p)"
  shows "g_heap_limit s' = g_heap_limit s"
proof -
  have bump: "allocate_from_bump pt n al t = Some (s', q) \<Longrightarrow> g_heap_limit s' = g_heap_limit t" for al t q
    using map_heap_until_limit by (fastforce simp: allocate_from_bump_def Let_def bind_eq_Some_conv split: if_splits prod.splits)
  show ?thesis
    using assms bump free_list_walk_limit
    by (fastforce simp: heap_alloc_def allocate_from_free_list_def Let_def bind_eq_Some_conv split: if_splits)
qed

lemma heap_new_bytes_in_order:
  assumes "heap_in_order h" "n \<le> 0x20000000"
  shows "\<exists>h' r. heap_new_bytes pt h n = Some (h', r) \<and> heap_in_order h'"
proof -
  obtain fs ls where wf: "heap_wf h fs ls" using assms(1) by (auto simp: heap_in_order_def)
  have "unat (g_heap_break h) \<le> unat (0xDFFFF000 :: u32)" "unat n \<le> unat (0x20000000 :: u32)"
    using assms wf unfolding heap_wf_def heap_in_order_def word_le_nat_alt by linarith+
  then have "heap_room h n 4" by (simp add: heap_room_def)
  from heap_alloc_correct [OF wf this, of pt] obtain h' p where run: "heap_alloc pt n (2 ^ 4) h = Some (h', p)"
    and w: "if p = 0 then heap_wf h' fs ls \<and> same_blocks h h' else allocated h ls n (2 ^ 4) h' p" by auto
  have "heap_in_order h'"
    using w heap_alloc_limit [OF run] assms(1) by (auto simp: heap_in_order_def allocated_def split: if_splits)
  then show ?thesis using run by (simp add: heap_new_bytes_def operator_new_def)
qed

interpretation heap_bytes: byte_allocator "heap_new_bytes pt_addr" heap_in_order
  for pt_addr
  by unfold_locales (auto simp: heap_new_bytes_def split: if_splits, use heap_new_bytes_in_order in \<open>simp add: heap_new_bytes_def\<close>)

section \<open>A heap with room above its break\<close>

lemma heap_alloc_above_break:
  assumes free: "g_free_list h = 0" and mapped: "g_heap_mapped_end h \<le> g_heap_limit h"
    and room: "unat (g_heap_break h) + (unat n + 64) \<le> unat (g_heap_mapped_end h)" and n: "0 < n"
  shows "\<exists>h' p. heap_alloc pt n 16 h = Some (h', p) \<and> p \<noteq> 0 \<and> g_free_list h' = 0 \<and>
    g_heap_mapped_end h' = g_heap_mapped_end h \<and> g_heap_limit h' = g_heap_limit h \<and>
    unat (g_heap_break h') \<le> unat (g_heap_break h) + (unat n + 64)"
proof -
  obtain hd p where hp: "place_header (g_heap_break h) (2 ^ 4) = (hd, p)" by fastforce
  have "unat (g_heap_break h) + 2 * 2 ^ 4 + 32 \<le> 2 ^ 32" using room unat_u32_less [of "g_heap_mapped_end h"] by simp
  note ph = place_header_eq [OF _ this hp]
  have p: "0 < unat p" "unat p \<le> unat (g_heap_break h) + 64" using ph(2-4) by simp_all
  have pn: "unat (p + n) = unat p + unat n"
    using p room unat_u32_less [of "g_heap_mapped_end h"] by (intro unat_add_nowrap) simp
  have le: "\<not> g_heap_mapped_end h < p + n" "\<not> g_heap_limit h < p + n" "\<not> p + n < p" "p \<noteq> 0"
    using p pn room mapped by (auto simp: word_less_nat_alt word_le_nat_alt)
  then have "map_heap_until pt (p + n) h = Some (h, True)" by (subst map_heap_until.simps) simp
  then show ?thesis
    using hp le free n p pn
    by (simp add: heap_alloc_def allocate_from_free_list_def free_list_walk.simps allocate_from_bump_def Let_def word_gt_0)
qed

lemma heap_plenty:
  assumes "g_free_list h = 0" "g_heap_mapped_end h \<le> g_heap_limit h"
    "unat (g_heap_break h) + k * (unat N + 64) \<le> unat (g_heap_mapped_end h)"
  shows "plenty (heap_new_bytes pt) k N h"
  using assms
proof (induction k arbitrary: h)
  case (Suc k)
  show ?case unfolding plenty.simps
  proof (intro allI impI)
    fix n assume n: "0 < n \<and> n \<le> N"
    then have nN: "unat n \<le> unat N" by (simp add: word_le_nat_alt)
    then have "unat (g_heap_break h) + (unat n + 64) \<le> unat (g_heap_mapped_end h)" using Suc.prems(3) by simp
    from heap_alloc_above_break [OF Suc.prems(1,2) this, of pt] n obtain h' p where
      h': "heap_alloc pt n 16 h = Some (h', p)" "p \<noteq> 0" "g_free_list h' = 0" "g_heap_mapped_end h' = g_heap_mapped_end h"
        "g_heap_limit h' = g_heap_limit h" "unat (g_heap_break h') \<le> unat (g_heap_break h) + (unat n + 64)" by blast
    then have "plenty (heap_new_bytes pt) k N h'" using Suc.prems nN by (intro Suc.IH) simp_all
    then show "\<exists>h' b. heap_new_bytes pt h n = Some (h', Some b) \<and> length b = unat n \<and> plenty (heap_new_bytes pt) k N h'"
      using h'(1,2) by (simp add: heap_new_bytes_def operator_new_def)
  qed
qed simp

text \<open>The heap of \<open>mm_fresh\<close> with its two pages mapped.\<close>

definition mm_mapped :: mm where
  "mm_mapped = mm_fresh\<lparr>g_heap_mapped_end := 0x102000\<rparr>"

lemma mm_heaps_in_order: "heap_in_order mm_fresh" "heap_in_order mm_mapped"
proof -
  have "heap_wf mm_mapped [] []" using mm_fresh_wf by (simp add: heap_wf_def mm_mapped_def)
  then show "heap_in_order mm_fresh" "heap_in_order mm_mapped" using mm_fresh_wf
    by (auto simp: heap_in_order_def mm_fresh_def mm_mapped_def heap_init_def heap_align_up_def)
qed

lemma mm_mapped_plenty: "k * (unat N + 64) \<le> 8192 \<Longrightarrow> plenty (heap_new_bytes pt) k N mm_mapped"
  by (rule heap_plenty) (simp_all add: mm_mapped_def mm_fresh_def heap_init_def heap_align_up_def)

end
