(* ===== verification/RamFs_Correct.thy ===== *)
theory RamFs_Correct
  imports Heap_Bytes
begin

text \<open>
  The file system as a whole: its initial contents, directory listings, arbitrary sequences
  of calls, and the properties of the component. The kernel heap of \<open>Heap\<close> is the allocator.
\<close>


section \<open>Definitions\<close>

fun seed_path :: "seed \<Rightarrow> cstring" where
  "seed_path (Seed_Dir p) = p"
| "seed_path (Seed_File p c) = p"

fun seed_node :: "seed \<Rightarrow> node" where
  "seed_node (Seed_Dir p) = Dir"
| "seed_node (Seed_File p c) = File c"

definition kAllSeeds :: "seed list" where
  "kAllSeeds = kSeeds @ map (\<lambda>e. Seed_Dir (''/root/'' @ e)) kHomeEntries
     @ map (\<lambda>e. Seed_Dir (''/home/root/'' @ e)) kHomeEntries @ [Seed_File ''/bin/init.elf'' kInitElf]"

definition initial_tree :: "cstring \<rightharpoonup> node" where
  "initial_tree = map_of (map (\<lambda>s. (seed_path s, seed_node s)) kAllSeeds)"

text \<open>The calls of the interface \<open>FileSystem\<close> that change its state.\<close>

datatype fs_call =
    Open "cstring option" u32
  | Read int bool u32
  | Write int "u8 list option" u32
  | Close int
  | Md "cstring option"
  | Rd "cstring option"
  | Unlink "cstring option"

fun fs_step :: "'h new_bytes \<Rightarrow> fs_call \<Rightarrow> ramfs \<times> 'h \<Rightarrow> (ramfs \<times> 'h \<times> int) option" where
  "fs_step nb (Open path flags) (fs, h) = (let (fs, r) = ramfs_open path flags fs in Some (fs, h, r))"
| "fs_step nb (Read fd buf count) (fs, h) = (let (fs, r, bs) = ramfs_read fd buf count fs in Some (fs, h, r))"
| "fs_step nb (Write fd buf count) (fs, h) = ramfs_write nb fd buf count fs h"
| "fs_step nb (Close fd) (fs, h) = (let (fs, r) = ramfs_close fd fs in Some (fs, h, r))"
| "fs_step nb (Md path) (fs, h) = (let (fs, r) = ramfs_md path fs in Some (fs, h, r))"
| "fs_step nb (Rd path) (fs, h) = (let (fs, r) = ramfs_rd path fs in Some (fs, h, r))"
| "fs_step nb (Unlink path) (fs, h) = (let (fs, r) = ramfs_unlink path fs in Some (fs, h, r))"


section \<open>Seeding\<close>

abbreviation free_slots :: "ramfs \<Rightarrow> nat" where
  "free_slots fs \<equiv> count_slots (\<lambda>i. \<not> used i) (m_inodes fs)"

lemma room_free_slots: "room fs \<longleftrightarrow> 0 < free_slots fs"
  by (auto simp: room_def find_slot_None_iff count_slots_0_iff neq0_conv [symmetric] simp del: neq0_conv)

lemma create_inode_free_slots:
  assumes "create_inode p dir fs = (fs', Some k)"
  shows "Suc (free_slots fs') = free_slots fs" "m_inodes fs' ! k = \<lparr>used = True, is_directory = dir,
    iname = copy_text p 64, idata = None, isize = 0, icapacity = 0\<rparr>" "k < length (m_inodes fs')"
proof -
  have k: "find_slot (\<lambda>i. \<not> used i) (m_inodes fs) = Some k"
    and fs': "fs' = fs\<lparr>m_inodes := (m_inodes fs)[k := \<lparr>used = True, is_directory = dir,
      iname = copy_text p 64, idata = None, isize = 0, icapacity = 0\<rparr>]\<rparr>"
    using assms by (auto simp: create_inode_def split: option.splits)
  note kk = find_slotD(1,2) [OF k]
  show "Suc (free_slots fs') = free_slots fs"
    using count_slots_update [OF kk(1), of "\<lambda>i. \<not> used i"] kk(2) unfolding fs' by simp
  show "m_inodes fs' ! k = \<lparr>used = True, is_directory = dir,
    iname = copy_text p 64, idata = None, isize = 0, icapacity = 0\<rparr>" "k < length (m_inodes fs')"
    using kk(1) unfolding fs' by simp_all
qed

lemma free_slots_set_inode:
  assumes "k < length (m_inodes fs)" "used (m_inodes fs ! k)" "used i"
  shows "free_slots (set_inode k i fs) = free_slots fs"
  using count_slots_update [OF assms(1), of "\<lambda>i. \<not> used i" i] assms(2,3) by simp

context byte_allocator
begin

lemma seed_entry_works:
  assumes ok: "tables_ok fs" and new: "tree (fs_abs fs) (seed_path s) = None" and len: "length (seed_path s) < 64"
    and big: "\<forall>p c. s = Seed_File p c \<longrightarrow> length c \<le> 0x20000000" and sp: "0 < free_slots fs" and ord: "in_order h"
  shows "(\<exists>fs' h' h1 n. seed_entry new_bytes s (fs, h) = Some (fs', h', False) \<and> new_bytes h1 n = Some (h', None) \<and> in_order h') \<or>
    (\<exists>fs' h'. seed_entry new_bytes s (fs, h) = Some (fs', h', True) \<and> in_order h' \<and> tables_ok fs' \<and> Suc (free_slots fs') = free_slots fs \<and>
      fs_abs fs' = (fs_abs fs)\<lparr>tree := (tree (fs_abs fs))(seed_path s \<mapsto> seed_node s)\<rparr>)"
proof (cases s)
  case (Seed_Dir p)
  obtain fs' k where c: "create_inode p True fs = (fs', Some k)" "tables_ok fs'"
    "fs_abs fs' = (fs_abs fs)\<lparr>tree := (tree (fs_abs fs))(p \<mapsto> Dir)\<rparr>"
    by (rule create_inode_correct [OF ok, of p True]) (use Seed_Dir new len sp in \<open>simp_all add: room_free_slots\<close>)
  then show ?thesis using Seed_Dir ord create_inode_free_slots(1) [OF c(1)]
    by (intro disjI2 exI [of _ fs'] exI [of _ h]) simp
next
  case (Seed_File p content)
  obtain fs1 k where c: "create_inode p False fs = (fs1, Some k)" "tables_ok fs1" "k < 64"
    "fs_abs fs1 = (fs_abs fs)\<lparr>tree := (tree (fs_abs fs))(p \<mapsto> File [])\<rparr>" "m_fds fs1 = m_fds fs"
    by (rule create_inode_correct [OF ok, of p False]) (use Seed_File new len sp in \<open>simp_all add: room_free_slots\<close>)
  note k = create_inode_free_slots [OF c(1)]
  let ?i = "m_inodes fs1 ! k"
  let ?n = "of_nat (length content) :: u32"
  have n: "unat ?n = length content" using big [rule_format, OF Seed_File] by (intro unat_of_nat_u32) simp
  have i: "used ?i" "\<not> is_directory ?i" "iname ?i = p" "isize ?i = 0" using k(2) len Seed_File by simp_all
  have req: "?n \<le> 0x80000000" "in_order h \<and> ?n \<le> 0x20000000"
    using n big [rule_format, OF Seed_File] ord by (simp_all add: word_le_nat_alt)
  show ?thesis
  proof (cases rule: ensure_capacity_works [OF tables_okD(3) [OF c(2,3)] i(1) req(1), of h])
    case 1
    then show ?thesis using req(2) by simp
  next
    case (2 h' m)
    then show ?thesis using Seed_File c(1) req(2)
      by (intro disjI1 exI [of _ fs1] exI [of _ h'] exI [of _ h] exI [of _ m]) simp
  next
    case (3 h' dt cap)
    let ?j = "?i\<lparr>idata := dt, icapacity := cap\<rparr>"
    let ?w = "?j\<lparr>idata := map_option (\<lambda>b. copy_bytes b 0 content) (idata ?j), isize := ?n\<rparr>"
    note e = 3
    have cap: "unat cap = length (buffer ?j)" "length content \<le> length (buffer ?j)"
      using e i n by (auto simp: inode_ok_def word_le_nat_alt)
    have buf: "buffer ?w = copy_bytes (buffer ?j) 0 content" using cap by (cases dt) (simp_all add: buffer_def copy_bytes_def)
    have w: "inode_ok ?w" "contents ?w = content"
      using cap e i n buf copy_bytes_length [of 0 content "buffer ?j"]
      by (auto simp: inode_ok_def contents_def copy_bytes_def)
    let ?fs = "set_inode k ?w fs1"
    have ok': "tables_ok ?fs"
    proof (rule tables_ok_set_inode [OF c(2,3) w(1)])
      show "iname (m_inodes fs1 ! j) \<noteq> iname ?w" if "j < 64" "j \<noteq> k" "used (m_inodes fs1 ! j)" for j
        using tables_okD(5) [OF c(2) that(1) c(3) that(3) i(1)] that(2) by auto
    qed (use i in simp)
    have "fs_abs ?fs = (fs_abs fs1)\<lparr>tree := (tree (fs_abs fs1))(p \<mapsto> File content)\<rparr>"
      using fs_abs_same [OF c(2) ok' c(3) i(1)] i w(2) by (simp add: node_of_def)
    then show ?thesis
      using Seed_File c(1,4) e(1) e(5) [OF req(2)] ok' k(1) free_slots_set_inode [OF k(3) i(1), of ?w] i(1)
      by (intro disjI2 exI [of _ ?fs] exI [of _ h']) simp
  qed
qed

lemma seed_all_works:
  assumes "tables_ok fs" "distinct (map seed_path ss)" "length ss \<le> free_slots fs"
    and "\<And>s. s \<in> set ss \<Longrightarrow> tree (fs_abs fs) (seed_path s) = None \<and> length (seed_path s) < 64"
    and "\<And>p c. Seed_File p c \<in> set ss \<Longrightarrow> length c \<le> 0x20000000" and "in_order h"
  shows "(\<exists>fs' h' h1 n. seed_all new_bytes ss (fs, h) = Some (fs', h', False) \<and> new_bytes h1 n = Some (h', None) \<and> in_order h') \<or>
    (\<exists>fs' h'. seed_all new_bytes ss (fs, h) = Some (fs', h', True) \<and> in_order h' \<and> tables_ok fs' \<and>
      fs_abs fs' = (fs_abs fs)\<lparr>tree := tree (fs_abs fs) ++ map_of (map (\<lambda>s. (seed_path s, seed_node s)) ss)\<rparr>)"
  using assms
proof (induction ss arbitrary: fs h)
  case Nil
  then show ?case by (intro disjI2 exI [of _ fs] exI [of _ h]) simp
next
  case (Cons s ss)
  have s: "tree (fs_abs fs) (seed_path s) = None" "length (seed_path s) < 64" "0 < free_slots fs"
    using Cons.prems by auto
  have big: "\<forall>p c. s = Seed_File p c \<longrightarrow> length c \<le> 0x20000000" using Cons.prems(5) by auto
  from seed_entry_works [OF Cons.prems(1) s(1,2) big s(3) Cons.prems(6)]
  consider (fail) fs' h' h1 n where "seed_entry new_bytes s (fs, h) = Some (fs', h', False)" "new_bytes h1 n = Some (h', None)" "in_order h'"
    | (step) fs1 h1 where "seed_entry new_bytes s (fs, h) = Some (fs1, h1, True)" "tables_ok fs1" "Suc (free_slots fs1) = free_slots fs"
      "fs_abs fs1 = (fs_abs fs)\<lparr>tree := (tree (fs_abs fs))(seed_path s \<mapsto> seed_node s)\<rparr>" "in_order h1" by blast
  then show ?case
  proof cases
    case fail
    then show ?thesis by (intro disjI1 exI [of _ fs'] exI [of _ h'] exI [of _ h1] exI [of _ n]) simp
  next
    case step
    have "tree (fs_abs fs1) (seed_path s') = None \<and> length (seed_path s') < 64" if "s' \<in> set ss" for s'
      using Cons.prems(2) Cons.prems(4) [of s'] step(4) that by (auto simp: rev_image_eqI)
    moreover have "distinct (map seed_path ss)" "length ss \<le> free_slots fs1" using Cons.prems(2,3) step(3) by auto
    ultimately have "(\<exists>fs' h' h2 n. seed_all new_bytes ss (fs1, h1) = Some (fs', h', False) \<and> new_bytes h2 n = Some (h', None) \<and> in_order h') \<or>
      (\<exists>fs' h'. seed_all new_bytes ss (fs1, h1) = Some (fs', h', True) \<and> in_order h' \<and> tables_ok fs' \<and>
        fs_abs fs' = (fs_abs fs1)\<lparr>tree := tree (fs_abs fs1) ++ map_of (map (\<lambda>s. (seed_path s, seed_node s)) ss)\<rparr>)"
      using Cons.prems(5) step(5) by (intro Cons.IH [OF step(2)]) auto
    moreover have "(fs_abs fs1)\<lparr>tree := tree (fs_abs fs1) ++ map_of (map (\<lambda>s. (seed_path s, seed_node s)) ss)\<rparr> =
      (fs_abs fs)\<lparr>tree := tree (fs_abs fs) ++ map_of (map (\<lambda>s. (seed_path s, seed_node s)) (s # ss))\<rparr>"
      using Cons.prems(2) by (simp add: step(4) map_add_upd_left dom_map_of_conv_image_fst image_image)
    moreover have "seed_all new_bytes (s # ss) (fs, h) = seed_all new_bytes ss (fs1, h1)" using step(1) by simp
    ultimately show ?thesis by (simp only:)
  qed
qed

end

section \<open>The initial file system\<close>

lemma seed_all_append:
  "seed_all nb (xs @ ys) (fs, h) =
     seed_all nb xs (fs, h) \<bind> (\<lambda>(fs, h, ok). if ok then seed_all nb ys (fs, h) else Some (fs, h, False))"
proof (induction xs arbitrary: fs h)
  case (Cons x xs)
  show ?case
  proof (cases "seed_entry nb x (fs, h)")
    case (Some r)
    obtain fs1 h1 ok where "r = (fs1, h1, ok)" by (cases r)
    then show ?thesis using Some Cons.IH [of fs1 h1] by simp
  qed simp
qed simp

lemma seed_home_seed_all:
  "(\<And>e. e \<in> set es \<Longrightarrow> home_path base e = Some (g e)) \<Longrightarrow>
     seed_home nb base es (fs, h) = seed_all nb (map (\<lambda>e. Seed_Dir (g e)) es) (fs, h)"
proof (induction es arbitrary: fs h)
  case (Cons e es)
  then have e: "home_path base e = Some (g e)" by simp
  show ?case
  proof (cases "seed_entry nb (Seed_Dir (g e)) (fs, h)")
    case None
    then show ?thesis using e by (simp del: seed_entry.simps)
  next
    case (Some r)
    obtain fs1 h1 ok where "r = (fs1, h1, ok)" by (cases r)
    then show ?thesis using Some Cons e by (simp del: seed_entry.simps)
  qed
qed simp

lemma bind_seed_cong:
  "(m :: (ramfs \<times> 'h \<times> bool) option) \<bind> (\<lambda>(fs, h, ok). if \<not> ok then Some (fs, h, False) else f fs h)
     = m \<bind> (\<lambda>(fs, h, ok). if ok then f fs h else Some (fs, h, False))"
  by (rule arg_cong [where f = "Option.bind m"]) auto

lemma ramfs_init_seeds: "ramfs_init nb h = seed_all nb kAllSeeds (ramfs_clear, h)"
proof -
  have 1: "seed_home nb ''/root'' kHomeEntries (fs, h) = seed_all nb (map (\<lambda>e. Seed_Dir (''/root/'' @ e)) kHomeEntries) (fs, h)"
    for fs h by (intro seed_home_seed_all) (auto simp: kHomeEntries_def home_path_def)
  have 2: "seed_home nb ''/home/root'' kHomeEntries (fs, h) = seed_all nb (map (\<lambda>e. Seed_Dir (''/home/root/'' @ e)) kHomeEntries) (fs, h)"
    for fs h by (intro seed_home_seed_all) (auto simp: kHomeEntries_def home_path_def)
  have 3: "seed_entry nb s (fs, h) = seed_all nb [s] (fs, h)" for s fs h
    by (cases "seed_entry nb s (fs, h)") (auto split: prod.splits)
  show ?thesis unfolding ramfs_init_def bind_seed_cong 1 2 3 kAllSeeds_def seed_all_append ..
qed

lemma ramfs_clear_facts:
  "tables_ok ramfs_clear" "fs_abs ramfs_clear = \<lparr>tree = Map.empty, files = Map.empty\<rparr>" "free_slots ramfs_clear = 64"
proof -
  show ok: "tables_ok ramfs_clear"
    by (simp add: tables_ok_def ramfs_clear_def inode_ok_def free_inode_def fd_ok_def free_fd_def unique_names_def list_all_length nth_replicate
      cong: conj_cong)
  have "find_inode ramfs_clear p = None" for p
    by (simp add: find_inode_def find_slot_None_iff ramfs_clear_def free_inode_def)
  moreover have "get_fd fd ramfs_clear = None" for fd
    by (auto simp: get_fd_def ramfs_clear_def free_fd_def Let_def nth_replicate)
  ultimately show "fs_abs ramfs_clear = \<lparr>tree = Map.empty, files = Map.empty\<rparr>"
    by (simp add: fs_abs_def lookup_def open_file_def fun_eq_iff)
  show "free_slots ramfs_clear = 64" by (simp add: ramfs_clear_def count_slots_replicate free_inode_def)
qed

definition seeds_ok :: "seed list \<Rightarrow> bool" where
  "seeds_ok ss \<longleftrightarrow> distinct (map seed_path ss) \<and> length ss \<le> 64 \<and>
     list_all (\<lambda>s. length (seed_path s) < 64 \<and> normal_path (seed_path s) \<and>
       (case s of Seed_Dir _ \<Rightarrow> True | Seed_File _ c \<Rightarrow> length c \<le> 4096) \<and>
       (seed_path s \<noteq> [slash] \<longrightarrow> map_of (map (\<lambda>s. (seed_path s, seed_node s)) ss) (parent_of (seed_path s)) = Some Dir)) ss \<and>
     map_of (map (\<lambda>s. (seed_path s, seed_node s)) ss) [slash] = Some Dir"

lemma seeds_ok_all: "seeds_ok kAllSeeds"
  by code_simp

lemma initial_tree_ok: "tree_ok initial_tree"
proof (rule tree_okI)
  show "initial_tree [slash] = Some Dir" using seeds_ok_all by (simp add: seeds_ok_def initial_tree_def)
  fix p n assume "initial_tree p = Some n"
  then obtain s where s: "s \<in> set kAllSeeds" "p = seed_path s"
    unfolding initial_tree_def by (auto dest!: map_of_SomeD)
  then show "normal_path p" using seeds_ok_all by (auto simp: seeds_ok_def list_all_iff)
  show "initial_tree (parent_of p) = Some Dir" if "p \<noteq> [slash]"
    using seeds_ok_all s that by (auto simp: seeds_ok_def list_all_iff initial_tree_def)
qed

context byte_allocator
begin

lemma init_works:
  assumes "in_order h"
  shows "(\<exists>fs h' h1 n. ramfs_init new_bytes h = Some (fs, h', False) \<and> new_bytes h1 n = Some (h', None) \<and> in_order h') \<or>
   (\<exists>fs h'. ramfs_init new_bytes h = Some (fs, h', True) \<and> in_order h' \<and> ramfs_inv fs \<and>
      fs_abs fs = \<lparr>tree = initial_tree, files = Map.empty\<rparr>)"
proof -
  have "(\<exists>fs' h' h1 n. seed_all new_bytes kAllSeeds (ramfs_clear, h) = Some (fs', h', False) \<and> new_bytes h1 n = Some (h', None) \<and> in_order h') \<or>
    (\<exists>fs' h'. seed_all new_bytes kAllSeeds (ramfs_clear, h) = Some (fs', h', True) \<and> in_order h' \<and> tables_ok fs' \<and>
      fs_abs fs' = (fs_abs ramfs_clear)\<lparr>tree := tree (fs_abs ramfs_clear) ++ map_of (map (\<lambda>s. (seed_path s, seed_node s)) kAllSeeds)\<rparr>)"
  proof (rule seed_all_works)
    show "tables_ok ramfs_clear" by (rule ramfs_clear_facts)
    show "distinct (map seed_path kAllSeeds)" "length kAllSeeds \<le> free_slots ramfs_clear"
      using seeds_ok_all by (auto simp: seeds_ok_def ramfs_clear_facts)
    show "tree (fs_abs ramfs_clear) (seed_path s) = None \<and> length (seed_path s) < 64" if "s \<in> set kAllSeeds" for s
      using seeds_ok_all that by (auto simp: seeds_ok_def list_all_iff ramfs_clear_facts)
    show "in_order h" by (rule assms)
    show "length c \<le> 0x20000000" if "Seed_File p c \<in> set kAllSeeds" for p c
      using seeds_ok_all that by (auto simp: seeds_ok_def list_all_iff)
  qed
  then show ?thesis
    unfolding ramfs_init_seeds ramfs_clear_facts(2) initial_tree_def [symmetric]
    using initial_tree_ok by (auto simp: ramfs_inv_def)
qed

end

section \<open>Directory listings\<close>

definition child_path :: "cstring \<Rightarrow> cstring \<Rightarrow> cstring" where
  "child_path p c = (if p = [slash] then slash # c else p @ slash # c)"

fun entries :: "cstring \<Rightarrow> inode list \<Rightarrow> dir_entry list" where
  "entries p [] = []"
| "entries p (i # is) =
     (if used i \<and> iname i \<noteq> p then
        case child_name p (iname i) of
          None \<Rightarrow> entries p is
        | Some c \<Rightarrow> \<lparr>entry_name = copy_text c 64, entry_is_directory = is_directory i\<rparr> # entries p is
      else entries p is)"

lemma readdir_loop_entries:
  "length out \<le> m \<Longrightarrow> readdir_loop p m is out = take m (out @ entries p is)"
proof (induction p m "is" out rule: readdir_loop.induct)
  case (2 p m i "is" out)
  then show ?case by (auto split: option.splits)
qed simp

lemma child_name_iff:
  assumes "length n < 64"
  shows "child_name p n = Some c \<longleftrightarrow> c \<noteq> [] \<and> slash \<notin> set c \<and> n = child_path p c"
proof (cases "p = [slash]")
  case True
  then show ?thesis by (cases n) (auto simp: child_name_def child_path_def Let_def)
next
  case False
  show ?thesis
  proof (cases "64 \<le> length p + 1")
    case True
    then have "n \<noteq> p @ slash # c" using assms by auto
    then show ?thesis using False True by (simp add: child_name_def child_path_def Let_def)
  next
    case F: False
    then show ?thesis using False
      by (auto simp: child_name_def child_path_def Let_def text_starts_with_append split: if_splits)
  qed
qed

lemma child_path_inj: "child_path p c = child_path p d \<Longrightarrow> c = d"
  by (simp add: child_path_def split: if_splits)

lemma child_path_neq: "c \<noteq> [] \<Longrightarrow> child_path p c \<noteq> p"
  by (auto simp: child_path_def)

lemma entries_paths:
  assumes "\<And>i. i \<in> set is \<Longrightarrow> used i \<Longrightarrow> length (iname i) < 64"
  shows "map (\<lambda>e. child_path p (entry_name e)) (entries p is)
    = map iname (filter (\<lambda>i. used i \<and> iname i \<noteq> p \<and> child_name p (iname i) \<noteq> None) is)"
  using assms
proof (induction "is")
  case (Cons i "is")
  have "child_name p (iname i) = Some c \<Longrightarrow> used i \<Longrightarrow> child_path p (copy_text c 64) = iname i" for c
    using Cons.prems [of i] child_name_iff [of "iname i" p c] by (auto simp: child_path_def split: if_splits)
  with Cons show ?case by (auto split: option.splits)
qed simp

lemma entries_set:
  assumes "\<And>i. i \<in> set is \<Longrightarrow> used i \<Longrightarrow> length (iname i) < 64"
  shows "(\<lparr>entry_name = c, entry_is_directory = d\<rparr> \<in> set (entries p is)) \<longleftrightarrow>
    c \<noteq> [] \<and> slash \<notin> set c \<and> (\<exists>i \<in> set is. used i \<and> iname i = child_path p c \<and> is_directory i = d)"
  using assms
proof (induction "is")
  case (Cons i "is")
  show ?case
  proof (cases "used i \<and> iname i \<noteq> p \<and> child_name p (iname i) \<noteq> None")
    case True
    then obtain e where e: "child_name p (iname i) = Some e" by auto
    have l: "length (iname i) < 64" using True Cons.prems by simp
    then have e': "e \<noteq> []" "slash \<notin> set e" "iname i = child_path p e" using e child_name_iff by blast+
    then have "copy_text e 64 = e" using l by (auto simp: child_path_def split: if_splits)
    then show ?thesis using Cons True e e' child_path_inj [of p e c] by auto
  next
    case False
    then have "used i \<Longrightarrow> c \<noteq> [] \<Longrightarrow> slash \<notin> set c \<Longrightarrow> iname i \<noteq> child_path p c"
      using child_name_iff [of "iname i" p c] child_path_neq [of c p] Cons.prems [of i] by auto
    then show ?thesis using Cons False by auto
  qed
qed simp

lemma unique_names_distinct: "unique_names is \<Longrightarrow> distinct (map iname (filter used is))"
proof (induction "is")
  case (Cons i "is")
  have "unique_names is" unfolding unique_names_def
  proof (intro allI impI)
    fix j k assume "j < length is \<and> k < length is \<and> used (is ! j) \<and> used (is ! k) \<and> iname (is ! j) = iname (is ! k)"
    then show "j = k" using Cons.prems unfolding unique_names_def
      by (elim allE [of _ "Suc j"] allE [of _ "Suc k"]) simp
  qed
  moreover have "iname i \<notin> iname ` (set is \<inter> {i. used i})" if "used i"
  proof
    assume "iname i \<in> iname ` (set is \<inter> {i. used i})"
    then obtain k where "k < length is" "used (is ! k)" "iname (is ! k) = iname i" by (auto simp: in_set_conv_nth)
    then show False using Cons.prems that unfolding unique_names_def
      by (elim allE [of _ "0 :: nat"] allE [of _ "Suc k"]) simp
  qed
  ultimately show ?case using Cons.IH by (auto simp: Int_def)
qed simp

lemma entries_distinct:
  assumes "tables_ok fs"
  shows "distinct (map entry_name (entries p (m_inodes fs)))"
proof -
  have len: "length (iname i) < 64" if "i \<in> set (m_inodes fs)" "used i" for i
    using assms that by (auto simp: tables_ok_def list_all_iff inode_ok_def)
  have "distinct (map iname (filter used (m_inodes fs)))"
    using unique_names_distinct [of "m_inodes fs"] assms by (simp add: tables_ok_def)
  then have "distinct (map iname (filter (\<lambda>i. iname i \<noteq> p \<and> child_name p (iname i) \<noteq> None) (filter used (m_inodes fs))))"
    by (rule distinct_map_filter)
  then have "distinct (map (\<lambda>e. child_path p (entry_name e)) (entries p (m_inodes fs)))"
    using entries_paths [OF len, where p = p] by (simp add: conj_ac)
  then show ?thesis by (auto simp: distinct_map inj_on_def)
qed

subsection \<open>The file system after \<open>reset\<close>\<close>

lemma ramfs_reset_facts:
  "ramfs_inv ramfs_reset" "fs_abs ramfs_reset = \<lparr>tree = [[slash] \<mapsto> Dir], files = Map.empty\<rparr>" "room ramfs_reset"
proof -
  obtain fs k where c: "create_inode [slash] True ramfs_clear = (fs, Some k)" "tables_ok fs"
    "fs_abs fs = (fs_abs ramfs_clear)\<lparr>tree := (tree (fs_abs ramfs_clear))([slash] \<mapsto> Dir)\<rparr>"
    by (rule create_inode_correct [OF ramfs_clear_facts(1), of "[slash]" True])
      (simp_all add: ramfs_clear_facts room_free_slots)
  have fs: "ramfs_reset = fs" using c(1) by (simp add: ramfs_reset_def)
  show a: "fs_abs ramfs_reset = \<lparr>tree = [[slash] \<mapsto> Dir], files = Map.empty\<rparr>"
    using c(3) by (simp add: fs ramfs_clear_facts(2))
  have "tree_ok [[slash] \<mapsto> Dir]" by (intro tree_okI) (auto split: if_splits)
  then show "ramfs_inv ramfs_reset" using c(2) a by (simp add: ramfs_inv_def fs)
  show "room ramfs_reset"
    using create_inode_free_slots(1) [OF c(1)] ramfs_clear_facts(3) by (simp add: room_free_slots fs)
qed

section \<open>Sequences of calls\<close>

text \<open>
  A write is within a limit when its buffer has the bytes it announces and the end of the write is at most the
  limit. The capacity loop ends up to \<open>2 ^ 31\<close>; calls are counted on to return up to 512 MiB.
\<close>

fun call_ok :: "nat \<Rightarrow> ramfs \<Rightarrow> fs_call \<Rightarrow> bool" where
  "call_ok lim fs (Write fd (Some src) count) =
     (length src = unat count \<and> (case open_file fs fd of
        None \<Rightarrow> True | Some (p, off, fl) \<Rightarrow> unat off + unat count \<le> lim))"
| "call_ok lim fs _ = True"

inductive fs_reachable :: "'h new_bytes \<Rightarrow> 'h \<Rightarrow> ramfs \<times> 'h \<Rightarrow> bool"
  for nb :: "'h new_bytes" and h0 :: 'h where
  fs_reset: "fs_reachable nb h0 (ramfs_reset, h0)"
| fs_start: "ramfs_init nb h0 = Some (fs, h, True) \<Longrightarrow> fs_reachable nb h0 (fs, h)"
| fs_call: "fs_reachable nb h0 (fs, h) \<Longrightarrow> call_ok 0x20000000 fs c \<Longrightarrow> fs_step nb c (fs, h) = Some (fs', h', r) \<Longrightarrow>
    fs_reachable nb h0 (fs', h')"

lemma ramfs_write_error:
  assumes "open_file fs fd = None \<or> (\<exists>p off fl. open_file fs fd = Some (p, off, fl) \<and> fl AND kOpenWrite = 0)"
  shows "ramfs_write nb fd (Some src) count fs h = Some (fs, h, -1)"
  using assms by (auto simp: ramfs_write_def open_file_def Let_def split: option.splits)

context byte_allocator
begin

text \<open>A call that returns keeps the invariant; on a heap in order it returns and keeps the heap in order.\<close>

lemma step_cases:
  assumes inv: "ramfs_inv fs" and ok: "call_ok 0x80000000 fs c"
  obtains (diverges) "fs_step new_bytes c (fs, h) = None" "\<not> (in_order h \<and> call_ok 0x20000000 fs c)"
  | (returns) fs' h' r where "fs_step new_bytes c (fs, h) = Some (fs', h', r)" "ramfs_inv fs'"
      "in_order h \<and> call_ok 0x20000000 fs c \<Longrightarrow> in_order h'"
proof (cases c)
  case (Open path flags)
  then show ?thesis using ramfs_open_correct [OF inv, of path flags]
    by (cases "ramfs_open path flags fs") (auto intro!: returns)
next
  case (Read fd buf count)
  then show ?thesis using ramfs_read_correct [OF inv, of fd count] inv
    by (cases buf; cases "ramfs_read fd True count fs") (auto simp: ramfs_read_def intro!: returns)
next
  case (Write fd buf count)
  show ?thesis
  proof (cases buf)
    case None
    then show ?thesis using Write inv by (intro returns [of fs h "-1"]) (simp_all add: ramfs_write_def)
  next
    case (Some src)
    show ?thesis
    proof (cases "open_file fs fd = None \<or> (\<exists>p off fl. open_file fs fd = Some (p, off, fl) \<and> fl AND kOpenWrite = 0)")
      case True
      then show ?thesis using Write Some inv ramfs_write_error [OF True, of new_bytes src count h]
        by (intro returns [of fs h "-1"]) simp_all
    next
      case False
      then obtain p off fl where f: "files (fs_abs fs) fd = Some (p, off, fl)" "fl AND kOpenWrite \<noteq> 0" by auto
      have len: "length src = unat count" "unat off + unat count \<le> 0x80000000"
        and lim: "call_ok 0x20000000 fs c = (unat off + unat count \<le> 0x20000000)" using ok Write Some f by auto
      have run: "fs_step new_bytes c (fs, h) = ramfs_write new_bytes fd (Some src) count fs h" using Write Some by simp
      show ?thesis
      proof (cases rule: write_cases [OF inv f len, of h, folded lim run])
        case 1
        then show ?thesis by (rule diverges)
      next
        case (2 h' n)
        then show ?thesis using inv by (intro returns [of fs h' "-1"])
      next
        case (3 fs' h' d gap)
        then show ?thesis by (intro returns [of fs' h' "sint count"])
      qed
    qed
  qed
next
  case (Close fd)
  then show ?thesis using ramfs_close_correct [OF inv, of fd] by (cases "ramfs_close fd fs") (auto intro!: returns)
next
  case (Md path)
  then show ?thesis using ramfs_md_correct [OF inv, of path] by (cases "ramfs_md path fs") (auto intro!: returns)
next
  case (Rd path)
  then show ?thesis using ramfs_rd_correct [OF inv, of path] by (cases "ramfs_rd path fs") (auto intro!: returns)
next
  case (Unlink path)
  then show ?thesis using ramfs_unlink_correct [OF inv, of path] by (cases "ramfs_unlink path fs") (auto intro!: returns)
qed

lemma call_ok_mono: "call_ok m fs c \<Longrightarrow> m \<le> n \<Longrightarrow> call_ok n fs c"
  by (induction m fs c rule: call_ok.induct) (auto split: option.splits)

lemma step_keeps:
  "ramfs_inv fs \<Longrightarrow> call_ok 0x80000000 fs c \<Longrightarrow> fs_step new_bytes c (fs, h) = Some (fs', h', r) \<Longrightarrow> ramfs_inv fs'"
  by (erule step_cases [of fs c h]) simp_all

lemma step_works:
  assumes inv: "ramfs_inv fs" and ok: "call_ok 0x20000000 fs c" and ord: "in_order h"
  shows "\<exists>fs' h' r. fs_step new_bytes c (fs, h) = Some (fs', h', r) \<and> ramfs_inv fs' \<and> in_order h'"
  by (cases rule: step_cases [OF inv call_ok_mono [OF ok], of h]) (use ok ord in auto)

lemma reachable_inv: "fs_reachable new_bytes h0 s \<Longrightarrow> in_order h0 \<Longrightarrow> ramfs_inv (fst s) \<and> in_order (snd s)"
proof (induction rule: fs_reachable.induct)
  case fs_reset
  then show ?case by (simp add: ramfs_reset_facts)
next
  case (fs_start fs h)
  then show ?case using init_works [of h0] by auto
next
  case (fs_call fs h c fs' h' r)
  then show ?case using step_works [of fs c h] by auto
qed

end


section \<open>Properties\<close>

text \<open>
  \<open>normalize_path\<close> computes the canonical form of an absolute path: the components of the
  path, empty ones left out, each after one slash. It fails exactly on relative paths and
  on paths that do not fit 63 characters once runs of slashes are one, and it is idempotent.
\<close>

theorem normalize_path_reference:
  "normalize_path (Some p) 64 =
     (if p \<noteq> [] \<and> hd p = slash \<and> length (squeeze False p) < 64 then Some (path_of (components p)) else None) \<and>
   normalize_path (normalize_path (Some p) 64) 64 = normalize_path (Some p) 64"
proof
  show "normalize_path (normalize_path (Some p) 64) 64 = normalize_path (Some p) 64"
  proof (cases "normalize_path (Some p) 64")
    case None
    then show ?thesis by (simp add: normalize_path_def)
  next
    case (Some q)
    then show ?thesis using normalize_path_normal [OF normalize_pathD [OF Some]] by simp
  qed
qed (simp add: normalize_path_eq)

text \<open>
  C5. \<open>md\<close>, \<open>rd\<close> and \<open>unlink\<close> implement their specification on the tree of paths, on
  every branch: what is added or removed, the return value, and that a failing call changes nothing.
\<close>

theorem ramfs_tree_ops_refine:
  assumes "ramfs_inv fs"
  shows "(case ramfs_md path fs of (fs', r) \<Rightarrow> (fs_abs fs', r) = spec_md (room fs) path (fs_abs fs)) \<and>
    (case ramfs_rd path fs of (fs', r) \<Rightarrow> (fs_abs fs', r) = spec_rd path (fs_abs fs)) \<and>
    (case ramfs_unlink path fs of (fs', r) \<Rightarrow> (fs_abs fs', r) = spec_unlink path (fs_abs fs))"
  using ramfs_md_correct [OF assms] ramfs_rd_correct [OF assms] ramfs_unlink_correct [OF assms]
  by (auto split: prod.splits)

text \<open>
  C6. \<open>open\<close>, \<open>read\<close> and \<open>close\<close> implement their specification on the tree and the table
  of open files: the lowest free descriptor, creation and truncation by the flags, the bytes
  from the position on, and the position after them.
\<close>

theorem ramfs_descriptor_ops_refine:
  assumes "ramfs_inv fs"
  shows "(case ramfs_open path flags fs of (fs', r) \<Rightarrow> (fs_abs fs', r) = spec_open (room fs) path flags (fs_abs fs)) \<and>
    (case ramfs_read fd True count fs of (fs', r, bs) \<Rightarrow> (fs_abs fs', r, bs) = spec_read fd count (fs_abs fs)) \<and>
    (case ramfs_close fd fs of (fs', r) \<Rightarrow> (fs_abs fs', r) = spec_close fd (fs_abs fs))"
  using ramfs_open_correct [OF assms] ramfs_read_correct [OF assms] ramfs_close_correct [OF assms]
  by (auto split: prod.splits)

theorem ramfs_tree_ops_refine_witness:
  "ramfs_inv ramfs_reset \<and> snd (ramfs_md (Some ''/a//'') ramfs_reset) = 0 \<and>
   tree (fs_abs (fst (ramfs_md (Some ''/a//'') ramfs_reset))) ''/a'' = Some Dir \<and>
   snd (ramfs_rd (Some ''/a//'') ramfs_reset) = -1"
proof -
  have n: "normalize_path (Some ''/a//'') 64 = Some ''/a''" "parent_of ''/a'' = ''/''" by code_simp+
  show ?thesis
    using ramfs_tree_ops_refine [OF ramfs_reset_facts(1), of "Some ''/a//''"] ramfs_reset_facts n
    by (auto simp: spec_md_def spec_rd_def split: prod.splits)
qed

theorem ramfs_descriptor_ops_refine_witness:
  "ramfs_inv ramfs_reset \<and> snd (ramfs_open (Some ''/f'') 7 ramfs_reset) = 3 \<and>
   tree (fs_abs (fst (ramfs_open (Some ''/f'') 7 ramfs_reset))) ''/f'' = Some (File []) \<and>
   snd (ramfs_close 3 ramfs_reset) = -1"
proof -
  have n: "normalize_path (Some ''/f'') 64 = Some ''/f''" "parent_of ''/f'' = ''/''" by code_simp+
  have f: "find (\<lambda>fd. files (fs_abs ramfs_reset) fd = None) (map (\<lambda>i. int i + 3) [0..<32]) = Some 3"
    by (simp add: ramfs_reset_facts upt_rec)
  show ?thesis
    using ramfs_descriptor_ops_refine [OF ramfs_reset_facts(1), of "Some ''/f''" 7 3 0] ramfs_reset_facts n f
    by (auto simp: spec_open_def spec_close_def split: prod.splits)
qed

text \<open>
  A write of a file of at most 512 MiB on a heap in order either leaves the file system as it was and returns -1,
  because the heap gave no memory, or returns its count and the file's contents are the old ones with the
  bytes laid over them at the position. If the position is past the end (another descriptor
  truncated the file) the gap has bytes of some value. Other files and descriptors are untouched.
\<close>

theorem ramfs_write_contents:
  assumes "ramfs_inv fs" and "files (fs_abs fs) fd = Some (p, off, fl)" and "fl AND kOpenWrite \<noteq> 0"
    and "length src = unat count" and lim: "unat off + unat count \<le> 0x20000000" and ord: "heap_in_order h"
  shows "\<exists>fs' h' r. ramfs_write (heap_new_bytes pt_addr) fd (Some src) count fs h = Some (fs', h', r) \<and> heap_in_order h' \<and>
    (fs' = fs \<and> r = -1 \<and> (\<exists>n. heap_new_bytes pt_addr h n = Some (h', None)) \<or>
     r = sint count \<and> ramfs_inv fs' \<and> (\<exists>c gap. tree (fs_abs fs) p = Some (File c) \<and> length gap = unat off - length c \<and>
       fs_abs fs' = (fs_abs fs)\<lparr>tree := (tree (fs_abs fs))(p \<mapsto> File (copy_bytes (c @ gap) (unat off) src)),
         files := (files (fs_abs fs))(fd \<mapsto> (p, off + count, fl))\<rparr>))"
proof -
  have "unat off + unat count \<le> 0x80000000" using lim by simp
  then show ?thesis by (cases rule: heap_bytes.write_cases [OF assms(1-4), of pt_addr h]) (use lim ord in auto)
qed

text \<open>A file system with one empty file, open for reading and writing as descriptor 3.\<close>

definition ramfs_one :: ramfs where
  "ramfs_one = fst (ramfs_open (Some ''/f'') 7 ramfs_reset)"

lemma ramfs_one_facts:
  "ramfs_inv ramfs_one" "fs_abs ramfs_one = \<lparr>tree = [[slash] \<mapsto> Dir, ''/f'' \<mapsto> File []], files = [3 \<mapsto> (''/f'', 0, 7)]\<rparr>"
proof -
  have n: "normalize_path (Some ''/f'') 64 = Some ''/f''" "parent_of ''/f'' = ''/''" by code_simp+
  have f: "find (\<lambda>fd. files (fs_abs ramfs_reset) fd = None) (map (\<lambda>i. int i + 3) [0..<32]) = Some 3"
    by (simp add: ramfs_reset_facts upt_rec)
  obtain r where r: "ramfs_open (Some ''/f'') 7 ramfs_reset = (ramfs_one, r)" by (cases "ramfs_open (Some ''/f'') 7 ramfs_reset") (simp add: ramfs_one_def)
  note c = ramfs_open_correct [OF ramfs_reset_facts(1) r]
  show "ramfs_inv ramfs_one" using c by simp
  show "fs_abs ramfs_one = \<lparr>tree = [[slash] \<mapsto> Dir, ''/f'' \<mapsto> File []], files = [3 \<mapsto> (''/f'', 0, 7)]\<rparr>"
    using c ramfs_reset_facts n f by (simp add: spec_open_def)
qed

theorem ramfs_write_contents_witness:
  "ramfs_inv ramfs_one \<and> files (fs_abs ramfs_one) 3 = Some (''/f'', 0, 7) \<and> heap_in_order mm_fresh \<and>
   (\<exists>fs' h' r. ramfs_write (heap_new_bytes 0) 3 (Some [1, 2]) 2 ramfs_one mm_fresh = Some (fs', h', r) \<and>
     (fs' = ramfs_one \<and> r = -1 \<or> r = 2 \<and> tree (fs_abs fs') ''/f'' = Some (File [1, 2])))"
proof -
  have f: "files (fs_abs ramfs_one) 3 = Some (''/f'', 0, 7)" by (simp add: ramfs_one_facts)
  have "7 AND kOpenWrite \<noteq> 0" "length [1, 2 :: u8] = unat (2 :: u32)" "unat (0 :: u32) + unat (2 :: u32) \<le> 0x20000000"
    "sint (2 :: u32) = 2" by simp_all
  with ramfs_write_contents [OF ramfs_one_facts(1) f this(1,2,3) mm_heaps_in_order(1), of 0] f ramfs_one_facts show ?thesis
    by (auto simp: copy_bytes_def mm_heaps_in_order)
qed

text \<open>
  Round trip: after a write that does not fail, another descriptor of the same file that
  stands where the write began reads back exactly the bytes written.
\<close>

theorem ramfs_write_read_roundtrip:
  assumes inv: "ramfs_inv fs" and w: "files (fs_abs fs) fd = Some (p, off, fl)" "fl AND kOpenWrite \<noteq> 0"
    and len: "length src = unat count" "unat off + unat count \<le> 0x80000000"
    and r: "files (fs_abs fs) fd2 = Some (p, off, fl2)" "fl2 AND kOpenRead \<noteq> 0" "fd2 \<noteq> fd"
    and run: "ramfs_write (heap_new_bytes pt_addr) fd (Some src) count fs h = Some (fs', h', n)" "n \<noteq> -1"
  shows "snd (snd (ramfs_read fd2 True count fs')) = src"
proof -
  obtain c gap where
    a: "ramfs_inv fs'" "length gap = unat off - length c"
      "fs_abs fs' = (fs_abs fs)\<lparr>tree := (tree (fs_abs fs))(p \<mapsto> File (copy_bytes (c @ gap) (unat off) src)),
         files := (files (fs_abs fs))(fd \<mapsto> (p, off + count, fl))\<rparr>"
    by (cases rule: heap_bytes.write_cases [OF inv w len, of pt_addr h]) (use run in auto)
  have "take (unat count) (drop (unat off) (copy_bytes (c @ gap) (unat off) src)) = src"
    using a(2) len(1) by (auto simp: copy_bytes_def)
  then have "snd (snd (spec_read fd2 count (fs_abs fs'))) = src"
    using a(3) r by (simp add: spec_read_def)
  moreover obtain fs2 r2 bs where rd: "ramfs_read fd2 True count fs' = (fs2, r2, bs)" by (metis prod_cases3)
  ultimately show ?thesis using ramfs_read_correct [OF a(1) rd] by (metis snd_conv)
qed

text \<open>An allocator that always has memory, and a file open twice.\<close>

definition ramfs_two :: ramfs where
  "ramfs_two = fst (ramfs_open (Some ''/f'') 1 ramfs_one)"

lemma ramfs_two_facts:
  "ramfs_inv ramfs_two" "files (fs_abs ramfs_two) = [3 \<mapsto> (''/f'', 0, 7), 4 \<mapsto> (''/f'', 0, 1)]"
  "tree (fs_abs ramfs_two) = [[slash] \<mapsto> Dir, ''/f'' \<mapsto> File []]"
proof -
  have n: "normalize_path (Some ''/f'') 64 = Some ''/f''" by code_simp
  have f: "find (\<lambda>fd. files (fs_abs ramfs_one) fd = None) (map (\<lambda>i. int i + 3) [0..<32]) = Some 4"
    by (simp add: ramfs_one_facts upt_rec)
  obtain r where r: "ramfs_open (Some ''/f'') 1 ramfs_one = (ramfs_two, r)" by (cases "ramfs_open (Some ''/f'') 1 ramfs_one") (simp add: ramfs_two_def)
  note c = ramfs_open_correct [OF ramfs_one_facts(1) r]
  show "ramfs_inv ramfs_two" using c by simp
  show "files (fs_abs ramfs_two) = [3 \<mapsto> (''/f'', 0, 7), 4 \<mapsto> (''/f'', 0, 1)]"
    "tree (fs_abs ramfs_two) = [[slash] \<mapsto> Dir, ''/f'' \<mapsto> File []]"
    using c ramfs_one_facts n f by (simp_all add: spec_open_def)
qed

definition ramfs_big :: ramfs where
  "ramfs_big = set_fd 0 ((m_fds ramfs_two ! 0)\<lparr>fd_offset := 0\<rparr>)
     (set_inode 1 ((m_inodes ramfs_two ! 1)\<lparr>idata := Some (replicate 64 0), icapacity := 64\<rparr>) ramfs_two)"

lemma ramfs_big_facts:
  "ramfs_inv ramfs_big" "files (fs_abs ramfs_big) 3 = Some (''/f'', 0, 7)" "files (fs_abs ramfs_big) 4 = Some (''/f'', 0, 1)"
  "get_fd 3 ramfs_big = Some 0" "fd_inode (m_fds ramfs_big ! 0) = Some 1" "icapacity (m_inodes ramfs_big ! 1) = 64"
proof -
  let ?i = "(m_inodes ramfs_two ! 1)\<lparr>idata := Some (replicate 64 0), icapacity := 64\<rparr>"
  have c: "get_fd 3 ramfs_two = Some 0" "fd_inode (m_fds ramfs_two ! 0) = Some 1" "fd_flags (m_fds ramfs_two ! 0) = 7"
    "used (m_inodes ramfs_two ! 1)" "\<not> is_directory (m_inodes ramfs_two ! 1)" "isize (m_inodes ramfs_two ! 1) = 0"
    "iname (m_inodes ramfs_two ! 1) = ''/f''" "length (m_inodes ramfs_two) = 64" "length (m_fds ramfs_two) = 32"
    by code_simp+
  have "inode_ok ?i" using c by (simp add: inode_ok_def buffer_def)
  from write_file_correct [OF ramfs_two_facts(1) c(1,2) this, of 0] c ramfs_two_facts(2)
  show "ramfs_inv ramfs_big" "files (fs_abs ramfs_big) 3 = Some (''/f'', 0, 7)" "files (fs_abs ramfs_big) 4 = Some (''/f'', 0, 1)"
    by (simp_all add: ramfs_big_def Let_def)
  show "get_fd 3 ramfs_big = Some 0" "fd_inode (m_fds ramfs_big ! 0) = Some 1" "icapacity (m_inodes ramfs_big ! 1) = 64"
    using c by (simp_all add: ramfs_big_def get_fd_Some_iff)
qed

text \<open>The same file with the bytes 7 and 9 in it.\<close>

definition ramfs_data :: ramfs where
  "ramfs_data = set_fd 0 ((m_fds ramfs_two ! 0)\<lparr>fd_offset := 0\<rparr>)
     (set_inode 1 ((m_inodes ramfs_two ! 1)\<lparr>idata := Some ([7, 9] @ replicate 62 0), isize := 2, icapacity := 64\<rparr>) ramfs_two)"

lemma ramfs_data_facts:
  "ramfs_inv ramfs_data" "files (fs_abs ramfs_data) = [3 \<mapsto> (''/f'', 0, 7), 4 \<mapsto> (''/f'', 0, 1)]"
  "tree (fs_abs ramfs_data) = [[slash] \<mapsto> Dir, ''/f'' \<mapsto> File [7, 9]]"
proof -
  let ?i = "(m_inodes ramfs_two ! 1)\<lparr>idata := Some ([7, 9] @ replicate 62 0), isize := 2, icapacity := 64\<rparr>"
  have c: "get_fd 3 ramfs_two = Some 0" "fd_inode (m_fds ramfs_two ! 0) = Some 1" "fd_flags (m_fds ramfs_two ! 0) = 7"
    "used (m_inodes ramfs_two ! 1)" "\<not> is_directory (m_inodes ramfs_two ! 1)" "iname (m_inodes ramfs_two ! 1) = ''/f''"
    by code_simp+
  have i: "inode_ok ?i" using c by (simp add: inode_ok_def buffer_def)
  have "contents ?i = [7, 9]" by (simp add: contents_def buffer_def)
  with write_file_correct [OF ramfs_two_facts(1) c(1,2) i, of 0] c ramfs_two_facts(2,3)
  show "ramfs_inv ramfs_data" "files (fs_abs ramfs_data) = [3 \<mapsto> (''/f'', 0, 7), 4 \<mapsto> (''/f'', 0, 1)]"
    "tree (fs_abs ramfs_data) = [[slash] \<mapsto> Dir, ''/f'' \<mapsto> File [7, 9]]"
    by (simp_all add: ramfs_data_def Let_def fun_upd_twist)
qed

theorem ramfs_write_read_roundtrip_witness:
  "ramfs_inv ramfs_big \<and> (case ramfs_write (heap_new_bytes 0) 3 (Some [7, 9]) 2 ramfs_big mm_fresh of
     None \<Rightarrow> False | Some (fs', h', n) \<Rightarrow> n = 2 \<and> snd (snd (ramfs_read 4 True 2 fs')) = [7, 9])"
proof -
  note f = ramfs_big_facts
  have "fd_flags (m_fds ramfs_big ! 0) = 7" "fd_offset (m_fds ramfs_big ! 0) = 0"
    using f(2,4) by (simp_all add: open_file_def Let_def)
  then have "\<exists>fs'. ramfs_write (heap_new_bytes 0) 3 (Some [7, 9]) 2 ramfs_big mm_fresh = Some (fs', mm_fresh, 2)"
    using ramfs_write_written [OF f(4,5), of "heap_new_bytes 0" "[7, 9]" 2 mm_fresh] f(6)
    by (simp add: ensure_capacity_def)
  then obtain fs' where run: "ramfs_write (heap_new_bytes 0) 3 (Some [7, 9]) 2 ramfs_big mm_fresh = Some (fs', mm_fresh, 2)" ..
  have "snd (snd (ramfs_read 4 True 2 fs')) = [7, 9]"
    by (rule ramfs_write_read_roundtrip [OF f(1,2) _ _ _ f(3) _ _ run]) simp_all
  with run f(1) show ?thesis by simp
qed

text \<open>
  On a heap in order \<open>init\<close> returns. When the heap refuses no request, it builds the 41 directories and files
  of the source as a consistent tree with no open files.
\<close>

theorem ramfs_init_contents:
  assumes "heap_in_order h"
  shows "(\<exists>fs h' h1 n. ramfs_init (heap_new_bytes pt_addr) h = Some (fs, h', False) \<and>
       heap_new_bytes pt_addr h1 n = Some (h', None) \<and> heap_in_order h') \<or>
   (\<exists>fs h'. ramfs_init (heap_new_bytes pt_addr) h = Some (fs, h', True) \<and> heap_in_order h' \<and> ramfs_inv fs \<and>
      fs_abs fs = \<lparr>tree = initial_tree, files = Map.empty\<rparr>)"
  by (rule heap_bytes.init_works [OF assms])

text \<open>
  \<open>readdir\<close> on a directory fills in the first \<open>max_entries\<close> of one listing. The listing has
  each direct child exactly once under its name, with whether it is a directory, and nothing else.
\<close>

theorem ramfs_readdir_children:
  assumes inv: "ramfs_inv fs" and p: "normalize_path path 64 = Some p" "tree (fs_abs fs) p = Some Dir"
  shows "\<exists>listing. distinct (map entry_name listing) \<and>
    (\<forall>c d. \<lparr>entry_name = c, entry_is_directory = d\<rparr> \<in> set listing \<longleftrightarrow>
       c \<noteq> [] \<and> slash \<notin> set c \<and> (\<exists>n. tree (fs_abs fs) (child_path p c) = Some n \<and> d = (n = Dir))) \<and>
    (\<forall>max. max \<noteq> 0 \<longrightarrow> ramfs_readdir path True max fs =
       (int (min (unat max) (length listing)), take (unat max) listing))"
proof (intro exI [of _ "entries p (m_inodes fs)"] conjI allI impI)
  note ok = ramfs_invD(1) [OF inv]
  have len: "length (iname i) < 64" if "i \<in> set (m_inodes fs)" "used i" for i
    using ok that by (auto simp: tables_ok_def list_all_iff inode_ok_def)
  show "distinct (map entry_name (entries p (m_inodes fs)))" by (rule entries_distinct [OF ok])
  show "\<lparr>entry_name = c, entry_is_directory = d\<rparr> \<in> set (entries p (m_inodes fs)) \<longleftrightarrow>
       c \<noteq> [] \<and> slash \<notin> set c \<and> (\<exists>n. tree (fs_abs fs) (child_path p c) = Some n \<and> d = (n = Dir))" for c d
  proof -
    have "(\<exists>i \<in> set (m_inodes fs). used i \<and> iname i = child_path p c \<and> is_directory i = d) \<longleftrightarrow>
        (\<exists>i. lookup fs (child_path p c) = Some i \<and> is_directory i = d)"
      unfolding lookup_Some_iff [OF ok] Bex_def in_set_conv_nth tables_okD(1) [OF ok] by blast
    then show ?thesis using entries_set [of "m_inodes fs" c d p] len by (auto simp: fs_abs_sel(1))
  qed
  show "ramfs_readdir path True max fs =
      (int (min (unat max) (length (entries p (m_inodes fs)))), take (unat max) (entries p (m_inodes fs)))" if "max \<noteq> 0" for max
  proof -
    obtain k where k: "find_inode fs p = Some k" using find_inode_tree(2) [OF ok, of p] p(2) by fastforce
    then have "is_directory (m_inodes fs ! k)" using find_inode_tree(1) [OF ok k] p(2) by simp
    then show ?thesis using that p k readdir_loop_entries [of "[]" "unat max" p "m_inodes fs"]
      by (simp add: ramfs_readdir_def min.commute)
  qed
qed

theorem ramfs_readdir_children_witness:
  "ramfs_inv ramfs_one \<and> normalize_path (Some ''/'') 64 = Some ''/'' \<and> tree (fs_abs ramfs_one) ''/'' = Some Dir \<and>
   (\<exists>l. \<lparr>entry_name = ''f'', entry_is_directory = False\<rparr> \<in> set l \<and> ramfs_readdir (Some ''/'') True 8 ramfs_one = (int (min 8 (length l)), take 8 l))"
proof -
  have n: "normalize_path (Some ''/'') 64 = Some ''/''" by code_simp
  have t: "tree (fs_abs ramfs_one) ''/'' = Some Dir" "tree (fs_abs ramfs_one) (child_path ''/'' ''f'') = Some (File [])"
    by (simp_all add: ramfs_one_facts child_path_def)
  from ramfs_readdir_children [OF ramfs_one_facts(1) n t(1)] obtain l where
    l: "\<And>c d. \<lparr>entry_name = c, entry_is_directory = d\<rparr> \<in> set l \<longleftrightarrow> c \<noteq> [] \<and> slash \<notin> set c \<and>
          (\<exists>n. tree (fs_abs ramfs_one) (child_path ''/'' c) = Some n \<and> d = (n = Dir))"
    and r: "\<And>max. max \<noteq> 0 \<Longrightarrow> ramfs_readdir (Some ''/'') True max ramfs_one =
          (int (min (unat max) (length l)), take (unat max) l)"
    by (elim exE conjE) blast
  have "\<lparr>entry_name = ''f'', entry_is_directory = False\<rparr> \<in> set l" unfolding l using t(2) by simp
  moreover have "ramfs_readdir (Some ''/'') True 8 ramfs_one = (int (min 8 (length l)), take 8 l)" using r [of 8] by simp
  ultimately show ?thesis using n t ramfs_one_facts(1) by blast
qed

text \<open>
  C7. Take a kernel heap in order: well formed, and below \<open>0xDFFFF000\<close>. Whatever sequence of calls follows \<open>reset\<close> or a
  successful \<open>init\<close> on it, with writes that end at most 512 MiB into their file, every further such call returns.
  Before and after it the file system has its invariant (one inode per name, sizes within the buffers, every
  descriptor on a live file, every path below an existing directory) and the heap is in order.
\<close>

theorem fs_reachable_safe:
  assumes "heap_in_order h0" and "fs_reachable (heap_new_bytes pt_addr) h0 (fs, h)" and "call_ok 0x20000000 fs c"
  shows "ramfs_inv fs \<and> heap_in_order h \<and>
    (\<exists>fs' h' r. fs_step (heap_new_bytes pt_addr) c (fs, h) = Some (fs', h', r) \<and> ramfs_inv fs' \<and> heap_in_order h')"
  using heap_bytes.reachable_inv [OF assms(2,1)] heap_bytes.step_works [OF _ assms(3)] by simp

theorem fs_reachable_safe_witness:
  "heap_in_order mm_fresh \<and> fs_reachable (heap_new_bytes 0) mm_fresh (ramfs_one, mm_fresh) \<and> ramfs_inv ramfs_one \<and>
   (\<exists>fs' h' r. fs_step (heap_new_bytes 0) (Write 3 (Some [1, 2, 3]) 3) (ramfs_one, mm_fresh) = Some (fs', h', r) \<and>
      ramfs_inv fs' \<and> heap_in_order h')"
proof -
  have "fs_step (heap_new_bytes 0) (Open (Some ''/f'') 7) (ramfs_reset, mm_fresh)
      = Some (ramfs_one, mm_fresh, snd (ramfs_open (Some ''/f'') 7 ramfs_reset))"
    by (simp add: ramfs_one_def split_beta)
  then have r: "fs_reachable (heap_new_bytes 0) mm_fresh (ramfs_one, mm_fresh)"
    by (rule fs_call [OF fs_reset, rotated]) simp
  have "open_file ramfs_one 3 = Some (''/f'', 0, 7)" using ramfs_one_facts(2) by (metis fs_abs_sel(2) abs_fs.select_convs(2) fun_upd_same)
  then have c: "call_ok 0x20000000 ramfs_one (Write 3 (Some [1, 2, 3]) 3)" by simp
  show ?thesis using r mm_heaps_in_order(1) fs_reachable_safe [OF mm_heaps_in_order(1) r c] by blast
qed

lemma grow_capacity_doubles:
  assumes "grow_capacity c required = Some x"
  shows "\<not> (c \<in> doubles \<and> 0x80000000 < required)"
proof (rule grow_capacity.raw_induct [where P = "\<lambda>c r x. \<not> (c \<in> doubles \<and> 0x80000000 < r)", OF _ assms])
  fix g c r and x :: u32
  assume IH: "\<And>c r x. g c r = Some x \<Longrightarrow> \<not> (c \<in> doubles \<and> 0x80000000 < r)"
    and eq: "(if c < r then g (c * 2) r else Some c) = Some x"
  show "\<not> (c \<in> doubles \<and> 0x80000000 < r)"
  proof
    assume c: "c \<in> doubles \<and> 0x80000000 < r"
    then have "c < r" using doubles_step(2) by (blast intro: order.strict_trans1)
    then have "g (c * 2) r = Some x" using eq by simp
    then show False using IH c doubles_step(1) by blast
  qed
qed

text \<open>
  The doubling loop of \<open>ensure_capacity\<close> runs forever for an empty file exactly when more than
  \<open>2 ^ 31\<close> bytes are required: the capacity wraps to zero and stays there.
\<close>

theorem grow_capacity_diverges: "(grow_capacity 64 required = None) = (0x80000000 < required)"
proof
  assume "0x80000000 < required"
  then show "grow_capacity 64 required = None"
    using grow_capacity_doubles [of 64 required] doubles_start by (cases "grow_capacity 64 required") auto
next
  assume "grow_capacity 64 required = None"
  then show "0x80000000 < required" using grow_capacity_reaches [of 64 required] by (fastforce simp: not_le [symmetric])
qed

end
