(* ===== verification/Scheduler.thy ===== *)
theory Scheduler
  imports Heap_Alloc
begin

text \<open>
  The scheduler, \<open>src/kernel/task/scheduler.cpp\<close>: a table of 16 tasks and one of 8 processes, task
  and process creation on top of the heap and the virtual memory manager, the timer
  interrupt that switches tasks round robin, sleeping and exit. The addresses of the
  kernel's own objects (its page tables, its page directory, the entry trampoline) are
  fields of \<open>kernel_addrs\<close>, and the kernel stack pointer of the task state segment
  (\<open>gdt.cpp\<close>) is a field of the state. A function pointer is its address, 0 for null.
\<close>


section \<open>Definitions\<close>

abbreviation (input) kMaxTasks :: nat where "kMaxTasks \<equiv> 16"
abbreviation (input) kMaxProcesses :: nat where "kMaxProcesses \<equiv> 8"
abbreviation (input) kKernelCodeSelector :: u32 where "kKernelCodeSelector \<equiv> 0x08"
abbreviation (input) kEflagsInterruptEnabled :: u32 where "kEflagsInterruptEnabled \<equiv> 0x202"
abbreviation (input) kQuantumTicks :: u32 where "kQuantumTicks \<equiv> 10"
abbreviation (input) kNoWakeTick :: u32 where "kNoWakeTick \<equiv> 0xFFFFFFFF"

datatype task_state = Unused | Runnable | Sleeping | Exited

record task =
  state :: task_state
  tid :: u32
  task_pid :: u32
  saved_esp :: u32
  entry :: u32
  wake_tick :: u32
  ring :: u32
  user_entry :: u32
  user_esp0 :: u32
  kernel_stack_top :: u32
  user_started :: bool

record process =
  used_process :: bool
  pid :: u32
  parent_pid :: u32
  uid :: u32
  gid :: u32
  home :: cstring
  pname :: cstring
  live_threads :: u32
  address_space :: u32

record sched =
  g_tasks :: "task list"
  g_processes :: "process list"
  g_current_task :: nat
  g_next_pid :: u32
  g_next_tid :: u32
  g_process_count :: u32
  g_thread_count :: u32
  tss_esp0 :: u32
  memory :: mm

record kernel_addrs =
  page_tables_at :: u32
  page_directory_at :: u32
  trampoline_at :: u32

definition copy_field :: "cstring \<Rightarrow> nat \<Rightarrow> cstring" where
  "copy_field src max_size = take (max_size - 1) src"

definition clear_task :: task where
  "clear_task = \<lparr>state = Unused, tid = 0, task_pid = 0, saved_esp = 0, entry = 0, wake_tick = kNoWakeTick,
     ring = 0, user_entry = 0, user_esp0 = 0, kernel_stack_top = 0, user_started = False\<rparr>"

definition clear_process :: process where
  "clear_process = \<lparr>used_process = False, pid = 0, parent_pid = 0, uid = 0, gid = 0, home = [], pname = [],
     live_threads = 0, address_space = 0\<rparr>"

definition set_task :: "nat \<Rightarrow> task \<Rightarrow> sched \<Rightarrow> sched" where
  "set_task i t s = s\<lparr>g_tasks := (g_tasks s)[i := t]\<rparr>"

definition set_process :: "nat \<Rightarrow> process \<Rightarrow> sched \<Rightarrow> sched" where
  "set_process i p s = s\<lparr>g_processes := (g_processes s)[i := p]\<rparr>"

definition find_process :: "u32 \<Rightarrow> sched \<Rightarrow> nat option" where
  "find_process p s = find_slot (\<lambda>x. used_process x \<and> pid x = p) (g_processes s)"

text \<open>The user, group and home directory of a new process, from its parent.\<close>

definition inherit :: "bool \<Rightarrow> u32 \<Rightarrow> sched \<Rightarrow> process \<Rightarrow> process" where
  "inherit first parent s p =
     (let from_parent = map_option (\<lambda>k. g_processes s ! k) (find_process parent s) in
      p\<lparr>uid := if first then 0 else case from_parent of None \<Rightarrow> 0 | Some q \<Rightarrow> uid q,
        gid := if first then 0 else case from_parent of None \<Rightarrow> 0 | Some q \<Rightarrow> gid q,
        home := copy_field (if first then ''/root'' else case from_parent of
          None \<Rightarrow> ''/root'' | Some q \<Rightarrow> if home q = [] then ''/root'' else home q) 32\<rparr>)"

definition create_process :: "kernel_addrs \<Rightarrow> cstring option \<Rightarrow> u32 \<Rightarrow> sched \<Rightarrow> (sched \<times> u32) option" where
  "create_process ka name parent s =
     (case find_slot (\<lambda>x. \<not> used_process x) (g_processes s) of
        None \<Rightarrow> Some (s, 0)
      | Some i \<Rightarrow>
          let p = (g_processes s ! i)\<lparr>used_process := True, pid := g_next_pid s, parent_pid := parent, live_threads := 0\<rparr>;
              s = set_process i p (s\<lparr>g_next_pid := g_next_pid s + 1\<rparr>);
              first = (g_process_count s = 0 \<and> parent = 0);
              p = inherit first parent s p in
          (if first then Some (memory s, kernel_address_space (page_directory_at ka))
           else create_kernel_clone_address_space (page_tables_at ka) (memory s)) \<bind> (\<lambda>(m, sp).
             if \<not> first \<and> sp = 0 then Some ((set_process i clear_process s)\<lparr>memory := m\<rparr>, 0)
             else Some ((set_process i (p\<lparr>address_space := sp,
                 pname := copy_field (case name of None \<Rightarrow> ''process'' | Some n \<Rightarrow> n) 24\<rparr>) s)\<lparr>
               memory := m, g_process_count := g_process_count s + 1\<rparr>, pid p)))"

fun push32 :: "u32 list \<Rightarrow> u32 \<times> mem \<Rightarrow> u32 \<times> mem" where
  "push32 [] (sp, m) = (sp, m)"
| "push32 (v # vs) (sp, m) = push32 vs (sp - 4, write32 (sp - 4) v m)"

definition setup_initial_task_stack :: "kernel_addrs \<Rightarrow> u32 \<Rightarrow> u32 \<Rightarrow> mem \<Rightarrow> u32 \<times> mem" where
  "setup_initial_task_stack ka stack_base stack_size m =
     push32 [kEflagsInterruptEnabled, kKernelCodeSelector, trampoline_at ka, 0, 0, 0, 0, 0, 0, 0, 0]
       (stack_base + stack_size, m)"

definition alloc_task_slot :: "sched \<Rightarrow> nat option" where
  "alloc_task_slot s = find_slot (\<lambda>t. state t = Unused \<or> state t = Exited) (g_tasks s)"

text \<open>The common end of task creation: the entry is filled in and the counters go up.\<close>

definition start_thread :: "nat \<Rightarrow> nat \<Rightarrow> task \<Rightarrow> sched \<Rightarrow> sched" where
  "start_thread i k t s =
     (set_process k ((g_processes s ! k)\<lparr>live_threads := live_threads (g_processes s ! k) + 1\<rparr>) (set_task i t s))\<lparr>
        g_next_tid := g_next_tid s + 1, g_thread_count := g_thread_count s + 1\<rparr>"

definition create_task_for_process :: "kernel_addrs \<Rightarrow> u32 \<Rightarrow> u32 \<Rightarrow> u32 \<Rightarrow> sched \<Rightarrow> (sched \<times> int) option" where
  "create_task_for_process ka p e stack_size s =
     (if e = 0 then Some (s, -1)
      else case find_process p s of
        None \<Rightarrow> Some (s, -1)
      | Some k \<Rightarrow>
          case alloc_task_slot s of
            None \<Rightarrow> Some (s, -1)
          | Some i \<Rightarrow>
              let s = set_task i clear_task s;
                  stack_bytes = (if stack_size < 4096 then 4096 else stack_size) in
              heap_alloc (page_tables_at ka) stack_bytes 16 (memory s) \<bind> (\<lambda>(m, stack_mem).
                let s = s\<lparr>memory := m\<rparr> in
                if stack_mem = 0 then Some (set_task i clear_task s, -1)
                else case setup_initial_task_stack ka stack_mem stack_bytes (ram m) of (sp, r) \<Rightarrow>
                  Some (start_thread i k ((g_tasks s ! i)\<lparr>state := Runnable, tid := g_next_tid s, task_pid := p, entry := e,
                      wake_tick := kNoWakeTick, saved_esp := sp\<rparr>) (s\<lparr>memory := m\<lparr>ram := r\<rparr>\<rparr>),
                    sint (g_next_tid s))))"

definition wake_sleeping_tasks :: "u32 \<Rightarrow> sched \<Rightarrow> sched" where
  "wake_sleeping_tasks now_tick s = s\<lparr>g_tasks := map (\<lambda>t.
     if state t = Sleeping \<and> wake_tick t \<le> now_tick then t\<lparr>state := Runnable, wake_tick := kNoWakeTick\<rparr> else t) (g_tasks s)\<rparr>"

definition pick_next_runnable :: "nat \<Rightarrow> task list \<Rightarrow> nat" where
  "pick_next_runnable current ts =
     (case find (\<lambda>offset. state (ts ! ((current + offset) mod kMaxTasks)) = Runnable) [1..<kMaxTasks + 1] of
        None \<Rightarrow> current
      | Some offset \<Rightarrow> (current + offset) mod kMaxTasks)"

definition current_task_ptr :: "sched \<Rightarrow> nat option" where
  "current_task_ptr s =
     (if kMaxTasks \<le> g_current_task s then None
      else if state (g_tasks s ! g_current_task s) = Unused then None
      else Some (g_current_task s))"

definition mark_current_exited :: "sched \<Rightarrow> sched" where
  "mark_current_exited s =
     (case current_task_ptr s of
        None \<Rightarrow> s
      | Some i \<Rightarrow>
          let t = g_tasks s ! i in
          if state t = Exited then s
          else let s = (case find_process (task_pid t) s of
                  None \<Rightarrow> s
                | Some k \<Rightarrow> if 0 < live_threads (g_processes s ! k)
                    then set_process k ((g_processes s ! k)\<lparr>live_threads := live_threads (g_processes s ! k) - 1\<rparr>) s
                    else s);
                s = (if 0 < g_thread_count s then s\<lparr>g_thread_count := g_thread_count s - 1\<rparr> else s) in
            set_task i (t\<lparr>state := Exited, wake_tick := kNoWakeTick\<rparr>) s)"

definition prepare_ring3_iret_frame :: "u32 \<Rightarrow> u32 \<Rightarrow> u32 \<Rightarrow> mem \<Rightarrow> u32 \<times> mem" where
  "prepare_ring3_iret_frame stack_top ring3_entry ring3_esp m =
     push32 [0, 0, 0, 0, 0, 0, 0, 0, 0x23, ring3_esp, 0x202, 0x1B, ring3_entry] (stack_top, m)"

definition scheduler_init :: "kernel_addrs \<Rightarrow> u32 \<Rightarrow> sched \<Rightarrow> sched option" where
  "scheduler_init ka kernel_stack_esp s =
     create_process ka (Some ''kernel'') 0
       (s\<lparr>g_tasks := replicate kMaxTasks clear_task, g_processes := replicate kMaxProcesses clear_process,
          g_current_task := 0, g_next_pid := 1, g_next_tid := 1, g_process_count := 0, g_thread_count := 0\<rparr>) \<bind> (\<lambda>(s, kernel_pid).
     if kernel_pid = 0 then Some s
     else let s' = (set_task 0 ((g_tasks s ! 0)\<lparr>state := Runnable, tid := g_next_tid s, task_pid := kernel_pid,
                saved_esp := kernel_stack_esp, entry := 0, wake_tick := kNoWakeTick\<rparr>) s)\<lparr>g_next_tid := g_next_tid s + 1\<rparr>;
              s' = (case find_process kernel_pid s of
                None \<Rightarrow> s'
              | Some k \<Rightarrow> set_process k ((g_processes s' ! k)\<lparr>live_threads := 1\<rparr>) s') in
       Some (s'\<lparr>g_thread_count := 1\<rparr>))"

definition current_task_id :: "sched \<Rightarrow> u32" where
  "current_task_id s = (case current_task_ptr s of None \<Rightarrow> 0 | Some i \<Rightarrow> tid (g_tasks s ! i))"

definition current_thread_id :: "sched \<Rightarrow> u32" where
  "current_thread_id s = current_task_id s"

definition current_process_id :: "sched \<Rightarrow> u32" where
  "current_process_id s = (case current_task_ptr s of None \<Rightarrow> 0 | Some i \<Rightarrow> task_pid (g_tasks s ! i))"

definition current_ring_level :: "sched \<Rightarrow> u32" where
  "current_ring_level s = (case current_task_ptr s of None \<Rightarrow> 0 | Some i \<Rightarrow> ring (g_tasks s ! i))"

definition process_count :: "sched \<Rightarrow> u32" where
  "process_count s = g_process_count s"

definition current_process :: "sched \<Rightarrow> process option" where
  "current_process s = current_task_ptr s \<bind> (\<lambda>i.
     map_option (\<lambda>k. g_processes s ! k) (find_process (task_pid (g_tasks s ! i)) s))"

definition current_user_id :: "sched \<Rightarrow> u32" where
  "current_user_id s = (case current_process s of None \<Rightarrow> 0 | Some p \<Rightarrow> uid p)"

definition current_group_id :: "sched \<Rightarrow> u32" where
  "current_group_id s = (case current_process s of None \<Rightarrow> 0 | Some p \<Rightarrow> gid p)"

definition current_home :: "sched \<Rightarrow> cstring" where
  "current_home s = (case current_process s of None \<Rightarrow> ''/root'' | Some p \<Rightarrow> if home p = [] then ''/root'' else home p)"

definition thread_count :: "sched \<Rightarrow> u32" where
  "thread_count s = g_thread_count s"

definition create_kernel_task :: "kernel_addrs \<Rightarrow> u32 \<Rightarrow> u32 \<Rightarrow> sched \<Rightarrow> (sched \<times> int) option" where
  "create_kernel_task ka e stack_size s = create_task_for_process ka 1 e stack_size s"

text \<open>The roll back of a process whose task could not be created.\<close>

definition drop_process :: "nat \<Rightarrow> sched \<Rightarrow> sched" where
  "drop_process k s =
     (let s = set_process k clear_process s in
      if 0 < g_process_count s then s\<lparr>g_process_count := g_process_count s - 1\<rparr> else s)"

definition create_process_task :: "kernel_addrs \<Rightarrow> cstring option \<Rightarrow> u32 \<Rightarrow> u32 \<Rightarrow> sched \<Rightarrow> (sched \<times> int) option" where
  "create_process_task ka process_name e stack_size s =
     create_process ka process_name (current_process_id s) s \<bind> (\<lambda>(s, p).
       if p = 0 then Some (s, -1)
       else create_task_for_process ka p e stack_size s \<bind> (\<lambda>(s, r).
         if r < 0 then Some (case find_process p s of None \<Rightarrow> s | Some k \<Rightarrow> drop_process k s, -1)
         else Some (s, sint p)))"

definition create_ring3_task :: "kernel_addrs \<Rightarrow> cstring option \<Rightarrow> u32 \<Rightarrow> u32 \<Rightarrow> sched \<Rightarrow> (sched \<times> int) option" where
  "create_ring3_task ka process_name entry_point esp0 s =
     create_process ka process_name (current_process_id s) s \<bind> (\<lambda>(s, p).
       if p = 0 then Some (s, -1)
       else case find_process p s of
         None \<Rightarrow> Some (s, -1)
       | Some k \<Rightarrow>
           case alloc_task_slot s of
             None \<Rightarrow> Some (drop_process k s, -1)
           | Some i \<Rightarrow>
               let s = set_task i clear_task s in
               heap_alloc (page_tables_at ka) 4096 16 (memory s) \<bind> (\<lambda>(m, stack_mem).
                 let s = s\<lparr>memory := m\<rparr> in
                 if stack_mem = 0 then Some (drop_process k (set_task i clear_task s), -1)
                 else let sp = stack_mem + 4096 in
                   Some (start_thread i k ((g_tasks s ! i)\<lparr>state := Runnable, tid := g_next_tid s, task_pid := p, ring := 3,
                       user_entry := entry_point, user_esp0 := esp0, wake_tick := kNoWakeTick,
                       user_started := False, saved_esp := sp, kernel_stack_top := sp\<rparr>) s, sint p)))"

text \<open>The parts of the timer interrupt after the choice: the address space, then the stack to continue on.\<close>

definition enter_address_space :: "nat \<Rightarrow> nat \<Rightarrow> sched \<Rightarrow> sched" where
  "enter_address_space prev nxt s =
     (if task_pid (g_tasks s ! prev) \<noteq> task_pid (g_tasks s ! nxt) then
        case find_process (task_pid (g_tasks s ! nxt)) s of
          None \<Rightarrow> s
        | Some k \<Rightarrow>
            if address_space (g_processes s ! k) \<noteq> 0
            then s\<lparr>memory := (memory s)\<lparr>pages := fst (switch_address_space
                   (address_space (g_processes s ! k)) (pages (memory s)))\<rparr>\<rparr>
            else s
      else s)"

definition dispatch :: "u32 \<Rightarrow> nat \<Rightarrow> nat \<Rightarrow> sched \<Rightarrow> sched \<times> u32" where
  "dispatch current_esp prev nxt s =
     (let t = g_tasks s ! nxt in
      if saved_esp t = 0 then (s, current_esp)
      else if ring t = 3 then
        let s = (if kernel_stack_top t \<noteq> 0 then s\<lparr>tss_esp0 := kernel_stack_top t\<rparr> else s) in
        if \<not> user_started t then
          case prepare_ring3_iret_frame (saved_esp t) (user_entry t) (user_esp0 t) (ram (memory s)) of
            (frame, r) \<Rightarrow> ((set_task nxt (t\<lparr>user_started := True\<rparr>) s)\<lparr>memory := (memory s)\<lparr>ram := r\<rparr>\<rparr>, frame)
        else (s, saved_esp t)
      else if prev \<noteq> nxt then (s\<lparr>tss_esp0 := saved_esp t\<rparr>, saved_esp t)
      else (s, saved_esp t))"

definition on_timer_interrupt :: "u32 \<Rightarrow> u32 \<Rightarrow> sched \<Rightarrow> sched \<times> u32" where
  "on_timer_interrupt current_esp tick_count s =
     (case current_task_ptr s of
        None \<Rightarrow> (s, current_esp)
      | Some i \<Rightarrow>
          let s = wake_sleeping_tasks tick_count (set_task i ((g_tasks s ! i)\<lparr>saved_esp := current_esp\<rparr>) s) in
          if tick_count mod kQuantumTicks \<noteq> 0 then (s, current_esp)
          else
            let prev = g_current_task s;
                nxt = pick_next_runnable prev (g_tasks s) in
            dispatch current_esp prev nxt (enter_address_space prev nxt (s\<lparr>g_current_task := nxt\<rparr>)))"

definition exit_current :: "sched \<Rightarrow> sched" where
  "exit_current s = mark_current_exited s"

definition sleep_current :: "u32 \<Rightarrow> u32 \<Rightarrow> sched \<Rightarrow> sched" where
  "sleep_current ticks now_tick s =
     (if ticks = 0 then s
      else case current_task_ptr s of
        None \<Rightarrow> s
      | Some i \<Rightarrow> set_task i ((g_tasks s ! i)\<lparr>state := Sleeping, wake_tick := now_tick + ticks\<rparr>) s)"

definition is_current_sleeping :: "u32 \<Rightarrow> sched \<Rightarrow> bool" where
  "is_current_sleeping now_tick s =
     (case current_task_ptr s of
        None \<Rightarrow> False
      | Some i \<Rightarrow> if state (g_tasks s ! i) \<noteq> Sleeping then False else now_tick < wake_tick (g_tasks s ! i))"

text \<open>
  What \<open>task_entry_trampoline\<close> calls before it marks the current task exited: the entry of the
  first task with the current task's identifier that has one.
\<close>

definition trampoline_entry :: "sched \<Rightarrow> nat option" where
  "trampoline_entry s = find_slot (\<lambda>t. tid t = current_task_id s \<and> entry t \<noteq> 0) (g_tasks s)"

definition task_entry_return :: "sched \<Rightarrow> sched" where
  "task_entry_return s = (case trampoline_entry s of None \<Rightarrow> s | Some i \<Rightarrow> mark_current_exited s)"

text \<open>
  The end of \<open>irq0_stub\<close> in \<open>src/boot/interrupts.S\<close>: \<open>popa\<close> takes eight words off the stack and
  \<open>iret\<close> the instruction pointer, the code segment and the flags.
\<close>

record resumed =
  r_eip :: u32
  r_cs :: u32
  r_eflags :: u32
  r_esp :: u32

definition popa_iret :: "mem \<Rightarrow> u32 \<Rightarrow> resumed" where
  "popa_iret m esp = \<lparr>r_eip = read32 m (esp + 32), r_cs = read32 m (esp + 36), r_eflags = read32 m (esp + 40),
     r_esp = esp + 44\<rparr>"

end
