(* ===== verification/Scheduler_Inv.thy ===== *)
theory Scheduler_Inv
  imports Scheduler
begin

text \<open>
  The invariant of the scheduler's tables: unique identifiers, every live task in a process,
  and counters that agree with the tables. The updates the operations make keep it.
\<close>


section \<open>Invariant\<close>

definition live :: "task \<Rightarrow> bool" where
  "live t \<longleftrightarrow> state t = Runnable \<or> state t = Sleeping"

definition threads_of :: "u32 \<Rightarrow> task list \<Rightarrow> nat" where
  "threads_of p ts = count_slots (\<lambda>t. live t \<and> task_pid t = p) ts"

text \<open>Identifiers of live tasks and of processes are not zero, below the next one to be given, and unique.\<close>

definition tids_ok :: "u32 \<Rightarrow> task list \<Rightarrow> bool" where
  "tids_ok next ts \<longleftrightarrow> (\<forall>i < length ts. live (ts ! i) \<longrightarrow> tid (ts ! i) \<noteq> 0 \<and> tid (ts ! i) < next) \<and>
     (\<forall>i < length ts. \<forall>j < length ts. live (ts ! i) \<and> live (ts ! j) \<and> tid (ts ! i) = tid (ts ! j) \<longrightarrow> i = j)"

definition pids_ok :: "u32 \<Rightarrow> process list \<Rightarrow> bool" where
  "pids_ok next ps \<longleftrightarrow> (\<forall>i < length ps. used_process (ps ! i) \<longrightarrow> pid (ps ! i) \<noteq> 0 \<and> pid (ps ! i) < next) \<and>
     (\<forall>i < length ps. \<forall>j < length ps. used_process (ps ! i) \<and> used_process (ps ! j) \<and> pid (ps ! i) = pid (ps ! j) \<longrightarrow> i = j)"

text \<open>Every live task belongs to a process, and each process counts its live tasks.\<close>

definition threads_ok :: "task list \<Rightarrow> process list \<Rightarrow> bool" where
  "threads_ok ts ps \<longleftrightarrow> (\<forall>i < length ts. live (ts ! i) \<longrightarrow> (\<exists>k < length ps. used_process (ps ! k) \<and> pid (ps ! k) = task_pid (ts ! i))) \<and>
     (\<forall>k < length ps. used_process (ps ! k) \<longrightarrow> unat (live_threads (ps ! k)) = threads_of (pid (ps ! k)) ts)"

definition tables_inv :: "task list \<Rightarrow> process list \<Rightarrow> u32 \<Rightarrow> u32 \<Rightarrow> u32 \<Rightarrow> u32 \<Rightarrow> bool" where
  "tables_inv ts ps npid ntid pcount tcount \<longleftrightarrow> length ts = 16 \<and> length ps = 8 \<and>
     tids_ok ntid ts \<and> pids_ok npid ps \<and> threads_ok ts ps \<and>
     unat pcount = count_slots used_process ps \<and> unat tcount = count_slots live ts"

definition sched_inv :: "sched \<Rightarrow> bool" where
  "sched_inv s \<longleftrightarrow> tables_inv (g_tasks s) (g_processes s) (g_next_pid s) (g_next_tid s) (g_process_count s) (g_thread_count s) \<and>
     g_current_task s < 16 \<and> state (g_tasks s ! g_current_task s) \<noteq> Unused"


section \<open>Updates of the tables\<close>

lemma not_live_simps [simp]: "\<not> live clear_task" "state t = Exited \<Longrightarrow> \<not> live t" "state t = Unused \<Longrightarrow> \<not> live t"
  by (simp_all add: live_def clear_task_def)

lemma live_other [simp]: "\<not> live (ts ! i) \<Longrightarrow> live (ts ! j) \<Longrightarrow> ts[i := t] ! j = ts ! j"
  by (metis nth_list_update_neq)

lemma count_slots_same:
  "i < length xs \<Longrightarrow> P (xs ! i) = P x \<Longrightarrow> count_slots P (xs[i := x]) = count_slots P xs"
  using count_slots_update [of i xs P x] by (simp split: if_splits)

lemma count_slots_add:
  "i < length xs \<Longrightarrow> \<not> P (xs ! i) \<Longrightarrow> P x \<Longrightarrow> count_slots P (xs[i := x]) = Suc (count_slots P xs)"
  using count_slots_update [of i xs P x] by simp

lemma count_slots_remove:
  "i < length xs \<Longrightarrow> P (xs ! i) \<Longrightarrow> \<not> P x \<Longrightarrow> Suc (count_slots P (xs[i := x])) = count_slots P xs"
  using count_slots_update [of i xs P x] by simp

lemma nth_update: "i < length xs \<Longrightarrow> xs[i := x] ! j = (if j = i then x else xs ! j)"
  by simp

lemma tids_okI:
  assumes "\<And>i. i < length ts \<Longrightarrow> live (ts ! i) \<Longrightarrow> tid (ts ! i) \<noteq> 0 \<and> tid (ts ! i) < next"
    and "\<And>i j. i < length ts \<Longrightarrow> j < length ts \<Longrightarrow> live (ts ! i) \<Longrightarrow> live (ts ! j) \<Longrightarrow> tid (ts ! i) = tid (ts ! j) \<Longrightarrow> i = j"
  shows "tids_ok next ts"
  unfolding tids_ok_def using assms by blast

lemma tids_okD:
  assumes "tids_ok next ts"
  shows "i < length ts \<Longrightarrow> live (ts ! i) \<Longrightarrow> tid (ts ! i) \<noteq> 0 \<and> tid (ts ! i) < next"
    and "i < length ts \<Longrightarrow> j < length ts \<Longrightarrow> live (ts ! i) \<Longrightarrow> live (ts ! j) \<Longrightarrow> tid (ts ! i) = tid (ts ! j) \<Longrightarrow> i = j"
  using assms unfolding tids_ok_def by blast+

lemma pids_okI:
  assumes "\<And>i. i < length ps \<Longrightarrow> used_process (ps ! i) \<Longrightarrow> pid (ps ! i) \<noteq> 0 \<and> pid (ps ! i) < next"
    and "\<And>i j. i < length ps \<Longrightarrow> j < length ps \<Longrightarrow> used_process (ps ! i) \<Longrightarrow> used_process (ps ! j) \<Longrightarrow> pid (ps ! i) = pid (ps ! j) \<Longrightarrow> i = j"
  shows "pids_ok next ps"
  unfolding pids_ok_def using assms by blast

lemma pids_okD:
  assumes "pids_ok next ps"
  shows "i < length ps \<Longrightarrow> used_process (ps ! i) \<Longrightarrow> pid (ps ! i) \<noteq> 0 \<and> pid (ps ! i) < next"
    and "i < length ps \<Longrightarrow> j < length ps \<Longrightarrow> used_process (ps ! i) \<Longrightarrow> used_process (ps ! j) \<Longrightarrow> pid (ps ! i) = pid (ps ! j) \<Longrightarrow> i = j"
  using assms unfolding pids_ok_def by blast+

lemma threads_okI:
  assumes "\<And>i. i < length ts \<Longrightarrow> live (ts ! i) \<Longrightarrow> \<exists>k < length ps. used_process (ps ! k) \<and> pid (ps ! k) = task_pid (ts ! i)"
    and "\<And>k. k < length ps \<Longrightarrow> used_process (ps ! k) \<Longrightarrow> unat (live_threads (ps ! k)) = threads_of (pid (ps ! k)) ts"
  shows "threads_ok ts ps"
  unfolding threads_ok_def using assms by blast

lemma threads_okD:
  assumes "threads_ok ts ps"
  shows "i < length ts \<Longrightarrow> live (ts ! i) \<Longrightarrow> \<exists>k < length ps. used_process (ps ! k) \<and> pid (ps ! k) = task_pid (ts ! i)"
    and "k < length ps \<Longrightarrow> used_process (ps ! k) \<Longrightarrow> unat (live_threads (ps ! k)) = threads_of (pid (ps ! k)) ts"
  using assms unfolding threads_ok_def by blast+

lemma tables_invD:
  assumes "tables_inv ts ps a b c d"
  shows "length ts = 16" "length ps = 8" "tids_ok b ts" "pids_ok a ps" "threads_ok ts ps"
    "unat c = count_slots used_process ps" "unat d = count_slots live ts"
  using assms by (simp_all add: tables_inv_def)

lemma word_next:
  "(b :: u32) + 1 \<noteq> 0 \<Longrightarrow> unat (b + 1) = Suc (unat b)"
  "(b :: u32) + 1 \<noteq> 0 \<Longrightarrow> b < b + 1"
  "(b :: u32) + 1 \<noteq> 0 \<Longrightarrow> x < b \<Longrightarrow> x < b + 1"
proof -
  show u: "unat (b + 1) = Suc (unat b)" if "b + 1 \<noteq> 0" using that by (metis unat_eq_0 unatSuc add.commute)
  show "b < b + 1" if "b + 1 \<noteq> 0" using u [OF that] by (simp add: word_less_nat_alt)
  show "x < b + 1" if "b + 1 \<noteq> 0" "x < b" using u [OF that(1)] that(2) by (simp add: word_less_nat_alt)
qed

lemma u32_small_succ: "unat (x :: u32) \<le> 16 \<Longrightarrow> unat (x + 1) = Suc (unat x)"
  by (simp add: unat_add_lem [THEN iffD1])

text \<open>A task entry replaced by one that is live or not as before, with the same identifiers.\<close>

lemma tables_inv_same_task:
  assumes inv: "tables_inv ts ps a b c d" and i: "i < 16"
    and same: "live t = live (ts ! i)" "live t \<Longrightarrow> tid t = tid (ts ! i) \<and> task_pid t = task_pid (ts ! i)"
  shows "tables_inv (ts[i := t]) ps a b c d"
proof -
  note D = tables_invD [OF inv]
  have len: "i < length ts" using D i by simp
  note n = nth_update [OF len, of t]
  have view: "live (ts[i := t] ! j) = live (ts ! j)" "live (ts ! j) \<Longrightarrow> tid (ts[i := t] ! j) = tid (ts ! j)"
    "live (ts ! j) \<Longrightarrow> task_pid (ts[i := t] ! j) = task_pid (ts ! j)" for j
    using same unfolding n by auto
  have th: "threads_of p (ts[i := t]) = threads_of p ts" for p
    unfolding threads_of_def using same by (intro count_slots_same [OF len]) auto
  have "tids_ok b (ts[i := t])" using tids_okD [OF D(3)] by (intro tids_okI) (auto simp: view)
  moreover have "threads_ok (ts[i := t]) ps" using threads_okD [OF D(5)] by (intro threads_okI) (auto simp: view th)
  moreover have "count_slots live (ts[i := t]) = count_slots live ts" using same by (intro count_slots_same [OF len]) auto
  ultimately show ?thesis using D by (simp add: tables_inv_def)
qed

text \<open>A free entry becomes a live task with the next identifier, of process \<open>k\<close>.\<close>

lemma tables_inv_new_task:
  assumes inv: "tables_inv ts ps a b c d" and i: "i < 16" "\<not> live (ts ! i)" and k: "k < 8" "used_process (ps ! k)"
    and t: "live t" "tid t = b" "task_pid t = pid (ps ! k)" and b: "b \<noteq> 0" "b + 1 \<noteq> 0"
    and p: "p = (ps ! k)\<lparr>live_threads := live_threads (ps ! k) + 1\<rparr>"
  shows "tables_inv (ts[i := t]) (ps[k := p]) a (b + 1) c (d + 1)"
proof -
  note D = tables_invD [OF inv]
  have len: "i < length ts" "k < length ps" using D i k by simp_all
  note n = nth_update [OF len(1), of t] and m = nth_update [OF len(2), of p]
  have pv: "used_process (ps[k := p] ! j) = used_process (ps ! j)" "pid (ps[k := p] ! j) = pid (ps ! j)" for j
    unfolding m using p by auto
  have th: "threads_of q (ts[i := t]) = (if q = pid (ps ! k) then Suc (threads_of q ts) else threads_of q ts)" for q
    unfolding threads_of_def using i t count_slots_add [OF len(1)] count_slots_same [OF len(1)] by auto
  have "tids_ok (b + 1) (ts[i := t])"
  proof (rule tids_okI)
    show "tid (ts[i := t] ! j) \<noteq> 0 \<and> tid (ts[i := t] ! j) < b + 1" if "j < length (ts[i := t])" "live (ts[i := t] ! j)" for j
    proof (cases "j = i")
      case True
      then show ?thesis using t b(1) word_next(2) [OF b(2)] unfolding n by simp
    next
      case False
      then have "tid (ts ! j) \<noteq> 0 \<and> tid (ts ! j) < b" using that tids_okD(1) [OF D(3), of j] unfolding n by simp
      then show ?thesis using False word_next(3) [OF b(2)] unfolding n by simp
    qed
    show "j = j'" if "j < length (ts[i := t])" "j' < length (ts[i := t])" "live (ts[i := t] ! j)" "live (ts[i := t] ! j')"
      "tid (ts[i := t] ! j) = tid (ts[i := t] ! j')" for j j'
    proof -
      have no: "tid (ts ! l) \<noteq> b" if "l < length ts" "live (ts ! l)" for l using tids_okD(1) [OF D(3) that] by auto
      have key: "l = i" if l: "l < length (ts[i := t])" "live (ts[i := t] ! l)" "tid (ts[i := t] ! l) = b" for l
        by (rule ccontr) (use l no [of l] in \<open>simp add: n\<close>)
      have i: "tid (ts[i := t] ! i) = b" using t(2) by (simp add: n)
      show ?thesis
      proof (cases "j = i \<or> j' = i")
        case True
        then show ?thesis using key [OF that(1,3)] key [OF that(2,4)] that(5) i by metis
      next
        case False
        then show ?thesis using that tids_okD(2) [OF D(3), of j j'] unfolding n by simp
      qed
    qed
  qed
  moreover have "pids_ok a (ps[k := p])" using pids_okD [OF D(4)] by (intro pids_okI) (auto simp: pv)
  moreover have "threads_ok (ts[i := t]) (ps[k := p])"
  proof (rule threads_okI)
    show "\<exists>l < length (ps[k := p]). used_process (ps[k := p] ! l) \<and> pid (ps[k := p] ! l) = task_pid (ts[i := t] ! j)"
      if "j < length (ts[i := t])" "live (ts[i := t] ! j)" for j
      using that threads_okD(1) [OF D(5), of j] t k len unfolding pv n by (auto split: if_splits)
    show "unat (live_threads (ps[k := p] ! l)) = threads_of (pid (ps[k := p] ! l)) (ts[i := t])"
      if "l < length (ps[k := p])" "used_process (ps[k := p] ! l)" for l
    proof -
      have l: "unat (live_threads (ps ! l)) = threads_of (pid (ps ! l)) ts" "l = k \<or> pid (ps ! l) \<noteq> pid (ps ! k)"
        using that threads_okD(2) [OF D(5), of l] pids_okD(2) [OF D(4), of l k] k len unfolding pv by auto
      have "threads_of (pid (ps ! l)) ts \<le> 16" unfolding threads_of_def using count_slots_le [of _ ts] D(1) by metis
      then have "unat (live_threads (ps ! l) + 1) = Suc (unat (live_threads (ps ! l)))"
        using l(1) by (intro u32_small_succ) simp
      then show ?thesis using l unfolding pv m th by (auto simp: p)
    qed
  qed
  moreover have "unat (d + 1) = count_slots live (ts[i := t])"
    using count_slots_add [OF len(1), of live t] i t D(7) count_slots_le [of live ts] D(1)
    by (simp add: u32_small_succ)
  moreover have "count_slots used_process (ps[k := p]) = count_slots used_process ps"
    by (intro count_slots_same [OF len(2)]) (simp add: p)
  ultimately show ?thesis using D by (simp add: tables_inv_def)
qed

text \<open>A live task ends.\<close>

lemma tables_inv_exit_task:
  assumes inv: "tables_inv ts ps a b c d" and i: "i < 16" "live (ts ! i)" and k: "k < 8" "used_process (ps ! k)"
    and t: "\<not> live t" "task_pid (ts ! i) = pid (ps ! k)"
    and p: "p = (ps ! k)\<lparr>live_threads := live_threads (ps ! k) - 1\<rparr>"
  shows "tables_inv (ts[i := t]) (ps[k := p]) a b c (d - 1) \<and> 0 < live_threads (ps ! k) \<and> 0 < d"
proof -
  note D = tables_invD [OF inv]
  have len: "i < length ts" "k < length ps" using D i k by simp_all
  note n = nth_update [OF len(1), of t] and m = nth_update [OF len(2), of p]
  have pv: "used_process (ps[k := p] ! j) = used_process (ps ! j)" "pid (ps[k := p] ! j) = pid (ps ! j)" for j
    unfolding m using p by auto
  have th: "threads_of q ts = (if q = pid (ps ! k) then Suc (threads_of q (ts[i := t])) else threads_of q (ts[i := t]))" for q
    unfolding threads_of_def using i t count_slots_remove [OF len(1)] count_slots_same [OF len(1)] by auto
  have lk: "unat (live_threads (ps ! k)) = Suc (threads_of (pid (ps ! k)) (ts[i := t]))"
    using threads_okD(2) [OF D(5) len(2) k(2)] th [of "pid (ps ! k)"] by simp
  have ld: "unat d = Suc (count_slots live (ts[i := t]))"
    using count_slots_remove [OF len(1), of live t] i t D(7) by simp
  have dec: "unat (x - 1) = n" if "unat x = Suc n" for x :: u32 and n
    using that unat_sub [of 1 x] by (simp add: word_le_nat_alt)
  have "tids_ok b (ts[i := t])"
  proof (rule tids_okI)
    show "tid (ts[i := t] ! j) \<noteq> 0 \<and> tid (ts[i := t] ! j) < b" if "j < length (ts[i := t])" "live (ts[i := t] ! j)" for j
      using that tids_okD(1) [OF D(3), of j] t unfolding n by (auto split: if_splits)
    show "j = j'" if "j < length (ts[i := t])" "j' < length (ts[i := t])" "live (ts[i := t] ! j)" "live (ts[i := t] ! j')"
      "tid (ts[i := t] ! j) = tid (ts[i := t] ! j')" for j j'
      using that tids_okD(2) [OF D(3), of j j'] t unfolding n by (auto split: if_splits)
  qed
  moreover have "pids_ok a (ps[k := p])" using pids_okD [OF D(4)] by (intro pids_okI) (auto simp: pv)
  moreover have "threads_ok (ts[i := t]) (ps[k := p])"
  proof (rule threads_okI)
    show "\<exists>l < length (ps[k := p]). used_process (ps[k := p] ! l) \<and> pid (ps[k := p] ! l) = task_pid (ts[i := t] ! j)"
      if "j < length (ts[i := t])" "live (ts[i := t] ! j)" for j
      using that threads_okD(1) [OF D(5), of j] t unfolding pv n by (auto split: if_splits)
    show "unat (live_threads (ps[k := p] ! l)) = threads_of (pid (ps[k := p] ! l)) (ts[i := t])"
      if "l < length (ps[k := p])" "used_process (ps[k := p] ! l)" for l
    proof -
      have l: "unat (live_threads (ps ! l)) = threads_of (pid (ps ! l)) ts" "l = k \<or> pid (ps ! l) \<noteq> pid (ps ! k)"
        using that threads_okD(2) [OF D(5), of l] pids_okD(2) [OF D(4), of l k] k len unfolding pv by auto
      then show ?thesis using dec [OF lk] th [of "pid (ps ! l)"] unfolding pv m by (auto simp: p)
    qed
  qed
  moreover have "count_slots used_process (ps[k := p]) = count_slots used_process ps"
    by (intro count_slots_same [OF len(2)]) (simp add: p)
  ultimately show ?thesis using D dec [OF ld] lk ld by (simp add: tables_inv_def word_less_nat_alt)
qed

text \<open>A free process entry becomes a process with the next identifier and no tasks.\<close>

lemma threads_of_0:
  assumes "threads_ok ts ps" "\<And>k. k < length ps \<Longrightarrow> used_process (ps ! k) \<Longrightarrow> pid (ps ! k) \<noteq> q"
  shows "threads_of q ts = 0"
  unfolding threads_of_def count_slots_0_iff
  using threads_okD(1) [OF assms(1)] assms(2) by (metis in_set_conv_nth)

lemma tables_inv_new_process:
  assumes inv: "tables_inv ts ps a b c d" and k: "k < 8" "\<not> used_process (ps ! k)"
    and p: "used_process p" "pid p = a" "live_threads p = 0" and a: "a \<noteq> 0" "a + 1 \<noteq> 0"
  shows "tables_inv ts (ps[k := p]) (a + 1) b (c + 1) d"
proof -
  note D = tables_invD [OF inv]
  have len: "k < length ps" using D k by simp
  note m = nth_update [OF len, of p]
  have "pids_ok (a + 1) (ps[k := p])"
  proof (rule pids_okI)
    show "pid (ps[k := p] ! j) \<noteq> 0 \<and> pid (ps[k := p] ! j) < a + 1" if "j < length (ps[k := p])" "used_process (ps[k := p] ! j)" for j
    proof (cases "j = k")
      case True
      then show ?thesis using p a(1) word_next(2) [OF a(2)] unfolding m by simp
    next
      case False
      then have "pid (ps ! j) \<noteq> 0 \<and> pid (ps ! j) < a" using that pids_okD(1) [OF D(4), of j] unfolding m by simp
      then show ?thesis using False word_next(3) [OF a(2)] unfolding m by simp
    qed
    show "j = j'" if "j < length (ps[k := p])" "j' < length (ps[k := p])" "used_process (ps[k := p] ! j)" "used_process (ps[k := p] ! j')"
      "pid (ps[k := p] ! j) = pid (ps[k := p] ! j')" for j j'
    proof -
      have no: "pid (ps ! l) \<noteq> a" if "l < length ps" "used_process (ps ! l)" for l using pids_okD(1) [OF D(4) that] by auto
      have key: "l = k" if l: "l < length (ps[k := p])" "used_process (ps[k := p] ! l)" "pid (ps[k := p] ! l) = a" for l
        by (rule ccontr) (use l no [of l] in \<open>simp add: m\<close>)
      have i: "pid (ps[k := p] ! k) = a" using p(2) by (simp add: m)
      show ?thesis
      proof (cases "j = k \<or> j' = k")
        case True
        then show ?thesis using key [OF that(1,3)] key [OF that(2,4)] that(5) i by metis
      next
        case False
        then show ?thesis using that pids_okD(2) [OF D(4), of j j'] unfolding m by simp
      qed
    qed
  qed
  moreover have z: "threads_of a ts = 0" using threads_of_0 [OF D(5), of a] pids_okD(1) [OF D(4)] by fastforce
  moreover have "threads_ok ts (ps[k := p])"
  proof (rule threads_okI)
    show "\<exists>l < length (ps[k := p]). used_process (ps[k := p] ! l) \<and> pid (ps[k := p] ! l) = task_pid (ts ! j)"
      if j: "j < length ts" "live (ts ! j)" for j
    proof -
      obtain l where "l < length ps" "used_process (ps ! l)" "pid (ps ! l) = task_pid (ts ! j)"
        using threads_okD(1) [OF D(5) j] by blast
      then show ?thesis using k(2) unfolding m by (intro exI [of _ l]) auto
    qed
    show "unat (live_threads (ps[k := p] ! l)) = threads_of (pid (ps[k := p] ! l)) ts"
      if "l < length (ps[k := p])" "used_process (ps[k := p] ! l)" for l
      using that threads_okD(2) [OF D(5), of l] p z unfolding m by (auto split: if_splits)
  qed
  moreover have "unat (c + 1) = count_slots used_process (ps[k := p])"
    using count_slots_add [OF len, of used_process p] k p D(6) count_slots_le [of used_process ps] D(2)
    by (simp add: u32_small_succ)
  ultimately show ?thesis using D by (simp add: tables_inv_def)
qed

text \<open>A process with no live tasks is dropped; the next identifier may be larger.\<close>

lemma tables_inv_drop_process:
  assumes inv: "tables_inv ts ps a b c d" and k: "k < 8" "used_process (ps ! k)" "live_threads (ps ! k) = 0"
  shows "tables_inv ts (ps[k := clear_process]) a b (c - 1) d \<and> 0 < c"
proof -
  note D = tables_invD [OF inv]
  have len: "k < length ps" using D k by simp
  note m = nth_update [OF len, of clear_process]
  have cu: "\<not> used_process clear_process" by (simp add: clear_process_def)
  have z: "threads_of (pid (ps ! k)) ts = 0" using threads_okD(2) [OF D(5) len k(2)] k(3) by simp
  have c: "unat c = Suc (count_slots used_process (ps[k := clear_process]))"
    using count_slots_remove [OF len, of used_process clear_process] k cu D(6) by simp
  then have "unat (c - 1) = count_slots used_process (ps[k := clear_process])"
    using unat_sub [of 1 c] by (simp add: word_le_nat_alt)
  moreover have "pids_ok a (ps[k := clear_process])"
  proof (rule pids_okI)
    show "pid (ps[k := clear_process] ! j) \<noteq> 0 \<and> pid (ps[k := clear_process] ! j) < a"
      if "j < length (ps[k := clear_process])" "used_process (ps[k := clear_process] ! j)" for j
      using that pids_okD(1) [OF D(4), of j] cu unfolding m by (auto split: if_splits)
    show "j = j'" if "j < length (ps[k := clear_process])" "j' < length (ps[k := clear_process])"
      "used_process (ps[k := clear_process] ! j)" "used_process (ps[k := clear_process] ! j')"
      "pid (ps[k := clear_process] ! j) = pid (ps[k := clear_process] ! j')" for j j'
      using that pids_okD(2) [OF D(4), of j j'] cu unfolding m by (auto split: if_splits)
  qed
  moreover have "threads_ok ts (ps[k := clear_process])"
  proof (rule threads_okI)
    show "\<exists>l < length (ps[k := clear_process]). used_process (ps[k := clear_process] ! l) \<and>
        pid (ps[k := clear_process] ! l) = task_pid (ts ! j)" if j: "j < length ts" "live (ts ! j)" for j
    proof -
      obtain l where l: "l < length ps" "used_process (ps ! l)" "pid (ps ! l) = task_pid (ts ! j)"
        using threads_okD(1) [OF D(5) j] by blast
      have "0 < threads_of (task_pid (ts ! j)) ts" unfolding threads_of_def using j by (intro count_slots_pos) auto
      then have "l \<noteq> k" using z l(3) by auto
      then show ?thesis using l unfolding m by (intro exI [of _ l]) auto
    qed
    show "unat (live_threads (ps[k := clear_process] ! l)) = threads_of (pid (ps[k := clear_process] ! l)) ts"
      if "l < length (ps[k := clear_process])" "used_process (ps[k := clear_process] ! l)" for l
      using that threads_okD(2) [OF D(5), of l] cu unfolding m by (auto split: if_splits)
  qed
  ultimately show ?thesis using D c by (simp add: tables_inv_def word_less_nat_alt)
qed

text \<open>A free process entry replaced by a free one, and a larger next identifier.\<close>

lemma tables_inv_unused_process:
  assumes inv: "tables_inv ts ps a b c d" and k: "k < 8" "\<not> used_process (ps ! k)" and p: "\<not> used_process p" and a: "a \<le> a'"
  shows "tables_inv ts (ps[k := p]) a' b c d"
proof -
  note D = tables_invD [OF inv]
  have len: "k < length ps" using D k by simp
  note m = nth_update [OF len, of p]
  have view: "used_process (ps[k := p] ! j) = used_process (ps ! j)" "used_process (ps ! j) \<Longrightarrow> ps[k := p] ! j = ps ! j" for j
    using k p unfolding m by auto
  have "pids_ok a' (ps[k := p])"
  proof (rule pids_okI)
    show "pid (ps[k := p] ! j) \<noteq> 0 \<and> pid (ps[k := p] ! j) < a'" if "j < length (ps[k := p])" "used_process (ps[k := p] ! j)" for j
      using that pids_okD(1) [OF D(4), of j] a by (auto simp: view intro: order.strict_trans2)
    show "j = j'" if "j < length (ps[k := p])" "j' < length (ps[k := p])" "used_process (ps[k := p] ! j)" "used_process (ps[k := p] ! j')"
      "pid (ps[k := p] ! j) = pid (ps[k := p] ! j')" for j j'
      using that pids_okD(2) [OF D(4), of j j'] by (simp add: view)
  qed
  moreover have "threads_ok ts (ps[k := p])"
  proof (rule threads_okI)
    show "\<exists>l < length (ps[k := p]). used_process (ps[k := p] ! l) \<and> pid (ps[k := p] ! l) = task_pid (ts ! j)"
      if j: "j < length ts" "live (ts ! j)" for j
    proof -
      obtain l where "l < length ps" "used_process (ps ! l)" "pid (ps ! l) = task_pid (ts ! j)"
        using threads_okD(1) [OF D(5) j] by blast
      then show ?thesis by (intro exI [of _ l]) (simp add: view)
    qed
    show "unat (live_threads (ps[k := p] ! l)) = threads_of (pid (ps[k := p] ! l)) ts"
      if "l < length (ps[k := p])" "used_process (ps[k := p] ! l)" for l
      using that threads_okD(2) [OF D(5), of l] by (simp add: view)
  qed
  moreover have "count_slots used_process (ps[k := p]) = count_slots used_process ps"
    using k p by (intro count_slots_same [OF len]) simp
  ultimately show ?thesis using D by (simp add: tables_inv_def)
qed

end
