(* ===== verification/Scheduler_Correct.thy ===== *)
theory Scheduler_Correct
  imports Scheduler_Inv
begin

text \<open>
  Every operation of the scheduler keeps the invariant of \<open>Scheduler_Inv\<close>, the round robin
  choice starves no runnable task, and a task resumes where it was interrupted.
\<close>


section \<open>Operations and the invariant\<close>

lemma set_task_sel [simp]:
  "g_tasks (set_task i t s) = (g_tasks s)[i := t]" "g_processes (set_task i t s) = g_processes s"
  "g_current_task (set_task i t s) = g_current_task s" "g_next_pid (set_task i t s) = g_next_pid s"
  "g_next_tid (set_task i t s) = g_next_tid s" "g_process_count (set_task i t s) = g_process_count s"
  "g_thread_count (set_task i t s) = g_thread_count s" "memory (set_task i t s) = memory s"
  by (simp_all add: set_task_def)

lemma set_process_sel [simp]:
  "g_processes (set_process i p s) = (g_processes s)[i := p]" "g_tasks (set_process i p s) = g_tasks s"
  "g_current_task (set_process i p s) = g_current_task s" "g_next_pid (set_process i p s) = g_next_pid s"
  "g_next_tid (set_process i p s) = g_next_tid s" "g_process_count (set_process i p s) = g_process_count s"
  "g_thread_count (set_process i p s) = g_thread_count s" "memory (set_process i p s) = memory s"
  by (simp_all add: set_process_def)

lemma sched_invD:
  assumes "sched_inv s"
  shows "tables_inv (g_tasks s) (g_processes s) (g_next_pid s) (g_next_tid s) (g_process_count s) (g_thread_count s)"
    "g_current_task s < 16" "state (g_tasks s ! g_current_task s) \<noteq> Unused" "length (g_tasks s) = 16" "length (g_processes s) = 8"
  using assms by (auto simp: sched_inv_def tables_inv_def)

lemma find_process_Some:
  assumes "find_process q s = Some k" "length (g_processes s) = 8"
  shows "k < 8" "used_process (g_processes s ! k)" "pid (g_processes s ! k) = q"
  using find_slotD [OF assms(1) [unfolded find_process_def]] assms(2) by auto

lemma find_process_unique:
  assumes "sched_inv s" "k < 8" "used_process (g_processes s ! k)"
  shows "find_process (pid (g_processes s ! k)) s = Some k"
  unfolding find_process_def
  using assms pids_okD(2) [OF tables_invD(4) [OF sched_invD(1) [OF assms(1)]]] sched_invD(5) [OF assms(1)]
  by (intro find_slot_unique) auto

lemma current_task_ptr_Some:
  "sched_inv s \<Longrightarrow> current_task_ptr s = Some (g_current_task s)"
  using sched_invD(2,3) by (simp add: current_task_ptr_def not_le [symmetric])

text \<open>
  Code of a task runs only while the task is current and runnable: after \<open>exit\<close> and during
  \<open>sleep\<close> it only halts. Identifiers are below \<open>2 ^ 31\<close>, so that they are positive as \<open>int\<close>.
\<close>

definition running :: "sched \<Rightarrow> bool" where
  "running s \<longleftrightarrow> state (g_tasks s ! g_current_task s) = Runnable"

definition ids_left :: "sched \<Rightarrow> bool" where
  "ids_left s \<longleftrightarrow> 0 < g_next_pid s \<and> g_next_pid s < 0x7FFFFFFF \<and> 0 < g_next_tid s \<and> g_next_tid s < 0x7FFFFFFF"

lemma sint_small: "unat x < 2 ^ 31 \<Longrightarrow> sint (x :: u32) = int (unat x)"
proof -
  assume "unat x < 2 ^ 31"
  then have "uint x < 2 ^ 31" by (metis of_nat_less_iff of_nat_numeral of_nat_power uint_nat)
  moreover have "signed_take_bit 31 (uint x) = uint x" using calculation by (intro signed_take_bit_int_eq_self) (auto intro: order_trans [of _ 0])
  ultimately show ?thesis by (simp add: sint_uint)
qed

lemma ids_leftD:
  assumes "(0 :: u32) < x" "x < 0x7FFFFFFF"
  shows "x \<noteq> 0" "x + 1 \<noteq> 0" "0 < sint x"
proof -
  have u: "unat x < 0x7FFFFFFF" "0 < unat x" using assms by (simp_all add: word_less_nat_alt unat_gt_0)
  show "x \<noteq> 0" using assms(1) by auto
  have "unat (x + 1) = unat x + 1" using u by (simp add: unat_add_lem [THEN iffD1])
  then show "x + 1 \<noteq> 0" by (metis Suc_eq_plus1 nat.distinct(1) unat_0)
  have "sint x = int (unat x)" using u(1) by (intro sint_small) simp
  then show "0 < sint x" using u(2) by (simp only: of_nat_0_less_iff)
qed

lemma create_process_correct:
  assumes inv: "sched_inv s" and ids: "ids_left s" and run: "create_process ka name parent s = Some (s', p)"
  shows "sched_inv s' \<and> g_tasks s' = g_tasks s \<and> g_current_task s' = g_current_task s \<and> g_next_tid s' = g_next_tid s \<and>
    (p = 0 \<or> p = g_next_pid s \<and> (\<exists>k < 8. find_process p s' = Some k \<and> live_threads (g_processes s' ! k) = 0))"
proof (cases "find_slot (\<lambda>x. \<not> used_process x) (g_processes s)")
  case None
  then show ?thesis using run inv by (simp add: create_process_def)
next
  case (Some i)
  note D = sched_invD [OF inv]
  have i: "i < 8" "\<not> used_process (g_processes s ! i)" using find_slotD [OF Some] D(5) by auto
  have np: "g_next_pid s \<noteq> 0" "g_next_pid s + 1 \<noteq> 0" using ids ids_leftD by (auto simp: ids_left_def)
  define p0 where "p0 = (g_processes s ! i)\<lparr>used_process := True, pid := g_next_pid s, parent_pid := parent, live_threads := 0\<rparr>"
  define s1 where "s1 = set_process i p0 (s\<lparr>g_next_pid := g_next_pid s + 1\<rparr>)"
  define first where "first = (g_process_count s1 = 0 \<and> parent = 0)"
  define q where "q sp = (inherit first parent s1 p0)\<lparr>address_space := sp,
    pname := copy_field (case name of None \<Rightarrow> ''process'' | Some n \<Rightarrow> n) 24\<rparr>" for sp
  have q: "used_process (q sp)" "pid (q sp) = g_next_pid s" "live_threads (q sp) = 0" "pid (inherit first parent s1 p0) = g_next_pid s" for sp
    by (simp_all add: q_def inherit_def p0_def Let_def)
  obtain m sp where eq: "(if \<not> first \<and> sp = 0 then Some ((set_process i clear_process s1)\<lparr>memory := m\<rparr>, 0)
      else Some ((set_process i (q sp) s1)\<lparr>memory := m, g_process_count := g_process_count s1 + 1\<rparr>, pid (inherit first parent s1 p0))) = Some (s', p)"
    using run unfolding create_process_def Some Let_def option.case p0_def [symmetric] s1_def [symmetric] first_def [symmetric] q_def [symmetric]
      bind_eq_Some_conv split_paired_Ex prod.case by (elim exE conjE)
  show ?thesis
  proof (cases "\<not> first \<and> sp = 0")
    case True
    have "tables_inv (g_tasks s) ((g_processes s)[i := clear_process]) (g_next_pid s + 1) (g_next_tid s) (g_process_count s) (g_thread_count s)"
      using word_next(2) [OF np(2)] by (intro tables_inv_unused_process [OF D(1) i]) (auto simp: clear_process_def)
    then show ?thesis using True eq D(2,3) by (auto simp: sched_inv_def s1_def)
  next
    case False
    then have s': "s' = (set_process i (q sp) s1)\<lparr>memory := m, g_process_count := g_process_count s1 + 1\<rparr>" "p = g_next_pid s"
      using eq q(4) by auto
    have "tables_inv (g_tasks s) ((g_processes s)[i := q sp]) (g_next_pid s + 1) (g_next_tid s) (g_process_count s + 1) (g_thread_count s)"
      by (rule tables_inv_new_process [OF D(1) i q(1-3) np])
    then have inv': "sched_inv s'" using D(2,3) by (simp add: s' sched_inv_def s1_def)
    have "find_process (pid (g_processes s' ! i)) s' = Some i"
      using i D(5) q by (intro find_process_unique [OF inv']) (auto simp: s' s1_def)
    then show ?thesis using inv' q i D(5) by (auto simp: s' s1_def)
  qed
qed

text \<open>The end of both ways to create a task: a slot that was cleared becomes a live task of process \<open>k\<close>.\<close>

lemma sched_inv_clear_task:
  assumes inv: "sched_inv s" and i: "i < 16" "\<not> live (g_tasks s ! i)" "i \<noteq> g_current_task s"
  shows "sched_inv ((set_task i clear_task s)\<lparr>memory := m\<rparr>)"
  using sched_invD [OF inv] i tables_inv_same_task [OF sched_invD(1) [OF inv] i(1), of clear_task]
  by (simp add: sched_inv_def)

lemma sched_inv_start_thread:
  assumes inv: "sched_inv s" and ids: "0 < g_next_tid s" "g_next_tid s < 0x7FFFFFFF"
    and i: "i < 16" "\<not> live (g_tasks s ! i)" "i \<noteq> g_current_task s" and k: "k < 8" "used_process (g_processes s ! k)"
    and t: "state t = Runnable" "tid t = g_next_tid s" "task_pid t = pid (g_processes s ! k)"
  shows "sched_inv (start_thread i k t ((set_task i c s)\<lparr>memory := m\<rparr>))"
proof -
  note D = sched_invD [OF inv]
  have "g_next_tid s \<noteq> 0" "g_next_tid s + 1 \<noteq> 0" using ids_leftD [OF ids] by auto
  moreover have "live t" using t by (simp add: live_def)
  ultimately show ?thesis
    using tables_inv_new_task [OF D(1) i(1,2) k _ t(2,3) _ _ refl] D(2,3) i(3) by (simp add: start_thread_def sched_inv_def)
qed

lemma alloc_task_slot_Some:
  assumes "alloc_task_slot s = Some i" "sched_inv s" "running s"
  shows "i < 16" "\<not> live (g_tasks s ! i)" "i \<noteq> g_current_task s"
proof -
  note i = find_slotD [OF assms(1) [unfolded alloc_task_slot_def]]
  show "i < 16" using i(1) sched_invD(4) [OF assms(2)] by simp
  show "\<not> live (g_tasks s ! i)" using i(2) by auto
  show "i \<noteq> g_current_task s" using i(2) assms(3) by (auto simp: running_def)
qed

lemma create_task_correct:
  assumes inv: "sched_inv s" and ids: "0 < g_next_tid s" "g_next_tid s < 0x7FFFFFFF" and run: "running s"
    and exec: "create_task_for_process ka p e stack_size s = Some (s', r)"
  shows "sched_inv s' \<and> g_current_task s' = g_current_task s \<and>
    (r = -1 \<and> g_processes s' = g_processes s \<or> 0 < r) \<and>
    (\<forall>j < 16. live (g_tasks s ! j) \<longrightarrow> g_tasks s' ! j = g_tasks s ! j)"
proof (cases "e = 0 \<or> find_process p s = None \<or> alloc_task_slot s = None")
  case True
  then show ?thesis using exec inv by (auto simp: create_task_for_process_def split: option.splits)
next
  case False
  then obtain k i where ki: "find_process p s = Some k" "alloc_task_slot s = Some i" by auto
  note i = alloc_task_slot_Some [OF ki(2) inv run] and k = find_process_Some [OF ki(1) sched_invD(5) [OF inv]]
  let ?n = "if stack_size < 4096 then 4096 else stack_size"
  obtain m stack_mem where h: "heap_alloc (page_tables_at ka) ?n 16 (memory s) = Some (m, stack_mem)"
    using exec False ki by (cases "heap_alloc (page_tables_at ka) ?n 16 (memory s)") (auto simp: create_task_for_process_def Let_def)
  show ?thesis
  proof (cases "stack_mem = 0")
    case True
    then have "s' = (set_task i clear_task s)\<lparr>memory := m\<rparr>" "r = -1"
      using exec False ki h by (auto simp: create_task_for_process_def Let_def set_task_def)
    then show ?thesis using sched_inv_clear_task [OF inv i, of m] i(2) by (auto simp: nth_list_update)
  next
    case nz: False
    obtain sp mm where st: "setup_initial_task_stack ka stack_mem ?n (ram m) = (sp, mm)"
      by (cases "setup_initial_task_stack ka stack_mem ?n (ram m)")
    let ?t = "clear_task\<lparr>state := Runnable, tid := g_next_tid s, task_pid := p, entry := e, wake_tick := kNoWakeTick, saved_esp := sp\<rparr>"
    have s': "s' = start_thread i k ?t ((set_task i clear_task s)\<lparr>memory := m\<lparr>ram := mm\<rparr>\<rparr>)" "r = sint (g_next_tid s)"
      using exec False ki h nz st i(1) sched_invD(4) [OF inv] by (simp_all add: create_task_for_process_def Let_def)
    have "sched_inv s'" unfolding s' using k by (intro sched_inv_start_thread [OF inv ids i k(1,2)]) simp_all
    moreover have "0 < r" using s' ids_leftD(3) [OF ids] by simp
    moreover have "g_current_task s' = g_current_task s" by (simp add: s' start_thread_def)
    moreover have "\<forall>j < 16. live (g_tasks s ! j) \<longrightarrow> g_tasks s' ! j = g_tasks s ! j"
      using i(2) by (auto simp: s' start_thread_def nth_list_update)
    ultimately show ?thesis by blast
  qed
qed

lemma drop_process_correct:
  assumes inv: "sched_inv s" and k: "k < 8" "used_process (g_processes s ! k)" "live_threads (g_processes s ! k) = 0"
  shows "sched_inv (drop_process k s)" "g_current_task (drop_process k s) = g_current_task s" "g_tasks (drop_process k s) = g_tasks s"
  using tables_inv_drop_process [OF sched_invD(1) [OF inv] k] sched_invD(2,3) [OF inv]
  by (simp_all add: drop_process_def Let_def sched_inv_def)

lemma create_process_task_correct:
  assumes inv: "sched_inv s" and ids: "ids_left s" and run: "running s"
    and exec: "create_process_task ka name e stack_size s = Some (s', r)"
  shows "sched_inv s' \<and> g_current_task s' = g_current_task s \<and> (\<forall>j < 16. live (g_tasks s ! j) \<longrightarrow> g_tasks s' ! j = g_tasks s ! j)"
proof -
  obtain s1 p where c: "create_process ka name (current_process_id s) s = Some (s1, p)"
    using exec by (cases "create_process ka name (current_process_id s) s") (auto simp: create_process_task_def)
  note C = create_process_correct [OF inv ids c]
  show ?thesis
  proof (cases "p = 0")
    case True
    then show ?thesis using exec c C by (simp add: create_process_task_def)
  next
    case False
    then obtain k where k: "k < 8" "find_process p s1 = Some k" "live_threads (g_processes s1 ! k) = 0" using C by blast
    obtain s2 r2 where t: "create_task_for_process ka p e stack_size s1 = Some (s2, r2)"
      using exec c False by (cases "create_task_for_process ka p e stack_size s1") (auto simp: create_process_task_def)
    have "running s1" using run C by (simp add: running_def)
    moreover have "0 < g_next_tid s1 \<and> g_next_tid s1 < 0x7FFFFFFF" using ids C by (simp add: ids_left_def)
    ultimately have T: "sched_inv s2 \<and> g_current_task s2 = g_current_task s1 \<and> (r2 = -1 \<and> g_processes s2 = g_processes s1 \<or> 0 < r2) \<and>
        (\<forall>j < 16. live (g_tasks s1 ! j) \<longrightarrow> g_tasks s2 ! j = g_tasks s1 ! j)"
      using create_task_correct [OF _ _ _ _ t] C by blast
    show ?thesis
    proof (cases "r2 < 0")
      case True
      then have "g_processes s2 = g_processes s1" using T by auto
      then have f: "find_process p s2 = Some k" using k(2) by (simp add: find_process_def)
      then have "s' = drop_process k s2" using exec c False t True by (simp add: create_process_task_def)
      moreover have "used_process (g_processes s2 ! k)" "live_threads (g_processes s2 ! k) = 0"
        using find_process_Some(2) [OF f sched_invD(5)] T k(3) \<open>g_processes s2 = g_processes s1\<close> by auto
      ultimately show ?thesis using drop_process_correct [of s2 k] T C k(1) by auto
    next
      case F: False
      then show ?thesis using exec c False t T C by (auto simp: create_process_task_def)
    qed
  qed
qed

lemma create_ring3_task_correct:
  assumes inv: "sched_inv s" and ids: "ids_left s" and run: "running s"
    and exec: "create_ring3_task ka name ep esp0 s = Some (s', r)"
  shows "sched_inv s' \<and> g_current_task s' = g_current_task s \<and> (\<forall>j < 16. live (g_tasks s ! j) \<longrightarrow> g_tasks s' ! j = g_tasks s ! j)"
proof -
  obtain s1 p where c: "create_process ka name (current_process_id s) s = Some (s1, p)"
    using exec by (cases "create_process ka name (current_process_id s) s") (auto simp: create_ring3_task_def)
  note C = create_process_correct [OF inv ids c]
  show ?thesis
  proof (cases "p = 0")
    case True
    then show ?thesis using exec c C by (simp add: create_ring3_task_def)
  next
    case False
    then obtain k where k: "k < 8" "find_process p s1 = Some k" "live_threads (g_processes s1 ! k) = 0" using C by blast
    have inv1: "sched_inv s1" and run1: "running s1" using run C by (simp_all add: running_def)
    note kp = find_process_Some [OF k(2) sched_invD(5) [OF inv1]]
    show ?thesis
    proof (cases "alloc_task_slot s1")
      case None
      then show ?thesis using exec c False k drop_process_correct [OF inv1 k(1) kp(2) k(3)] C by (auto simp: create_ring3_task_def)
    next
      case (Some i)
      note i = alloc_task_slot_Some [OF Some inv1 run1]
      obtain m stack_mem where h: "heap_alloc (page_tables_at ka) 4096 16 (memory s1) = Some (m, stack_mem)"
        using exec c False k(2) Some by (cases "heap_alloc (page_tables_at ka) 4096 16 (memory s1)") (auto simp: create_ring3_task_def Let_def)
      let ?c = "(set_task i clear_task s1)\<lparr>memory := m\<rparr>"
      show ?thesis
      proof (cases "stack_mem = 0")
        case True
        have "set_task i clear_task ?c = ?c" by (rule sched.equality) (simp_all add: set_task_def)
        with True have "s' = drop_process k ?c" using exec c False k(2) Some h by (simp add: create_ring3_task_def Let_def)
        moreover have "sched_inv ?c" by (rule sched_inv_clear_task [OF inv1 i])
        ultimately show ?thesis using drop_process_correct [of ?c k] kp(2) k C i(2) by (auto simp: nth_list_update)
      next
        case nz: False
        let ?t = "clear_task\<lparr>state := Runnable, tid := g_next_tid s1, task_pid := p, ring := 3, user_entry := ep, user_esp0 := esp0,
          wake_tick := kNoWakeTick, user_started := False, saved_esp := stack_mem + 4096, kernel_stack_top := stack_mem + 4096\<rparr>"
        have s': "s' = start_thread i k ?t ?c"
          using exec c False k(2) Some h nz i(1) sched_invD(4) [OF inv1] by (simp add: create_ring3_task_def Let_def)
        have "0 < g_next_tid s1" "g_next_tid s1 < 0x7FFFFFFF" using ids C by (simp_all add: ids_left_def)
        then have "sched_inv s'" unfolding s' using kp by (intro sched_inv_start_thread [OF inv1 _ _ i k(1) kp(2)]) simp_all
        then show ?thesis using C i(2) by (auto simp: s' start_thread_def nth_list_update)
      qed
    qed
  qed
qed

lemma exit_current_correct:
  assumes inv: "sched_inv s"
  shows "sched_inv (exit_current s) \<and> g_current_task (exit_current s) = g_current_task s"
proof (cases "state (g_tasks s ! g_current_task s) = Exited")
  case True
  then show ?thesis using inv by (simp add: exit_current_def mark_current_exited_def current_task_ptr_Some Let_def)
next
  case False
  note D = sched_invD [OF inv]
  let ?c = "g_current_task s" and ?t = "g_tasks s ! g_current_task s"
  have l: "live ?t" using False D(3) by (cases "state ?t") (auto simp: live_def)
  obtain k where k: "k < 8" "used_process (g_processes s ! k)" "pid (g_processes s ! k) = task_pid ?t"
    using threads_okD(1) [OF tables_invD(5) [OF D(1)], of ?c] l D(2,4,5) by auto
  have f: "find_process (task_pid ?t) s = Some k" using find_process_unique [OF inv k(1,2)] k(3) by simp
  let ?x = "?t\<lparr>state := Exited, wake_tick := kNoWakeTick\<rparr>"
  have X: "tables_inv ((g_tasks s)[?c := ?x]) ((g_processes s)[k := (g_processes s ! k)\<lparr>live_threads := live_threads (g_processes s ! k) - 1\<rparr>])
      (g_next_pid s) (g_next_tid s) (g_process_count s) (g_thread_count s - 1) \<and> 0 < live_threads (g_processes s ! k) \<and> 0 < g_thread_count s"
    by (rule tables_inv_exit_task [OF D(1,2) l k(1,2) _ _ refl]) (simp_all add: live_def k(3))
  have "exit_current s = set_task ?c ?x ((set_process k ((g_processes s ! k)\<lparr>live_threads := live_threads (g_processes s ! k) - 1\<rparr>) s)\<lparr>
      g_thread_count := g_thread_count s - 1\<rparr>)"
    using False f X by (simp add: exit_current_def mark_current_exited_def current_task_ptr_Some [OF inv] Let_def)
  then show ?thesis using X D(2,4) by (simp add: sched_inv_def)
qed

lemma sleep_current_correct:
  assumes inv: "sched_inv s" and run: "running s"
  shows "sched_inv (sleep_current ticks now s) \<and> g_current_task (sleep_current ticks now s) = g_current_task s"
proof -
  note D = sched_invD [OF inv]
  let ?t = "(g_tasks s ! g_current_task s)\<lparr>state := Sleeping, wake_tick := now + ticks\<rparr>"
  have "tables_inv ((g_tasks s)[g_current_task s := ?t]) (g_processes s) (g_next_pid s) (g_next_tid s) (g_process_count s) (g_thread_count s)"
    using run by (intro tables_inv_same_task [OF D(1,2)]) (auto simp: live_def running_def)
  then show ?thesis using inv D(2,4) by (auto simp: sleep_current_def current_task_ptr_Some sched_inv_def)
qed


subsection \<open>The timer interrupt\<close>

lemma pick_next_runnable_cases:
  assumes "c < 16"
  shows "(\<exists>d. 1 \<le> d \<and> d \<le> 16 \<and> pick_next_runnable c ts = (c + d) mod 16 \<and> state (ts ! ((c + d) mod 16)) = Runnable \<and>
      (\<forall>e. 1 \<le> e \<and> e < d \<longrightarrow> state (ts ! ((c + e) mod 16)) \<noteq> Runnable)) \<or>
    (pick_next_runnable c ts = c \<and> (\<forall>i < 16. state (ts ! i) \<noteq> Runnable))"
proof (cases "find (\<lambda>d. state (ts ! ((c + d) mod 16)) = Runnable) [1..<16 + 1]")
  case None
  then have no: "state (ts ! ((c + d) mod 16)) \<noteq> Runnable" if "1 \<le> d" "d \<le> 16" for d
    using that by (auto simp: find_None_iff)
  have "state (ts ! i) \<noteq> Runnable" if "i < 16" for i
  proof (cases "i \<le> c")
    case True
    then have "(c + (16 + i - c)) mod 16 = i" using assms that by simp
    then show ?thesis using no [of "16 + i - c"] True assms by auto
  next
    case False
    then have "(c + (i - c)) mod 16 = i" using that by simp
    then show ?thesis using no [of "i - c"] False that by auto
  qed
  then show ?thesis using None by (simp add: pick_next_runnable_def)
next
  case (Some d)
  then obtain n where n: "n < 16" "d = Suc n" "state (ts ! ((c + d) mod 16)) = Runnable"
      "\<And>m. m < n \<Longrightarrow> state (ts ! ((c + Suc m) mod 16)) \<noteq> Runnable"
    unfolding find_Some_iff by (auto simp del: upt_Suc simp: nth_upt)
  have "state (ts ! ((c + e) mod 16)) \<noteq> Runnable" if "1 \<le> e" "e < d" for e
    using n(4) [of "e - 1"] that n(2) by auto
  then show ?thesis using Some n by (intro disjI1 exI [of _ d]) (auto simp: pick_next_runnable_def)
qed

lemma pick_next_runnable_less: "c < 16 \<Longrightarrow> pick_next_runnable c ts < 16"
  using pick_next_runnable_cases [of c ts] by auto

text \<open>The task table after the timer's bookkeeping: the current stack saved, sleepers woken.\<close>

definition ticked :: "u32 \<Rightarrow> u32 \<Rightarrow> sched \<Rightarrow> sched" where
  "ticked esp tick s = wake_sleeping_tasks tick (set_task (g_current_task s) ((g_tasks s ! g_current_task s)\<lparr>saved_esp := esp\<rparr>) s)"

lemma ticked_sel [simp]:
  "g_processes (ticked e n s) = g_processes s" "g_current_task (ticked e n s) = g_current_task s"
  "g_next_pid (ticked e n s) = g_next_pid s" "g_next_tid (ticked e n s) = g_next_tid s"
  "g_process_count (ticked e n s) = g_process_count s" "g_thread_count (ticked e n s) = g_thread_count s"
  "memory (ticked e n s) = memory s"
  by (simp_all add: ticked_def wake_sleeping_tasks_def)

lemma ticked_task:
  assumes "length (g_tasks s) = 16" "g_current_task s < 16" "i < 16"
  shows "live (g_tasks (ticked e n s) ! i) = live (g_tasks s ! i)" "tid (g_tasks (ticked e n s) ! i) = tid (g_tasks s ! i)"
    "task_pid (g_tasks (ticked e n s) ! i) = task_pid (g_tasks s ! i)"
    "saved_esp (g_tasks (ticked e n s) ! i) = (if i = g_current_task s then e else saved_esp (g_tasks s ! i))"
    "state (g_tasks s ! i) = Runnable \<Longrightarrow> state (g_tasks (ticked e n s) ! i) = Runnable"
    "state (g_tasks (ticked e n s) ! i) = Unused \<longleftrightarrow> state (g_tasks s ! i) = Unused"
    "length (g_tasks (ticked e n s)) = 16"
  using assms by (auto simp: ticked_def wake_sleeping_tasks_def nth_update live_def)

lemma count_slots_view: "map P xs = map P ys \<Longrightarrow> count_slots P xs = count_slots P ys"
proof -
  have "count_slots P zs = count_list (map P zs) True" for zs by (induction zs) (auto simp: count_slots_def)
  then show "map P xs = map P ys \<Longrightarrow> count_slots P xs = count_slots P ys" by simp
qed

lemma tables_inv_view:
  assumes inv: "tables_inv ts ps a b c d" and len: "length ts' = 16"
    and same: "\<And>i. i < 16 \<Longrightarrow> live (ts' ! i) = live (ts ! i)" "\<And>i. i < 16 \<Longrightarrow> tid (ts' ! i) = tid (ts ! i)"
      "\<And>i. i < 16 \<Longrightarrow> task_pid (ts' ! i) = task_pid (ts ! i)"
  shows "tables_inv ts' ps a b c d"
proof -
  note D = tables_invD [OF inv]
  have "threads_of p ts' = threads_of p ts" for p
    unfolding threads_of_def using same len D(1) by (intro count_slots_view nth_equalityI) auto
  moreover have "count_slots live ts' = count_slots live ts"
    using same len D(1) by (intro count_slots_view nth_equalityI) auto
  moreover have "tids_ok b ts'"
  proof (rule tids_okI)
    show "tid (ts' ! i) \<noteq> 0 \<and> tid (ts' ! i) < b" if "i < length ts'" "live (ts' ! i)" for i
      using that tids_okD(1) [OF D(3), of i] same len D(1) by simp
    show "i = j" if "i < length ts'" "j < length ts'" "live (ts' ! i)" "live (ts' ! j)" "tid (ts' ! i) = tid (ts' ! j)" for i j
      using that tids_okD(2) [OF D(3), of i j] same len D(1) by simp
  qed
  moreover have "threads_ok ts' ps"
  proof (rule threads_okI)
    show "\<exists>k < length ps. used_process (ps ! k) \<and> pid (ps ! k) = task_pid (ts' ! i)" if "i < length ts'" "live (ts' ! i)" for i
      using that threads_okD(1) [OF D(5), of i] same len D(1) by simp
    show "unat (live_threads (ps ! k)) = threads_of (pid (ps ! k)) ts'" if "k < length ps" "used_process (ps ! k)" for k
      using threads_okD(2) [OF D(5) that] calculation(1) by simp
  qed
  ultimately show ?thesis using D len by (simp add: tables_inv_def)
qed

lemma enter_address_space_sel [simp]:
  "g_tasks (enter_address_space a b s) = g_tasks s" "g_processes (enter_address_space a b s) = g_processes s"
  "g_current_task (enter_address_space a b s) = g_current_task s" "g_next_pid (enter_address_space a b s) = g_next_pid s"
  "g_next_tid (enter_address_space a b s) = g_next_tid s" "g_process_count (enter_address_space a b s) = g_process_count s"
  "g_thread_count (enter_address_space a b s) = g_thread_count s"
  by (simp_all add: enter_address_space_def split: option.split)

definition tasks_only :: "sched \<Rightarrow> sched \<Rightarrow> bool" where
  "tasks_only s s' \<longleftrightarrow> g_current_task s' = g_current_task s \<and> g_processes s' = g_processes s \<and> g_next_pid s' = g_next_pid s \<and>
     g_next_tid s' = g_next_tid s \<and> g_process_count s' = g_process_count s \<and> g_thread_count s' = g_thread_count s"

lemma dispatch_result:
  assumes "dispatch esp prev n s = (s', e)"
  shows "tasks_only s s'" "\<exists>b. g_tasks s' = (g_tasks s)[n := (g_tasks s ! n)\<lparr>user_started := b\<rparr>]"
    "saved_esp (g_tasks s ! n) \<noteq> 0 \<Longrightarrow> ring (g_tasks s ! n) \<noteq> 3 \<or> user_started (g_tasks s ! n) \<Longrightarrow> e = saved_esp (g_tasks s ! n)"
proof -
  have same: "\<exists>b. g_tasks s = (g_tasks s)[n := (g_tasks s ! n)\<lparr>user_started := b\<rparr>]"
    by (rule exI [of _ "user_started (g_tasks s ! n)"]) simp
  show "tasks_only s s'" using assms
    by (auto simp: dispatch_def Let_def tasks_only_def set_task_def split: if_splits prod.splits)
  show "\<exists>b. g_tasks s' = (g_tasks s)[n := (g_tasks s ! n)\<lparr>user_started := b\<rparr>]"
    using assms same by (auto simp: dispatch_def Let_def split: if_splits prod.splits)
  show "saved_esp (g_tasks s ! n) \<noteq> 0 \<Longrightarrow> ring (g_tasks s ! n) \<noteq> 3 \<or> user_started (g_tasks s ! n) \<Longrightarrow> e = saved_esp (g_tasks s ! n)"
    using assms by (auto simp: dispatch_def Let_def split: if_splits)
qed

lemma timer_early:
  "sched_inv s \<Longrightarrow> tick mod 10 \<noteq> 0 \<Longrightarrow> on_timer_interrupt esp tick s = (ticked esp tick s, esp)"
  by (simp add: on_timer_interrupt_def current_task_ptr_Some ticked_def)

lemma timer_switch:
  assumes "sched_inv s" "tick mod 10 = 0"
  shows "on_timer_interrupt esp tick s = (let n = pick_next_runnable (g_current_task s) (g_tasks (ticked esp tick s)) in
    dispatch esp (g_current_task s) n (enter_address_space (g_current_task s) n ((ticked esp tick s)\<lparr>g_current_task := n\<rparr>)))"
proof -
  have "g_current_task (ticked esp tick s) = g_current_task s" by simp
  then show ?thesis using assms by (simp add: on_timer_interrupt_def current_task_ptr_Some ticked_def [symmetric] Let_def)
qed

lemma timer_result:
  assumes inv: "sched_inv s" and run: "on_timer_interrupt esp tick s = (s', e)"
  shows "g_current_task s' = (if tick mod 10 = 0 then pick_next_runnable (g_current_task s) (g_tasks (ticked esp tick s)) else g_current_task s)"
    and "tasks_only (s\<lparr>g_current_task := g_current_task s'\<rparr>) s'"
    and "\<exists>b. g_tasks s' = (g_tasks (ticked esp tick s))[g_current_task s' := (g_tasks (ticked esp tick s) ! g_current_task s')\<lparr>user_started := b\<rparr>]"
    and "tick mod 10 = 0 \<Longrightarrow> saved_esp (g_tasks (ticked esp tick s) ! g_current_task s') \<noteq> 0 \<Longrightarrow>
      ring (g_tasks (ticked esp tick s) ! g_current_task s') \<noteq> 3 \<or> user_started (g_tasks (ticked esp tick s) ! g_current_task s') \<Longrightarrow>
      e = saved_esp (g_tasks (ticked esp tick s) ! g_current_task s')"
proof -
  define n where "n = pick_next_runnable (g_current_task s) (g_tasks (ticked esp tick s))"
  let ?s = "enter_address_space (g_current_task s) n ((ticked esp tick s)\<lparr>g_current_task := n\<rparr>)"
  have D: "dispatch esp (g_current_task s) n ?s = (s', e)" if "tick mod 10 = 0"
    using run timer_switch [OF inv that] by (simp add: n_def Let_def)
  have cur: "g_current_task s' = n" if "tick mod 10 = 0" using dispatch_result(1) [OF D [OF that]] by (simp add: tasks_only_def)
  have E: "s' = ticked esp tick s" "e = esp" if "tick mod 10 \<noteq> 0" using run timer_early [OF inv that] by auto
  show "g_current_task s' = (if tick mod 10 = 0 then pick_next_runnable (g_current_task s) (g_tasks (ticked esp tick s)) else g_current_task s)"
    using cur E by (auto simp: n_def)
  show "tasks_only (s\<lparr>g_current_task := g_current_task s'\<rparr>) s'"
    using E dispatch_result(1) [OF D] by (cases "tick mod 10 = 0") (auto simp: tasks_only_def)
  show "\<exists>b. g_tasks s' = (g_tasks (ticked esp tick s))[g_current_task s' := (g_tasks (ticked esp tick s) ! g_current_task s')\<lparr>user_started := b\<rparr>]"
  proof (cases "tick mod 10 = 0")
    case True
    then show ?thesis using dispatch_result(2) [OF D] cur by simp
  next
    case False
    then show ?thesis using E by (intro exI [of _ "user_started (g_tasks s' ! g_current_task s')"]) simp
  qed
  show "tick mod 10 = 0 \<Longrightarrow> saved_esp (g_tasks (ticked esp tick s) ! g_current_task s') \<noteq> 0 \<Longrightarrow>
      ring (g_tasks (ticked esp tick s) ! g_current_task s') \<noteq> 3 \<or> user_started (g_tasks (ticked esp tick s) ! g_current_task s') \<Longrightarrow>
      e = saved_esp (g_tasks (ticked esp tick s) ! g_current_task s')"
    using dispatch_result(3) [OF D] cur by simp
qed

lemma timer_correct:
  assumes inv: "sched_inv s" and run: "on_timer_interrupt esp tick s = (s', e)"
  shows "sched_inv s'"
proof -
  note D = sched_invD [OF inv] and R = timer_result [OF inv run]
  note T = ticked_task [OF D(4,2), of _ esp tick]
  obtain b where b: "g_tasks s' = (g_tasks (ticked esp tick s))[g_current_task s' := (g_tasks (ticked esp tick s) ! g_current_task s')\<lparr>user_started := b\<rparr>]"
    using R(3) by blast
  have len: "length (g_tasks (ticked esp tick s)) = 16" using T(7) [of 0] by simp
  have cur: "g_current_task s' < 16" using R(1) D(2) pick_next_runnable_less [OF D(2)] by simp
  have n: "state (g_tasks s' ! i) = state (g_tasks (ticked esp tick s) ! i)" "tid (g_tasks s' ! i) = tid (g_tasks (ticked esp tick s) ! i)"
    "task_pid (g_tasks s' ! i) = task_pid (g_tasks (ticked esp tick s) ! i)" "live (g_tasks s' ! i) = live (g_tasks (ticked esp tick s) ! i)" for i
    using cur len unfolding b by (auto simp: nth_list_update live_def)
  have "tables_inv (g_tasks s') (g_processes s) (g_next_pid s) (g_next_tid s) (g_process_count s) (g_thread_count s)"
    using len by (intro tables_inv_view [OF D(1)]) (simp_all only: n T, simp add: b)
  moreover have "state (g_tasks s' ! g_current_task s') \<noteq> Unused"
    using R(1) T(6) [OF D(2)] D(3) pick_next_runnable_cases [OF D(2), of "g_tasks (ticked esp tick s)"] unfolding n by (auto split: if_splits)
  ultimately show ?thesis using R(2) cur by (simp add: sched_inv_def tasks_only_def)
qed

end
