(* ===== verification/Scheduler_Run.thy ===== *)
theory Scheduler_Run
  imports Scheduler_Correct
begin

text \<open>
  Runs of the scheduler: interleavings of timer interrupts and calls from the running task,
  and the properties of the component.
\<close>


section \<open>Definitions\<close>

datatype sched_event =
    Timer u32 u32
  | New_Kernel_Task u32 u32
  | New_Process "cstring option" u32 u32
  | New_Ring3 "cstring option" u32 u32
  | Exit
  | Sleep u32 u32
  | Entry_Return

fun sched_exec :: "kernel_addrs \<Rightarrow> sched_event \<Rightarrow> sched \<Rightarrow> sched option" where
  "sched_exec ka (Timer esp tick) s = Some (fst (on_timer_interrupt esp tick s))"
| "sched_exec ka (New_Kernel_Task e n) s = map_option fst (create_kernel_task ka e n s)"
| "sched_exec ka (New_Process name e n) s = map_option fst (create_process_task ka name e n s)"
| "sched_exec ka (New_Ring3 name ep esp) s = map_option fst (create_ring3_task ka name ep esp s)"
| "sched_exec ka Exit s = Some (exit_current s)"
| "sched_exec ka (Sleep ticks now) s = Some (sleep_current ticks now s)"
| "sched_exec ka Entry_Return s = Some (task_entry_return s)"

text \<open>
  A run is a sequence of whole calls: the timer interrupt between them at any moment, an exit at any moment, a sleep and a
  creation by a current task that is runnable, a creation while the counters of identifiers are below \<open>0x7FFFFFFF\<close>. The code does not
  check the last two: a task that has exited and still calls \<open>sleep_current\<close> is live again after the counters were taken down for it.
\<close>

fun event_ok :: "sched_event \<Rightarrow> sched \<Rightarrow> bool" where
  "event_ok (Timer esp tick) s = True"
| "event_ok Exit s = True"
| "event_ok Entry_Return s = True"
| "event_ok (Sleep ticks now) s = running s"
| "event_ok _ s = (running s \<and> ids_left s)"

inductive sched_trace :: "kernel_addrs \<Rightarrow> sched \<Rightarrow> (sched_event \<times> sched) list \<Rightarrow> bool"
  for ka :: kernel_addrs where
  trace_Nil: "sched_trace ka s []"
| trace_Cons: "event_ok ev s \<Longrightarrow> sched_exec ka ev s = Some s' \<Longrightarrow> sched_trace ka s' tr \<Longrightarrow>
    sched_trace ka s ((ev, s') # tr)"

inductive_cases trace_ConsE: "sched_trace ka s (x # tr)"

fun quantum :: "sched_event \<Rightarrow> bool" where
  "quantum (Timer esp tick) = (tick mod kQuantumTicks = 0)"
| "quantum _ = False"


section \<open>Initial state\<close>

lemma tables_inv_clear: "tables_inv (replicate 16 clear_task) (replicate 8 clear_process) 1 1 0 0"
  by (simp add: tables_inv_def tids_ok_def pids_ok_def threads_ok_def clear_process_def count_slots_replicate nth_replicate cong: conj_cong)

definition kernel_task :: "u32 \<Rightarrow> task" where
  "kernel_task esp = clear_task\<lparr>state := Runnable, tid := 1, task_pid := 1, saved_esp := esp\<rparr>"

definition kernel_process :: "kernel_addrs \<Rightarrow> u32 \<Rightarrow> process" where
  "kernel_process ka n = clear_process\<lparr>used_process := True, pid := 1, home := ''/root'', pname := ''kernel'',
     address_space := page_directory_at ka, live_threads := n\<rparr>"

lemma find_slot_hd: "P x \<Longrightarrow> find_slot P ((replicate (Suc n) y)[0 := x]) = Some 0"
  by (simp add: find_slot_def)

lemma scheduler_init_eq:
  "scheduler_init ka esp s = Some (s\<lparr>g_tasks := (replicate 16 clear_task)[0 := kernel_task esp],
     g_processes := (replicate 8 clear_process)[0 := kernel_process ka 1], g_current_task := 0, g_next_pid := 2, g_next_tid := 2,
     g_process_count := 1, g_thread_count := 1\<rparr>)"
proof -
  let ?s0 = "s\<lparr>g_tasks := replicate 16 clear_task, g_processes := replicate 8 clear_process,
    g_current_task := 0, g_next_pid := 1, g_next_tid := 1, g_process_count := 0, g_thread_count := 0\<rparr>"
  let ?s1 = "?s0\<lparr>g_next_pid := 2, g_processes := (replicate 8 clear_process)[0 := kernel_process ka 0], g_process_count := 1\<rparr>"
  have f0: "find_slot (\<lambda>x. \<not> used_process x) (replicate 8 clear_process) = Some 0"
    by (simp add: find_slot_Some_iff clear_process_def nth_replicate)
  have c: "create_process ka (Some ''kernel'') 0 ?s0 = Some (?s1, 1)"
    by (simp add: create_process_def f0 Let_def inherit_def set_process_def kernel_process_def copy_field_def kernel_address_space_def)
      (simp add: clear_process_def)
  have f1: "find_process 1 ?s1 = Some 0"
    using find_slot_hd [of "\<lambda>x. used_process x \<and> pid x = 1" "kernel_process ka 0" 7 clear_process]
    by (simp add: find_process_def kernel_process_def)
  show ?thesis unfolding scheduler_init_def c Option.bind.simps prod.case f1
    by (simp add: Let_def f1 set_task_def set_process_def kernel_task_def kernel_process_def clear_task_def)
qed

lemma scheduler_init_correct:
  "\<exists>s'. scheduler_init ka esp s = Some s' \<and> sched_inv s' \<and> running s' \<and> ids_left s' \<and> thread_count s' = 1 \<and> process_count s' = 1"
proof -
  have 1: "tables_inv (replicate 16 clear_task) ((replicate 8 clear_process)[0 := kernel_process ka 0]) (1 + 1) 1 (0 + 1) 0"
    by (rule tables_inv_new_process [OF tables_inv_clear]) (simp_all add: kernel_process_def clear_process_def)
  have "tables_inv ((replicate 16 clear_task)[0 := kernel_task esp]) (((replicate 8 clear_process)[0 := kernel_process ka 0])[0 := kernel_process ka 1]) (1 + 1) (1 + 1) (0 + 1) (0 + 1)"
    by (rule tables_inv_new_task [OF 1]) (simp_all add: live_def kernel_process_def kernel_task_def clear_task_def)
  then show ?thesis unfolding scheduler_init_eq
    by (simp add: sched_inv_def running_def ids_left_def thread_count_def process_count_def kernel_task_def)
qed

lemma exec_correct:
  assumes inv: "sched_inv s" and ok: "event_ok ev s" and run: "sched_exec ka ev s = Some s'"
  shows "sched_inv s' \<and> (quantum ev \<or> g_current_task s' = g_current_task s)"
proof (cases ev)
  case (Timer esp tick)
  obtain e where t: "on_timer_interrupt esp tick s = (s', e)" using run Timer by (cases "on_timer_interrupt esp tick s") auto
  then show ?thesis using timer_correct [OF inv t] timer_result(1) [OF inv t] Timer by auto
next
  case (New_Kernel_Task e n)
  then obtain r where "create_task_for_process ka 1 e n s = Some (s', r)" using run by (auto simp: create_kernel_task_def)
  then show ?thesis using create_task_correct [OF inv] ok New_Kernel_Task by (auto simp: ids_left_def)
next
  case (New_Process name e n)
  then show ?thesis using create_process_task_correct [OF inv] ok run by fastforce
next
  case (New_Ring3 name ep esp)
  then show ?thesis using create_ring3_task_correct [OF inv] ok run by fastforce
next
  case Exit
  then show ?thesis using exit_current_correct [OF inv] run by auto
next
  case (Sleep ticks now)
  then show ?thesis using sleep_current_correct [OF inv] ok run by auto
next
  case Entry_Return
  then show ?thesis using exit_current_correct [OF inv] inv run
    by (auto simp: task_entry_return_def exit_current_def split: option.splits)
qed

lemma trace_inv: "sched_trace ka s tr \<Longrightarrow> sched_inv s \<Longrightarrow> (ev, s') \<in> set tr \<Longrightarrow> sched_inv s'"
proof (induction rule: sched_trace.induct)
  case (trace_Cons ev' s s1 tr)
  then show ?case using exec_correct [of s ev' ka s1] by auto
qed simp


section \<open>Fairness\<close>

text \<open>How many steps of the search lie between the current task and task \<open>j\<close>.\<close>

definition distance :: "nat \<Rightarrow> nat \<Rightarrow> nat" where
  "distance c j = (if c < j then j - c else j + 16 - c)"

lemma distance_props:
  assumes "c < 16" "j < 16"
  shows "1 \<le> distance c j" "distance c j \<le> 16" "(c + distance c j) mod 16 = j"
  using assms by (auto simp: distance_def)

lemma distance_step:
  assumes "c < 16" "j < 16" "1 \<le> d" "d < distance c j"
  shows "distance ((c + d) mod 16) j = distance c j - d"
proof (cases "c + d < 16")
  case True
  then show ?thesis using assms by (auto simp: distance_def split: if_splits)
next
  case False
  then have "(c + d) mod 16 = c + d - 16" using assms distance_props(2) [of c j] by (simp add: mod_if)
  then show ?thesis using assms False by (auto simp: distance_def split: if_splits)
qed

lemma pick_distance:
  assumes c: "c < 16" and j: "j < 16" "state (ts ! j) = Runnable"
  shows "pick_next_runnable c ts = j \<or> distance (pick_next_runnable c ts) j < distance c j"
proof -
  note P = distance_props [OF c j(1)]
  obtain d where d: "1 \<le> d" "d \<le> 16" "pick_next_runnable c ts = (c + d) mod 16"
      "\<And>e. 1 \<le> e \<Longrightarrow> e < d \<Longrightarrow> state (ts ! ((c + e) mod 16)) \<noteq> Runnable"
    using pick_next_runnable_cases [OF c, of ts] j by blast
  have "d \<le> distance c j"
  proof (rule ccontr)
    assume "\<not> d \<le> distance c j"
    then show False using d(4) [of "distance c j"] P j(2) by simp
  qed
  then show ?thesis using d distance_step [OF c j(1), of d] P by (cases "d = distance c j") auto
qed

lemma trace_reaches:
  assumes "sched_trace ka s tr" "sched_inv s" "j < 16" "state (g_tasks s ! j) = Runnable"
    and "\<forall>(ev, s') \<in> set tr. state (g_tasks s' ! j) = Runnable"
    and "distance (g_current_task s) j \<le> length (filter (\<lambda>(ev, s'). quantum ev) tr)"
  shows "\<exists>(ev, s') \<in> set tr. g_current_task s' = j"
  using assms
proof (induction rule: sched_trace.induct)
  case (trace_Nil s)
  then show ?case using distance_props(1) [of "g_current_task s" j] sched_invD(2) by fastforce
next
  case (trace_Cons ev s s' tr)
  have inv': "sched_inv s'" and cur: "quantum ev \<or> g_current_task s' = g_current_task s"
    using exec_correct [OF trace_Cons.prems(1) trace_Cons.hyps(1,2)] by auto
  have j': "state (g_tasks s' ! j) = Runnable" "\<forall>(ev, s') \<in> set tr. state (g_tasks s' ! j) = Runnable"
    using trace_Cons.prems(4) by auto
  show ?case
  proof (cases "g_current_task s' = j")
    case True
    then show ?thesis by auto
  next
    case nj: False
    have "distance (g_current_task s') j \<le> length (filter (\<lambda>(ev, s'). quantum ev) tr)"
    proof (cases "quantum ev")
      case True
      then obtain esp tick where ev: "ev = Timer esp tick" "tick mod 10 = 0" by (cases ev) auto
      obtain e where t: "on_timer_interrupt esp tick s = (s', e)"
        using trace_Cons.hyps(2) ev by (cases "on_timer_interrupt esp tick s") auto
      note D = sched_invD [OF trace_Cons.prems(1)]
      have "state (g_tasks (ticked esp tick s) ! j) = Runnable"
        using ticked_task(5) [OF D(4,2) trace_Cons.prems(2,3)] .
      then have "g_current_task s' = j \<or> distance (g_current_task s') j < distance (g_current_task s) j"
        using pick_distance [OF D(2) trace_Cons.prems(2)] timer_result(1) [OF trace_Cons.prems(1) t] ev(2) by simp
      then show ?thesis using nj trace_Cons.prems(5) True by simp
    next
      case False
      then show ?thesis using cur trace_Cons.prems(5) by simp
    qed
    then show ?thesis using trace_Cons.IH [OF inv' trace_Cons.prems(2) j'] by auto
  qed
qed


section \<open>Stacks\<close>

lemma unat_sub4: "4 \<le> unat (sp :: u32) \<Longrightarrow> unat (sp - 4) = unat sp - 4"
  by (simp add: unat_sub word_le_nat_alt)

lemma push32_above:
  "4 * length vs \<le> unat sp \<Longrightarrow> unat sp \<le> unat b \<Longrightarrow> unat b + 4 \<le> 2 ^ 32 \<Longrightarrow>
     read32 (snd (push32 vs (sp, m))) b = read32 m b"
proof (induction vs arbitrary: sp m)
  case (Cons v vs)
  have u: "unat (sp - 4) = unat sp - 4" "4 \<le> unat sp" using Cons.prems by (auto intro: unat_sub4)
  have "read32 (write32 (sp - 4) v m) b = read32 m b"
    using u Cons.prems unat_u32_less [of sp] by (intro read32_write32_apart) (auto simp: apart_def)
  then show ?case using Cons u by simp
qed simp

lemma push32_sp: "fst (push32 vs (sp, m)) = sp - of_nat (4 * length vs)"
proof (induction vs arbitrary: sp m)
  case (Cons v vs)
  then show ?case using Cons.IH [of "sp - 4" "write32 (sp - 4) v m"] by (simp add: algebra_simps)
qed simp

lemma push32_nth:
  "4 * length vs \<le> unat sp \<Longrightarrow> i < length vs \<Longrightarrow> read32 (snd (push32 vs (sp, m))) (sp - of_nat (4 * Suc i)) = vs ! i"
proof (induction vs arbitrary: sp m i)
  case (Cons v vs)
  have u: "unat (sp - 4) = unat sp - 4" "4 \<le> unat sp" using Cons.prems by (auto intro: unat_sub4)
  show ?case
  proof (cases i)
    case 0
    have "read32 (snd (push32 vs (sp - 4, write32 (sp - 4) v m))) (sp - 4) = read32 (write32 (sp - 4) v m) (sp - 4)"
      using u Cons.prems unat_u32_less [of sp] by (intro push32_above) auto
    then show ?thesis using 0 by simp
  next
    case (Suc j)
    have "sp - of_nat (4 * Suc i) = sp - 4 - of_nat (4 * Suc j)" using Suc by (simp add: algebra_simps)
    moreover have "read32 (snd (push32 vs (sp - 4, write32 (sp - 4) v m))) (sp - 4 - of_nat (4 * Suc j)) = vs ! j"
      using Cons.prems u Suc by (intro Cons.IH) auto
    ultimately show ?thesis using Suc by (simp only: push32.simps nth_Cons_Suc)
  qed
qed simp


section \<open>Resuming\<close>

lemma mark_exited_other:
  assumes "sched_inv s" "j \<noteq> g_current_task s"
  shows "g_tasks (mark_current_exited s) ! j = g_tasks s ! j"
  using assms by (auto simp: mark_current_exited_def current_task_ptr_Some Let_def split: option.splits)

lemma exec_other_task:
  assumes inv: "sched_inv s" and ok: "event_ok ev s" and run: "sched_exec ka ev s = Some s'"
    and j: "j < 16" "j \<noteq> g_current_task s" "live (g_tasks s ! j)"
  shows "saved_esp (g_tasks s' ! j) = saved_esp (g_tasks s ! j)"
proof (cases ev)
  case (Timer esp tick)
  note D = sched_invD [OF inv]
  obtain e where t: "on_timer_interrupt esp tick s = (s', e)" using run Timer by (cases "on_timer_interrupt esp tick s") auto
  obtain b where b: "g_tasks s' = (g_tasks (ticked esp tick s))[g_current_task s' := (g_tasks (ticked esp tick s) ! g_current_task s')\<lparr>user_started := b\<rparr>]"
    using timer_result(3) [OF inv t] by blast
  have "saved_esp (g_tasks s' ! j) = saved_esp (g_tasks (ticked esp tick s) ! j)"
    using j(1) ticked_task(7) [OF D(4,2) j(1)] unfolding b by (cases "j = g_current_task s'") simp_all
  then show ?thesis using ticked_task(4) [OF D(4,2) j(1)] j(2) by simp
next
  case (New_Kernel_Task e n)
  then obtain r where "create_task_for_process ka 1 e n s = Some (s', r)" using run by (auto simp: create_kernel_task_def)
  then show ?thesis using create_task_correct [OF inv] ok New_Kernel_Task j by (auto simp: ids_left_def)
next
  case (New_Process name e n)
  then obtain r where "create_process_task ka name e n s = Some (s', r)" using run by auto
  then show ?thesis using create_process_task_correct [OF inv] ok New_Process j by auto
next
  case (New_Ring3 name ep esp)
  then obtain r where "create_ring3_task ka name ep esp s = Some (s', r)" using run by auto
  then show ?thesis using create_ring3_task_correct [OF inv] ok New_Ring3 j by auto
next
  case Exit
  then show ?thesis using run j(2) by (auto simp: exit_current_def mark_exited_other [OF inv])
next
  case (Sleep ticks now)
  then show ?thesis using run j(2) by (auto simp: sleep_current_def current_task_ptr_Some [OF inv])
next
  case Entry_Return
  then show ?thesis using run j(2) by (auto simp: task_entry_return_def mark_exited_other [OF inv] split: option.splits)
qed

text \<open>A task that waits keeps the stack pointer it was interrupted with.\<close>

lemma trace_waiting:
  assumes "sched_trace ka s tr" "sched_inv s" "j < 16"
    and "\<forall>s' \<in> set (s # map snd tr). g_current_task s' \<noteq> j \<and> live (g_tasks s' ! j)"
  shows "saved_esp (g_tasks (last (s # map snd tr)) ! j) = saved_esp (g_tasks s ! j) \<and> sched_inv (last (s # map snd tr))"
  using assms
proof (induction rule: sched_trace.induct)
  case (trace_Cons ev s s' tr)
  have "sched_inv s'" using exec_correct [OF trace_Cons.prems(1) trace_Cons.hyps(1,2)] by simp
  then have "saved_esp (g_tasks (last (s' # map snd tr)) ! j) = saved_esp (g_tasks s' ! j) \<and> sched_inv (last (s' # map snd tr))"
    using trace_Cons.IH trace_Cons.prems by auto
  moreover have "saved_esp (g_tasks s' ! j) = saved_esp (g_tasks s ! j)"
    using exec_other_task [OF trace_Cons.prems(1) trace_Cons.hyps(1,2) trace_Cons.prems(2)] trace_Cons.prems(3) by auto
  ultimately show ?case by simp
qed simp

section \<open>Example states\<close>

text \<open>The state after \<open>init\<close>, and one with a second kernel task.\<close>

definition ka0 :: kernel_addrs where
  "ka0 = \<lparr>page_tables_at = 0x300000, page_directory_at = 0x400000, trampoline_at = 0x100123\<rparr>"

definition sched_one :: sched where
  "sched_one = \<lparr>g_tasks = (replicate 16 clear_task)[0 := kernel_task 0x90000],
     g_processes = (replicate 8 clear_process)[0 := kernel_process ka0 1], g_current_task = 0, g_next_pid = 2, g_next_tid = 2,
     g_process_count = 1, g_thread_count = 1, tss_esp0 = 0, memory = mm_fresh\<rparr>"

lemma sched_one_init: "scheduler_init ka0 0x90000 sched_one = Some sched_one"
  unfolding scheduler_init_eq by (simp add: sched_one_def)

lemma sched_one_inv: "sched_inv sched_one"
  using scheduler_init_correct [of ka0 "0x90000" sched_one] sched_one_init by simp

definition second_task :: task where
  "second_task = clear_task\<lparr>state := Runnable, tid := 2, task_pid := 1, saved_esp := 0x80000\<rparr>"

definition sched_two :: sched where
  "sched_two = start_thread 1 0 second_task sched_one"

lemma sched_two_inv: "sched_inv sched_two"
proof -
  have "sched_inv (start_thread 1 0 second_task ((set_task 1 clear_task sched_one)\<lparr>memory := memory sched_one\<rparr>))"
    by (rule sched_inv_start_thread [OF sched_one_inv])
      (simp_all add: sched_one_def second_task_def kernel_process_def clear_task_def live_def)
  moreover have "(set_task 1 clear_task sched_one)\<lparr>memory := memory sched_one\<rparr> = sched_one"
    by (simp add: set_task_def sched_one_def list_update_same_conv)
  ultimately show ?thesis by (simp only: sched_two_def)
qed

lemma timer_trace:
  assumes "sched_inv s"
  shows "\<exists>tr. sched_trace ka s tr \<and> length (filter (\<lambda>(ev, s'). quantum ev) tr) = n \<and>
    (\<forall>j < 16. state (g_tasks s ! j) = Runnable \<longrightarrow> (\<forall>(ev, s') \<in> set tr. state (g_tasks s' ! j) = Runnable))"
  using assms
proof (induction n arbitrary: s)
  case 0
  show ?case by (rule exI [of _ "[]"]) (simp add: trace_Nil)
next
  case (Suc n)
  define s' where "s' = fst (on_timer_interrupt 1 0 s)"
  obtain e where t: "on_timer_interrupt 1 0 s = (s', e)" by (cases "on_timer_interrupt 1 0 s") (simp add: s'_def)
  note D = sched_invD [OF Suc.prems]
  have inv': "sched_inv s'" by (rule timer_correct [OF Suc.prems t])
  obtain b where b: "g_tasks s' = (g_tasks (ticked 1 0 s))[g_current_task s' := (g_tasks (ticked 1 0 s) ! g_current_task s')\<lparr>user_started := b\<rparr>]"
    using timer_result(3) [OF Suc.prems t] by blast
  have r: "state (g_tasks s' ! j) = Runnable" if "j < 16" "state (g_tasks s ! j) = Runnable" for j
    using ticked_task(5,7) [OF D(4,2) that(1), of 1 0] that(1,2) unfolding b by (cases "j = g_current_task s'") auto
  obtain tr where tr: "sched_trace ka s' tr" "length (filter (\<lambda>(ev, s'). quantum ev) tr) = n"
    "\<And>j. j < 16 \<Longrightarrow> state (g_tasks s' ! j) = Runnable \<Longrightarrow> \<forall>(ev, s') \<in> set tr. state (g_tasks s' ! j) = Runnable"
    using Suc.IH [OF inv'] by blast
  have "sched_trace ka s ((Timer 1 0, s') # tr)" by (rule trace_Cons [OF _ _ tr(1)]) (simp_all add: s'_def)
  then show ?case using tr r by (intro exI [of _ "(Timer 1 0, s') # tr"]) auto
qed

text \<open>With two runnable tasks the timer alternates between them.\<close>

definition two_tasks :: "task list \<Rightarrow> bool" where
  "two_tasks ts \<longleftrightarrow> (\<forall>i < 16. state (ts ! i) = (if i < 2 then Runnable else Unused))"

lemma pick_two:
  assumes "two_tasks ts" "c < 2"
  shows "pick_next_runnable c ts = 1 - c"
proof -
  have r: "state (ts ! 0) = Runnable" "state (ts ! 1) = Runnable" and u: "\<And>i. i < 16 \<Longrightarrow> state (ts ! i) = Runnable \<Longrightarrow> i < 2"
    using assms(1) by (auto simp: two_tasks_def split: if_splits)
  have c16: "c < 16" using assms(2) by simp
  have some: "\<exists>i < 16. state (ts ! i) = Runnable" using r(1) by (intro exI [of _ 0]) simp
  obtain d where d: "1 \<le> d" "d \<le> 16" "pick_next_runnable c ts = (c + d) mod 16" "state (ts ! ((c + d) mod 16)) = Runnable"
      "\<And>e. 1 \<le> e \<Longrightarrow> e < d \<Longrightarrow> state (ts ! ((c + e) mod 16)) \<noteq> Runnable"
    using pick_next_runnable_cases [OF c16, of ts] some by blast
  show ?thesis
  proof (cases "c = 0")
    case True
    then show ?thesis using d(1,3) d(5) [of 1] r(2) by (cases "d = 1") auto
  next
    case False
    then have c1: "c = 1" using assms(2) by simp
    then have m: "(1 + d) mod 16 < 2" using u [of "(1 + d) mod 16"] d(4) by simp
    have "d \<noteq> 16" using d(5) [of 15] r(1) c1 by auto
    moreover have "\<not> d < 15" using m d(1) by auto
    ultimately have "d = 15" using d(2) by linarith
    then show ?thesis using d(3) c1 by simp
  qed
qed

lemma two_tasks_timer:
  assumes inv: "sched_inv s" and two: "two_tasks (g_tasks s)" and t: "on_timer_interrupt esp tick s = (s', e)"
  shows "two_tasks (g_tasks s')" "tick mod 10 = 0 \<Longrightarrow> g_current_task s < 2 \<Longrightarrow> g_current_task s' = 1 - g_current_task s"
    "ring (g_tasks s' ! 0) = ring (g_tasks s ! 0)"
proof -
  note D = sched_invD [OF inv] and R = timer_result [OF inv t]
  have no: "state x \<noteq> Sleeping" if "x \<in> set (g_tasks s)" for x
    using that two D(4) by (auto simp: in_set_conv_nth two_tasks_def split: if_splits)
  have tk: "g_tasks (ticked esp tick s) = (g_tasks s)[g_current_task s := (g_tasks s ! g_current_task s)\<lparr>saved_esp := esp\<rparr>]"
    unfolding ticked_def wake_sleeping_tasks_def using no D(2,4)
    by (auto intro!: map_idI dest!: set_update_subset_insert [THEN subsetD])
  obtain b where b: "g_tasks s' = (g_tasks (ticked esp tick s))[g_current_task s' := (g_tasks (ticked esp tick s) ! g_current_task s')\<lparr>user_started := b\<rparr>]"
    using R(3) by blast
  have cur: "g_current_task s' < 16" using sched_invD(2) [OF timer_correct [OF inv t]] .
  have st: "two_tasks (g_tasks (ticked esp tick s))"
    using two D(2,4) unfolding tk two_tasks_def by (auto simp: nth_list_update)
  show "two_tasks (g_tasks s')"
    using st cur D(4) unfolding b two_tasks_def by (auto simp: nth_list_update tk)
  show "tick mod 10 = 0 \<Longrightarrow> g_current_task s < 2 \<Longrightarrow> g_current_task s' = 1 - g_current_task s"
    using R(1) pick_two [OF st] by simp
  show "ring (g_tasks s' ! 0) = ring (g_tasks s ! 0)"
    using cur D(2,4) unfolding b tk by (auto simp: nth_list_update)
qed

section \<open>Properties\<close>

text \<open>
  C10. \<open>init\<close> always succeeds, and after it, whatever interleaving follows of timer interrupts and calls, each taken as one
  step, with sleeps and creations made by a current task that is runnable and creations while the counters of identifiers are below
  \<open>0x7FFFFFFF\<close>, the tables stay consistent: live tasks and processes have unique identifiers, every live
  task belongs to a process, each process counts its live tasks, and the counters that
  \<open>thread_count\<close> and \<open>process_count\<close> report are the numbers of live tasks and of processes.
\<close>

theorem sched_tables_consistent:
  assumes "scheduler_init ka esp s0 = Some s" and "sched_trace ka s tr" and "(ev, s') \<in> set tr"
  shows "sched_inv s' \<and> unat (thread_count s') = count_slots live (g_tasks s') \<and>
    unat (process_count s') = count_slots used_process (g_processes s')"
proof -
  have "sched_inv s" using scheduler_init_correct [of ka esp s0] assms(1) by auto
  then have "sched_inv s'" using trace_inv [OF assms(2) _ assms(3)] by simp
  then show ?thesis using tables_invD(6,7) [OF sched_invD(1)] by (simp add: thread_count_def process_count_def)
qed

theorem sched_tables_consistent_witness:
  "scheduler_init ka0 0x90000 sched_one = Some sched_one \<and> sched_inv (exit_current sched_one) \<and>
   unat (thread_count (exit_current sched_one)) = count_slots live (g_tasks (exit_current sched_one))"
proof -
  have "running sched_one" "ids_left sched_one" by (simp_all add: running_def ids_left_def sched_one_def kernel_task_def)
  then have "sched_trace ka0 sched_one [(Exit, exit_current sched_one)]" by (intro trace_Cons trace_Nil) simp_all
  from sched_tables_consistent [OF sched_one_init this, of Exit "exit_current sched_one"] sched_one_init show ?thesis by simp
qed

text \<open>The condition on sleeps is needed: a task that exits and then sleeps is live and not counted.\<close>

lemma exit_then_sleep_uncounted:
  defines "s \<equiv> sleep_current 5 0 (exit_current sched_one)"
  shows "thread_count s = 0" "live (g_tasks s ! g_current_task s)"
proof -
  have g: "g_current_task sched_one = 0" "g_tasks sched_one ! 0 = kernel_task 0x90000" "length (g_tasks sched_one) = 16" "g_thread_count sched_one = 1"
    by (simp_all add: sched_one_def)
  have k: "state (kernel_task 0x90000) = Runnable" by (simp add: kernel_task_def)
  define e where "e = exit_current sched_one"
  have e: "g_current_task e = 0" "state (g_tasks e ! 0) = Exited" "length (g_tasks e) = 16" "g_thread_count e = 0"
    unfolding e_def exit_current_def mark_current_exited_def current_task_ptr_def set_task_def set_process_def Let_def
    using g k by (simp_all split: option.splits)
  show "thread_count s = 0" "live (g_tasks s ! g_current_task s)"
    unfolding s_def e_def [symmetric] sleep_current_def current_task_ptr_def set_task_def thread_count_def live_def using e by simp_all
qed

text \<open>
  C13. No starvation: in any interleaving, a task that stays runnable while sixteen quantum
  boundaries pass becomes the current task.
\<close>

theorem sched_no_starvation:
  assumes "sched_inv s" and "sched_trace ka s tr" and "j < 16" and "state (g_tasks s ! j) = Runnable"
    and "\<forall>(ev, s') \<in> set tr. state (g_tasks s' ! j) = Runnable"
    and "16 \<le> length (filter (\<lambda>(ev, s'). quantum ev) tr)"
  shows "\<exists>(ev, s') \<in> set tr. g_current_task s' = j"
  using trace_reaches [OF assms(2,1,3-5)] distance_props(2) [OF sched_invD(2) [OF assms(1)] assms(3)] assms(6) by simp

theorem sched_no_starvation_witness:
  "sched_inv sched_two \<and> state (g_tasks sched_two ! 1) = Runnable \<and> g_current_task sched_two = 0 \<and>
   (\<exists>tr. sched_trace ka0 sched_two tr \<and> (\<exists>(ev, s') \<in> set tr. g_current_task s' = 1))"
proof -
  have r: "state (g_tasks sched_two ! 1) = Runnable" and c: "g_current_task sched_two = 0"
    by (simp_all add: sched_two_def start_thread_def sched_one_def second_task_def)
  obtain tr where tr: "sched_trace ka0 sched_two tr" "length (filter (\<lambda>(ev, s'). quantum ev) tr) = 16"
    "\<forall>(ev, s') \<in> set tr. state (g_tasks s' ! 1) = Runnable"
    using timer_trace [OF sched_two_inv, of ka0 16] r by fastforce
  have "\<exists>(ev, s') \<in> set tr. g_current_task s' = 1"
    by (rule sched_no_starvation [OF sched_two_inv tr(1) _ r tr(3)]) (simp_all add: tr(2))
  then show ?thesis using sched_two_inv r c tr(1) by blast
qed

text \<open>
  C16. A task resumes where it was interrupted: if the timer takes the processor from task \<open>j\<close> with its
  stack at \<open>esp\<close>, and after any interleaving in which \<open>j\<close> stays alive and is not chosen the
  timer chooses it again, the interrupt returns on the stack at \<open>esp\<close>.
\<close>

theorem sched_resumes:
  assumes inv: "sched_inv s" and j: "g_current_task s = j" "esp \<noteq> 0"
    and out: "on_timer_interrupt esp tick s = (s1, e1)"
    and wait: "sched_trace ka s1 tr" "\<forall>s' \<in> set (s1 # map snd tr). g_current_task s' \<noteq> j \<and> live (g_tasks s' ! j)"
    and ret: "on_timer_interrupt esp2 tick2 (last (s1 # map snd tr)) = (s3, e3)" "g_current_task s3 = j"
    and ring: "ring (g_tasks s3 ! j) \<noteq> 3"
  shows "e3 = esp"
proof -
  note D = sched_invD [OF inv]
  have j16: "j < 16" using D(2) j by simp
  have inv1: "sched_inv s1" by (rule timer_correct [OF inv out])
  obtain b where b: "g_tasks s1 = (g_tasks (ticked esp tick s))[g_current_task s1 := (g_tasks (ticked esp tick s) ! g_current_task s1)\<lparr>user_started := b\<rparr>]"
    using timer_result(3) [OF inv out] by blast
  have s1: "saved_esp (g_tasks s1 ! j) = esp" using wait(2) ticked_task(4) [OF D(4,2) j16] j(1) unfolding b by auto
  define s2 where "s2 = last (s1 # map snd tr)"
  have W: "saved_esp (g_tasks s2 ! j) = esp" "sched_inv s2"
    using trace_waiting [OF wait(1) inv1 j16 wait(2)] s1 by (simp_all add: s2_def)
  note D2 = sched_invD [OF W(2)]
  have nj: "g_current_task s2 \<noteq> j" using wait(2) unfolding s2_def by (metis last_in_set list.distinct(1))
  note R = timer_result [OF W(2) ret(1) [folded s2_def]]
  have q: "tick2 mod 10 = 0" using R(1) ret(2) nj by (auto split: if_splits)
  have e: "saved_esp (g_tasks (ticked esp2 tick2 s2) ! j) = esp" using ticked_task(4) [OF D2(4,2) j16] nj W(1) by simp
  obtain c where c: "g_tasks s3 = (g_tasks (ticked esp2 tick2 s2))[j := (g_tasks (ticked esp2 tick2 s2) ! j)\<lparr>user_started := c\<rparr>]"
    using R(3) ret(2) by auto
  have "ring (g_tasks (ticked esp2 tick2 s2) ! j) \<noteq> 3"
    using ring ticked_task(7) [OF D2(4,2) j16, of esp2 tick2] j16 unfolding c by simp
  then show ?thesis using R(4) q e j(2) ret(2) by simp
qed

theorem sched_resumes_witness:
  "sched_inv sched_two \<and> g_current_task sched_two = 0 \<and>
   snd (on_timer_interrupt 0x70000 20 (fst (on_timer_interrupt 0x8FF00 10 sched_two))) = 0x8FF00"
proof -
  obtain s1 e1 where t1: "on_timer_interrupt 0x8FF00 10 sched_two = (s1, e1)" by fastforce
  obtain s3 e3 where t3: "on_timer_interrupt 0x70000 20 s1 = (s3, e3)" by fastforce
  have two: "two_tasks (g_tasks sched_two)"
    by (simp add: two_tasks_def sched_two_def start_thread_def sched_one_def second_task_def kernel_task_def nth_list_update clear_task_def)
  have c: "g_current_task sched_two = 0" by (simp add: sched_two_def start_thread_def sched_one_def)
  note T1 = two_tasks_timer [OF sched_two_inv two t1] and inv1 = timer_correct [OF sched_two_inv t1]
  note T3 = two_tasks_timer [OF inv1 T1(1) t3]
  have s1: "g_current_task s1 = 1" "state (g_tasks s1 ! 0) = Runnable" and s3: "g_current_task s3 = 0" "ring (g_tasks s3 ! 0) = 0"
    using T1 T3 c by (simp_all add: two_tasks_def sched_two_def start_thread_def sched_one_def kernel_task_def clear_task_def)
  have "e3 = 0x8FF00"
  proof (rule sched_resumes [OF sched_two_inv c _ t1 trace_Nil])
    show "\<forall>s' \<in> set (s1 # map snd []). g_current_task s' \<noteq> 0 \<and> live (g_tasks s' ! 0)" using s1 by (simp add: live_def)
    show "on_timer_interrupt 0x70000 20 (last (s1 # map snd [])) = (s3, e3)" using t3 by simp
  qed (use s3 in simp_all)
  then show ?thesis using sched_two_inv c t1 t3 by simp
qed

text \<open>
  The first frame of a kernel task is the one the interrupt return pops: it starts at the entry
  trampoline in the kernel code segment with interrupts on and an empty stack.
\<close>

theorem kernel_task_first_frame:
  assumes "44 \<le> unat (stack_base + stack_size)" and "setup_initial_task_stack ka stack_base stack_size m = (sp, m')"
  shows "popa_iret m' sp = \<lparr>r_eip = trampoline_at ka, r_cs = 0x08, r_eflags = 0x202, r_esp = stack_base + stack_size\<rparr>"
proof -
  let ?v = "[0x202, 0x08, trampoline_at ka, 0, 0, 0, 0, 0, 0, 0, 0]" and ?t = "stack_base + stack_size"
  have p: "push32 ?v (?t, m) = (sp, m')" using assms(2) by (simp only: setup_initial_task_stack_def)
  have sp: "sp = ?t - 44" using push32_sp [of ?v ?t m] unfolding p by simp
  have r: "read32 m' (?t - of_nat (4 * Suc i)) = ?v ! i" if "i < 11" for i
    using push32_nth [of ?v ?t i m] assms(1) that unfolding p by simp
  show ?thesis using r [of 0] r [of 1] r [of 2] by (simp add: popa_iret_def sp)
qed

theorem kernel_task_first_frame_witness:
  "popa_iret (snd (setup_initial_task_stack \<lparr>page_tables_at = 0, page_directory_at = 0, trampoline_at = 0x100123\<rparr> 0x200000 4096 (\<lambda>_. 0)))
     (fst (setup_initial_task_stack \<lparr>page_tables_at = 0, page_directory_at = 0, trampoline_at = 0x100123\<rparr> 0x200000 4096 (\<lambda>_. 0)))
   = \<lparr>r_eip = 0x100123, r_cs = 0x08, r_eflags = 0x202, r_esp = 0x201000\<rparr>"
  using kernel_task_first_frame [of "0x200000" 4096 "\<lparr>page_tables_at = 0, page_directory_at = 0, trampoline_at = 0x100123\<rparr>" "\<lambda>_. 0"]
  by (simp add: prod_eq_iff)

text \<open>
  C40. The first frame of a user task is in the wrong order for the interrupt return: \<open>popa\<close> takes the
  five words meant for \<open>iret\<close> and \<open>iret\<close> then finds a null code segment and address zero.
\<close>

theorem ring3_first_frame_misordered:
  assumes "52 \<le> unat stack_top" and "prepare_ring3_iret_frame stack_top ring3_entry ring3_esp m = (sp, m')"
  shows "r_eip (popa_iret m' sp) = 0 \<and> r_cs (popa_iret m' sp) = 0 \<and> read32 m' sp = ring3_entry"
proof -
  let ?v = "[0, 0, 0, 0, 0, 0, 0, 0, 0x23, ring3_esp, 0x202, 0x1B, ring3_entry]"
  have p: "push32 ?v (stack_top, m) = (sp, m')" using assms(2) by (simp only: prepare_ring3_iret_frame_def)
  have sp: "sp = stack_top - 52" using push32_sp [of ?v stack_top m] unfolding p by simp
  have r: "read32 m' (stack_top - of_nat (4 * Suc i)) = ?v ! i" if "i < 13" for i
  proof -
    have "4 * length ?v \<le> unat stack_top" "i < length ?v" using assms(1) that by simp_all
    from push32_nth [OF this, of m] show ?thesis unfolding p by (simp only: snd_conv)
  qed
  show ?thesis using r [of 4] r [of 3] r [of 12] by (simp add: popa_iret_def sp)
qed

theorem ring3_first_frame_misordered_witness:
  "r_eip (popa_iret (snd (prepare_ring3_iret_frame 0x201000 0x08000054 0xBFFFF000 (\<lambda>_. 0)))
     (fst (prepare_ring3_iret_frame 0x201000 0x08000054 0xBFFFF000 (\<lambda>_. 0)))) = 0"
  using ring3_first_frame_misordered [of "0x201000" "0x08000054" "0xBFFFF000" "\<lambda>_. 0"] by (simp add: prod_eq_iff)

end
