(* ===== verification/Syscall.thy ===== *)
theory Syscall
  imports RamFs_Correct Scheduler_Run
begin

text \<open>
  System calls: \<open>src/kernel/syscall/syscall.cpp\<close> and the checks of user pointers in
  \<open>src/kernel/user_safety.cpp\<close>, over the models of the file system, the scheduler, the heap and the
  memory. The kernel's state is the scheduler's with the memory in it, the mounted file system
  (\<open>None\<close> is a null \<open>g_fs\<close>) and what the serial port was sent. A call ends in one of
  the ways of \<open>sys_outcome\<close>; \<open>None\<close> is a call that never gets so far, because a path has no end
  in memory or the file system's capacity loop does not end. The bytes a program's pointers reach
  are those of the one memory the heap lies in, at the same addresses.
\<close>


section \<open>Definitions\<close>

subsection \<open>User pointers\<close>

definition kUserSpaceStart :: u32 where
  "kUserSpaceStart = 0x08000000"

definition kUserSpaceEnd :: u32 where
  "kUserSpaceEnd = 0xC0000000"

definition is_user_pointer :: "u32 \<Rightarrow> bool" where
  "is_user_pointer ptr \<longleftrightarrow> kUserSpaceStart \<le> ptr \<and> ptr < kUserSpaceEnd"

definition is_user_buffer :: "u32 \<Rightarrow> u32 \<Rightarrow> bool" where
  "is_user_buffer ptr sz =
     (if sz = 0 then False
      else if ptr < kUserSpaceStart then False
      else if ptr + sz < ptr then False
      else if kUserSpaceEnd < ptr + sz then False
      else True)"

fun has_end :: "mem \<Rightarrow> u32 \<Rightarrow> nat \<Rightarrow> bool" where
  "has_end m ptr 0 = False"
| "has_end m ptr (Suc n) = (if m ptr = 0 then True else has_end m (ptr + 1) n)"

definition is_user_string :: "mem \<Rightarrow> u32 \<Rightarrow> u32 \<Rightarrow> bool" where
  "is_user_string m ptr max_len = (if \<not> is_user_pointer ptr then False else has_end m ptr (unat max_len))"

subsection \<open>State\<close>

datatype serial_event = Serial_Byte u8 | Exit_Notice u32

record kernel =
  k_sched :: sched
  k_fs :: "ramfs option"
  k_serial :: "serial_event list"

definition k_ram :: "kernel \<Rightarrow> mem" where
  "k_ram k = ram (memory (k_sched k))"

definition set_mm :: "mm \<Rightarrow> kernel \<Rightarrow> kernel" where
  "set_mm h k = k\<lparr>k_sched := (k_sched k)\<lparr>memory := h\<rparr>\<rparr>"

definition set_ram :: "mem \<Rightarrow> kernel \<Rightarrow> kernel" where
  "set_ram m k = set_mm ((memory (k_sched k))\<lparr>ram := m\<rparr>) k"

datatype sys_outcome = Ret u32 | Waits u32 | Never

definition kErrorInvalidSyscall :: u32 where
  "kErrorInvalidSyscall = 0xFFFFFFFF"

definition kWriteChunkLimit :: u32 where
  "kWriteChunkLimit = 4096"

definition kMaxPathLen :: u32 where
  "kMaxPathLen = 512"

definition kMaxDirEntries :: u32 where
  "kMaxDirEntries = 32"

text \<open>The C string at an address.\<close>

partial_function (option) cstring_at :: "mem \<Rightarrow> u32 \<Rightarrow> cstring option" where
  "cstring_at m p =
     (if m p = 0 then Some []
      else cstring_at m (p + 1) \<bind> (\<lambda>cs. Some (char_of (unat (m p)) # cs)))"

definition from_user :: "kernel \<Rightarrow> bool" where
  "from_user k \<longleftrightarrow> current_ring_level (k_sched k) = 3"

definition bad_buffer :: "u32 \<Rightarrow> u32 \<Rightarrow> kernel \<Rightarrow> bool" where
  "bad_buffer ptr sz k \<longleftrightarrow> from_user k \<and> \<not> is_user_buffer ptr sz"

definition bad_string :: "u32 \<Rightarrow> kernel \<Rightarrow> bool" where
  "bad_string ptr k \<longleftrightarrow> from_user k \<and> \<not> is_user_string (k_ram k) ptr kMaxPathLen"

definition failed :: "kernel \<Rightarrow> (kernel \<times> sys_outcome) option" where
  "failed k = Some (k, Ret kErrorInvalidSyscall)"

definition value_or_error :: "int \<Rightarrow> sys_outcome" where
  "value_or_error n = Ret (if n < 0 then kErrorInvalidSyscall else word_of_int n)"

definition zero_or_error :: "int \<Rightarrow> sys_outcome" where
  "zero_or_error n = Ret (if n < 0 then kErrorInvalidSyscall else 0)"

subsection \<open>The calls\<close>

definition sys_write :: "kernel_addrs \<Rightarrow> u32 \<Rightarrow> u32 \<Rightarrow> u32 \<Rightarrow> kernel \<Rightarrow> (kernel \<times> sys_outcome) option" where
  "sys_write ka fd buffer_ptr len k =
     (let safe_len = (if kWriteChunkLimit < len then kWriteChunkLimit else len) in
      if safe_len = 0 then Some (k, Ret 0)
      else if bad_buffer buffer_ptr safe_len k then failed k
      else let data = read_bytes (k_ram k) buffer_ptr (unat safe_len) in
      if fd = 1 \<or> fd = 2 then
        Some (k\<lparr>k_serial := k_serial k @ map Serial_Byte data\<rparr>, Ret safe_len)
      else case k_fs k of
        None \<Rightarrow> failed k
      | Some fs \<Rightarrow>
          map_option (\<lambda>(fs, h, n). (set_mm h (k\<lparr>k_fs := Some fs\<rparr>), value_or_error n))
            (ramfs_write (heap_new_bytes (page_tables_at ka)) (sint fd) (Some data) safe_len fs (memory (k_sched k))))"

definition sys_exit :: "u32 \<Rightarrow> kernel \<Rightarrow> (kernel \<times> sys_outcome) option" where
  "sys_exit code k =
     Some (k\<lparr>k_serial := k_serial k @ [Exit_Notice code], k_sched := exit_current (k_sched k)\<rparr>, Never)"

definition sys_sleep :: "u32 \<Rightarrow> u32 \<Rightarrow> kernel \<Rightarrow> (kernel \<times> sys_outcome) option" where
  "sys_sleep now ticks k =
     (if ticks = 0 then Some (k, Ret 0)
      else let s = sleep_current ticks now (k_sched k) in
        Some (k\<lparr>k_sched := s\<rparr>, if is_current_sleeping now s then Waits ticks else Ret ticks))"

text \<open>The calls that take a path.\<close>

definition with_path :: "u32 \<Rightarrow> (cstring option \<Rightarrow> ramfs \<Rightarrow> ramfs \<times> int) \<Rightarrow> (int \<Rightarrow> sys_outcome) \<Rightarrow> kernel \<Rightarrow>
    (kernel \<times> sys_outcome) option" where
  "with_path path_ptr op res k =
     (case k_fs k of
        None \<Rightarrow> failed k
      | Some fs \<Rightarrow>
          if path_ptr = 0 then failed k
          else if bad_string path_ptr k then failed k
          else map_option (\<lambda>path. case op (Some path) fs of (fs, r) \<Rightarrow> (k\<lparr>k_fs := Some fs\<rparr>, res r))
            (cstring_at (k_ram k) path_ptr))"

definition sys_open :: "u32 \<Rightarrow> u32 \<Rightarrow> kernel \<Rightarrow> (kernel \<times> sys_outcome) option" where
  "sys_open path_ptr flags = with_path path_ptr (\<lambda>path. ramfs_open path flags) value_or_error"

definition sys_read :: "u32 \<Rightarrow> u32 \<Rightarrow> u32 \<Rightarrow> kernel \<Rightarrow> (kernel \<times> sys_outcome) option" where
  "sys_read fd buffer_ptr count k =
     (case k_fs k of
        None \<Rightarrow> failed k
      | Some fs \<Rightarrow>
          if buffer_ptr = 0 then failed k
          else if count = 0 then Some (k, Ret 0)
          else if bad_buffer buffer_ptr count k then failed k
          else case ramfs_read (sint fd) True count fs of (fs, n, bs) \<Rightarrow>
            Some (set_ram (write_bytes buffer_ptr bs (k_ram k)) (k\<lparr>k_fs := Some fs\<rparr>), value_or_error n))"

definition sys_close :: "u32 \<Rightarrow> kernel \<Rightarrow> (kernel \<times> sys_outcome) option" where
  "sys_close fd k =
     (case k_fs k of
        None \<Rightarrow> failed k
      | Some fs \<Rightarrow> case ramfs_close (sint fd) fs of (fs, r) \<Rightarrow> Some (k\<lparr>k_fs := Some fs\<rparr>, zero_or_error r))"

definition sys_md :: "u32 \<Rightarrow> kernel \<Rightarrow> (kernel \<times> sys_outcome) option" where
  "sys_md path_ptr = with_path path_ptr ramfs_md zero_or_error"

definition sys_rd :: "u32 \<Rightarrow> kernel \<Rightarrow> (kernel \<times> sys_outcome) option" where
  "sys_rd path_ptr = with_path path_ptr ramfs_rd zero_or_error"

definition sys_unlink :: "u32 \<Rightarrow> kernel \<Rightarrow> (kernel \<times> sys_outcome) option" where
  "sys_unlink path_ptr = with_path path_ptr ramfs_unlink zero_or_error"

text \<open>A \<open>DirEntry\<close> is 64 bytes of name, written up to its NUL, and a word.\<close>

definition write_entry :: "u32 \<Rightarrow> dir_entry \<Rightarrow> mem \<Rightarrow> mem" where
  "write_entry p e m = write32 (p + 64) (if entry_is_directory e then 1 else 0)
     (write_bytes p (map (\<lambda>c. of_nat (of_char c)) (entry_name e) @ [0]) m)"

fun write_entries :: "u32 \<Rightarrow> dir_entry list \<Rightarrow> mem \<Rightarrow> mem" where
  "write_entries p [] m = m"
| "write_entries p (e # es) m = write_entries (p + 68) es (write_entry p e m)"

definition sys_readdir :: "u32 \<Rightarrow> u32 \<Rightarrow> u32 \<Rightarrow> kernel \<Rightarrow> (kernel \<times> sys_outcome) option" where
  "sys_readdir path_ptr entries_ptr max_entries k =
     (case k_fs k of
        None \<Rightarrow> failed k
      | Some fs \<Rightarrow>
          if path_ptr = 0 \<or> entries_ptr = 0 then failed k
          else let safe_max = (if kMaxDirEntries < max_entries then kMaxDirEntries else max_entries) in
          if safe_max = 0 then Some (k, Ret 0)
          else if bad_string path_ptr k then failed k
          else if bad_buffer entries_ptr (safe_max * 68) k then failed k
          else map_option (\<lambda>path. case ramfs_readdir (Some path) True safe_max fs of (n, es) \<Rightarrow>
              (set_ram (write_entries entries_ptr es (k_ram k)) k, value_or_error n))
            (cstring_at (k_ram k) path_ptr))"

definition syscall_dispatch :: "kernel_addrs \<Rightarrow> u32 \<Rightarrow> u32 \<Rightarrow> u32 \<Rightarrow> u32 \<Rightarrow> u32 \<Rightarrow> kernel \<Rightarrow> (kernel \<times> sys_outcome) option"
where
  "syscall_dispatch ka now number arg0 arg1 arg2 k =
     (if number = 1 then sys_write ka arg0 arg1 arg2 k
      else if number = 2 then sys_exit arg0 k
      else if number = 3 then sys_sleep now arg0 k
      else if number = 4 then sys_open arg0 arg1 k
      else if number = 5 then sys_read arg0 arg1 arg2 k
      else if number = 6 then sys_close arg0 k
      else if number = 7 then Some (k, Ret (current_process_id (k_sched k)))
      else if number = 8 then Some (k, Ret (current_thread_id (k_sched k)))
      else if number = 9 then Some (k, Ret (process_count (k_sched k)))
      else if number = 10 then sys_md arg0 k
      else if number = 11 then Some (k, Ret (current_user_id (k_sched k)))
      else if number = 12 then Some (k, Ret (current_group_id (k_sched k)))
      else if number = 13 then sys_readdir arg0 arg1 arg2 k
      else if number = 14 then sys_rd arg0 k
      else if number = 15 then sys_unlink arg0 k
      else failed k)"

end
