(* ===== verification/Syscall_Correct.thy ===== *)
theory Syscall_Correct
  imports Syscall
begin

text \<open>
  What system calls guarantee: the checks of user pointers are exact, what a call writes through a pointer of
  a caller in ring 3 stays in the buffer the call names and in user memory, and every call keeps the
  invariants of the file system and the scheduler.
\<close>


section \<open>Definitions\<close>

definition user_address :: "u32 \<Rightarrow> bool" where
  "user_address x \<longleftrightarrow> 0x08000000 \<le> unat x \<and> unat x < 0xC0000000"

text \<open>The memory differs at most in the \<open>n\<close> bytes from \<open>p\<close> on.\<close>

definition only_in :: "u32 \<Rightarrow> nat \<Rightarrow> mem \<Rightarrow> mem \<Rightarrow> bool" where
  "only_in p n m m' \<longleftrightarrow> (\<forall>x. m' x \<noteq> m x \<longrightarrow> unat p \<le> unat x \<and> unat x < unat p + n)"

definition kernel_inv :: "kernel \<Rightarrow> bool" where
  "kernel_inv k \<longleftrightarrow> sched_inv (k_sched k) \<and> (\<forall>fs. k_fs k = Some fs \<longrightarrow> ramfs_inv fs)"


section \<open>User buffers\<close>

lemma is_user_buffer_nat:
  "is_user_buffer ptr sz \<longleftrightarrow> sz \<noteq> 0 \<and> 0x08000000 \<le> unat ptr \<and> unat ptr + unat sz \<le> 0xC0000000"
proof -
  have "unat ptr < 2 ^ 32" "unat sz < 2 ^ 32" using unsigned_less [of ptr] unsigned_less [of sz] by simp_all
  then have "unat (ptr + sz) = unat ptr + unat sz \<or> unat (ptr + sz) < unat ptr \<and> 2 ^ 32 \<le> unat ptr + unat sz"
    using unat_plus_if' [of ptr sz] by (auto split: if_splits)
  then show ?thesis
    by (auto simp: is_user_buffer_def kUserSpaceStart_def kUserSpaceEnd_def word_less_nat_alt word_le_nat_alt)
qed

lemma only_in_refl [simp]: "only_in p n m m"
  by (simp add: only_in_def)

lemma only_in_trans:
  assumes "only_in p n m m'" "only_in q k m' m''" "unat p \<le> unat q" "unat q + k \<le> unat p + l" "n \<le> l"
  shows "only_in p l m m''"
  unfolding only_in_def
proof (intro allI impI)
  fix x assume "m'' x \<noteq> m x"
  then have "m' x \<noteq> m x \<or> m'' x \<noteq> m' x" by auto
  then show "unat p \<le> unat x \<and> unat x < unat p + l"
  proof
    assume "m' x \<noteq> m x"
    with assms(1) have "unat p \<le> unat x \<and> unat x < unat p + n" unfolding only_in_def by blast
    with assms(5) show ?thesis by simp
  next
    assume "m'' x \<noteq> m' x"
    with assms(2) have "unat q \<le> unat x \<and> unat x < unat q + k" unfolding only_in_def by blast
    with assms(3,4) show ?thesis by simp
  qed
qed

lemma only_in_mono: "only_in p n m m' \<Longrightarrow> n \<le> l \<Longrightarrow> only_in p l m m'"
  by (rule only_in_trans [of p n m m' p l m']) simp_all

lemma write_bytes_only:
  assumes "unat p + length bs \<le> 2 ^ 32"
  shows "only_in p (length bs) m (write_bytes p bs m)"
  unfolding only_in_def
proof (intro allI impI)
  fix x
  assume "write_bytes p bs m x \<noteq> m x"
  then have "in_range p (length bs) x" using assms write_bytes_outside [of p bs x m] by auto
  then show "unat p \<le> unat x \<and> unat x < unat p + length bs" by (auto simp: in_range_def)
qed

lemma write32_only:
  assumes "unat p + 4 \<le> 2 ^ 32"
  shows "only_in p 4 m (write32 p v m)"
proof -
  let ?bs = "[ucast v, ucast (drop_bit 8 v), ucast (drop_bit 16 v), ucast (drop_bit 24 v)] :: u8 list"
  have l: "length ?bs = 4" by simp
  have "only_in p (length ?bs) m (write_bytes p ?bs m)" using assms l by (intro write_bytes_only) simp
  then show ?thesis unfolding l by (simp add: write32_def add.assoc)
qed

lemma write_entry_only:
  assumes "unat p + 68 \<le> 2 ^ 32" "length (entry_name e) < 64"
  shows "only_in p 68 m (write_entry p e m)"
proof -
  have q: "unat (p + 64) = unat p + 64" using unat_add_small [of p 64] assms(1) by simp
  let ?bs = "map (\<lambda>c. of_nat (of_char c)) (entry_name e) @ [0] :: u8 list"
  show ?thesis unfolding write_entry_def
  proof (rule only_in_trans)
    show "only_in p (length ?bs) m (write_bytes p ?bs m)" using assms by (intro write_bytes_only) simp
    show "only_in (p + 64) 4 (write_bytes p ?bs m) (write32 (p + 64) (if entry_is_directory e then 1 else 0) (write_bytes p ?bs m))"
      using assms q by (intro write32_only) simp
  qed (use assms q in simp_all)
qed

lemma write_entries_only:
  "unat p + 68 * length es \<le> 0xC0000000 \<Longrightarrow> \<forall>e \<in> set es. length (entry_name e) < 64 \<Longrightarrow>
     only_in p (68 * length es) m (write_entries p es m)"
proof (induction es arbitrary: p m)
  case (Cons e es)
  have q: "unat (p + 68) = unat p + 68" using unat_add_small [of p 68] Cons.prems(1) by simp
  have "only_in p (68 * length (e # es)) m (write_entries (p + 68) es (write_entry p e m))"
  proof (rule only_in_trans)
    show "only_in p 68 m (write_entry p e m)" using Cons.prems by (intro write_entry_only) simp_all
    show "only_in (p + 68) (68 * length es) (write_entry p e m) (write_entries (p + 68) es (write_entry p e m))"
      using Cons.prems q by (intro Cons.IH) simp_all
  qed (use q in simp_all)
  then show ?case by simp
qed simp

lemma readdir_loop_bounds:
  "length out \<le> n \<Longrightarrow> \<forall>e \<in> set out. length (entry_name e) < 64 \<Longrightarrow>
     length (readdir_loop p n is out) \<le> n \<and> (\<forall>e \<in> set (readdir_loop p n is out). length (entry_name e) < 64)"
  by (induction p n "is" out rule: readdir_loop.induct) (auto simp: copy_text_def split: option.splits)

lemma ramfs_readdir_entries:
  "ramfs_readdir path b n fs = (r, es) \<Longrightarrow> length es \<le> unat n \<and> (\<forall>e \<in> set es. length (entry_name e) < 64)"
  using readdir_loop_bounds [of "[]" "unat n"]
  by (auto simp: ramfs_readdir_def Let_def split: if_splits option.splits)

lemma ramfs_read_length:
  "ramfs_read fd b count fs = (fs', n, bs) \<Longrightarrow> length bs \<le> unat count"
  by (auto simp: ramfs_read_def Let_def not_less word_le_nat_alt split: if_splits option.splits)

section \<open>Memory\<close>

lemma k_ram_simps [simp]:
  "k_ram (set_ram m k) = m" "k_ram (k\<lparr>k_fs := f\<rparr>) = k_ram k" "k_ram (k\<lparr>k_serial := l\<rparr>) = k_ram k"
  by (simp_all add: k_ram_def set_ram_def set_mm_def)

lemma exit_current_memory [simp]: "memory (exit_current s) = memory s"
  by (simp add: exit_current_def mark_current_exited_def Let_def split: option.splits)

lemma sleep_current_memory [simp]: "memory (sleep_current ticks now s) = memory s"
  by (simp add: sleep_current_def split: option.splits)

lemma with_path_cases:
  "with_path p op res k = Some (k', oc) \<Longrightarrow>
     k' = k \<or> (\<exists>fs path. k_fs k = Some fs \<and> k' = k\<lparr>k_fs := Some (fst (op (Some path) fs))\<rparr>)"
  by (auto simp: with_path_def failed_def split_beta split: option.splits if_splits)

lemma with_path_ram: "with_path p op res k = Some (k', oc) \<Longrightarrow> k_ram k' = k_ram k"
  by (auto dest!: with_path_cases)

lemma sys_read_user:
  assumes "from_user k" "sys_read fd p n k = Some (k', oc)"
  shows "k' = k \<or> is_user_buffer p n \<and> only_in p (unat n) (k_ram k) (k_ram k')"
proof (cases "k_fs k = None \<or> p = 0 \<or> n = 0 \<or> bad_buffer p n k")
  case True
  with assms(2) show ?thesis by (auto simp: sys_read_def failed_def split: option.splits if_splits)
next
  case False
  then obtain fs where fs: "k_fs k = Some fs" by auto
  obtain fs' r bs where rd: "ramfs_read (sint fd) True n fs = (fs', r, bs)" by (cases "ramfs_read (sint fd) True n fs")
  from False assms(1) have u: "is_user_buffer p n" by (simp add: bad_buffer_def)
  with ramfs_read_length [OF rd] have "only_in p (unat n) (k_ram k) (write_bytes p bs (k_ram k))"
    by (intro only_in_mono [OF write_bytes_only]) (auto simp: is_user_buffer_nat)
  with assms(2) False fs rd u show ?thesis by (auto simp: sys_read_def)
qed

definition listing_bytes :: "u32 \<Rightarrow> nat" where
  "listing_bytes n = 68 * min 32 (unat n)"

lemma sys_readdir_user:
  assumes "from_user k" "sys_readdir pp ep n k = Some (k', oc)"
  shows "k' = k \<or> 0x08000000 \<le> unat ep \<and> unat ep + listing_bytes n \<le> 0xC0000000 \<and> only_in ep (listing_bytes n) (k_ram k) (k_ram k')"
proof -
  define sm where "sm = (if kMaxDirEntries < n then kMaxDirEntries else n)"
  have sm: "unat (sm * 68) = listing_bytes n" "unat sm * 68 = listing_bytes n"
    by (auto simp: sm_def kMaxDirEntries_def not_less listing_bytes_def word_le_nat_alt word_less_nat_alt unat_word_ariths)
  show ?thesis
  proof (cases "k_fs k = None \<or> pp = 0 \<or> ep = 0 \<or> sm = 0 \<or> bad_string pp k \<or> bad_buffer ep (sm * 68) k")
    case True
    with assms(2) show ?thesis
      by (auto simp: sys_readdir_def failed_def sm_def [symmetric] Let_def split: option.splits if_splits)
  next
    case False
    then obtain fs where fs: "k_fs k = Some fs" by auto
    from assms(2) False fs obtain path where path: "cstring_at (k_ram k) pp = Some path"
      by (auto simp: sys_readdir_def sm_def [symmetric] Let_def split: if_splits)
    obtain r es where rd: "ramfs_readdir (Some path) True sm fs = (r, es)" by (cases "ramfs_readdir (Some path) True sm fs")
    from False assms(1) have u: "0x08000000 \<le> unat ep" "unat ep + listing_bytes n \<le> 0xC0000000"
      by (simp_all add: bad_buffer_def is_user_buffer_nat sm)
    with ramfs_readdir_entries [OF rd] sm(2) have "only_in ep (listing_bytes n) (k_ram k) (write_entries ep es (k_ram k))"
      by (intro only_in_mono [OF write_entries_only]) auto
    with assms(2) False fs rd path u show ?thesis
      by (auto simp: sys_readdir_def sm_def [symmetric] Let_def)
  qed
qed

text \<open>
  C14. What the kernel writes on behalf of a program in ring 3 stays in the buffer the program named, and that
  buffer in user memory. For a call from ring 3, whatever its number (other than \<open>write\<close>, whose file data goes
  through the kernel heap) and whatever its arguments: a byte of memory the call changes is in the user range from
  0x08000000 to 0xC0000000 and, for \<open>read\<close>, among the \<open>c\<close> bytes from \<open>b\<close> on, for \<open>readdir\<close>, among the
  first \<open>c\<close>, at most 32, entries of 68 bytes from \<open>b\<close> on; no other call changes one. A \<open>read\<close> or \<open>readdir\<close> whose
  buffer is not all in user memory changes nothing at all. Memory here is that of the machine; the tables of the
  scheduler and of the file system are records beside it, and the next property is about them.
\<close>

theorem syscall_user_confined:
  assumes "from_user k" "number \<noteq> 1" "syscall_dispatch ka now number a b c k = Some (k', oc)"
  shows "(\<forall>x. k_ram k' x \<noteq> k_ram k x \<longrightarrow> 0x08000000 \<le> unat x \<and> unat x < 0xC0000000 \<and> unat b \<le> unat x \<and>
       (number = 5 \<and> unat x < unat b + unat c \<or> number = 13 \<and> unat x < unat b + 68 * min 32 (unat c))) \<and>
    (number = 5 \<and> \<not> (0x08000000 \<le> unat b \<and> unat b + unat c \<le> 0xC0000000) \<longrightarrow> k' = k) \<and>
    (number = 13 \<and> \<not> (0x08000000 \<le> unat b \<and> unat b + 68 * min 32 (unat c) \<le> 0xC0000000) \<longrightarrow> k' = k)"
proof (cases "number = 5 \<or> number = 13")
  case True
  then show ?thesis
  proof
    assume n: "number = 5"
    then have "sys_read a b c k = Some (k', oc)" using assms(3) by (simp add: syscall_dispatch_def)
    from sys_read_user [OF assms(1) this] show ?thesis using n by (auto simp: is_user_buffer_nat only_in_def)
  next
    assume n: "number = 13"
    then have "sys_readdir a b c k = Some (k', oc)" using assms(3) by (simp add: syscall_dispatch_def)
    from sys_readdir_user [OF assms(1) this] show ?thesis
      using n unfolding listing_bytes_def by (auto simp: only_in_def)
  qed
next
  case False
  then have "k_ram k' = k_ram k"
    using assms(1-3)
    by (auto simp: syscall_dispatch_def failed_def sys_exit_def sys_sleep_def sys_open_def sys_close_def sys_md_def
        sys_rd_def sys_unlink_def k_ram_def [of "k_sched_update _ _"] Let_def
        split: if_splits option.splits prod.splits dest: with_path_ram)
      (simp_all add: k_ram_def)
  with False show ?thesis by simp
qed


section \<open>Invariants\<close>

lemma ramfs_calls_inv:
  assumes "ramfs_inv fs"
  shows "ramfs_inv (fst (ramfs_open path flags fs))" "ramfs_inv (fst (ramfs_read fd b n fs))"
    "ramfs_inv (fst (ramfs_close fd fs))" "ramfs_inv (fst (ramfs_md path fs))"
    "ramfs_inv (fst (ramfs_rd path fs))" "ramfs_inv (fst (ramfs_unlink path fs))"
  using heap_bytes.step_works [OF assms _ mm_heaps_in_order(1), where c = "Open path flags"]
    heap_bytes.step_works [OF assms _ mm_heaps_in_order(1), where c = "Read fd b n"]
    heap_bytes.step_works [OF assms _ mm_heaps_in_order(1), where c = "Close fd"]
    heap_bytes.step_works [OF assms _ mm_heaps_in_order(1), where c = "Md path"]
    heap_bytes.step_works [OF assms _ mm_heaps_in_order(1), where c = "Rd path"]
    heap_bytes.step_works [OF assms _ mm_heaps_in_order(1), where c = "Unlink path"]
  by (auto simp: Let_def split: prod.splits)

lemma sched_inv_memory [simp]: "sched_inv (s\<lparr>memory := h\<rparr>) = sched_inv s"
  by (simp add: sched_inv_def)

lemma kernel_inv_simps [simp]:
  "kernel_inv (set_ram m k) = kernel_inv k" "kernel_inv (set_mm h k) = kernel_inv k"
  "kernel_inv (k\<lparr>k_serial := l\<rparr>) = kernel_inv k"
  by (simp_all add: kernel_inv_def set_ram_def set_mm_def)

lemma kernel_inv_fs: "kernel_inv k \<Longrightarrow> ramfs_inv fs \<Longrightarrow> kernel_inv (k\<lparr>k_fs := Some fs\<rparr>)"
  by (simp add: kernel_inv_def)

lemma with_path_inv:
  assumes "with_path p op res k = Some (k', oc)" "kernel_inv k"
    and "\<And>path fs. ramfs_inv fs \<Longrightarrow> ramfs_inv (fst (op path fs))"
  shows "kernel_inv k'"
  using with_path_cases [OF assms(1)] assms(2,3) by (auto simp: kernel_inv_def)

lemma sys_read_inv: "sys_read fd p n k = Some (k', oc) \<Longrightarrow> kernel_inv k \<Longrightarrow> kernel_inv k'"
  by (auto simp: sys_read_def failed_def split_beta split: option.splits if_splits)
     (auto simp: kernel_inv_def intro: ramfs_calls_inv)

lemma sys_close_inv: "sys_close fd k = Some (k', oc) \<Longrightarrow> kernel_inv k \<Longrightarrow> kernel_inv k'"
  by (auto simp: sys_close_def failed_def split_beta split: option.splits)
     (auto simp: kernel_inv_def intro: ramfs_calls_inv)

lemma sys_readdir_inv: "sys_readdir pp ep n k = Some (k', oc) \<Longrightarrow> kernel_inv k \<Longrightarrow> kernel_inv k'"
  by (auto simp: sys_readdir_def failed_def Let_def split_beta split: option.splits if_splits)

text \<open>The file position of a write is far enough from the end of the 32-bit range.\<close>

definition write_room :: "u32 \<Rightarrow> kernel \<Rightarrow> bool" where
  "write_room fd k \<longleftrightarrow> (case k_fs k of
     None \<Rightarrow> True
   | Some fs \<Rightarrow> (case open_file fs (sint fd) of None \<Rightarrow> True | Some (p, off, fl) \<Rightarrow> unat off + 4096 \<le> 0x80000000))"

lemma sys_write_inv:
  assumes inv: "kernel_inv k" and room: "write_room fd k" and run: "sys_write ka fd p len k = Some (k', oc)"
  shows "kernel_inv k'"
proof -
  define sl where "sl = (if kWriteChunkLimit < len then kWriteChunkLimit else len)"
  let ?data = "read_bytes (k_ram k) p (unat sl)"
  have sl: "unat sl \<le> 4096" by (auto simp: sl_def kWriteChunkLimit_def not_less word_le_nat_alt)
  show ?thesis
  proof (cases "sl = 0 \<or> bad_buffer p sl k \<or> fd = 1 \<or> fd = 2 \<or> k_fs k = None")
    case True
    with inv run show ?thesis
      by (auto simp: sys_write_def sl_def [symmetric] failed_def Let_def split: if_splits)
  next
    case False
    then obtain fs where fs: "k_fs k = Some fs" by auto
    have ok: "call_ok 0x80000000 fs (Write (sint fd) (Some ?data) sl)"
      using room fs sl by (auto simp: write_room_def split: option.splits)
    have fsi: "ramfs_inv fs" using inv fs by (simp add: kernel_inv_def)
    from run False fs obtain fs' h' r where
      w: "ramfs_write (heap_new_bytes (page_tables_at ka)) (sint fd) (Some ?data) sl fs (memory (k_sched k)) = Some (fs', h', r)"
      "k' = set_mm h' (k\<lparr>k_fs := Some fs'\<rparr>)"
      by (auto simp: sys_write_def sl_def [symmetric] Let_def)
    have "ramfs_inv fs'" using heap_bytes.step_keeps [OF fsi ok] w(1) by simp
    with inv w(2) show ?thesis by (simp add: kernel_inv_fs)
  qed
qed

text \<open>
  C15. Every system call keeps the kernel consistent: from a state in which the tables of the scheduler and
  of the file system satisfy their invariants, with a runnable caller, and for a write at a
  file position that leaves room below two gigabytes, the state after any call with any arguments
  satisfies the invariants again.
\<close>

theorem syscall_keeps_invariants:
  assumes "kernel_inv k" "running (k_sched k)" "write_room a k"
    and "syscall_dispatch ka now number a b c k = Some (k', oc)"
  shows "kernel_inv k'"
proof -
  have "kernel_inv (k\<lparr>k_serial := l, k_sched := exit_current (k_sched k)\<rparr>)" for l
    using assms(1) exit_current_correct by (simp add: kernel_inv_def)
  moreover have "kernel_inv (k\<lparr>k_sched := sleep_current t now (k_sched k)\<rparr>)" for t
    using assms(1,2) sleep_current_correct by (simp add: kernel_inv_def)
  moreover have "kernel_inv k'" if "sys_write ka a b c k = Some (k', oc)"
    by (rule sys_write_inv [OF assms(1,3) that])
  moreover have "kernel_inv k'" if "with_path a op res k = Some (k', oc)"
    "op \<in> {\<lambda>path. ramfs_open path b, ramfs_md, ramfs_rd, ramfs_unlink}" for op res
    using that(2) by (intro with_path_inv [OF that(1) assms(1)]) (auto intro: ramfs_calls_inv)
  ultimately show ?thesis
    using assms(1,4) sys_read_inv sys_close_inv sys_readdir_inv
    by (auto simp: syscall_dispatch_def sys_exit_def sys_sleep_def sys_open_def sys_md_def sys_rd_def
        sys_unlink_def failed_def Let_def
        split: if_splits)
qed


text \<open>The check of a string does not look at where the string ends: it accepts one that runs out of user memory.\<close>

lemma user_string_crosses: "is_user_string (\<lambda>x. if x = 0xC0000000 then 0 else 1) 0xBFFFFFFF 512"
proof -
  have "has_end (\<lambda>x. if x = 0xC0000000 then 0 else 1) 0xBFFFFFFF (Suc (Suc 510))" by (simp del: Suc_numeral One_nat_def)
  then show ?thesis by (simp add: is_user_string_def is_user_pointer_def kUserSpaceStart_def kUserSpaceEnd_def)
qed


section \<open>Examples\<close>

definition user_kernel :: kernel where
  "user_kernel = \<lparr>k_sched = sched_one\<lparr>g_tasks := (g_tasks sched_one)[0 := (g_tasks sched_one ! 0)\<lparr>ring := 3\<rparr>]\<rparr>,
     k_fs = Some ramfs_data, k_serial = []\<rparr>"

definition idle_kernel :: kernel where
  "idle_kernel = \<lparr>k_sched = sched_one, k_fs = Some ramfs_reset, k_serial = []\<rparr>"

lemma user_kernel_from_user: "from_user user_kernel"
  by (simp add: from_user_def user_kernel_def current_ring_level_def current_task_ptr_def sched_one_def
      kernel_task_def)

lemma data_read: "ramfs_read 4 True 4 ramfs_data = (set_fd 1 ((m_fds ramfs_data ! 1)\<lparr>fd_offset := 2\<rparr>) ramfs_data, 2, [7, 9])"
  by code_simp

theorem syscall_user_confined_witness:
  "\<exists>k'. syscall_dispatch ka0 0 5 4 0x08000000 4 user_kernel = Some (k', Ret 2) \<and>
     k_ram k' = write_bytes 0x08000000 [7, 9] (k_ram user_kernel) \<and>
     (\<forall>x. k_ram k' x \<noteq> k_ram user_kernel x \<longrightarrow> 0x08000000 \<le> unat x \<and> unat x < 0x08000004)"
proof -
  have "is_user_buffer 0x08000000 4" by code_simp
  then obtain k' where d: "syscall_dispatch ka0 0 5 4 0x08000000 4 user_kernel = Some (k', Ret 2)"
      "k_ram k' = write_bytes 0x08000000 [7, 9] (k_ram user_kernel)"
    by (simp add: data_read syscall_dispatch_def sys_read_def bad_buffer_def user_kernel_def value_or_error_def)
  with syscall_user_confined [OF user_kernel_from_user _ d(1)] show ?thesis by auto
qed

lemma idle_kernel_facts: "kernel_inv idle_kernel" "running (k_sched idle_kernel)" "write_room 5 idle_kernel"
proof -
  show "kernel_inv idle_kernel"
    using sched_one_inv by (simp add: kernel_inv_def idle_kernel_def ramfs_reset_facts)
  show "running (k_sched idle_kernel)"
    by (simp add: running_def idle_kernel_def sched_one_def kernel_task_def)
  have "open_file ramfs_reset 5 = None" by code_simp
  then show "write_room 5 idle_kernel" by (simp add: write_room_def idle_kernel_def)
qed

theorem syscall_keeps_invariants_witness:
  "syscall_dispatch ka0 9 3 5 0 0 idle_kernel
     = Some (idle_kernel\<lparr>k_sched := sleep_current 5 9 sched_one\<rparr>, Waits 5) \<and>
   kernel_inv (idle_kernel\<lparr>k_sched := sleep_current 5 9 sched_one\<rparr>)"
proof -
  have "is_current_sleeping 9 (sleep_current 5 9 sched_one)"
    by (simp add: is_current_sleeping_def sleep_current_def current_task_ptr_def set_task_def sched_one_def
        kernel_task_def)
  then have d: "syscall_dispatch ka0 9 3 5 0 0 idle_kernel
     = Some (idle_kernel\<lparr>k_sched := sleep_current 5 9 sched_one\<rparr>, Waits 5)"
    by (simp add: syscall_dispatch_def sys_sleep_def Let_def idle_kernel_def)
  with syscall_keeps_invariants [OF idle_kernel_facts d] show ?thesis by blast
qed

end
