(* ===== verification/Tool_Text.thy ===== *)
theory Tool_Text
  imports Prelude "HOL-Library.Char_ord" "HOL-Library.List_Lexorder"
begin

text \<open>
  The text utilities of \<open>src/tools/macroBuilder/main.cpp\<close> (namespace \<open>util\<close>): lines, trimming,
  comments, tokens, argument lists, numbers and register names; and the two library
  containers the tools keep their tables in. A thrown exception is a value of
  \<open>tool_error\<close>, and \<open>Undefined\<close> stands for what C++ leaves undefined (a vector indexed out of
  its range, signed overflow). A \<open>std::string\<close> is a list of characters, a \<open>std::map\<close> keyed by
  strings the list of its pairs in ascending order of the keys.
\<close>


section \<open>Definitions\<close>

subsection \<open>Exceptions\<close>

datatype tool_error =
    Undefined
  | Invalid_Argument
  | Out_Of_Range
  | Length_Error
  | Empty_Number
  | Bad_Number string
  | Bad_Register string
  | Register_Range string
  | Json_Trailing
  | Json_End
  | Json_Expected char
  | Json_Literal
  | Json_Escape
  | Json_Unicode
  | Json_Number
  | Json_Array
  | Json_Object
  | Json_Depth
  | Bad_Variant
  | Missing_Key string
  | Not_Numeric
  | Macro_No_Name nat
  | Macro_No_Mend string
  | Macro_Limit
  | Macro_Arity string nat nat
  | Bad_Object
  | Duplicate_Symbol string nat string
  | Missing_Operand string nat string
  | Unknown_Instruction string nat string
  | Missing_Entry string nat string
  | Undefined_Symbol string nat string
  | Wrong_Operands string nat string
  | Undefined_Globals string "string list"
  | Bad_Mode
  | Global_Undefined string string
  | Duplicate_Global string
  | Reloc_Size string int
  | Unresolved string string
  | Entry_Not_Found string
  | Bad_Executable string
  | Image_Outside
  | Division_By_Zero
  | Bad_Opcode u8 int
  | Step_Limit int

type_synonym 'a res = "tool_error + 'a"

definition res_bind :: "'a res \<Rightarrow> ('a \<Rightarrow> 'b res) \<Rightarrow> 'b res" where
  "res_bind m f = (case m of Inl e \<Rightarrow> Inl e | Inr x \<Rightarrow> f x)"

fun res_map :: "('a \<Rightarrow> 'b res) \<Rightarrow> 'a list \<Rightarrow> 'b list res" where
  "res_map f [] = Inr []"
| "res_map f (x # xs) = res_bind (f x) (\<lambda>y. res_bind (res_map f xs) (\<lambda>ys. Inr (y # ys)))"

fun res_fold :: "('a \<Rightarrow> 's \<Rightarrow> 's res) \<Rightarrow> 'a list \<Rightarrow> 's \<Rightarrow> 's res" where
  "res_fold f [] s = Inr s"
| "res_fold f (x # xs) s = res_bind (f x s) (res_fold f xs)"

subsection \<open>Characters\<close>

definition isspace :: "char \<Rightarrow> bool" where
  "isspace c \<longleftrightarrow> c = CHR '' '' \<or> (9 \<le> (of_char c :: nat) \<and> (of_char c :: nat) \<le> 13)"

definition isdigit :: "char \<Rightarrow> bool" where
  "isdigit c \<longleftrightarrow> 48 \<le> (of_char c :: nat) \<and> (of_char c :: nat) \<le> 57"

definition toupper :: "char \<Rightarrow> char" where
  "toupper c = (if 97 \<le> (of_char c :: nat) \<and> (of_char c :: nat) \<le> 122
     then char_of ((of_char c :: nat) - 32) else c)"

definition upper :: "string \<Rightarrow> string" where
  "upper s = map toupper s"

subsection \<open>An ordered map with string keys\<close>

fun smap_set :: "string \<Rightarrow> 'v \<Rightarrow> (string \<times> 'v) list \<Rightarrow> (string \<times> 'v) list" where
  "smap_set k v [] = [(k, v)]"
| "smap_set k v ((k', v') # m) =
     (if k = k' then (k, v) # m
      else if k < k' then (k, v) # (k', v') # m
      else (k', v') # smap_set k v m)"

definition smap_emplace :: "string \<Rightarrow> 'v \<Rightarrow> (string \<times> 'v) list \<Rightarrow> (string \<times> 'v) list" where
  "smap_emplace k v m = (case map_of m k of None \<Rightarrow> smap_set k v m | Some _ \<Rightarrow> m)"

definition smap_ok :: "(string \<times> 'v) list \<Rightarrow> bool" where
  "smap_ok m \<longleftrightarrow> sorted_wrt (<) (map fst m)"

subsection \<open>Lines\<close>

definition pop_cr :: "string \<Rightarrow> string" where
  "pop_cr cur = (if cur \<noteq> [] \<and> last cur = CHR 0x0D then butlast cur else cur)"

fun read_lines_from :: "string \<Rightarrow> string \<Rightarrow> string list \<times> string" where
  "read_lines_from [] cur = ([], cur)"
| "read_lines_from (ch # text) cur =
     (if ch = CHR 0x0A
      then (let (ls, c) = read_lines_from text [] in (pop_cr cur # ls, c))
      else read_lines_from text (cur @ [ch]))"

definition read_lines :: "string \<Rightarrow> string list" where
  "read_lines text = (let (ls, cur) = read_lines_from text [] in
     if cur \<noteq> [] \<or> (text \<noteq> [] \<and> last text = CHR 0x0A) then ls @ [pop_cr cur] else ls)"

subsection \<open>Trimming, comments, tokens and arguments\<close>

definition trim :: "string \<Rightarrow> string" where
  "trim text = rev (dropWhile isspace (rev (dropWhile isspace text)))"

definition earlier_cut :: "string \<Rightarrow> char \<Rightarrow> nat option \<Rightarrow> nat option" where
  "earlier_cut line marker lim = (case find_slot ((=) marker) line of
     None \<Rightarrow> lim
   | Some pos \<Rightarrow> (case lim of None \<Rightarrow> Some pos | Some c \<Rightarrow> if pos < c then Some pos else lim))"

definition strip_comment :: "string \<Rightarrow> string" where
  "strip_comment line =
     (case fold (earlier_cut line) [CHR '';'', CHR ''#''] None of
        None \<Rightarrow> line | Some pos \<Rightarrow> take pos line)"

fun tokenize_from :: "string \<Rightarrow> string \<Rightarrow> char option \<Rightarrow> string list" where
  "tokenize_from [] cur quote = (if cur \<noteq> [] then [cur] else [])"
| "tokenize_from (ch # line) cur (Some q) =
     tokenize_from line (cur @ [ch]) (if ch = q then None else Some q)"
| "tokenize_from (ch # line) cur None =
     (if ch = CHR 0x27 \<or> ch = CHR 0x22 then tokenize_from line (cur @ [ch]) (Some ch)
      else if isspace ch then
        (if cur \<noteq> [] then cur # tokenize_from line [] None else tokenize_from line [] None)
      else tokenize_from line (cur @ [ch]) None)"

definition tokenize :: "string \<Rightarrow> string list" where
  "tokenize line = tokenize_from line [] None"

definition push_item :: "string \<Rightarrow> string list \<Rightarrow> string list" where
  "push_item cur args = (let item = trim cur in if item \<noteq> [] then item # args else args)"

fun split_args_from :: "string \<Rightarrow> string \<Rightarrow> char option \<Rightarrow> string list" where
  "split_args_from [] cur quote = push_item cur []"
| "split_args_from (ch # text) cur (Some q) =
     (if ch = q then split_args_from text cur None else split_args_from text (cur @ [ch]) (Some q))"
| "split_args_from (ch # text) cur None =
     (if ch = CHR 0x27 \<or> ch = CHR 0x22 then split_args_from text cur (Some ch)
      else if ch = CHR '','' then push_item cur (split_args_from text [] None)
      else split_args_from text (cur @ [ch]) None)"

definition split_args :: "string \<Rightarrow> string list" where
  "split_args text = split_args_from text [] None"

definition starts_with :: "string \<Rightarrow> string \<Rightarrow> bool" where
  "starts_with text pre \<longleftrightarrow> length text \<ge> length pre \<and> take (length pre) text = pre"

subsection \<open>Numbers and registers\<close>

definition llong_max :: int where
  "llong_max = 0x7FFFFFFFFFFFFFFF"

definition llong_min :: int where
  "llong_min = - 0x8000000000000000"

definition digit_of :: "char \<Rightarrow> int" where
  "digit_of ch = (let n = (of_char ch :: int) in
     if 48 \<le> n \<and> n \<le> 57 then n - 48
     else if 97 \<le> n \<and> n \<le> 102 then 10 + (n - 97)
     else if 65 \<le> n \<and> n \<le> 70 then 10 + (n - 65)
     else - 1)"

fun parse_digits :: "string \<Rightarrow> int \<Rightarrow> string \<Rightarrow> int \<Rightarrow> int res" where
  "parse_digits text base [] v = Inr v"
| "parse_digits text base (ch # s) v =
     (if ch = CHR ''_'' then parse_digits text base s v
      else if digit_of ch < 0 \<or> digit_of ch \<ge> base then Inl (Bad_Number text)
      else if v * base + digit_of ch > llong_max then Inl Undefined
      else parse_digits text base s (v * base + digit_of ch))"

definition number_sign :: "string \<Rightarrow> int \<times> string" where
  "number_sign s = (case s of
     [] \<Rightarrow> (1, [])
   | ch # s' \<Rightarrow> if ch = CHR ''-'' then (- 1, s') else if ch = CHR ''+'' then (1, s') else (1, s))"

definition number_base :: "string \<Rightarrow> int \<times> string" where
  "number_base s =
     (if starts_with s ''0x'' then (16, drop 2 s)
      else if starts_with s ''0b'' then (2, drop 2 s)
      else if starts_with s ''0o'' then (8, drop 2 s)
      else (10, s))"

definition parse_number :: "string \<Rightarrow> int res" where
  "parse_number text = (let s = trim text in
     if s = [] then Inl Empty_Number
     else let (sign, r) = number_sign s; (base, ds) = number_base r in
       if ds = [] then Inl (Bad_Number text)
       else res_bind (parse_digits text base ds 0) (\<lambda>v. Inr (v * sign)))"

definition is_number :: "string \<Rightarrow> bool res" where
  "is_number text = (case parse_number text of
     Inr _ \<Rightarrow> Inr True
   | Inl e \<Rightarrow> if e = Undefined then Inl Undefined else Inr False)"

fun decimal :: "string \<Rightarrow> int \<Rightarrow> int" where
  "decimal [] v = v"
| "decimal (ch # s) v = decimal s (v * 10 + (of_char ch - 48))"

text \<open>\<open>std::stoi\<close> and \<open>std::stoll\<close>: leading white space, a sign, the longest run of digits; what
  follows is ignored.\<close>

definition sto :: "int \<Rightarrow> int \<Rightarrow> string \<Rightarrow> int res" where
  "sto lo hi s = (let (sign, r) = number_sign (dropWhile isspace s); ds = takeWhile isdigit r in
     if ds = [] then Inl Invalid_Argument
     else let v = sign * decimal ds 0 in
       if v < lo \<or> hi < v then Inl Out_Of_Range else Inr v)"

definition stoi :: "string \<Rightarrow> int res" where
  "stoi = sto (- 0x80000000) 0x7FFFFFFF"

definition stoll :: "string \<Rightarrow> int res" where
  "stoll = sto llong_min llong_max"

definition reg_index :: "string \<Rightarrow> int res" where
  "reg_index name = (let s = upper (trim name) in
     if length s < 2 \<or> s ! 0 \<noteq> CHR ''R'' then Inl (Bad_Register name)
     else res_bind (stoi (drop 1 s)) (\<lambda>idx.
       if idx < 0 \<or> idx > 7 then Inl (Register_Range name) else Inr idx))"


section \<open>Lemmas\<close>

named_theorems res_simps "results: what a chain of fallible calls returned"

lemma res_bind_simps [simp]:
  "res_bind (Inl e) f = Inl e" "res_bind (Inr x) f = f x"
  by (simp_all add: res_bind_def)

lemma res_bind_Inr_iff [res_simps]: "res_bind m f = Inr y \<longleftrightarrow> (\<exists>x. m = Inr x \<and> f x = Inr y)"
  by (cases m) auto

lemma res_bind_Inl_iff: "res_bind m f = Inl e \<longleftrightarrow> m = Inl e \<or> (\<exists>x. m = Inr x \<and> f x = Inl e)"
  by (cases m) auto

lemma res_bind_cong [fundef_cong]:
  "m = m' \<Longrightarrow> (\<And>x. m' = Inr x \<Longrightarrow> f x = f' x) \<Longrightarrow> res_bind m f = res_bind m' f'"
  by (cases m') auto

lemma res_map_cong [fundef_cong]:
  "xs = ys \<Longrightarrow> (\<And>x. x \<in> set ys \<Longrightarrow> f x = g x) \<Longrightarrow> res_map f xs = res_map g ys"
  by (induction ys arbitrary: xs) auto

lemma res_map_InrD:
  "res_map f xs = Inr ys \<Longrightarrow> length ys = length xs \<and> (\<forall>i < length xs. f (xs ! i) = Inr (ys ! i))"
  by (induction xs arbitrary: ys) (auto simp: res_simps nth_Cons split: nat.splits)

lemma res_map_Inr: "(\<And>x. x \<in> set xs \<Longrightarrow> f x = Inr (g x)) \<Longrightarrow> res_map f xs = Inr (map g xs)"
  by (induction xs) auto

lemma res_fold_append: "res_fold f (xs @ ys) s = res_bind (res_fold f xs s) (res_fold f ys)"
  by (induction xs arbitrary: s) (auto simp: res_bind_def split: sum.splits)

text \<open>An invariant of the steps of a fold that succeeds.\<close>

lemma res_fold_inv:
  "res_fold f xs s = Inr s' \<Longrightarrow> I s \<Longrightarrow> (\<And>x s s'. x \<in> set xs \<Longrightarrow> f x s = Inr s' \<Longrightarrow> I s \<Longrightarrow> I s') \<Longrightarrow> I s'"
  by (induction xs arbitrary: s) (auto simp: res_simps)

subsection \<open>Ordered maps\<close>

lemma smap_set_keys: "fst ` set (smap_set k v m) = insert k (fst ` set m)"
  by (induction k v m rule: smap_set.induct) auto

lemma smap_set_ok [intro]: "smap_ok m \<Longrightarrow> smap_ok (smap_set k v m)"
proof (induction k v m rule: smap_set.induct)
  case (2 k v k' v' m)
  then show ?case
    using smap_set_keys [of k v m] by (fastforce simp: smap_ok_def)
qed (simp add: smap_ok_def)

lemma map_of_smap_set [simp]: "smap_ok m \<Longrightarrow> map_of (smap_set k v m) = (map_of m)(k \<mapsto> v)"
proof (induction k v m rule: smap_set.induct)
  case (2 k v k' v' m)
  have "map_of m k = None" if "k < k'"
    using 2 that by (force simp: smap_ok_def map_of_eq_None_iff)
  with 2 show ?case by (auto simp: smap_ok_def fun_eq_iff)
qed (simp add: smap_ok_def)

lemma smap_emplace_ok [intro]: "smap_ok m \<Longrightarrow> smap_ok (smap_emplace k v m)"
  by (auto simp: smap_emplace_def split: option.splits)

lemma smap_emplace_last:
  "smap_ok (m @ [(k, v)]) \<Longrightarrow> smap_emplace k v m = m @ [(k, v)]"
proof -
  assume ok: "smap_ok (m @ [(k, v)])"
  have "smap_set k v m = m @ [(k, v)]"
    using ok by (induction m) (auto simp: smap_ok_def)
  moreover have "map_of m k = None"
    using ok by (force simp: smap_ok_def sorted_wrt_append map_of_eq_None_iff)
  ultimately show ?thesis by (simp add: smap_emplace_def)
qed

subsection \<open>Text\<close>

lemma find_slot_from_takeWhile:
  "find_slot_from P i xs = (let n = length (takeWhile (\<lambda>x. \<not> P x) xs) in
     if n < length xs then Some (i + n) else None)"
  by (induction xs arbitrary: i) (auto simp: Let_def)

lemma find_slot_takeWhile:
  "find_slot P xs = (let n = length (takeWhile (\<lambda>x. \<not> P x) xs) in
     if n < length xs then Some n else None)"
  by (simp add: find_slot_def find_slot_from_takeWhile Let_def)

lemma strip_comment_takeWhile:
  "strip_comment line = takeWhile (\<lambda>c. c \<noteq> CHR '';'' \<and> c \<noteq> CHR ''#'') line"
proof (induction line)
  case Nil
  then show ?case by (simp add: strip_comment_def earlier_cut_def find_slot_def)
next
  case (Cons a line)
  then show ?case
    by (auto simp: strip_comment_def earlier_cut_def find_slot_takeWhile Let_def
        split: if_splits option.splits)
qed

lemma reg_index_range: "reg_index name = Inr r \<Longrightarrow> 0 \<le> r \<and> r \<le> 7"
  by (auto simp: reg_index_def Let_def res_simps split: if_splits)

lemma parse_digits_range:
  "parse_digits t base s v = Inr n \<Longrightarrow> 0 \<le> v \<Longrightarrow> v \<le> llong_max \<Longrightarrow> 0 < base \<Longrightarrow> 0 \<le> n \<and> n \<le> llong_max"
  by (induction t base s v rule: parse_digits.induct) (auto split: if_splits)

lemma number_base_pos: "number_base s = (base, ds) \<Longrightarrow> 0 < base"
  by (auto simp: number_base_def split: if_splits)

lemma number_sign_unit: "number_sign s = (sign, ds) \<Longrightarrow> sign = 1 \<or> sign = - 1"
  by (auto simp: number_sign_def split: if_splits list.splits)

lemma parse_number_range: "parse_number t = Inr n \<Longrightarrow> - llong_max \<le> n \<and> n \<le> llong_max"
  by (auto simp: parse_number_def Let_def res_simps llong_max_def
      dest!: number_sign_unit parse_digits_range dest: number_base_pos split: if_splits prod.splits)

end
