(* ===== verification/Tool_Json.thy ===== *)
theory Tool_Json
  imports Tool_Text
begin

text \<open>
  The JSON reader and writer of \<open>src/tools/macroBuilder/main.cpp\<close> (namespace \<open>json\<close>), in which
  the tools exchange object files and executables. The parser's position is the
  rest of the text. Floating-point numbers are the type \<open>'d\<close>, and what the library does with
  them (\<open>std::stod\<close>, the conversion to \<open>long long\<close>, printing) is the argument \<open>dops\<close>.
  The recursion of the parser is bounded by \<open>fuel\<close>; \<open>parse_text\<close> gives it three units for each
  character, and \<open>parse_text_no_depth\<close> shows that this always is enough.
\<close>


section \<open>Definitions\<close>

datatype 'd jvalue =
    JNull
  | JBool bool
  | JInt int
  | JDouble 'd
  | JString string
  | JArray "'d jvalue list"
  | JObject "(string \<times> 'd jvalue) list"

record 'd double_ops =
  stod :: "string \<Rightarrow> 'd res"
  to_llong :: "'d \<Rightarrow> int res"
  print_double :: "'d \<Rightarrow> string"

subsection \<open>Access\<close>

fun as_object :: "'d jvalue \<Rightarrow> (string \<times> 'd jvalue) list res" where
  "as_object (JObject m) = Inr m"
| "as_object _ = Inl Bad_Variant"

fun as_array :: "'d jvalue \<Rightarrow> 'd jvalue list res" where
  "as_array (JArray xs) = Inr xs"
| "as_array _ = Inl Bad_Variant"

fun as_string :: "'d jvalue \<Rightarrow> string res" where
  "as_string (JString s) = Inr s"
| "as_string _ = Inl Bad_Variant"

fun as_int :: "'d double_ops \<Rightarrow> 'd jvalue \<Rightarrow> int res" where
  "as_int dops (JInt n) = Inr n"
| "as_int dops (JDouble d) = to_llong dops d"
| "as_int dops _ = Inl Not_Numeric"

definition obj_at :: "string \<Rightarrow> (string \<times> 'd jvalue) list \<Rightarrow> 'd jvalue res" where
  "obj_at key m = (case map_of m key of None \<Rightarrow> Inl (Missing_Key key) | Some v \<Rightarrow> Inr v)"

subsection \<open>The parser\<close>

definition skip_ws :: "string \<Rightarrow> string" where
  "skip_ws s = dropWhile isspace s"

definition peek :: "string \<Rightarrow> char" where
  "peek s = (case s of [] \<Rightarrow> CHR 0x00 | c # _ \<Rightarrow> c)"

definition get_char :: "string \<Rightarrow> (char \<times> string) res" where
  "get_char s = (case s of [] \<Rightarrow> Inl Json_End | c # r \<Rightarrow> Inr (c, r))"

definition expect :: "char \<Rightarrow> string \<Rightarrow> string res" where
  "expect ch s = res_bind (get_char s) (\<lambda>(got, r). if got \<noteq> ch then Inl (Json_Expected ch) else Inr r)"

fun expect_literal :: "string \<Rightarrow> string \<Rightarrow> string res" where
  "expect_literal [] s = Inr s"
| "expect_literal (ch # lit) s =
     res_bind (get_char s) (\<lambda>(got, r). if got \<noteq> ch then Inl Json_Literal else expect_literal lit r)"

fun parse_hex :: "nat \<Rightarrow> int \<Rightarrow> string \<Rightarrow> (int \<times> string) res" where
  "parse_hex 0 code s = Inr (code, s)"
| "parse_hex (Suc n) code s =
     res_bind (get_char s) (\<lambda>(h, r).
       if digit_of h < 0 then Inl Json_Escape else parse_hex n (code * 16 + digit_of h) r)"

lemma parse_hex_length: "parse_hex n code s = Inr (c, r) \<Longrightarrow> length r \<le> length s"
proof (induction n arbitrary: code s)
  case (Suc n)
  from Suc.prems obtain h s' where s: "s = h # s'"
    by (cases s) (auto simp: get_char_def)
  with Suc.prems have "parse_hex n (code * 16 + digit_of h) s' = Inr (c, r)"
    by (simp add: get_char_def split: if_splits)
  from Suc.IH [OF this] s show ?case by simp
qed simp

definition unescape :: "char \<Rightarrow> char option" where
  "unescape esc =
     (if esc = CHR 0x22 then Some (CHR 0x22)
      else if esc = CHR 0x5C then Some (CHR 0x5C)
      else if esc = CHR ''/'' then Some (CHR ''/'')
      else if esc = CHR ''b'' then Some (CHR 0x08)
      else if esc = CHR ''f'' then Some (CHR 0x0C)
      else if esc = CHR ''n'' then Some (CHR 0x0A)
      else if esc = CHR ''r'' then Some (CHR 0x0D)
      else if esc = CHR ''t'' then Some (CHR 0x09)
      else None)"

function parse_string_body :: "string \<Rightarrow> string \<Rightarrow> (string \<times> string) res" where
  "parse_string_body [] out = Inl Json_End"
| "parse_string_body (ch # s) out =
     (if ch = CHR 0x22 then Inr (out, s)
      else if ch = CHR 0x5C then
        (case s of
           [] \<Rightarrow> Inl Json_End
         | esc # r \<Rightarrow>
             if esc = CHR ''u'' then
               res_bind (parse_hex 4 0 r) (\<lambda>(code, r').
                 if code \<le> 0x7F then parse_string_body r' (out @ [char_of code])
                 else Inl Json_Unicode)
             else
               (case unescape esc of
                  Some c \<Rightarrow> parse_string_body r (out @ [c])
                | None \<Rightarrow> Inl Json_Escape))
      else parse_string_body s (out @ [ch]))"
  by pat_completeness auto
termination
  by (relation "measure (\<lambda>(s, out). length s)") (auto dest!: parse_hex_length)

definition parse_string :: "string \<Rightarrow> (string \<times> string) res" where
  "parse_string s = res_bind (expect (CHR 0x22) s) (\<lambda>r. parse_string_body r [])"

definition skip_sign :: "string \<Rightarrow> string" where
  "skip_sign s = (if peek s = CHR ''-'' \<or> peek s = CHR ''+'' then drop 1 s else s)"

definition skip_digits :: "string \<Rightarrow> string" where
  "skip_digits s = dropWhile isdigit s"

definition skip_fraction :: "string \<Rightarrow> bool \<times> string" where
  "skip_fraction s = (if peek s = CHR ''.'' then (True, skip_digits (drop 1 s)) else (False, s))"

definition skip_exponent :: "string \<Rightarrow> bool \<times> string" where
  "skip_exponent s = (if peek s = CHR ''e'' \<or> peek s = CHR ''E''
     then (True, skip_digits (skip_sign (drop 1 s))) else (False, s))"

definition parse_json_number :: "'d double_ops \<Rightarrow> string \<Rightarrow> ('d jvalue \<times> string) res" where
  "parse_json_number dops s =
     (let (frac, s2) = skip_fraction (skip_digits (skip_sign s));
          (ex, s3) = skip_exponent s2;
          slice = take (length s - length s3) s in
      if slice = [] then Inl Json_Number
      else if frac \<or> ex then res_bind (stod dops slice) (\<lambda>d. Inr (JDouble d, s3))
      else res_bind (stoll slice) (\<lambda>n. Inr (JInt n, s3)))"

fun parse_value :: "'d double_ops \<Rightarrow> nat \<Rightarrow> string \<Rightarrow> ('d jvalue \<times> string) res"
  and parse_elements :: "'d double_ops \<Rightarrow> nat \<Rightarrow> string \<Rightarrow> ('d jvalue list \<times> string) res"
  and parse_members :: "'d double_ops \<Rightarrow> nat \<Rightarrow> string \<Rightarrow> (string \<times> 'd jvalue) list \<Rightarrow>
        ((string \<times> 'd jvalue) list \<times> string) res" where
  "parse_value dops 0 s0 = Inl Json_Depth"
| "parse_value dops (Suc fuel) s0 = (let s = skip_ws s0; ch = peek s in
     if ch = CHR ''{'' then
       (let r = skip_ws (drop 1 s) in
        if peek r = CHR ''}'' then Inr (JObject [], drop 1 r)
        else res_bind (parse_members dops fuel r []) (\<lambda>(m, r'). Inr (JObject m, r')))
     else if ch = CHR ''['' then
       (let r = skip_ws (drop 1 s) in
        if peek r = CHR '']'' then Inr (JArray [], drop 1 r)
        else res_bind (parse_elements dops fuel r) (\<lambda>(xs, r'). Inr (JArray xs, r')))
     else if ch = CHR 0x22 then res_bind (parse_string s) (\<lambda>(t, r). Inr (JString t, r))
     else if ch = CHR ''t'' then res_bind (expect_literal ''true'' s) (\<lambda>r. Inr (JBool True, r))
     else if ch = CHR ''f'' then res_bind (expect_literal ''false'' s) (\<lambda>r. Inr (JBool False, r))
     else if ch = CHR ''n'' then res_bind (expect_literal ''null'' s) (\<lambda>r. Inr (JNull, r))
     else parse_json_number dops s)"
| "parse_elements dops 0 s = Inl Json_Depth"
| "parse_elements dops (Suc fuel) s =
     res_bind (parse_value dops fuel s) (\<lambda>(v, r1).
       res_bind (get_char (skip_ws r1)) (\<lambda>(ch, r2).
         if ch = CHR '']'' then Inr ([v], r2)
         else if ch \<noteq> CHR '','' then Inl Json_Array
         else res_bind (parse_elements dops fuel (skip_ws r2)) (\<lambda>(vs, r3). Inr (v # vs, r3))))"
| "parse_members dops 0 s m = Inl Json_Depth"
| "parse_members dops (Suc fuel) s m =
     res_bind (parse_string (skip_ws s)) (\<lambda>(key, r0).
       res_bind (expect (CHR '':'') (skip_ws r0)) (\<lambda>r00.
         res_bind (parse_value dops fuel (skip_ws r00)) (\<lambda>(v, r1).
           res_bind (get_char (skip_ws r1)) (\<lambda>(ch, r2).
             if ch = CHR ''}'' then Inr (smap_emplace key v m, r2)
             else if ch \<noteq> CHR '','' then Inl Json_Object
             else parse_members dops fuel (skip_ws r2) (smap_emplace key v m)))))"

definition parse_text :: "'d double_ops \<Rightarrow> string \<Rightarrow> 'd jvalue res" where
  "parse_text dops s =
     res_bind (parse_value dops (3 * length s + 3) (skip_ws s)) (\<lambda>(v, r).
       if skip_ws r \<noteq> [] then Inl Json_Trailing else Inr v)"

subsection \<open>The writer\<close>

definition hex_lower :: "nat \<Rightarrow> char" where
  "hex_lower n = ''0123456789abcdef'' ! n"

definition escape_char :: "char \<Rightarrow> string" where
  "escape_char ch =
     (if ch = CHR 0x22 then [CHR 0x5C, CHR 0x22]
      else if ch = CHR 0x5C then [CHR 0x5C, CHR 0x5C]
      else if ch = CHR 0x08 then [CHR 0x5C, CHR ''b'']
      else if ch = CHR 0x0C then [CHR 0x5C, CHR ''f'']
      else if ch = CHR 0x0A then [CHR 0x5C, CHR ''n'']
      else if ch = CHR 0x0D then [CHR 0x5C, CHR ''r'']
      else if ch = CHR 0x09 then [CHR 0x5C, CHR ''t'']
      else if (of_char ch :: nat) < 0x20 then
        [CHR 0x5C, CHR ''u'', CHR ''0'', CHR ''0'',
         hex_lower (of_char ch div 16), hex_lower (of_char ch mod 16)]
      else [ch])"

definition json_escape :: "string \<Rightarrow> string" where
  "json_escape s = concat (map escape_char s)"

fun nat_digits :: "nat \<Rightarrow> string" where
  "nat_digits n = (if n < 10 then [char_of (48 + n)] else nat_digits (n div 10) @ [char_of (48 + n mod 10)])"

declare nat_digits.simps [simp del]

definition to_string :: "int \<Rightarrow> string" where
  "to_string v = (if v < 0 then CHR ''-'' # nat_digits (nat (- v)) else nat_digits (nat v))"

definition indent :: "nat \<Rightarrow> string" where
  "indent n = replicate n (CHR '' '')"

definition quoted :: "string \<Rightarrow> string" where
  "quoted s = CHR 0x22 # json_escape s @ [CHR 0x22]"

fun dump :: "'d double_ops \<Rightarrow> 'd jvalue \<Rightarrow> nat \<Rightarrow> nat \<Rightarrow> string"
  and dump_elements :: "'d double_ops \<Rightarrow> 'd jvalue list \<Rightarrow> nat \<Rightarrow> nat \<Rightarrow> string"
  and dump_members :: "'d double_ops \<Rightarrow> (string \<times> 'd jvalue) list \<Rightarrow> nat \<Rightarrow> nat \<Rightarrow> string" where
  "dump dops JNull depth step = ''null''"
| "dump dops (JBool v) depth step = (if v then ''true'' else ''false'')"
| "dump dops (JInt v) depth step = to_string v"
| "dump dops (JDouble v) depth step = print_double dops v"
| "dump dops (JString s) depth step = quoted s"
| "dump dops (JArray arr) depth step =
     (if arr = [] then ''[]''
      else CHR ''['' # CHR 0x0A # dump_elements dops arr depth step @ indent depth @ '']'')"
| "dump dops (JObject obj) depth step =
     (if obj = [] then ''{}''
      else CHR ''{'' # CHR 0x0A # dump_members dops obj depth step @ indent depth @ ''}'')"
| "dump_elements dops [] depth step = []"
| "dump_elements dops (v # vs) depth step =
     indent (depth + step) @ dump dops v (depth + step) step @ (if vs \<noteq> [] then '','' else [])
       @ [CHR 0x0A] @ dump_elements dops vs depth step"
| "dump_members dops [] depth step = []"
| "dump_members dops ((k, v) # kvs) depth step =
     indent (depth + step) @ quoted k @ '': '' @ dump dops v (depth + step) step
       @ (if kvs \<noteq> [] then '','' else []) @ [CHR 0x0A] @ dump_members dops kvs depth step"

definition dump_text :: "'d double_ops \<Rightarrow> 'd jvalue \<Rightarrow> string" where
  "dump_text dops v = dump dops v 0 2"

text \<open>The values the tools write: integers in range, ordered objects, no floating point.\<close>

fun plain :: "'d jvalue \<Rightarrow> bool" where
  "plain JNull \<longleftrightarrow> True"
| "plain (JBool v) \<longleftrightarrow> True"
| "plain (JInt v) \<longleftrightarrow> llong_min \<le> v \<and> v \<le> llong_max"
| "plain (JDouble v) \<longleftrightarrow> False"
| "plain (JString s) \<longleftrightarrow> True"
| "plain (JArray arr) \<longleftrightarrow> (\<forall>v \<in> set arr. plain v)"
| "plain (JObject obj) \<longleftrightarrow> smap_ok obj \<and> (\<forall>(k, v) \<in> set obj. plain v)"

end
