(* ===== verification/Tool_Asm.thy ===== *)
theory Tool_Asm
  imports Tool_Json
begin

text \<open>
  The assembler of \<open>src/tools/macroBuilder/main.cpp\<close> (\<open>TwoPassAssembler\<close>) and the object file it
  writes (\<open>ObjectFile\<close>, \<open>parse_object\<close>). The first pass assigns addresses to labels, the second
  emits bytes and relocations into a vector of the size the first pass counted. A write outside
  that vector is \<open>Undefined\<close>, and so is a program counter that leaves the range of \<open>long long\<close>.
\<close>


section \<open>Definitions\<close>

subsection \<open>Object files\<close>

record reloc =
  rel_offset :: int
  rel_size :: int
  rel_symbol :: string
  rel_addend :: int

type_synonym symtab = "(string \<times> int) list"

record object_file =
  obj_module :: string
  obj_size :: int
  obj_code :: "u8 list"
  obj_symbols :: symtab
  obj_globals :: "string list"
  obj_externs :: "string list"
  obj_entry :: int
  obj_relocations :: "reloc list"

definition parse_reloc :: "'d double_ops \<Rightarrow> 'd jvalue \<Rightarrow> reloc res" where
  "parse_reloc dops item =
     res_bind (as_object item) (\<lambda>ro.
     res_bind (res_bind (obj_at ''offset'' ro) (as_int dops)) (\<lambda>off.
     res_bind (res_bind (obj_at ''size'' ro) (as_int dops)) (\<lambda>sz.
     res_bind (res_bind (obj_at ''symbol'' ro) as_string) (\<lambda>name.
     res_bind (case map_of ro ''addend'' of None \<Rightarrow> Inr 0 | Some v \<Rightarrow> as_int dops v) (\<lambda>add.
       Inr \<lparr>rel_offset = off, rel_size = sz, rel_symbol = name, rel_addend = add\<rparr>)))))"

definition parse_symbols :: "'d double_ops \<Rightarrow> (string \<times> 'd jvalue) list \<Rightarrow> symtab res" where
  "parse_symbols dops m =
     res_fold (\<lambda>(name, v) syms. res_bind (as_int dops v) (\<lambda>n. Inr (smap_set name n syms))) m []"

definition parse_code :: "'d double_ops \<Rightarrow> 'd jvalue list \<Rightarrow> u8 list res" where
  "parse_code dops = res_map (\<lambda>item. res_bind (as_int dops item) (\<lambda>n. Inr (word_of_int n)))"

definition parse_object :: "'d double_ops \<Rightarrow> 'd jvalue \<Rightarrow> object_file res" where
  "parse_object dops root = (case root of
     JObject obj \<Rightarrow>
       if map_of obj ''format'' \<noteq> Some (JString ''wirth-obj-v1'') then Inl Bad_Object
       else
         res_bind (res_bind (obj_at ''module'' obj) as_string) (\<lambda>module.
         res_bind (res_bind (obj_at ''size'' obj) (as_int dops)) (\<lambda>sz.
         res_bind (res_bind (obj_at ''code'' obj) as_array) (\<lambda>items.
         res_bind (parse_code dops items) (\<lambda>code.
         res_bind (res_bind (obj_at ''symbols'' obj) as_object) (\<lambda>symobj.
         res_bind (parse_symbols dops symobj) (\<lambda>symbols.
         res_bind (res_bind (obj_at ''globals'' obj) as_array) (\<lambda>gitems.
         res_bind (res_map as_string gitems) (\<lambda>globals.
         res_bind (case map_of obj ''externs'' of None \<Rightarrow> Inr []
             | Some v \<Rightarrow> res_bind (as_array v) (res_map as_string)) (\<lambda>externs.
         res_bind (case map_of obj ''entry'' of None \<Rightarrow> Inr 0 | Some v \<Rightarrow> as_int dops v) (\<lambda>entry.
         res_bind (case map_of obj ''relocations'' of None \<Rightarrow> Inr []
             | Some v \<Rightarrow> res_bind (as_array v) (res_map (parse_reloc dops))) (\<lambda>relocs.
           Inr \<lparr>obj_module = module, obj_size = sz, obj_code = code, obj_symbols = symbols,
             obj_globals = globals, obj_externs = externs, obj_entry = entry,
             obj_relocations = relocs\<rparr>)))))))))))
   | _ \<Rightarrow> Inl Bad_Object)"

subsection \<open>Instructions\<close>

definition instr_sizes :: "string \<Rightarrow> int option" where
  "instr_sizes = map_of
     [(''NOP'', 1), (''HALT'', 1), (''RET'', 1), (''LOADI'', 4), (''LOAD'', 4), (''STORE'', 4),
      (''ADD'', 3), (''SUB'', 3), (''MUL'', 3), (''DIV'', 3), (''MOV'', 3), (''JMP'', 3),
      (''JZ'', 4), (''JNZ'', 4), (''PRINT'', 2)]"

definition opmap :: "string \<Rightarrow> u8 option" where
  "opmap = map_of
     [(''NOP'', 0x00), (''HALT'', 0x01), (''RET'', 0x02), (''LOADI'', 0x10), (''LOAD'', 0x11),
      (''STORE'', 0x12), (''ADD'', 0x20), (''SUB'', 0x21), (''MUL'', 0x22), (''DIV'', 0x23),
      (''MOV'', 0x24), (''JMP'', 0x30), (''JZ'', 0x31), (''JNZ'', 0x32), (''PRINT'', 0x40)]"

definition set_byte :: "int \<Rightarrow> u8 \<Rightarrow> u8 list \<Rightarrow> u8 list res" where
  "set_byte i b code = (if 0 \<le> i \<and> i < int (length code) then Inr (code[nat i := b]) else Inl Undefined)"

definition emit_u16 :: "int \<Rightarrow> int \<Rightarrow> u8 list \<Rightarrow> u8 list res" where
  "emit_u16 offset v code =
     res_bind (set_byte offset (word_of_int v) code) (set_byte (offset + 1) (word_of_int (v div 256)))"

type_synonym emitted = "u8 list \<times> reloc list"

definition emit_symbol_u16 :: "string \<Rightarrow> nat \<Rightarrow> symtab \<Rightarrow> string list \<Rightarrow> int \<Rightarrow> string \<Rightarrow> emitted \<Rightarrow> emitted res"
where
  "emit_symbol_u16 src line_no symbols externs offset name = (\<lambda>(code, relocs).
     let r = \<lparr>rel_offset = offset, rel_size = 2, rel_symbol = name, rel_addend = 0\<rparr> in
     case map_of symbols name of
       Some v \<Rightarrow> res_bind (emit_u16 offset v code) (\<lambda>code'. Inr (code', relocs @ [r]))
     | None \<Rightarrow>
         if name \<in> set externs
         then res_bind (emit_u16 offset 0 code) (\<lambda>code'. Inr (code', relocs @ [r]))
         else Inl (Undefined_Symbol src line_no name))"

text \<open>An operand that is a number or a symbol.\<close>

definition emit_operand :: "string \<Rightarrow> nat \<Rightarrow> symtab \<Rightarrow> string list \<Rightarrow> int \<Rightarrow> string \<Rightarrow> emitted \<Rightarrow> emitted res"
where
  "emit_operand src line_no symbols externs offset arg = (\<lambda>(code, relocs).
     res_bind (is_number arg) (\<lambda>num.
       if num then
         res_bind (parse_number arg) (\<lambda>v. res_bind (emit_u16 offset v code) (\<lambda>code'. Inr (code', relocs)))
       else emit_symbol_u16 src line_no symbols externs offset arg (code, relocs)))"

definition emit_reg :: "int \<Rightarrow> string \<Rightarrow> u8 list \<Rightarrow> u8 list res" where
  "emit_reg offset arg code = res_bind (reg_index arg) (\<lambda>r. set_byte offset (word_of_int r) code)"

definition encode_instruction :: "string \<Rightarrow> nat \<Rightarrow> symtab \<Rightarrow> string list \<Rightarrow> int \<Rightarrow> string \<Rightarrow> string list \<Rightarrow>
    emitted \<Rightarrow> (int \<times> emitted) res" where
  "encode_instruction src line_no symbols externs pc op args = (\<lambda>(code0, relocs).
     case opmap op of
       None \<Rightarrow> Inl (Unknown_Instruction src line_no op)
     | Some byte \<Rightarrow>
       res_bind (set_byte pc byte code0) (\<lambda>code.
       if op = ''NOP'' \<or> op = ''HALT'' \<or> op = ''RET'' then Inr (pc + 1, code, relocs)
       else if op = ''PRINT'' then
         (if length args \<noteq> 1 then Inl (Wrong_Operands src line_no op)
          else res_bind (emit_reg (pc + 1) (args ! 0) code) (\<lambda>code1. Inr (pc + 2, code1, relocs)))
       else if op = ''ADD'' \<or> op = ''SUB'' \<or> op = ''MUL'' \<or> op = ''DIV'' \<or> op = ''MOV'' then
         (if length args \<noteq> 2 then Inl (Wrong_Operands src line_no op)
          else res_bind (emit_reg (pc + 1) (args ! 0) code) (\<lambda>code1.
               res_bind (emit_reg (pc + 2) (args ! 1) code1) (\<lambda>code2. Inr (pc + 3, code2, relocs))))
       else if op = ''LOADI'' then
         (if length args \<noteq> 2 then Inl (Wrong_Operands src line_no op)
          else res_bind (emit_reg (pc + 1) (args ! 0) code) (\<lambda>code1.
               res_bind (parse_number (args ! 1)) (\<lambda>imm.
               res_bind (emit_u16 (pc + 2) imm code1) (\<lambda>code2. Inr (pc + 4, code2, relocs)))))
       else if op = ''LOAD'' \<or> op = ''STORE'' then
         (if length args \<noteq> 2 then Inl (Wrong_Operands src line_no op)
          else res_bind (emit_reg (pc + 1) (args ! 0) code) (\<lambda>code1.
               res_bind (emit_operand src line_no symbols externs (pc + 2) (args ! 1) (code1, relocs))
                 (\<lambda>em. Inr (pc + 4, em))))
       else if op = ''JMP'' then
         (if length args \<noteq> 1 then Inl (Wrong_Operands src line_no op)
          else res_bind (emit_operand src line_no symbols externs (pc + 1) (args ! 0) (code, relocs))
                 (\<lambda>em. Inr (pc + 3, em)))
       else if op = ''JZ'' \<or> op = ''JNZ'' then
         (if length args \<noteq> 2 then Inl (Wrong_Operands src line_no op)
          else res_bind (emit_reg (pc + 1) (args ! 0) code) (\<lambda>code1.
               res_bind (emit_operand src line_no symbols externs (pc + 2) (args ! 1) (code1, relocs))
                 (\<lambda>em. Inr (pc + 4, em))))
       else Inl (Unknown_Instruction src line_no op)))"

subsection \<open>The first pass\<close>

record pass1 =
  p1_symbols :: symtab
  p1_globals :: "string list"
  p1_externs :: "string list"
  p1_parsed :: "(nat \<times> string) list"
  p1_pc :: int

definition split_label :: "string \<Rightarrow> string \<times> string" where
  "split_label line = (case find_slot ((=) (CHR '':'')) line of
     None \<Rightarrow> ([], line)
   | Some pos \<Rightarrow>
       let left = trim (take pos line); right = trim (drop (pos + 1) line) in
       if left = [] then ([], line) else (left, right))"

definition ll_add :: "int \<Rightarrow> int \<Rightarrow> int res" where
  "ll_add a b = (if a + b < llong_min \<or> llong_max < a + b then Inl Undefined else Inr (a + b))"

definition advance :: "int \<Rightarrow> pass1 \<Rightarrow> pass1 res" where
  "advance n st = res_bind (ll_add (p1_pc st) n) (\<lambda>pc. Inr (st\<lparr>p1_pc := pc\<rparr>))"

text \<open>The first pass on a statement, a line without its label.\<close>

definition pass1_statement :: "string \<Rightarrow> nat \<Rightarrow> string \<Rightarrow> pass1 \<Rightarrow> pass1 res" where
  "pass1_statement src line_no line st0 =
     (let st = st0\<lparr>p1_parsed := p1_parsed st0 @ [(line_no, line)]\<rparr>; tk = tokenize line in
      if tk = [] then Inr st
      else let directive = upper (hd tk) in
      if directive = ''.GLOBAL'' then
        (if length tk < 2 then Inl (Missing_Operand src line_no directive)
         else Inr (st\<lparr>p1_globals := p1_globals st @ [tk ! 1]\<rparr>))
      else if directive = ''.EXTERN'' then
        (if length tk < 2 then Inl (Missing_Operand src line_no directive)
         else Inr (st\<lparr>p1_externs := p1_externs st @ [tk ! 1]\<rparr>))
      else if directive = ''.WORD'' then advance 2 st
      else if directive = ''.SPACE'' then
        (if length tk < 2 then Inl (Missing_Operand src line_no directive)
         else res_bind (parse_number (tk ! 1)) (\<lambda>n. advance n st))
      else if directive = ''.BYTE'' then advance 1 st
      else if directive = ''.ENTRY'' then Inr st
      else (case instr_sizes directive of
              None \<Rightarrow> Inl (Unknown_Instruction src line_no (hd tk))
            | Some n \<Rightarrow> advance n st))"

definition pass1_line :: "string \<Rightarrow> nat \<Rightarrow> string \<Rightarrow> pass1 \<Rightarrow> pass1 res" where
  "pass1_line src line_no source_line st =
     (let line = trim (strip_comment source_line) in
      if line = [] then Inr st
      else let (label, rest) = split_label line in
      if label = [] then pass1_statement src line_no line st
      else if map_of (p1_symbols st) label \<noteq> None then Inl (Duplicate_Symbol src line_no label)
      else let st' = st\<lparr>p1_symbols := smap_set label (p1_pc st) (p1_symbols st)\<rparr> in
        if rest = [] then Inr st' else pass1_statement src line_no rest st')"

fun pass1_lines :: "string \<Rightarrow> nat \<Rightarrow> string list \<Rightarrow> pass1 \<Rightarrow> pass1 res" where
  "pass1_lines src line_no [] st = Inr st"
| "pass1_lines src line_no (l # ls) st =
     res_bind (pass1_line src line_no l st) (pass1_lines src (line_no + 1) ls)"

definition pass1_start :: pass1 where
  "pass1_start = \<lparr>p1_symbols = [], p1_globals = [], p1_externs = [], p1_parsed = [], p1_pc = 0\<rparr>"

subsection \<open>The second pass\<close>

record pass2 =
  p2_pc :: int
  p2_code :: "u8 list"
  p2_relocs :: "reloc list"
  p2_entry :: int

fun zero_bytes :: "int \<Rightarrow> nat \<Rightarrow> u8 list \<Rightarrow> u8 list res" where
  "zero_bytes pos 0 code = Inr code"
| "zero_bytes pos (Suc n) code = res_bind (set_byte pos 0 code) (zero_bytes (pos + 1) n)"

definition pass2_line :: "string \<Rightarrow> symtab \<Rightarrow> string list \<Rightarrow> nat \<times> string \<Rightarrow> pass2 \<Rightarrow> pass2 res" where
  "pass2_line src symbols externs parsed st = (case parsed of (line_no, line) \<Rightarrow>
     let tk = tokenize line in
     if tk = [] then Inr st
     else let op = upper (hd tk); pc = p2_pc st; code = p2_code st in
     if op = ''.GLOBAL'' \<or> op = ''.EXTERN'' then Inr st
     else if op = ''.ENTRY'' then
       (if length tk < 2 then Inl (Missing_Operand src line_no op)
        else case map_of symbols (tk ! 1) of
          None \<Rightarrow> Inl (Missing_Entry src line_no (tk ! 1))
        | Some v \<Rightarrow> Inr (st\<lparr>p2_entry := v\<rparr>))
     else if op = ''.BYTE'' then
       (if length tk < 2 then Inl (Missing_Operand src line_no op)
        else res_bind (parse_number (tk ! 1)) (\<lambda>v.
             res_bind (set_byte pc (word_of_int v) code) (\<lambda>code'.
               Inr (st\<lparr>p2_code := code', p2_pc := pc + 1\<rparr>))))
     else if op = ''.WORD'' then
       (if length tk < 2 then Inl (Missing_Operand src line_no op)
        else res_bind (emit_operand src line_no symbols externs pc (tk ! 1) (code, p2_relocs st))
               (\<lambda>(code', relocs'). Inr (st\<lparr>p2_code := code', p2_relocs := relocs', p2_pc := pc + 2\<rparr>)))
     else if op = ''.SPACE'' then
       (if length tk < 2 then Inl (Missing_Operand src line_no op)
        else res_bind (parse_number (tk ! 1)) (\<lambda>count.
             res_bind (zero_bytes pc (nat count) code) (\<lambda>code'.
               Inr (st\<lparr>p2_code := code', p2_pc := pc + count\<rparr>))))
     else
       res_bind (encode_instruction src line_no symbols externs pc op
           (split_args (trim (drop (length (hd tk)) line))) (code, p2_relocs st))
         (\<lambda>(pc', code', relocs'). Inr (st\<lparr>p2_code := code', p2_relocs := relocs', p2_pc := pc'\<rparr>)))"

subsection \<open>The assembler\<close>

definition undefined_globals :: "pass1 \<Rightarrow> string list" where
  "undefined_globals st = filter (\<lambda>g. map_of (p1_symbols st) g = None) (p1_globals st)"

text \<open>What the two passes compute, before it is written out.\<close>

definition assemble_object :: "string list \<Rightarrow> string \<Rightarrow> string \<Rightarrow> object_file res" where
  "assemble_object lines module src =
     res_bind (pass1_lines src 1 lines pass1_start) (\<lambda>s1.
       if p1_pc s1 < 0 then Inl Length_Error
       else
         res_bind (res_fold (pass2_line src (p1_symbols s1) (p1_externs s1)) (p1_parsed s1)
           \<lparr>p2_pc = 0, p2_code = replicate (nat (p1_pc s1)) 0, p2_relocs = [], p2_entry = 0\<rparr>) (\<lambda>s2.
         if undefined_globals s1 \<noteq> [] then Inl (Undefined_Globals src (undefined_globals s1))
         else Inr \<lparr>obj_module = module, obj_size = int (length (p2_code s2)), obj_code = p2_code s2,
             obj_symbols = p1_symbols s1, obj_globals = remdups_adj (sort (p1_globals s1)),
             obj_externs = remdups_adj (sort (p1_externs s1)), obj_entry = p2_entry s2,
             obj_relocations = p2_relocs s2\<rparr>))"

definition reloc_value :: "reloc \<Rightarrow> 'd jvalue" where
  "reloc_value r = JObject
     (smap_set ''addend'' (JInt (rel_addend r)) (smap_set ''symbol'' (JString (rel_symbol r))
       (smap_set ''size'' (JInt (rel_size r)) (smap_set ''offset'' (JInt (rel_offset r)) []))))"

definition object_value :: "object_file \<Rightarrow> 'd jvalue" where
  "object_value ob = JObject (fold (\<lambda>(k, v). smap_set k v)
     [(''format'', JString ''wirth-obj-v1''),
      (''module'', JString (obj_module ob)),
      (''size'', JInt (obj_size ob)),
      (''code'', JArray (map (\<lambda>b. JInt (uint b)) (obj_code ob))),
      (''symbols'', JObject (fold (\<lambda>(name, v). smap_set name (JInt v)) (obj_symbols ob) [])),
      (''globals'', JArray (map JString (obj_globals ob))),
      (''externs'', JArray (map JString (obj_externs ob))),
      (''entry'', JInt (obj_entry ob)),
      (''relocations'', JArray (map reloc_value (obj_relocations ob)))] [])"

definition assemble_lines :: "string list \<Rightarrow> string \<Rightarrow> string \<Rightarrow> 'd jvalue res" where
  "assemble_lines lines module src =
     res_bind (assemble_object lines module src) (\<lambda>ob. Inr (object_value ob))"

text \<open>\<open>assemble_file\<close> on the contents of a file: the object file's text.\<close>

definition assemble_text :: "'d double_ops \<Rightarrow> string \<Rightarrow> string \<Rightarrow> string \<Rightarrow> string res" where
  "assemble_text dops src_text module src =
     res_bind (assemble_lines (read_lines src_text) module src) (\<lambda>v. Inr (dump_text dops v))"

end
