(* ===== verification/Tool_Asm_Correct.thy ===== *)
theory Tool_Asm_Correct
  imports Tool_Asm
begin

text \<open>
  The two passes of the assembler agree: the second emits every statement at the address the
  first one counted for it, so labels name the code that follows them, and no write leaves the vector
  the first pass sized.
\<close>


section \<open>Definitions\<close>

text \<open>The size of a statement, as far as its text determines it.\<close>

definition statement_size :: "string \<Rightarrow> int" where
  "statement_size line = (case tokenize line of
     [] \<Rightarrow> 0
   | t # ts \<Rightarrow> let op = upper t in
       if op = ''.GLOBAL'' \<or> op = ''.EXTERN'' \<or> op = ''.ENTRY'' then 0
       else if op = ''.WORD'' then 2
       else if op = ''.BYTE'' then 1
       else if op = ''.SPACE'' then
         (case ts of [] \<Rightarrow> 0 | a # _ \<Rightarrow> (case parse_number a of Inr n \<Rightarrow> n | Inl _ \<Rightarrow> 0))
       else (case instr_sizes op of Some n \<Rightarrow> n | None \<Rightarrow> 0))"

definition parsed_size :: "(nat \<times> string) list \<Rightarrow> int" where
  "parsed_size ps = sum_list (map (statement_size \<circ> snd) ps)"

text \<open>The bytes of a vector outside an interval are unchanged.\<close>

definition unchanged_outside :: "int \<Rightarrow> int \<Rightarrow> u8 list \<Rightarrow> u8 list \<Rightarrow> bool" where
  "unchanged_outside lo hi xs ys \<longleftrightarrow> length ys = length xs \<and>
     (\<forall>i < length xs. int i < lo \<or> hi \<le> int i \<longrightarrow> ys ! i = xs ! i)"


section \<open>Writes\<close>

lemma set_byte_InrD:
  "set_byte i b xs = Inr ys \<Longrightarrow> 0 \<le> i \<and> i < int (length xs) \<and> ys = xs[nat i := b]"
  by (auto simp: set_byte_def split: if_splits)

lemma set_byte_unchanged: "set_byte i b xs = Inr ys \<Longrightarrow> unchanged_outside i (i + 1) xs ys"
  by (auto simp: unchanged_outside_def nth_list_update dest!: set_byte_InrD)

lemma unchanged_two:
  assumes "unchanged_outside a b xs ys" "unchanged_outside c d ys zs"
    and "lo \<le> a" "b \<le> hi" "lo \<le> c" "d \<le> hi"
  shows "unchanged_outside lo hi xs zs"
  unfolding unchanged_outside_def
proof (intro conjI allI impI)
  fix i assume i: "i < length xs" and out: "int i < lo \<or> hi \<le> int i"
  from out assms(3-6) have "int i < a \<or> b \<le> int i" "int i < c \<or> d \<le> int i" by auto
  with i assms(1,2) have "ys ! i = xs ! i" "zs ! i = ys ! i"
    unfolding unchanged_outside_def by (metis, metis)
  then show "zs ! i = xs ! i" by simp
qed (use assms in \<open>simp add: unchanged_outside_def\<close>)

lemma unchanged_three:
  assumes "unchanged_outside a b xs ys" "unchanged_outside c d ys zs" "unchanged_outside e f zs us"
    and "lo \<le> a" "b \<le> hi" "lo \<le> c" "d \<le> hi" "lo \<le> e" "f \<le> hi"
  shows "unchanged_outside lo hi xs us"
  by (rule unchanged_two [OF assms(1) unchanged_two [OF assms(2,3), of lo hi]]) (use assms(4-9) in simp_all)

lemma emit_u16_unchanged: "emit_u16 i v xs = Inr ys \<Longrightarrow> unchanged_outside i (i + 2) xs ys"
  unfolding emit_u16_def res_simps
  by (elim exE conjE) (rule unchanged_two [OF set_byte_unchanged set_byte_unchanged], assumption+, simp_all)

lemma emit_reg_unchanged: "emit_reg i a xs = Inr ys \<Longrightarrow> unchanged_outside i (i + 1) xs ys"
  by (auto simp: emit_reg_def res_simps intro: set_byte_unchanged)

lemma emit_operand_unchanged:
  "emit_operand src n syms exts i a (xs, rs) = Inr (ys, rs') \<Longrightarrow> unchanged_outside i (i + 2) xs ys"
  by (auto simp: emit_operand_def emit_symbol_u16_def Let_def res_simps
      split: if_splits option.splits intro: emit_u16_unchanged)

lemmas unchanged_dests = set_byte_unchanged emit_reg_unchanged emit_u16_unchanged emit_operand_unchanged

text \<open>A write inside the vector never is undefined.\<close>

lemma set_byte_in: "0 \<le> i \<Longrightarrow> i < int (length xs) \<Longrightarrow> set_byte i b xs = Inr (xs[nat i := b])"
  by (simp add: set_byte_def)

lemma emit_u16_in:
  "0 \<le> i \<Longrightarrow> i + 1 < int (length xs) \<Longrightarrow>
     emit_u16 i v xs = Inr (xs[nat i := word_of_int v, nat (i + 1) := word_of_int (v div 256)])"
  by (simp add: emit_u16_def set_byte_in)

lemma emit_reg_defined:
  "0 \<le> i \<Longrightarrow> i < int (length xs) \<Longrightarrow> emit_reg i a xs \<noteq> Inl Undefined"
  by (auto simp: emit_reg_def res_bind_Inl_iff set_byte_in reg_index_def stoi_def sto_def Let_def
      split: if_splits prod.splits)

lemma emit_operand_defined:
  "0 \<le> i \<Longrightarrow> i + 1 < int (length xs) \<Longrightarrow> parse_number a \<noteq> Inl Undefined \<Longrightarrow>
     emit_operand src n syms exts i a (xs, rs) \<noteq> Inl Undefined"
  by (auto simp: emit_operand_def emit_symbol_u16_def is_number_def Let_def res_bind_Inl_iff emit_u16_in
      split: if_splits option.splits sum.splits)


section \<open>One instruction\<close>

definition plain_ops :: "string list" where
  "plain_ops = [''NOP'', ''HALT'', ''RET'']"

definition alu_ops :: "string list" where
  "alu_ops = [''ADD'', ''SUB'', ''MUL'', ''DIV'', ''MOV'']"

definition address_ops :: "string list" where
  "address_ops = [''LOAD'', ''STORE'', ''JZ'', ''JNZ'']"

lemmas op_groups = plain_ops_def alu_ops_def address_ops_def

lemma instr_sizes_cases:
  assumes "instr_sizes op = Some k"
  obtains "op \<in> set plain_ops" "k = 1" | "op = ''PRINT''" "k = 2" | "op \<in> set alu_ops" "k = 3"
    | "op = ''LOADI''" "k = 4" | "op \<in> set address_ops" "k = 4" | "op = ''JMP''" "k = 3"
  using assms by (auto simp: instr_sizes_def op_groups split: if_splits)

lemma encode_plain:
  "op \<in> set plain_ops \<Longrightarrow> encode_instruction src n syms exts pc op args (code, rs) =
     res_bind (set_byte pc (the (opmap op)) code) (\<lambda>c. Inr (pc + 1, c, rs))"
  by (simp add: op_groups, elim disjE; hypsubst; simp add: encode_instruction_def opmap_def)

lemma encode_print:
  "encode_instruction src n syms exts pc ''PRINT'' args (code, rs) =
     res_bind (set_byte pc 0x40 code) (\<lambda>c.
       if length args \<noteq> 1 then Inl (Wrong_Operands src n ''PRINT'')
       else res_bind (emit_reg (pc + 1) (args ! 0) c) (\<lambda>c1. Inr (pc + 2, c1, rs)))"
  by (simp add: encode_instruction_def opmap_def)

lemma encode_alu:
  "op \<in> set alu_ops \<Longrightarrow> encode_instruction src n syms exts pc op args (code, rs) =
     res_bind (set_byte pc (the (opmap op)) code) (\<lambda>c.
       if length args \<noteq> 2 then Inl (Wrong_Operands src n op)
       else res_bind (emit_reg (pc + 1) (args ! 0) c) (\<lambda>c1.
            res_bind (emit_reg (pc + 2) (args ! 1) c1) (\<lambda>c2. Inr (pc + 3, c2, rs))))"
  by (simp add: op_groups, elim disjE; hypsubst; simp add: encode_instruction_def opmap_def)

lemma encode_loadi:
  "encode_instruction src n syms exts pc ''LOADI'' args (code, rs) =
     res_bind (set_byte pc 0x10 code) (\<lambda>c.
       if length args \<noteq> 2 then Inl (Wrong_Operands src n ''LOADI'')
       else res_bind (emit_reg (pc + 1) (args ! 0) c) (\<lambda>c1.
            res_bind (parse_number (args ! 1)) (\<lambda>imm.
            res_bind (emit_u16 (pc + 2) imm c1) (\<lambda>c2. Inr (pc + 4, c2, rs)))))"
  by (simp add: encode_instruction_def opmap_def)

lemma encode_address:
  "op \<in> set address_ops \<Longrightarrow> encode_instruction src n syms exts pc op args (code, rs) =
     res_bind (set_byte pc (the (opmap op)) code) (\<lambda>c.
       if length args \<noteq> 2 then Inl (Wrong_Operands src n op)
       else res_bind (emit_reg (pc + 1) (args ! 0) c) (\<lambda>c1.
            res_bind (emit_operand src n syms exts (pc + 2) (args ! 1) (c1, rs)) (\<lambda>em. Inr (pc + 4, em))))"
  by (simp add: op_groups, elim disjE; hypsubst; simp add: encode_instruction_def opmap_def)

lemma encode_jmp:
  "encode_instruction src n syms exts pc ''JMP'' args (code, rs) =
     res_bind (set_byte pc 0x30 code) (\<lambda>c.
       if length args \<noteq> 1 then Inl (Wrong_Operands src n ''JMP'')
       else res_bind (emit_operand src n syms exts (pc + 1) (args ! 0) (c, rs)) (\<lambda>em. Inr (pc + 3, em)))"
  by (simp add: encode_instruction_def opmap_def)

lemmas encode_forms = encode_plain encode_print encode_alu encode_loadi encode_address encode_jmp

text \<open>An instruction is emitted into the bytes its size reserves.\<close>

lemma encode_instruction_step:
  assumes enc: "encode_instruction src n syms exts pc op args (code, rs) = Inr (pc', code', rs')"
    and k: "instr_sizes op = Some k"
  shows "pc' = pc + k \<and> unchanged_outside pc (pc + k) code code'"
  using k
proof (cases rule: instr_sizes_cases)
  case 1
  with enc show ?thesis by (auto simp: encode_plain res_simps dest!: unchanged_dests)
next
  case 2
  with enc have "pc' = pc + 2" "\<exists>c. unchanged_outside pc (pc + 1) code c \<and> unchanged_outside (pc + 1) (pc + 1 + 1) c code'"
    by (auto simp: encode_print res_simps split: if_splits dest!: unchanged_dests)
  with 2 show ?thesis by (elim exE conjE) (simp, rule unchanged_two, assumption+, simp_all)
next
  case 3
  with enc have "pc' = pc + 3" "\<exists>c d. unchanged_outside pc (pc + 1) code c
      \<and> unchanged_outside (pc + 1) (pc + 1 + 1) c d \<and> unchanged_outside (pc + 2) (pc + 2 + 1) d code'"
    by (auto simp: encode_alu res_simps split: if_splits dest!: unchanged_dests) blast
  with 3 show ?thesis by (elim exE conjE) (simp, rule unchanged_three, assumption+, simp_all)
next
  case 4
  with enc have "pc' = pc + 4" "\<exists>c d. unchanged_outside pc (pc + 1) code c
      \<and> unchanged_outside (pc + 1) (pc + 1 + 1) c d \<and> unchanged_outside (pc + 2) (pc + 2 + 2) d code'"
    by (auto simp: encode_loadi res_simps split: if_splits dest!: unchanged_dests) blast
  with 4 show ?thesis by (elim exE conjE) (simp, rule unchanged_three, assumption+, simp_all)
next
  case 5
  with enc have "pc' = pc + 4" "\<exists>c d. unchanged_outside pc (pc + 1) code c
      \<and> unchanged_outside (pc + 1) (pc + 1 + 1) c d \<and> unchanged_outside (pc + 2) (pc + 2 + 2) d code'"
    by (auto simp: encode_address res_simps split: if_splits dest!: unchanged_dests) blast
  with 5 show ?thesis by (elim exE conjE) (simp, rule unchanged_three, assumption+, simp_all)
next
  case 6
  with enc have "pc' = pc + 3" "\<exists>c. unchanged_outside pc (pc + 1) code c \<and> unchanged_outside (pc + 1) (pc + 1 + 2) c code'"
    by (auto simp: encode_jmp res_simps split: if_splits dest!: unchanged_dests)
  with 6 show ?thesis by (elim exE conjE) (simp, rule unchanged_two, assumption+, simp_all)
qed

lemma set_byte_length: "set_byte i b xs = Inr ys \<Longrightarrow> length ys = length xs"
  by (auto dest: set_byte_InrD)

lemma emit_reg_length: "emit_reg i a xs = Inr ys \<Longrightarrow> length ys = length xs"
  by (auto simp: emit_reg_def res_simps dest: set_byte_length)

text \<open>
  C34. Encoding an instruction inside the bytes that the first pass reserved for it never writes outside
  the code vector: with enough room at the program counter and operands that are no numbers
  beyond \<open>long long\<close>, the outcome is an instruction or a reported error, never undefined
  behaviour.
\<close>

theorem encode_instruction_in_bounds:
  assumes size: "instr_sizes op = Some k"
    and room: "0 \<le> pc" "pc + k \<le> int (length code)"
    and nums: "\<forall>a \<in> set args. parse_number a \<noteq> Inl Undefined"
  shows "encode_instruction src n syms exts pc op args (code, rs) \<noteq> Inl Undefined"
  using size
proof (cases rule: instr_sizes_cases)
  case 1
  with room show ?thesis by (auto simp: encode_forms res_bind_Inl_iff set_byte_in)
next
  case 2
  with room show ?thesis
    by (auto simp: encode_forms res_bind_Inl_iff set_byte_in emit_reg_defined split: if_splits)
next
  case 3
  with room show ?thesis
    by (auto simp: encode_forms res_bind_Inl_iff set_byte_in emit_reg_defined split: if_splits
        dest!: emit_reg_length)
next
  case 4
  with room nums show ?thesis
    by (auto simp: encode_forms res_bind_Inl_iff set_byte_in emit_reg_defined emit_u16_in split: if_splits
        dest!: emit_reg_length)
next
  case 5
  with room nums show ?thesis
    by (auto simp: encode_forms res_bind_Inl_iff set_byte_in emit_reg_defined emit_operand_defined
        split: if_splits dest!: emit_reg_length)
next
  case 6
  with room nums show ?thesis
    by (auto simp: encode_forms res_bind_Inl_iff set_byte_in emit_operand_defined split: if_splits)
qed

theorem encode_instruction_in_bounds_witness:
  "encode_instruction ''a.asm'' 1 [] [] 0 ''LOADI'' [''R2'', ''0x1234''] (replicate 4 0, []) \<noteq> Inl Undefined"
proof (rule encode_instruction_in_bounds [of _ 4])
  show "instr_sizes ''LOADI'' = Some 4" by code_simp
  show "\<forall>a \<in> set [''R2'', ''0x1234'']. parse_number a \<noteq> Inl Undefined" by code_simp
qed simp_all


section \<open>The two passes\<close>

lemma opmap_sizes: "opmap op = None \<longleftrightarrow> instr_sizes op = None"
  by (simp add: opmap_def instr_sizes_def map_of_eq_None_iff)

lemma encode_instruction_known:
  "encode_instruction src n syms exts pc op args em = Inr r \<Longrightarrow> \<exists>k. instr_sizes op = Some k"
  by (cases em, cases "instr_sizes op")
     (auto simp: encode_instruction_def opmap_sizes [THEN iffD2])

lemma zero_bytes_length: "zero_bytes p k xs = Inr ys \<Longrightarrow> length ys = length xs"
  by (induction p k xs rule: zero_bytes.induct) (auto simp: res_simps dest: set_byte_length)

text \<open>The second pass moves on by the size of the statement and keeps the size of the vector.\<close>

lemma pass2_line_step:
  assumes "pass2_line src syms exts (n, line) st = Inr st'"
  shows "p2_pc st' = p2_pc st + statement_size line \<and> length (p2_code st') = length (p2_code st)"
proof (cases "tokenize line")
  case Nil
  with assms show ?thesis by (simp add: pass2_line_def statement_size_def)
next
  case (Cons t ts)
  let ?op = "upper t"
  consider (dir) "?op \<in> {''.GLOBAL'', ''.EXTERN'', ''.ENTRY''}" | (byte) "?op = ''.BYTE''"
    | (word) "?op = ''.WORD''" | (space) "?op = ''.SPACE''"
    | (instr) "?op \<notin> {''.GLOBAL'', ''.EXTERN'', ''.ENTRY'', ''.BYTE'', ''.WORD'', ''.SPACE''}"
    by auto
  then show ?thesis
  proof cases
    case dir
    with assms Cons show ?thesis
      by (auto simp: pass2_line_def statement_size_def Let_def split: if_splits option.splits)
  next
    case byte
    with assms Cons show ?thesis
      by (auto simp: pass2_line_def statement_size_def Let_def res_simps split: if_splits dest: set_byte_length)
  next
    case word
    with assms Cons show ?thesis
      by (auto simp: pass2_line_def statement_size_def Let_def res_simps unchanged_outside_def split: if_splits
          dest: emit_operand_unchanged)
  next
    case space
    with assms Cons show ?thesis
      by (cases ts) (auto simp: pass2_line_def statement_size_def Let_def res_simps split: if_splits
          dest: zero_bytes_length)
  next
    case instr
    with assms Cons obtain pc' code' rs' k where
      enc: "encode_instruction src n syms exts (p2_pc st) ?op (split_args (trim (drop (length t) line)))
        (p2_code st, p2_relocs st) = Inr (pc', code', rs')"
      and st': "st' = st\<lparr>p2_code := code', p2_relocs := rs', p2_pc := pc'\<rparr>"
      by (auto simp: pass2_line_def Let_def res_simps)
    obtain k where k: "instr_sizes ?op = Some k" using encode_instruction_known [OF enc] by blast
    with encode_instruction_step [OF enc k] st' instr Cons show ?thesis
      by (simp add: statement_size_def Let_def unchanged_outside_def)
  qed
qed

lemma pass2_lines_step:
  "res_fold (pass2_line src syms exts) ps st = Inr st' \<Longrightarrow>
     p2_pc st' = p2_pc st + parsed_size ps \<and> length (p2_code st') = length (p2_code st)"
proof (induction ps arbitrary: st)
  case (Cons p ps)
  obtain n line where p: "p = (n, line)" by (cases p)
  with Cons.prems obtain st1 where "pass2_line src syms exts (n, line) st = Inr st1"
    "res_fold (pass2_line src syms exts) ps st1 = Inr st'" by (auto simp: res_simps)
  with Cons.IH [of st1] pass2_line_step [of src syms exts n line st st1] p
  show ?case by (simp add: parsed_size_def)
qed (simp add: parsed_size_def)

lemma advance_InrD: "advance n st = Inr st' \<Longrightarrow> st' = st\<lparr>p1_pc := p1_pc st + n\<rparr>"
  by (auto simp: advance_def ll_add_def res_simps split: if_splits)

lemma pass1_statement_step:
  assumes "pass1_statement src n line st = Inr st'"
  shows "p1_pc st' = p1_pc st + statement_size line \<and> p1_parsed st' = p1_parsed st @ [(n, line)]
    \<and> p1_symbols st' = p1_symbols st"
proof (cases "tokenize line")
  case Nil
  with assms show ?thesis by (auto simp: pass1_statement_def statement_size_def)
next
  case (Cons t ts)
  with assms show ?thesis
    by (cases ts) (auto simp: pass1_statement_def statement_size_def Let_def res_simps
      split: if_splits option.splits dest!: advance_InrD)
qed

text \<open>What the first pass does to its state: statements are appended, labels are added.\<close>

definition p1_extends :: "pass1 \<Rightarrow> pass1 \<Rightarrow> (nat \<times> string) list \<Rightarrow> bool" where
  "p1_extends st st' ps \<longleftrightarrow> p1_parsed st' = p1_parsed st @ ps \<and> p1_pc st' = p1_pc st + parsed_size ps
     \<and> map_of (p1_symbols st) \<subseteq>\<^sub>m map_of (p1_symbols st') \<and> smap_ok (p1_symbols st')"

text \<open>The statements of source lines, with their line numbers: what is left of a line without its comment and its label.\<close>

definition statement_of :: "string \<Rightarrow> string list" where
  "statement_of l = (let line = trim (strip_comment l);
       s = (if fst (split_label line) = [] then line else snd (split_label line)) in
     if s = [] then [] else [s])"

fun statements :: "nat \<Rightarrow> string list \<Rightarrow> (nat \<times> string) list" where
  "statements n [] = []"
| "statements n (l # ls) = map (Pair n) (statement_of l) @ statements (n + 1) ls"

lemma statements_append: "statements n (xs @ ys) = statements n xs @ statements (n + length xs) ys"
  by (induction xs arbitrary: n) simp_all

lemma pass1_line_step:
  assumes "pass1_line src n l st = Inr st'" and ok: "smap_ok (p1_symbols st)"
  shows "p1_extends st st' (map (Pair n) (statement_of l)) \<and>
    (let lab = fst (split_label (trim (strip_comment l))) in
      trim (strip_comment l) \<noteq> [] \<and> lab \<noteq> [] \<longrightarrow> map_of (p1_symbols st') lab = Some (p1_pc st))"
proof -
  let ?line = "trim (strip_comment l)"
  obtain lab rest where sp: "split_label ?line = (lab, rest)" by (cases "split_label ?line")
  let ?st1 = "st\<lparr>p1_symbols := smap_set lab (p1_pc st) (p1_symbols st)\<rparr>"
  consider (empty) "?line = []" "st' = st"
    | (plain) "?line \<noteq> []" "lab = []" "pass1_statement src n ?line st = Inr st'"
    | (label) "?line \<noteq> []" "lab \<noteq> []" "map_of (p1_symbols st) lab = None" "rest = []" "st' = ?st1"
    | (both) "?line \<noteq> []" "lab \<noteq> []" "map_of (p1_symbols st) lab = None" "rest \<noteq> []"
        "pass1_statement src n rest ?st1 = Inr st'"
  proof (cases "?line = []")
    case True
    with assms(1) empty show thesis by (simp add: pass1_line_def)
  next
    case line: False
    show thesis
    proof (cases "lab = []")
      case True
      with assms(1) sp line plain show thesis by (simp add: pass1_line_def)
    next
      case False
      with assms(1) sp line have new: "map_of (p1_symbols st) lab = None"
        and "(if rest = [] then Inr ?st1 else pass1_statement src n rest ?st1) = Inr st'"
        by (simp_all add: pass1_line_def Let_def split: if_splits)
      with line False label both show thesis by (cases "rest = []") simp_all
    qed
  qed
  then show ?thesis
  proof cases
    case empty
    have "split_label [] = ([], [])" by code_simp
    with empty have "statement_of l = []" by (simp add: statement_of_def)
    with empty ok show ?thesis by (auto simp: p1_extends_def parsed_size_def)
  next
    case plain
    then have "statement_of l = [?line]" using sp by (simp add: statement_of_def)
    with plain pass1_statement_step [OF plain(3)] ok sp show ?thesis
      by (auto simp: p1_extends_def parsed_size_def)
  next
    case label
    then have "statement_of l = []" using sp by (simp add: statement_of_def)
    with label ok sp show ?thesis
      by (auto simp: p1_extends_def parsed_size_def map_le_def)
  next
    case both
    then have "statement_of l = [rest]" using sp by (simp add: statement_of_def)
    with both pass1_statement_step [OF both(5)] ok sp show ?thesis
      by (auto simp: p1_extends_def parsed_size_def map_le_def)
  qed
qed

lemma pass1_lines_step:
  "pass1_lines src n ls st = Inr st' \<Longrightarrow> smap_ok (p1_symbols st) \<Longrightarrow> p1_extends st st' (statements n ls)"
proof (induction ls arbitrary: n st)
  case Nil
  then show ?case by (auto simp: p1_extends_def parsed_size_def)
next
  case (Cons l ls)
  then obtain st1 where s1: "pass1_line src n l st = Inr st1" "pass1_lines src (n + 1) ls st1 = Inr st'"
    by (auto simp: res_simps)
  from pass1_line_step [OF s1(1) Cons.prems(2)] have p1: "p1_extends st st1 (map (Pair n) (statement_of l))" by blast
  with Cons.IH [OF s1(2)] have p2: "p1_extends st1 st' (statements (n + 1) ls)" by (auto simp: p1_extends_def)
  from p1 p2 show ?case
    by (auto simp: p1_extends_def parsed_size_def intro: map_le_trans)
qed

lemma pass1_lines_append:
  "pass1_lines src n (xs @ ys) st = res_bind (pass1_lines src n xs st) (pass1_lines src (n + length xs) ys)"
  by (induction xs arbitrary: n st) (auto simp: res_bind_def split: sum.splits)

text \<open>
  C21. A label is the address of the code that follows it. If the first pass gets through a source whose line
  \<open>l\<close> carries the label \<open>lab\<close>, then it hands the statements of the source on to the second pass in order, and the symbol table
  has \<open>lab\<close> at an address \<open>a\<close> such that the second pass, having emitted exactly the statements of the lines before \<open>l\<close>, has reached
  \<open>a\<close>. At the end of the second pass the program counter is the size of the code vector.
\<close>

theorem assembler_labels_address_code:
  assumes p1: "pass1_lines src 1 (before @ l # rest) pass1_start = Inr s1"
    and lab: "trim (strip_comment l) \<noteq> []" "fst (split_label (trim (strip_comment l))) = lab" "lab \<noteq> []"
  shows "p1_parsed s1 = statements 1 before @ statements (1 + length before) (l # rest) \<and>
    (\<exists>a. map_of (p1_symbols s1) lab = Some a \<and>
      (\<forall>st s2. p2_pc st = 0 \<longrightarrow> res_fold (pass2_line src (p1_symbols s1) (p1_externs s1)) (statements 1 before) st = Inr s2 \<longrightarrow>
         p2_pc s2 = a)) \<and>
    (\<forall>st s2. p2_pc st = 0 \<longrightarrow> res_fold (pass2_line src (p1_symbols s1) (p1_externs s1)) (p1_parsed s1) st = Inr s2 \<longrightarrow>
       p2_pc s2 = p1_pc s1)"
proof -
  from p1 obtain st st' where st: "pass1_lines src 1 before pass1_start = Inr st"
    "pass1_line src (1 + length before) l st = Inr st'"
    "pass1_lines src (1 + length before + 1) rest st' = Inr s1"
    by (auto simp: pass1_lines_append res_simps)
  have ok: "smap_ok (p1_symbols pass1_start)" by (simp add: pass1_start_def smap_ok_def)
  note ps = pass1_lines_step [OF st(1) ok] and all = pass1_lines_step [OF p1 ok]
  then have "smap_ok (p1_symbols st)" by (simp add: p1_extends_def)
  from pass1_line_step [OF st(2) this] lab have q1: "smap_ok (p1_symbols st')"
    "map_of (p1_symbols st') lab = Some (p1_pc st)" by (auto simp: Let_def p1_extends_def)
  from pass1_lines_step [OF st(3) q1(1)] have "map_of (p1_symbols st') \<subseteq>\<^sub>m map_of (p1_symbols s1)" by (simp add: p1_extends_def)
  with q1(2) have a: "map_of (p1_symbols s1) lab = Some (p1_pc st)" by (auto simp: map_le_def dom_def)
  have parsed: "p1_parsed s1 = statements 1 (before @ l # rest)" and pc: "p1_pc st = parsed_size (statements 1 before)"
    "p1_pc s1 = parsed_size (p1_parsed s1)"
    using ps all by (auto simp: p1_extends_def pass1_start_def)
  have 1: "\<forall>st2 s2. p2_pc st2 = 0 \<longrightarrow> res_fold (pass2_line src (p1_symbols s1) (p1_externs s1)) (statements 1 before) st2 = Inr s2 \<longrightarrow>
      p2_pc s2 = p1_pc st" using pc(1) pass2_lines_step by force
  have 2: "\<forall>st2 s2. p2_pc st2 = 0 \<longrightarrow> res_fold (pass2_line src (p1_symbols s1) (p1_externs s1)) (p1_parsed s1) st2 = Inr s2 \<longrightarrow>
      p2_pc s2 = p1_pc s1" using pc(2) pass2_lines_step by force
  have 3: "p1_parsed s1 = statements 1 before @ statements (1 + length before) (l # rest)"
    unfolding parsed by (rule statements_append)
  show ?thesis by (intro conjI exI [of _ "p1_pc st"]) (rule 3 a 1 2)+
qed

definition loop_pass1 :: pass1 where
  "loop_pass1 = \<lparr>p1_symbols = [(''loop'', 4)], p1_globals = [], p1_externs = [],
     p1_parsed = [(1, ''LOADI R1, 5''), (2, ''SUB R1, R2''), (3, ''JNZ R1, loop'')], p1_pc = 11\<rparr>"

lemma loop_first_pass:
  "pass1_lines ''l.asm'' 1 ([''LOADI R1, 5''] @ ''loop: SUB R1, R2 ; count'' # [''JNZ R1, loop'']) pass1_start = Inr loop_pass1"
  by code_simp

lemma loop_line:
  "trim (strip_comment ''loop: SUB R1, R2 ; count'') \<noteq> []"
  "fst (split_label (trim (strip_comment ''loop: SUB R1, R2 ; count''))) = ''loop''"
  by code_simp+

lemma loop_before: "statements 1 [''LOADI R1, 5''] = [(1, ''LOADI R1, 5'')]"
proof -
  have "statement_of ''LOADI R1, 5'' = [''LOADI R1, 5'']" by code_simp
  then show ?thesis by simp
qed

theorem assembler_labels_address_code_witness:
  "\<exists>a. map_of (p1_symbols loop_pass1) ''loop'' = Some a \<and> a = 4 \<and>
   (\<forall>st s2. p2_pc st = 0 \<longrightarrow> res_fold (pass2_line ''l.asm'' (p1_symbols loop_pass1) (p1_externs loop_pass1)) [(1, ''LOADI R1, 5'')] st = Inr s2 \<longrightarrow>
      p2_pc s2 = a)"
proof -
  have "''loop'' \<noteq> []" by simp
  note T = assembler_labels_address_code [OF loop_first_pass loop_line this, THEN conjunct2, THEN conjunct1, unfolded loop_before]
  have "map_of (p1_symbols loop_pass1) ''loop'' = Some 4" by (simp add: loop_pass1_def)
  with T show ?thesis by (elim exE conjE) (intro exI conjI, assumption, simp, assumption)
qed

end
