(* ===== verification/Tool_Link.thy ===== *)
theory Tool_Link
  imports Tool_Asm
begin

text \<open>
  The linker of \<open>src/tools/macroBuilder/main.cpp\<close> (\<open>TwoPassLinker\<close>): object files are laid out one
  after the other, exported symbols collected, and every relocation patched. Addresses are
  unbounded integers here: those of modules the assembler wrote are below the sizes of vectors in
  memory. A copy or a patch outside the linked vector is \<open>Undefined\<close>.
\<close>


section \<open>Definitions\<close>

record linker_module =
  mod_path :: string
  mod_data :: object_file
  mod_base :: int

fun assign_bases :: "int \<Rightarrow> linker_module list \<Rightarrow> linker_module list \<times> int" where
  "assign_bases cursor [] = ([], cursor)"
| "assign_bases cursor (m # ms) =
     (let (ms', c) = assign_bases (cursor + obj_size (mod_data m)) ms in (m\<lparr>mod_base := cursor\<rparr> # ms', c))"

definition define_global :: "linker_module \<Rightarrow> string \<Rightarrow> symtab \<Rightarrow> symtab res" where
  "define_global m name globals = (case map_of (obj_symbols (mod_data m)) name of
     None \<Rightarrow> Inl (Global_Undefined (mod_path m) name)
   | Some v \<Rightarrow>
       if map_of globals name \<noteq> None then Inl (Duplicate_Global name)
       else Inr (smap_set name (mod_base m + v) globals))"

definition collect_globals :: "linker_module list \<Rightarrow> symtab res" where
  "collect_globals ms = res_fold (\<lambda>m. res_fold (define_global m) (obj_globals (mod_data m))) ms []"

text \<open>\<open>std::copy\<close> of bytes into a vector at an offset.\<close>

definition copy_at :: "u8 list \<Rightarrow> int \<Rightarrow> u8 list \<Rightarrow> u8 list res" where
  "copy_at bytes pos data =
     (if bytes = [] then Inr data
      else if pos < 0 \<or> int (length data) < pos + int (length bytes) then Inl Undefined
      else Inr (take (nat pos) data @ bytes @ drop (nat pos + length bytes) data))"

definition copy_module :: "linker_module \<Rightarrow> u8 list \<Rightarrow> u8 list res" where
  "copy_module m = copy_at (obj_code (mod_data m)) (mod_base m)"

definition resolve_symbol :: "string \<Rightarrow> linker_module \<Rightarrow> symtab \<Rightarrow> int res" where
  "resolve_symbol name m globals = (case map_of (obj_symbols (mod_data m)) name of
     Some v \<Rightarrow> Inr (mod_base m + v)
   | None \<Rightarrow> (case map_of globals name of
       Some v \<Rightarrow> Inr v
     | None \<Rightarrow> Inl (Unresolved (mod_path m) name)))"

definition patch_u16 :: "int \<Rightarrow> int \<Rightarrow> u8 list \<Rightarrow> u8 list res" where
  "patch_u16 offset v data =
     res_bind (set_byte offset (word_of_int v) data) (set_byte (offset + 1) (word_of_int (v div 256)))"

text \<open>One relocation: the patched bytes, and the sites patched so far.\<close>

definition apply_reloc :: "symtab \<Rightarrow> linker_module \<Rightarrow> reloc \<Rightarrow> u8 list \<times> int list \<Rightarrow> (u8 list \<times> int list) res"
where
  "apply_reloc globals m r = (\<lambda>(linked, pending).
     if rel_size r \<noteq> 2 then Inl (Reloc_Size (mod_path m) (rel_size r))
     else
       let patch_pos = mod_base m + rel_offset r in
       res_bind (resolve_symbol (rel_symbol r) m globals) (\<lambda>v.
       res_bind (patch_u16 patch_pos (v + rel_addend r) linked) (\<lambda>linked'.
         Inr (linked', pending @ [patch_pos]))))"

definition apply_module :: "symtab \<Rightarrow> linker_module \<Rightarrow> u8 list \<times> int list \<Rightarrow> (u8 list \<times> int list) res" where
  "apply_module globals m = res_fold (apply_reloc globals m) (obj_relocations (mod_data m))"

record image =
  img_mode :: string
  img_size :: int
  img_entry :: int
  img_load_address :: int
  img_code :: "u8 list"
  img_relocations :: "int list"
  img_symbols :: symtab

definition link_entry :: "linker_module list \<Rightarrow> symtab \<Rightarrow> string option \<Rightarrow> int res" where
  "link_entry ms globals entry_symbol = (case entry_symbol of
     Some name \<Rightarrow>
       (case map_of globals name of None \<Rightarrow> Inl (Entry_Not_Found name) | Some v \<Rightarrow> Inr v)
   | None \<Rightarrow> Inr (case ms of [] \<Rightarrow> 0 | m # _ \<Rightarrow> mod_base m + obj_entry (mod_data m)))"

definition link_image :: "linker_module list \<Rightarrow> string \<Rightarrow> int \<Rightarrow> string option \<Rightarrow> image res" where
  "link_image modules mode load_address entry_symbol =
     (if mode \<noteq> ''absolute'' \<and> mode \<noteq> ''relocatable'' then Inl Bad_Mode
      else let (ms, cursor) = assign_bases 0 modules in
        res_bind (collect_globals ms) (\<lambda>globals.
        if cursor < 0 then Inl Length_Error
        else
          res_bind (res_fold copy_module ms (replicate (nat cursor) 0)) (\<lambda>linked0.
          res_bind (res_fold (apply_module globals) ms (linked0, [])) (\<lambda>(linked, pending).
          res_bind (link_entry ms globals entry_symbol) (\<lambda>entry.
            Inr \<lparr>img_mode = mode, img_size = int (length linked),
              img_entry = (if mode = ''absolute'' then entry + load_address else entry),
              img_load_address = (if mode = ''absolute'' then load_address else 0),
              img_code = linked,
              img_relocations = (if mode = ''relocatable'' then pending else []),
              img_symbols = map (\<lambda>(name, v). (name, v + (if mode = ''absolute'' then load_address else 0)))
                globals\<rparr>)))))"

definition site_value :: "int \<Rightarrow> 'd jvalue" where
  "site_value pos = JObject (smap_set ''size'' (JInt 2) (smap_set ''offset'' (JInt pos) []))"

definition image_value :: "image \<Rightarrow> 'd jvalue" where
  "image_value img = JObject (fold (\<lambda>(k, v). smap_set k v)
     [(''format'', JString ''wirth-exe-v1''),
      (''mode'', JString (img_mode img)),
      (''size'', JInt (img_size img)),
      (''entry'', JInt (img_entry img)),
      (''load_address'', JInt (img_load_address img)),
      (''code'', JArray (map (\<lambda>b. JInt (uint b)) (img_code img))),
      (''relocations'', JArray (map site_value (img_relocations img))),
      (''symbols'', JObject (fold (\<lambda>(name, v). smap_set name (JInt v)) (img_symbols img) []))] [])"

definition link_modules :: "linker_module list \<Rightarrow> string \<Rightarrow> int \<Rightarrow> string option \<Rightarrow> 'd jvalue res" where
  "link_modules modules mode load_address entry_symbol =
     res_bind (link_image modules mode load_address entry_symbol) (\<lambda>img. Inr (image_value img))"

definition load_module :: "'d double_ops \<Rightarrow> string \<times> string \<Rightarrow> linker_module res" where
  "load_module dops = (\<lambda>(path, contents).
     res_bind (parse_text dops contents) (\<lambda>root.
     res_bind (parse_object dops root) (\<lambda>data.
       Inr \<lparr>mod_path = path, mod_data = data, mod_base = 0\<rparr>)))"

text \<open>\<open>link_files\<close> on the contents of the object files: the executable's text.\<close>

definition link_texts :: "'d double_ops \<Rightarrow> (string \<times> string) list \<Rightarrow> string \<Rightarrow> int \<Rightarrow> string option \<Rightarrow> string res"
where
  "link_texts dops objs mode load_address entry_symbol =
     res_bind (res_map (load_module dops) objs) (\<lambda>modules.
     res_bind (link_modules modules mode load_address entry_symbol) (\<lambda>v. Inr (dump_text dops v)))"

end
