(* ===== verification/Tool_Macro.thy ===== *)
theory Tool_Macro
  imports Tool_Text "HOL-Library.AList"
begin

text \<open>
  The macro processor of \<open>src/tools/macroBuilder/main.cpp\<close> (\<open>MacroProcessor\<close>): definitions between
  \<open>MACRO\<close> and \<open>MEND\<close>, nested ones included, and their expansion up to the depth
  \<open>expansion_guard\<close>. The table \<open>macros_\<close> is a partial function from names. The parameters of
  a macro are replaced in the order in which a \<open>std::unordered_map\<close> enumerates them, which the
  library leaves open: it is the argument \<open>hash_order\<close>, a rearrangement of a list of pairs.
\<close>


section \<open>Definitions\<close>

record macro_def =
  macro_name :: string
  params :: "string list"
  body :: "string list"

type_synonym macros = "string \<rightharpoonup> macro_def"
type_synonym bindings = "(string \<times> string) list"

definition expansion_guard :: nat where
  "expansion_guard = 1024"

function replace_all :: "string \<Rightarrow> string \<Rightarrow> string \<Rightarrow> string" where
  "replace_all s from to =
     (if from = [] \<or> s = [] then s
      else if starts_with s from then to @ replace_all (drop (length from) s) from to
      else hd s # replace_all (tl s) from to)"
  by pat_completeness auto
termination
  by (relation "measure (\<lambda>(s, _). length s)") auto

declare replace_all.simps [simp del]

text \<open>\<open>text.find(pattern)\<close>.\<close>

fun find_sub_from :: "nat \<Rightarrow> string \<Rightarrow> string \<Rightarrow> nat option" where
  "find_sub_from i [] p = (if p = [] then Some i else None)"
| "find_sub_from i (c # s) p = (if starts_with (c # s) p then Some i else find_sub_from (Suc i) s p)"

definition find_sub :: "string \<Rightarrow> string \<Rightarrow> nat option" where
  "find_sub s p = find_sub_from 0 s p"

definition bind_params :: "string list \<Rightarrow> string list \<Rightarrow> bindings" where
  "bind_params ps args = fold (\<lambda>(p, a) m. AList.update p a m) (zip ps args) []"

definition substitute :: "bindings \<Rightarrow> string \<Rightarrow> string" where
  "substitute binds line = fold (\<lambda>(param, arg) l.
     replace_all (replace_all l (''{'' @ param @ ''}'') arg) (''$'' @ param) arg) binds line"

definition call_args :: "string \<Rightarrow> string \<Rightarrow> string list" where
  "call_args line first = (case find_sub line first of
     None \<Rightarrow> []
   | Some pos \<Rightarrow> let arg_text = trim (drop (pos + length first) line) in
       if arg_text = [] then [] else split_args arg_text)"

function expand_line :: "(bindings \<Rightarrow> bindings) \<Rightarrow> macros \<Rightarrow> string \<Rightarrow> nat \<Rightarrow> string list res" where
  "expand_line hash_order ms line depth =
     (if depth > expansion_guard then Inl Macro_Limit
      else case tokenize line of
        [] \<Rightarrow> Inr []
      | first # _ \<Rightarrow>
          (case ms first of
             None \<Rightarrow> Inr [line]
           | Some def \<Rightarrow>
               let args = call_args line first in
               if length args \<noteq> length (params def)
               then Inl (Macro_Arity (macro_name def) (length (params def)) (length args))
               else
                 let binds = hash_order (bind_params (params def) args) in
                 res_bind
                   (res_map (\<lambda>body_line. expand_line hash_order ms (substitute binds body_line) (depth + 1))
                     (body def))
                   (\<lambda>parts. Inr (concat parts))))"
  by pat_completeness auto
termination
  by (relation "measure (\<lambda>(_, _, _, depth). Suc expansion_guard - depth)") auto

declare expand_line.simps [simp del]

text \<open>The lines of a definition up to its \<open>MEND\<close>, and the lines after it.\<close>

fun macro_body :: "nat \<Rightarrow> string list \<Rightarrow> (string list \<times> string list) option" where
  "macro_body nested [] = None"
| "macro_body nested (l # ls) = (let line = trim (strip_comment l); tk = tokenize line in
     if tk \<noteq> [] \<and> upper (hd tk) = ''MACRO''
     then map_option (apfst ((#) line)) (macro_body (nested + 1) ls)
     else if tk \<noteq> [] \<and> upper (hd tk) = ''MEND''
     then (if nested = 0 then Some ([], ls)
           else map_option (apfst ((#) line)) (macro_body (nested - 1) ls))
     else map_option (apfst ((#) line)) (macro_body nested ls))"

lemma macro_body_length:
  "macro_body n ls = Some (b, r) \<Longrightarrow> length b + length r < length ls"
  by (induction n ls arbitrary: b r rule: macro_body.induct)
     (auto simp: Let_def split: if_splits)

fun join_with :: "char \<Rightarrow> string list \<Rightarrow> string" where
  "join_with sep [] = []"
| "join_with sep [s] = s"
| "join_with sep (s # t # ss) = s @ sep # join_with sep (t # ss)"

definition macro_params :: "string list \<Rightarrow> string list" where
  "macro_params header = (if length header > 2
     then split_args (join_with (CHR '' '') (drop 2 header)) else [])"

function process_lines :: "(bindings \<Rightarrow> bindings) \<Rightarrow> nat \<Rightarrow> string list \<Rightarrow> macros \<Rightarrow> (string list \<times> macros) res"
where
  "process_lines hash_order i [] ms = Inr ([], ms)"
| "process_lines hash_order i (l # ls) ms =
     (let no_comment = trim (strip_comment l); tokens = tokenize no_comment in
      if tokens = [] then process_lines hash_order (i + 1) ls ms
      else if upper (hd tokens) = ''MACRO'' then
        (let header = tokenize (strip_comment l) in
         if length header < 2 then Inl (Macro_No_Name (i + 1))
         else case macro_body 0 ls of
           None \<Rightarrow> Inl (Macro_No_Mend (header ! 1))
         | Some (b, rest) \<Rightarrow>
             res_bind (process_lines hash_order 0 b ms) (\<lambda>(b', ms').
               process_lines hash_order (i + length b + 2) rest
                 (ms'(header ! 1 \<mapsto>
                    \<lparr>macro_name = header ! 1, params = macro_params header, body = b'\<rparr>))))
      else
        res_bind (expand_line hash_order ms no_comment 0) (\<lambda>expanded.
          res_bind (process_lines hash_order (i + 1) ls ms) (\<lambda>(out, ms').
            Inr (expanded @ out, ms'))))"
  by pat_completeness auto
termination
  by (relation "measure (\<lambda>(_, _, ls, _). length ls)") (auto dest!: macro_body_length)

definition join_lines :: "string list \<Rightarrow> string" where
  "join_lines lines = (let t = join_with (CHR 0x0A) lines in
     if t \<noteq> [] then t @ [CHR 0x0A] else t)"

text \<open>\<open>process_file\<close> on the contents of a file: what it writes and the table it leaves.\<close>

definition process_text :: "(bindings \<Rightarrow> bindings) \<Rightarrow> macros \<Rightarrow> string \<Rightarrow> (string \<times> macros) res" where
  "process_text hash_order ms src =
     res_bind (process_lines hash_order 0 (read_lines src) ms) (\<lambda>(ls, ms'). Inr (join_lines ls, ms'))"

end
