(* ===== verification/Tool_Exec.thy ===== *)
theory Tool_Exec
  imports Tool_Link Tool_Macro
begin

text \<open>
  The virtual machine of \<open>src/tools/macroBuilder/main.cpp\<close> (\<open>Executor\<close>). Its memory of 65536 bytes is
  a function on addresses with the bound checked at every access; an access outside it, or to
  a register beyond the eight there are, is \<open>Undefined\<close>. What \<open>PRINT\<close> writes is the list
  \<open>vm_out\<close>. The loop runs at most \<open>max_steps\<close> times.
\<close>


section \<open>Definitions\<close>

definition mem_size :: int where
  "mem_size = 65536"

record vm =
  vm_mem :: "int \<Rightarrow> u8"
  vm_regs :: "int list"
  vm_pc :: int
  vm_out :: "int list"

record result =
  exit_code :: int
  steps :: int
  registers :: "int list"
  printed :: "int list"

definition read_byte :: "int \<Rightarrow> vm \<Rightarrow> int res" where
  "read_byte a s = (if 0 \<le> a \<and> a < mem_size then Inr (uint (vm_mem s a)) else Inl Undefined)"

definition read_u16 :: "int \<Rightarrow> vm \<Rightarrow> int res" where
  "read_u16 a s = res_bind (read_byte a s) (\<lambda>lo. res_bind (read_byte (a + 1) s) (\<lambda>hi. Inr (lo + 256 * hi)))"

definition write_byte :: "int \<Rightarrow> u8 \<Rightarrow> vm \<Rightarrow> vm res" where
  "write_byte a b s = (if 0 \<le> a \<and> a < mem_size then Inr (s\<lparr>vm_mem := (vm_mem s)(a := b)\<rparr>) else Inl Undefined)"

definition write_u16 :: "int \<Rightarrow> int \<Rightarrow> vm \<Rightarrow> vm res" where
  "write_u16 a v s = res_bind (write_byte a (word_of_int v) s) (write_byte (a + 1) (word_of_int (v div 256)))"

definition get_reg :: "int \<Rightarrow> vm \<Rightarrow> int res" where
  "get_reg r s = (if 0 \<le> r \<and> r < int (length (vm_regs s)) then Inr (vm_regs s ! nat r) else Inl Undefined)"

definition set_reg :: "int \<Rightarrow> int \<Rightarrow> vm \<Rightarrow> vm res" where
  "set_reg r v s = (if 0 \<le> r \<and> r < int (length (vm_regs s))
     then Inr (s\<lparr>vm_regs := (vm_regs s)[nat r := v]\<rparr>) else Inl Undefined)"

text \<open>The low sixteen bits, \<open>v & 0xFFFF\<close>; and C++ division, which truncates.\<close>

definition low16 :: "int \<Rightarrow> int" where
  "low16 v = v mod 65536"

definition c_div :: "int \<Rightarrow> int \<Rightarrow> int" where
  "c_div a b = sgn a * sgn b * (\<bar>a\<bar> div \<bar>b\<bar>)"

definition alu :: "u8 \<Rightarrow> int \<Rightarrow> int \<Rightarrow> int" where
  "alu op a b =
     (if op = 0x20 then low16 (a + b)
      else if op = 0x21 then low16 (a - b)
      else if op = 0x22 then low16 (a * b)
      else if op = 0x23 then low16 (c_div a b)
      else b)"

datatype outcome = Running vm | Stopped int vm

definition exec_op :: "u8 \<Rightarrow> vm \<Rightarrow> outcome res" where
  "exec_op op s = (let pc = vm_pc s in
     if op = 0x00 then Inr (Running (s\<lparr>vm_pc := pc + 1\<rparr>))
     else if op = 0x01 then Inr (Stopped 0 s)
     else if op = 0x02 then res_bind (get_reg 0 s) (\<lambda>v. Inr (Stopped (v mod 256) s))
     else if op = 0x10 then
       res_bind (read_byte (pc + 1) s) (\<lambda>r. res_bind (read_u16 (pc + 2) s) (\<lambda>imm.
       res_bind (set_reg r imm s) (\<lambda>s'. Inr (Running (s'\<lparr>vm_pc := pc + 4\<rparr>)))))
     else if op = 0x11 then
       res_bind (read_byte (pc + 1) s) (\<lambda>r. res_bind (read_u16 (pc + 2) s) (\<lambda>addr.
       res_bind (read_u16 addr s) (\<lambda>v.
       res_bind (set_reg r v s) (\<lambda>s'. Inr (Running (s'\<lparr>vm_pc := pc + 4\<rparr>))))))
     else if op = 0x12 then
       res_bind (read_byte (pc + 1) s) (\<lambda>r. res_bind (read_u16 (pc + 2) s) (\<lambda>addr.
       res_bind (get_reg r s) (\<lambda>v.
       res_bind (write_u16 addr v s) (\<lambda>s'. Inr (Running (s'\<lparr>vm_pc := pc + 4\<rparr>))))))
     else if op = 0x20 \<or> op = 0x21 \<or> op = 0x22 \<or> op = 0x23 \<or> op = 0x24 then
       res_bind (read_byte (pc + 1) s) (\<lambda>a. res_bind (read_byte (pc + 2) s) (\<lambda>b.
       res_bind (get_reg b s) (\<lambda>vb.
       if op = 0x23 \<and> vb = 0 then Inl Division_By_Zero
       else res_bind (get_reg a s) (\<lambda>va.
       res_bind (set_reg a (alu op va vb) s) (\<lambda>s'. Inr (Running (s'\<lparr>vm_pc := pc + 3\<rparr>)))))))
     else if op = 0x30 then
       res_bind (read_u16 (pc + 1) s) (\<lambda>addr. Inr (Running (s\<lparr>vm_pc := addr\<rparr>)))
     else if op = 0x31 then
       res_bind (read_byte (pc + 1) s) (\<lambda>r. res_bind (read_u16 (pc + 2) s) (\<lambda>addr.
       res_bind (get_reg r s) (\<lambda>v. Inr (Running (s\<lparr>vm_pc := (if v = 0 then addr else pc + 4)\<rparr>)))))
     else if op = 0x32 then
       res_bind (read_byte (pc + 1) s) (\<lambda>r. res_bind (read_u16 (pc + 2) s) (\<lambda>addr.
       res_bind (get_reg r s) (\<lambda>v. Inr (Running (s\<lparr>vm_pc := (if v \<noteq> 0 then addr else pc + 4)\<rparr>)))))
     else if op = 0x40 then
       res_bind (read_byte (pc + 1) s) (\<lambda>r. res_bind (get_reg r s) (\<lambda>v.
         Inr (Running (s\<lparr>vm_out := vm_out s @ [v], vm_pc := pc + 2\<rparr>))))
     else Inl (Bad_Opcode op pc))"

definition vm_step :: "vm \<Rightarrow> outcome res" where
  "vm_step s = res_bind (read_byte (vm_pc s) s) (\<lambda>op. exec_op (word_of_int op) s)"

function run_loop :: "int \<Rightarrow> int \<Rightarrow> vm \<Rightarrow> result res" where
  "run_loop max_steps n s =
     (if n < max_steps then
        res_bind (vm_step s) (\<lambda>oc. case oc of
          Running s' \<Rightarrow> run_loop max_steps (n + 1) s'
        | Stopped c s' \<Rightarrow> Inr \<lparr>exit_code = c, steps = n + 1, registers = vm_regs s', printed = vm_out s'\<rparr>)
      else Inl (Step_Limit max_steps))"
  by pat_completeness auto
termination
  by (relation "measure (\<lambda>(m, n, s). nat (m - n))") auto

declare run_loop.simps [simp del]

subsection \<open>Loading\<close>

definition read_vec_u16 :: "int \<Rightarrow> u8 list \<Rightarrow> int res" where
  "read_vec_u16 off code =
     (if 0 \<le> off \<and> off + 1 < int (length code)
      then Inr (uint (code ! nat off) + 256 * uint (code ! nat (off + 1))) else Inl Undefined)"

definition relocate_site :: "'d double_ops \<Rightarrow> int \<Rightarrow> 'd jvalue \<Rightarrow> u8 list \<Rightarrow> u8 list res" where
  "relocate_site dops base item code =
     res_bind (as_object item) (\<lambda>ro.
     res_bind (res_bind (obj_at ''offset'' ro) (as_int dops)) (\<lambda>off.
     res_bind (read_vec_u16 off code) (\<lambda>v. patch_u16 off (v + base) code)))"

definition load_memory :: "int \<Rightarrow> u8 list \<Rightarrow> int \<Rightarrow> u8" where
  "load_memory base code = (\<lambda>a. if base \<le> a \<and> a < base + int (length code) then code ! nat (a - base) else 0)"

definition relocate_image :: "'d double_ops \<Rightarrow> (string \<times> 'd jvalue) list \<Rightarrow> string \<Rightarrow> int option \<Rightarrow> u8 list \<Rightarrow>
    (int \<times> u8 list) res" where
  "relocate_image dops img mode load_address code =
     (if mode = ''absolute'' then
        res_bind (res_bind (obj_at ''load_address'' img) (as_int dops)) (\<lambda>base. Inr (base, code))
      else
        res_bind (case load_address of
            Some a \<Rightarrow> Inr a
          | None \<Rightarrow> res_bind (obj_at ''load_address'' img) (as_int dops)) (\<lambda>base.
        res_bind (res_bind (obj_at ''relocations'' img) as_array) (\<lambda>sites.
        res_bind (res_fold (relocate_site dops base) sites code) (\<lambda>code'. Inr (base, code')))))"

definition run_image :: "'d double_ops \<Rightarrow> (string \<times> 'd jvalue) list \<Rightarrow> int option \<Rightarrow> int \<Rightarrow> result res" where
  "run_image dops img load_address max_steps =
     res_bind (res_bind (obj_at ''mode'' img) as_string) (\<lambda>mode.
     res_bind (res_bind (obj_at ''code'' img) as_array) (\<lambda>items.
     res_bind (parse_code dops items) (\<lambda>code0.
     res_bind (relocate_image dops img mode load_address code0) (\<lambda>(base, code).
     if base < 0 \<or> base + int (length code) > mem_size then Inl Image_Outside
     else
       res_bind (res_bind (obj_at ''entry'' img) (as_int dops)) (\<lambda>entry.
         run_loop max_steps 0
           \<lparr>vm_mem = load_memory base code, vm_regs = replicate 8 0,
            vm_pc = (if mode = ''relocatable'' then entry + base else entry), vm_out = []\<rparr>)))))"

text \<open>\<open>run_file\<close> on the contents of the executable.\<close>

definition run_text :: "'d double_ops \<Rightarrow> string \<Rightarrow> string \<Rightarrow> int option \<Rightarrow> int \<Rightarrow> result res" where
  "run_text dops path contents load_address max_steps =
     res_bind (parse_text dops contents) (\<lambda>data. case data of
       JObject img \<Rightarrow>
         if map_of img ''format'' = None then Inl (Bad_Executable path)
         else res_bind (res_bind (obj_at ''format'' img) as_string) (\<lambda>fmt.
           if fmt \<noteq> ''wirth-exe-v1'' then Inl (Bad_Executable path)
           else run_image dops img load_address max_steps)
     | _ \<Rightarrow> Inl (Bad_Executable path))"

subsection \<open>The build command\<close>

fun build_objects :: "'d double_ops \<Rightarrow> (bindings \<Rightarrow> bindings) \<Rightarrow> macros \<Rightarrow> (string \<times> string) list \<Rightarrow>
    (string \<times> string) list res" where
  "build_objects dops hash_order ms [] = Inr []"
| "build_objects dops hash_order ms ((stem, src) # srcs) =
     res_bind (process_text hash_order ms src) (\<lambda>(expanded, ms').
     res_bind (assemble_text dops expanded (stem @ ''.mcr'') (stem @ ''.mcr.asm'')) (\<lambda>ob.
     res_bind (build_objects dops hash_order ms' srcs) (\<lambda>obs.
       Inr ((stem @ ''.obj.json'', ob) # obs))))"

definition build :: "'d double_ops \<Rightarrow> (bindings \<Rightarrow> bindings) \<Rightarrow> (string \<times> string) list \<Rightarrow> string \<Rightarrow> int \<Rightarrow>
    string option \<Rightarrow> string res" where
  "build dops hash_order srcs mode load_address entry =
     res_bind (build_objects dops hash_order Map.empty srcs) (\<lambda>obs.
       link_texts dops (map (\<lambda>(path, _). (path, the (map_of (rev obs) path))) obs) mode load_address entry)"

definition build_and_run :: "'d double_ops \<Rightarrow> (bindings \<Rightarrow> bindings) \<Rightarrow> (string \<times> string) list \<Rightarrow> string \<Rightarrow> int \<Rightarrow>
    string option \<Rightarrow> int \<Rightarrow> result res" where
  "build_and_run dops hash_order srcs mode load_address entry max_steps =
     res_bind (build dops hash_order srcs mode load_address entry) (\<lambda>exe.
       run_text dops ''a.out.json'' exe (Some load_address) max_steps)"

end
