(* ===== verification/Tool_Exec_Correct.thy ===== *)
theory Tool_Exec_Correct
  imports Tool_Exec
begin

text \<open>
  The virtual machine keeps its registers within sixteen bits, ends within its step limit, and
  executes the instruction whose bytes are at the program counter. Macro expansion leaves no
  macro call.
\<close>


section \<open>Definitions\<close>

definition in_u16 :: "int \<Rightarrow> bool" where
  "in_u16 v \<longleftrightarrow> 0 \<le> v \<and> v < 65536"

definition vm_ok :: "vm \<Rightarrow> bool" where
  "vm_ok s \<longleftrightarrow> length (vm_regs s) = 8 \<and> list_all in_u16 (vm_regs s) \<and> list_all in_u16 (vm_out s)"

definition outcome_ok :: "outcome \<Rightarrow> bool" where
  "outcome_ok oc \<longleftrightarrow> (case oc of Running s \<Rightarrow> vm_ok s | Stopped c s \<Rightarrow> vm_ok s \<and> 0 \<le> c \<and> c < 256)"

definition result_ok :: "int \<Rightarrow> result \<Rightarrow> bool" where
  "result_ok max_steps r \<longleftrightarrow> length (registers r) = 8 \<and> list_all in_u16 (registers r)
     \<and> list_all in_u16 (printed r) \<and> 0 \<le> exit_code r \<and> exit_code r < 256 \<and> steps r \<le> max_steps"


section \<open>Registers\<close>

lemma read_byte_range: "read_byte a s = Inr v \<Longrightarrow> 0 \<le> v \<and> v < 256"
  using unsigned_less [of "vm_mem s a"] by (auto simp: read_byte_def split: if_splits)

lemma read_u16_range: "read_u16 a s = Inr v \<Longrightarrow> in_u16 v"
  by (auto simp: read_u16_def res_simps in_u16_def dest!: read_byte_range)

lemma get_reg_range: "get_reg r s = Inr v \<Longrightarrow> vm_ok s \<Longrightarrow> in_u16 v"
  by (auto simp: get_reg_def vm_ok_def list_all_iff split: if_splits)

lemma set_reg_ok: "set_reg r v s = Inr s' \<Longrightarrow> vm_ok s \<Longrightarrow> in_u16 v \<Longrightarrow> vm_ok s'"
  using set_update_subset_insert [of "vm_regs s" "nat r" v]
  by (auto simp: set_reg_def vm_ok_def list_all_iff split: if_splits)

lemma write_u16_ok: "write_u16 a v s = Inr s' \<Longrightarrow> vm_ok s \<Longrightarrow> vm_ok s'"
  by (auto simp: write_u16_def write_byte_def vm_ok_def res_simps split: if_splits)

lemma low16_range: "in_u16 (low16 v)"
  by (simp add: in_u16_def low16_def)

lemma alu_range: "in_u16 b \<Longrightarrow> in_u16 (alu op a b)"
  by (auto simp: alu_def low16_range split: if_splits)

lemma vm_ok_pc [simp]: "vm_ok (s\<lparr>vm_pc := p\<rparr>) = vm_ok s"
  by (simp add: vm_ok_def)

lemma vm_ok_out [simp]: "vm_ok (s\<lparr>vm_out := vm_out s @ [v]\<rparr>) \<longleftrightarrow> vm_ok s \<and> in_u16 v"
  by (auto simp: vm_ok_def)

lemma exec_op_ok:
  assumes "vm_ok s" and "exec_op op s = Inr oc"
  shows "outcome_ok oc"
  using assms
  by (auto simp: exec_op_def Let_def outcome_ok_def res_simps split: if_splits
      dest: write_u16_ok get_reg_range)
     (metis set_reg_ok alu_range get_reg_range read_u16_range)+

lemma vm_step_ok: "vm_ok s \<Longrightarrow> vm_step s = Inr oc \<Longrightarrow> outcome_ok oc"
  by (auto simp: vm_step_def res_simps intro: exec_op_ok)

lemma run_loop_ok: "run_loop max_steps n s = Inr r \<Longrightarrow> vm_ok s \<Longrightarrow> result_ok max_steps r"
proof (induction max_steps n s rule: run_loop.induct)
  case (1 max_steps n s)
  from 1(2) obtain oc where oc: "n < max_steps" "vm_step s = Inr oc"
    and r: "(case oc of Running s' \<Rightarrow> run_loop max_steps (n + 1) s'
       | Stopped c s' \<Rightarrow> Inr \<lparr>exit_code = c, steps = n + 1, registers = vm_regs s', printed = vm_out s'\<rparr>) = Inr r"
    by (subst (asm) run_loop.simps) (auto simp: res_simps split: if_splits)
  have ok: "outcome_ok oc" using vm_step_ok [OF 1(3) oc(2)] .
  show ?case
  proof (cases oc)
    case (Running s')
    with ok r 1(1) [OF oc, of s'] show ?thesis by (simp add: outcome_ok_def)
  next
    case (Stopped c s')
    with ok r oc(1) show ?thesis by (auto simp: outcome_ok_def vm_ok_def result_ok_def)
  qed
qed

text \<open>
  C35. Whatever executable the virtual machine is given, if it ends without an error then its eight
  registers and everything it printed are sixteen-bit values, its exit code is a byte and it
  has made at most \<open>max_steps\<close> steps.
\<close>

theorem run_image_result_typed:
  "run_image dops img load_address max_steps = Inr r \<Longrightarrow> result_ok max_steps r"
  by (auto simp: run_image_def res_simps vm_ok_def list_all_iff in_u16_def split: if_splits dest!: run_loop_ok)

definition no_doubles :: "unit double_ops" where
  "no_doubles = \<lparr>stod = (\<lambda>_. Inl Undefined), to_llong = (\<lambda>_. Inl Undefined), print_double = (\<lambda>_. [])\<rparr>"

definition small_image :: "(string \<times> unit jvalue) list" where
  "small_image = [(''code'', JArray (map JInt [0x10, 3, 0xFF, 0xFF, 0x20, 3, 3, 0x40, 3, 0x01])),
     (''entry'', JInt 0x100), (''load_address'', JInt 0x100), (''mode'', JString ''absolute'')]"

theorem run_image_result_typed_witness:
  "run_image no_doubles small_image None 10
     = Inr \<lparr>exit_code = 0, steps = 4, registers = [0, 0, 0, 0xFFFE, 0, 0, 0, 0], printed = [0xFFFE]\<rparr>
   \<and> result_ok 10 \<lparr>exit_code = 0, steps = 4, registers = [0, 0, 0, 0xFFFE, 0, 0, 0, 0], printed = [0xFFFE]\<rparr>"
proof -
  have "run_image no_doubles small_image None 10
     = Inr \<lparr>exit_code = 0, steps = 4, registers = [0, 0, 0, 0xFFFE, 0, 0, 0, 0], printed = [0xFFFE]\<rparr>"
    by code_simp
  with run_image_result_typed show ?thesis by blast
qed


section \<open>Macros\<close>

text \<open>A line that calls no macro of the table.\<close>

definition no_call :: "macros \<Rightarrow> string \<Rightarrow> bool" where
  "no_call ms line \<longleftrightarrow> tokenize line \<noteq> [] \<and> ms (hd (tokenize line)) = None"

lemma expand_line_no_call:
  "expand_line ho ms line depth = Inr out \<Longrightarrow> list_all (no_call ms) out"
proof (induction ho ms line depth arbitrary: out rule: expand_line.induct)
  case (1 ho ms line depth)
  show ?case
  proof (cases "tokenize line")
    case Nil
    with 1(2) show ?thesis by (subst (asm) expand_line.simps) (simp split: if_splits)
  next
    case (Cons first rest)
    show ?thesis
    proof (cases "ms first")
      case None
      with 1(2) Cons show ?thesis
        by (subst (asm) expand_line.simps) (auto simp: no_call_def split: if_splits)
    next
      case (Some d)
      let ?b = "ho (bind_params (params d) (call_args line first))"
      from 1(2) Cons Some obtain parts where
        g: "\<not> depth > expansion_guard" "\<not> length (call_args line first) \<noteq> length (params d)"
        and parts: "res_map (\<lambda>l. expand_line ho ms (substitute ?b l) (depth + 1)) (body d) = Inr parts"
        and out: "out = concat parts"
        by (subst (asm) expand_line.simps) (auto simp: Let_def res_simps split: if_splits)
      have "list_all (no_call ms) p" if "p \<in> set parts" for p
      proof -
        from that obtain i where i: "i < length parts" "p = parts ! i" by (auto simp: in_set_conv_nth)
        with res_map_InrD [OF parts] have "body d ! i \<in> set (body d)"
          "expand_line ho ms (substitute ?b (body d ! i)) (depth + 1) = Inr p" by auto
        with 1(1) [OF g(1) Cons Some refl g(2) refl] show ?thesis by blast
      qed
      with out show ?thesis by (auto simp: list_all_iff)
    qed
  qed
qed

text \<open>
  Expansion is complete: no line that expanding a line yields calls a macro of the table
  again, however deep the calls were nested; where the nesting exceeds the guard, expansion
  is an error and yields nothing. This holds for every order in which the library enumerates the
  parameters of a macro.
\<close>

theorem macro_expansion_complete:
  "expand_line hash_order ms line 0 = Inr out \<Longrightarrow> line' \<in> set out \<Longrightarrow>
     tokenize line' \<noteq> [] \<and> ms (hd (tokenize line')) = None"
  using expand_line_no_call [of hash_order ms line 0 out] by (auto simp: list_all_iff no_call_def)

definition two_macros :: macros where
  "two_macros = [''TWICE'' \<mapsto> \<lparr>macro_name = ''TWICE'', params = [''r''], body = [''SHOW {r}'', ''SHOW $r'']\<rparr>,
     ''SHOW'' \<mapsto> \<lparr>macro_name = ''SHOW'', params = [''x''], body = [''PRINT {x}'']\<rparr>]"

theorem macro_expansion_complete_witness:
  "expand_line id two_macros ''TWICE R3'' 0 = Inr [''PRINT R3'', ''PRINT R3'']
   \<and> tokenize ''PRINT R3'' \<noteq> [] \<and> two_macros (hd (tokenize ''PRINT R3'')) = None"
proof -
  have "expand_line id two_macros ''TWICE R3'' 0 = Inr [''PRINT R3'', ''PRINT R3'']"
    by code_simp
  with macro_expansion_complete [OF this, of "''PRINT R3''"] show ?thesis by simp
qed

end
