(* ===== verification/Tool_Run.thy ===== *)
theory Tool_Run
  imports Tool_Asm_Correct Tool_Exec_Correct
begin

text \<open>
  The assembler and the virtual machine agree on what an instruction is: the meaning of an
  instruction is given once, as \<open>instr_sem\<close>, without bytes and without the tables of either tool; the assembler writes the bytes of the
  instruction a line denotes, and a step of the machine on these bytes is its meaning.
\<close>


section \<open>Definitions\<close>

datatype instr =
    Nop | Halt | Ret
  | Loadi int int | Load int int | Store int int
  | Add int int | Sub int int | Mul int int | Div int int | Mov int int
  | Jmp int | Jz int int | Jnz int int
  | Print int

fun instr_bytes :: "instr \<Rightarrow> u8 list" where
  "instr_bytes Nop = [0x00]"
| "instr_bytes Halt = [0x01]"
| "instr_bytes Ret = [0x02]"
| "instr_bytes (Loadi r v) = [0x10, word_of_int r, word_of_int v, word_of_int (v div 256)]"
| "instr_bytes (Load r a) = [0x11, word_of_int r, word_of_int a, word_of_int (a div 256)]"
| "instr_bytes (Store r a) = [0x12, word_of_int r, word_of_int a, word_of_int (a div 256)]"
| "instr_bytes (Add a b) = [0x20, word_of_int a, word_of_int b]"
| "instr_bytes (Sub a b) = [0x21, word_of_int a, word_of_int b]"
| "instr_bytes (Mul a b) = [0x22, word_of_int a, word_of_int b]"
| "instr_bytes (Div a b) = [0x23, word_of_int a, word_of_int b]"
| "instr_bytes (Mov a b) = [0x24, word_of_int a, word_of_int b]"
| "instr_bytes (Jmp a) = [0x30, word_of_int a, word_of_int (a div 256)]"
| "instr_bytes (Jz r a) = [0x31, word_of_int r, word_of_int a, word_of_int (a div 256)]"
| "instr_bytes (Jnz r a) = [0x32, word_of_int r, word_of_int a, word_of_int (a div 256)]"
| "instr_bytes (Print r) = [0x40, word_of_int r]"

definition reg :: "vm \<Rightarrow> int \<Rightarrow> int" where
  "reg s r = vm_regs s ! nat r"

definition with_reg :: "int \<Rightarrow> int \<Rightarrow> vm \<Rightarrow> vm" where
  "with_reg r v s = s\<lparr>vm_regs := (vm_regs s)[nat r := v]\<rparr>"

definition next_instr :: "int \<Rightarrow> vm \<Rightarrow> vm" where
  "next_instr k s = s\<lparr>vm_pc := vm_pc s + k\<rparr>"

text \<open>
  The meaning of an instruction, written out: arithmetic is modulo \<open>2 ^ 16\<close>, a word of memory is two bytes with the low one first,
  and a word at the last address of memory has no second byte.
\<close>

fun instr_sem :: "instr \<Rightarrow> vm \<Rightarrow> outcome res" where
  "instr_sem Nop s = Inr (Running (next_instr 1 s))"
| "instr_sem Halt s = Inr (Stopped 0 s)"
| "instr_sem Ret s = Inr (Stopped (reg s 0 mod 256) s)"
| "instr_sem (Loadi r v) s = Inr (Running (next_instr 4 (with_reg r (v mod 65536) s)))"
| "instr_sem (Load r a) s =
     (let m = a mod 65536 in
      if m = 65535 then Inl Undefined
      else Inr (Running (next_instr 4 (with_reg r (uint (vm_mem s m) + 256 * uint (vm_mem s (m + 1))) s))))"
| "instr_sem (Store r a) s =
     (let m = a mod 65536 in
      if m = 65535 then Inl Undefined
      else Inr (Running (next_instr 4 (s\<lparr>vm_mem := (vm_mem s)(m := word_of_int (reg s r mod 256), m + 1 := word_of_int (reg s r div 256))\<rparr>))))"
| "instr_sem (Add a b) s = Inr (Running (next_instr 3 (with_reg a ((reg s a + reg s b) mod 65536) s)))"
| "instr_sem (Sub a b) s = Inr (Running (next_instr 3 (with_reg a ((reg s a - reg s b) mod 65536) s)))"
| "instr_sem (Mul a b) s = Inr (Running (next_instr 3 (with_reg a ((reg s a * reg s b) mod 65536) s)))"
| "instr_sem (Div a b) s =
     (if reg s b = 0 then Inl Division_By_Zero
      else Inr (Running (next_instr 3 (with_reg a (reg s a div reg s b) s))))"
| "instr_sem (Mov a b) s = Inr (Running (next_instr 3 (with_reg a (reg s b) s)))"
| "instr_sem (Jmp a) s = Inr (Running (s\<lparr>vm_pc := a mod 65536\<rparr>))"
| "instr_sem (Jz r a) s =
     Inr (Running (if reg s r = 0 then s\<lparr>vm_pc := a mod 65536\<rparr> else next_instr 4 s))"
| "instr_sem (Jnz r a) s =
     Inr (Running (if reg s r \<noteq> 0 then s\<lparr>vm_pc := a mod 65536\<rparr> else next_instr 4 s))"
| "instr_sem (Print r) s = Inr (Running (next_instr 2 (s\<lparr>vm_out := vm_out s @ [reg s r]\<rparr>)))"

definition reg_ok :: "int \<Rightarrow> bool" where
  "reg_ok r \<longleftrightarrow> 0 \<le> r \<and> r \<le> 7"

fun instr_ok :: "instr \<Rightarrow> bool" where
  "instr_ok (Loadi r v) = reg_ok r"
| "instr_ok (Load r a) = reg_ok r"
| "instr_ok (Store r a) = reg_ok r"
| "instr_ok (Add a b) = (reg_ok a \<and> reg_ok b)"
| "instr_ok (Sub a b) = (reg_ok a \<and> reg_ok b)"
| "instr_ok (Mul a b) = (reg_ok a \<and> reg_ok b)"
| "instr_ok (Div a b) = (reg_ok a \<and> reg_ok b)"
| "instr_ok (Mov a b) = (reg_ok a \<and> reg_ok b)"
| "instr_ok (Jz r a) = reg_ok r"
| "instr_ok (Jnz r a) = reg_ok r"
| "instr_ok (Print r) = reg_ok r"
| "instr_ok _ = True"

text \<open>The instruction a line denotes.\<close>

definition reg_of :: "string \<Rightarrow> int" where
  "reg_of arg = (case reg_index arg of Inr r \<Rightarrow> r | Inl _ \<Rightarrow> 0)"

definition number_of :: "string \<Rightarrow> int" where
  "number_of arg = (case parse_number arg of Inr v \<Rightarrow> v | Inl _ \<Rightarrow> 0)"

definition operand_of :: "symtab \<Rightarrow> string \<Rightarrow> int" where
  "operand_of syms arg = (case parse_number arg of
     Inr v \<Rightarrow> v
   | Inl _ \<Rightarrow> (case map_of syms arg of Some v \<Rightarrow> v | None \<Rightarrow> 0))"

definition denote :: "symtab \<Rightarrow> string \<Rightarrow> string list \<Rightarrow> instr" where
  "denote syms op args =
     (if op = ''NOP'' then Nop
      else if op = ''HALT'' then Halt
      else if op = ''RET'' then Ret
      else if op = ''LOADI'' then Loadi (reg_of (args ! 0)) (number_of (args ! 1))
      else if op = ''LOAD'' then Load (reg_of (args ! 0)) (operand_of syms (args ! 1))
      else if op = ''STORE'' then Store (reg_of (args ! 0)) (operand_of syms (args ! 1))
      else if op = ''JMP'' then Jmp (operand_of syms (args ! 0))
      else if op = ''JZ'' then Jz (reg_of (args ! 0)) (operand_of syms (args ! 1))
      else if op = ''JNZ'' then Jnz (reg_of (args ! 0)) (operand_of syms (args ! 1))
      else if op = ''PRINT'' then Print (reg_of (args ! 0))
      else if op = ''ADD'' then Add (reg_of (args ! 0)) (reg_of (args ! 1))
      else if op = ''SUB'' then Sub (reg_of (args ! 0)) (reg_of (args ! 1))
      else if op = ''MUL'' then Mul (reg_of (args ! 0)) (reg_of (args ! 1))
      else if op = ''DIV'' then Div (reg_of (args ! 0)) (reg_of (args ! 1))
      else Mov (reg_of (args ! 0)) (reg_of (args ! 1)))"

text \<open>Bytes at a position of a vector, and of the machine's memory.\<close>

definition holds :: "int \<Rightarrow> u8 list \<Rightarrow> u8 list \<Rightarrow> bool" where
  "holds pc bs code \<longleftrightarrow> 0 \<le> pc \<and> pc + int (length bs) \<le> int (length code) \<and>
     (\<forall>j < length bs. code ! (nat pc + j) = bs ! j)"

definition mem_holds :: "int \<Rightarrow> u8 list \<Rightarrow> vm \<Rightarrow> bool" where
  "mem_holds a bs s \<longleftrightarrow> 0 \<le> a \<and> a + int (length bs) \<le> mem_size \<and>
     (\<forall>j < length bs. vm_mem s (a + int j) = bs ! j)"


section \<open>The machine executes the bytes of an instruction\<close>

lemma u16_bytes:
  "uint (word_of_int v :: u8) + 256 * uint (word_of_int (v div 256) :: u8) = low16 v"
proof -
  have "v mod 65536 = v mod 256 + 256 * (v div 256 mod 256)"
    using mod_mult2_eq' [of v 256 256] by (simp add: zmod_zmult2_eq)
  then show ?thesis by (simp add: uint_word_of_int low16_def)
qed

lemma uint_reg: "reg_ok r \<Longrightarrow> uint (word_of_int r :: u8) = r"
  by (simp add: uint_word_of_int reg_ok_def)

lemma mem_holds_read:
  "mem_holds a bs s \<Longrightarrow> j < length bs \<Longrightarrow> read_byte (a + int j) s = Inr (uint (bs ! j))"
  by (auto simp: mem_holds_def read_byte_def)

lemma vm_ok_length: "vm_ok s \<Longrightarrow> length (vm_regs s) = 8"
  by (simp add: vm_ok_def)

lemma get_reg_ok: "vm_ok s \<Longrightarrow> reg_ok r \<Longrightarrow> get_reg r s = Inr (reg s r)"
  by (simp add: get_reg_def vm_ok_length reg_ok_def reg_def)

lemma set_reg_in: "vm_ok s \<Longrightarrow> reg_ok r \<Longrightarrow> set_reg r v s = Inr (with_reg r v s)"
  by (simp add: set_reg_def vm_ok_length reg_ok_def with_reg_def)

lemma with_reg_pc [simp]: "vm_pc (with_reg r v s) = vm_pc s"
  by (simp add: with_reg_def)

lemma mem_holds_1: "mem_holds a (b0 # bs) s \<Longrightarrow> read_byte a s = Inr (uint b0)"
  using mem_holds_read [of a "b0 # bs" s 0] by simp

lemma mem_holds_tl: "mem_holds a (b0 # bs) s \<Longrightarrow> mem_holds (a + 1) bs s"
proof -
  assume m: "mem_holds a (b0 # bs) s"
  have "vm_mem s (a + 1 + int j) = bs ! j" if "j < length bs" for j
    using m that unfolding mem_holds_def by (auto dest: spec [of _ "Suc j"] simp: algebra_simps)
  with m show ?thesis by (simp add: mem_holds_def)
qed

lemma mem_holds_u16:
  "mem_holds a (b0 # b1 # bs) s \<Longrightarrow> read_u16 a s = Inr (uint b0 + 256 * uint b1)"
  by (simp add: read_u16_def mem_holds_1 mem_holds_1 [OF mem_holds_tl])

lemma mem_holds_operands:
  assumes "mem_holds a (b0 # b1 # b2 # bs) s"
  shows "read_byte (a + 1) s = Inr (uint b1)" "read_byte (a + 2) s = Inr (uint b2)"
    "read_u16 (a + 1) s = Inr (uint b1 + 256 * uint b2)"
  using mem_holds_tl [OF assms] mem_holds_tl [OF mem_holds_tl [OF assms]]
  by (simp_all add: mem_holds_1 mem_holds_u16 add.assoc)

lemma mem_holds_address:
  "mem_holds a (b0 # b1 # b2 # b3 # bs) s \<Longrightarrow> read_u16 (a + 2) s = Inr (uint b2 + 256 * uint b3)"
  using mem_holds_u16 [OF mem_holds_tl [OF mem_holds_tl]] by (simp add: add.assoc)

lemma exec_op_forms:
  "exec_op 0x00 s = Inr (Running (s\<lparr>vm_pc := vm_pc s + 1\<rparr>))"
  "exec_op 0x01 s = Inr (Stopped 0 s)"
  "exec_op 0x02 s = res_bind (get_reg 0 s) (\<lambda>v. Inr (Stopped (v mod 256) s))"
  "exec_op 0x10 s = res_bind (read_byte (vm_pc s + 1) s) (\<lambda>r. res_bind (read_u16 (vm_pc s + 2) s) (\<lambda>imm.
     res_bind (set_reg r imm s) (\<lambda>s'. Inr (Running (s'\<lparr>vm_pc := vm_pc s + 4\<rparr>)))))"
  "exec_op 0x11 s = res_bind (read_byte (vm_pc s + 1) s) (\<lambda>r. res_bind (read_u16 (vm_pc s + 2) s) (\<lambda>addr.
     res_bind (read_u16 addr s) (\<lambda>v. res_bind (set_reg r v s) (\<lambda>s'. Inr (Running (s'\<lparr>vm_pc := vm_pc s + 4\<rparr>))))))"
  "exec_op 0x12 s = res_bind (read_byte (vm_pc s + 1) s) (\<lambda>r. res_bind (read_u16 (vm_pc s + 2) s) (\<lambda>addr.
     res_bind (get_reg r s) (\<lambda>v. res_bind (write_u16 addr v s) (\<lambda>s'. Inr (Running (s'\<lparr>vm_pc := vm_pc s + 4\<rparr>))))))"
  "exec_op 0x30 s = res_bind (read_u16 (vm_pc s + 1) s) (\<lambda>addr. Inr (Running (s\<lparr>vm_pc := addr\<rparr>)))"
  "exec_op 0x31 s = res_bind (read_byte (vm_pc s + 1) s) (\<lambda>r. res_bind (read_u16 (vm_pc s + 2) s) (\<lambda>addr.
     res_bind (get_reg r s) (\<lambda>v. Inr (Running (s\<lparr>vm_pc := (if v = 0 then addr else vm_pc s + 4)\<rparr>)))))"
  "exec_op 0x32 s = res_bind (read_byte (vm_pc s + 1) s) (\<lambda>r. res_bind (read_u16 (vm_pc s + 2) s) (\<lambda>addr.
     res_bind (get_reg r s) (\<lambda>v. Inr (Running (s\<lparr>vm_pc := (if v \<noteq> 0 then addr else vm_pc s + 4)\<rparr>)))))"
  "exec_op 0x40 s = res_bind (read_byte (vm_pc s + 1) s) (\<lambda>r. res_bind (get_reg r s) (\<lambda>v.
     Inr (Running (s\<lparr>vm_out := vm_out s @ [v], vm_pc := vm_pc s + 2\<rparr>))))"
  by (simp_all add: exec_op_def Let_def)

lemma exec_op_alu:
  "op \<in> {0x20, 0x21, 0x22, 0x23, 0x24} \<Longrightarrow> exec_op op s =
     res_bind (read_byte (vm_pc s + 1) s) (\<lambda>a. res_bind (read_byte (vm_pc s + 2) s) (\<lambda>b.
     res_bind (get_reg b s) (\<lambda>vb. if op = 0x23 \<and> vb = 0 then Inl Division_By_Zero else res_bind (get_reg a s) (\<lambda>va.
     res_bind (set_reg a (alu op va vb) s) (\<lambda>s'. Inr (Running (s'\<lparr>vm_pc := vm_pc s + 3\<rparr>)))))))"
  by (elim insertE emptyE; hypsubst; simp add: exec_op_def Let_def)

lemma read_u16_word:
  "read_u16 (low16 a) s = (let m = a mod 65536 in if m = 65535 then Inl Undefined else Inr (uint (vm_mem s m) + 256 * uint (vm_mem s (m + 1))))"
proof -
  have "0 \<le> a mod 65536" "a mod 65536 < 65536" by simp_all
  then show ?thesis by (auto simp: read_u16_def read_byte_def low16_def mem_size_def Let_def)
qed

lemma write_u16_word:
  assumes "in_u16 v"
  shows "write_u16 (low16 a) v s = (let m = a mod 65536 in if m = 65535 then Inl Undefined
    else Inr (s\<lparr>vm_mem := (vm_mem s)(m := word_of_int (v mod 256), m + 1 := word_of_int (v div 256))\<rparr>))"
proof -
  have "0 \<le> a mod 65536" "a mod 65536 < 65536" by simp_all
  moreover have "(word_of_int (v mod 256) :: u8) = word_of_int v" by transfer (simp add: take_bit_eq_mod)
  ultimately show ?thesis by (auto simp: write_u16_def write_byte_def low16_def mem_size_def Let_def)
qed

lemma reg_range: "vm_ok s \<Longrightarrow> reg_ok r \<Longrightarrow> in_u16 (reg s r)"
  by (metis get_reg_ok get_reg_range)

lemma alu_forms:
  "alu 0x20 a b = (a + b) mod 65536" "alu 0x21 a b = (a - b) mod 65536" "alu 0x22 a b = (a * b) mod 65536" "alu 0x24 a b = b"
  by (simp_all add: alu_def low16_def)

lemma alu_div:
  assumes "in_u16 a" "in_u16 b" "b \<noteq> 0"
  shows "alu 0x23 a b = a div b"
proof -
  have p: "0 \<le> a" "a \<le> 65535" "0 < b" using assms by (auto simp: in_u16_def)
  then have "a div b \<le> a" "0 \<le> a div b" using zdiv_mono2 [of a 1 b] by (simp_all add: pos_imp_zdiv_nonneg_iff)
  moreover have "c_div a b = a div b" using p by (cases "a = 0") (simp_all add: c_div_def)
  ultimately show ?thesis using p by (simp add: alu_def low16_def)
qed

lemma vm_step_op: "mem_holds (vm_pc s) (b0 # bs) s \<Longrightarrow> vm_step s = exec_op b0 s"
  by (simp add: vm_step_def mem_holds_1)

lemma vm_step_instr:
  assumes mem: "mem_holds (vm_pc s) (instr_bytes i) s" and ok: "vm_ok s" "instr_ok i"
  shows "vm_step s = instr_sem i s"
proof -
  have step: "vm_step s = res_bind (get_reg (uint (word_of_int b :: u8)) s) (\<lambda>vb. if op = 0x23 \<and> vb = 0 then Inl Division_By_Zero
      else res_bind (get_reg (uint (word_of_int a :: u8)) s) (\<lambda>va. res_bind (set_reg (uint (word_of_int a :: u8)) (alu op va vb) s)
        (\<lambda>s'. Inr (Running (s'\<lparr>vm_pc := vm_pc s + 3\<rparr>)))))"
    if "instr_bytes i = [op, word_of_int a, word_of_int b]" "op \<in> {0x20, 0x21, 0x22, 0x23, 0x24}" for op a b
    using that mem mem_holds_operands [of "vm_pc s" op "word_of_int a" "word_of_int b" "[]" s] by (simp add: vm_step_op exec_op_alu)
  note arith = uint_reg get_reg_ok set_reg_in next_instr_def alu_forms alu_div reg_range
  show ?thesis
  proof (cases i)
    case (Add a b)
    then show ?thesis using step [where op = "0x20" and a = a and b = b] ok by (simp add: arith)
  next
    case (Sub a b)
    then show ?thesis using step [where op = "0x21" and a = a and b = b] ok by (simp add: arith)
  next
    case (Mul a b)
    then show ?thesis using step [where op = "0x22" and a = a and b = b] ok by (simp add: arith)
  next
    case (Div a b)
    then show ?thesis using step [where op = "0x23" and a = a and b = b] ok by (simp add: arith)
  next
    case (Mov a b)
    then show ?thesis using step [where op = "0x24" and a = a and b = b] ok by (simp add: arith)
  next
    case (Store r a)
    with ok mem show ?thesis
      by (simp add: vm_step_op exec_op_forms mem_holds_operands(1) mem_holds_address u16_bytes uint_reg get_reg_ok
          write_u16_word reg_range Let_def next_instr_def)
  next
    case (Load r a)
    with ok mem show ?thesis
      by (simp add: vm_step_op exec_op_forms mem_holds_operands(1) mem_holds_address u16_bytes uint_reg set_reg_in
          read_u16_word Let_def next_instr_def)
  next
    case (Print r)
    with ok mem mem_holds_1 [OF mem_holds_tl, of "vm_pc s" _ "word_of_int r" "[]" s] show ?thesis
      by (simp add: vm_step_op exec_op_forms uint_reg get_reg_ok next_instr_def)
  next
    case Ret
    with ok mem get_reg_ok [of s 0] show ?thesis
      by (simp add: vm_step_op exec_op_forms reg_ok_def)
  qed (use ok mem in \<open>simp_all add: vm_step_op exec_op_forms mem_holds_operands mem_holds_address u16_bytes low16_def
      uint_reg get_reg_ok set_reg_in next_instr_def\<close>)
qed


section \<open>The assembler writes the bytes of an instruction\<close>

lemma holds_first: "set_byte pc b code = Inr code' \<Longrightarrow> holds pc [b] code'"
  by (auto simp: holds_def dest!: set_byte_InrD)

lemma holds_snoc:
  assumes "holds pc bs code" "set_byte (pc + int (length bs)) b code = Inr code'"
  shows "holds pc (bs @ [b]) code'"
proof -
  have c: "code' = code[nat pc + length bs := b]" "nat pc + length bs < length code"
    using set_byte_InrD [OF assms(2)] assms(1) by (auto simp: holds_def nat_add_distrib)
  have "code' ! (nat pc + j) = (bs @ [b]) ! j" if "j < length (bs @ [b])" for j
    using that assms(1) c by (cases "j = length bs") (auto simp: holds_def nth_append)
  with assms(1) c show ?thesis by (auto simp: holds_def)
qed

lemma holds_reg:
  assumes "holds pc bs code" "emit_reg p arg code = Inr code'" "p = pc + int (length bs)"
  shows "holds pc (bs @ [word_of_int (reg_of arg)]) code' \<and> reg_ok (reg_of arg)"
  using assms holds_snoc [OF assms(1)] reg_index_range
  by (auto simp: emit_reg_def res_simps reg_of_def reg_ok_def)

lemma holds_u16:
  assumes "holds pc bs code" "emit_u16 p v code = Inr code'" "p = pc + int (length bs)"
  shows "holds pc (bs @ [word_of_int v, word_of_int (v div 256)]) code'"
proof -
  from assms(2,3) obtain c where c: "set_byte (pc + int (length bs)) (word_of_int v) code = Inr c"
    "set_byte (pc + int (length (bs @ [word_of_int v]))) (word_of_int (v div 256)) c = Inr code'"
    by (auto simp: emit_u16_def res_simps ac_simps)
  show ?thesis using holds_snoc [OF holds_snoc [OF assms(1) c(1)] c(2)] by simp
qed

lemma holds_operand:
  assumes "holds pc bs code" "emit_operand src n syms exts p arg (code, rs) = Inr (code', rs')"
    and "p = pc + int (length bs)"
  shows "holds pc (bs @ [word_of_int (operand_of syms arg), word_of_int (operand_of syms arg div 256)]) code'"
proof -
  from assms(2) have "emit_u16 p (operand_of syms arg) code = Inr code'"
    by (auto simp: emit_operand_def emit_symbol_u16_def is_number_def operand_of_def Let_def res_simps
        split: sum.splits if_splits option.splits)
  from holds_u16 [OF assms(1) this assms(3)] show ?thesis .
qed

lemma encode_instruction_holds:
  assumes enc: "encode_instruction src n syms exts pc op args (code, rs) = Inr (pc', code', rs')"
    and k: "instr_sizes op = Some k"
  shows "holds pc (instr_bytes (denote syms op args)) code' \<and> instr_ok (denote syms op args)"
  using k
proof (cases rule: instr_sizes_cases)
  case 1
  with enc show ?thesis
    by (simp add: op_groups, elim disjE; hypsubst)
       (auto simp: encode_plain op_groups res_simps opmap_def denote_def dest!: holds_first)
next
  case 2
  with enc obtain c where "set_byte pc 0x40 code = Inr c" "emit_reg (pc + 1) (args ! 0) c = Inr code'"
    by (auto simp: encode_print res_simps split: if_splits)
  with holds_reg [OF holds_first] 2 show ?thesis by (simp add: denote_def)
next
  case 3
  with enc obtain c d where c: "set_byte pc (the (opmap op)) code = Inr c"
    "emit_reg (pc + 1) (args ! 0) c = Inr d" "emit_reg (pc + 2) (args ! 1) d = Inr code'"
    by (auto simp: encode_alu res_simps split: if_splits)
  from holds_reg [OF holds_first [OF c(1)] c(2)] have d: "holds pc [the (opmap op), word_of_int (reg_of (args ! 0))] d"
    "reg_ok (reg_of (args ! 0))" by simp_all
  from holds_reg [OF d(1) c(3)] d(2) 3(1) show ?thesis
    by (simp add: op_groups, elim disjE; hypsubst) (simp_all add: denote_def opmap_def)
next
  case 4
  with enc obtain c d v where c: "set_byte pc 0x10 code = Inr c"
    "emit_reg (pc + 1) (args ! 0) c = Inr d" "parse_number (args ! 1) = Inr v" "emit_u16 (pc + 2) v d = Inr code'"
    by (auto simp: encode_loadi res_simps split: if_splits)
  from holds_reg [OF holds_first [OF c(1)] c(2)] have d: "holds pc [0x10, word_of_int (reg_of (args ! 0))] d"
    "reg_ok (reg_of (args ! 0))" by simp_all
  from holds_u16 [OF d(1) c(4)] d(2) c(3) 4 show ?thesis by (simp add: denote_def number_of_def)
next
  case 5
  with enc obtain c d where c: "set_byte pc (the (opmap op)) code = Inr c"
    "emit_reg (pc + 1) (args ! 0) c = Inr d"
    "emit_operand src n syms exts (pc + 2) (args ! 1) (d, rs) = Inr (code', rs')"
    by (auto simp: encode_address res_simps split: if_splits)
  from holds_reg [OF holds_first [OF c(1)] c(2)] have d: "holds pc [the (opmap op), word_of_int (reg_of (args ! 0))] d"
    "reg_ok (reg_of (args ! 0))" by simp_all
  from holds_operand [OF d(1) c(3)] d(2) 5(1) show ?thesis
    by (simp add: op_groups, elim disjE; hypsubst) (simp_all add: denote_def opmap_def)
next
  case 6
  with enc obtain c where c: "set_byte pc 0x30 code = Inr c"
    "emit_operand src n syms exts (pc + 1) (args ! 0) (c, rs) = Inr (code', rs')"
    by (auto simp: encode_jmp res_simps split: if_splits)
  from holds_operand [OF holds_first [OF c(1)] c(2)] 6 show ?thesis by (simp add: denote_def)
qed

lemma load_memory_holds:
  assumes "holds pc bs code" "vm_mem s = load_memory base code" "0 \<le> base"
    "base + int (length code) \<le> mem_size"
  shows "mem_holds (base + pc) bs s"
proof -
  have "vm_mem s (base + pc + int j) = bs ! j" if j: "j < length bs" for j
  proof -
    have "nat (base + pc + int j - base) = nat pc + j"
      using assms(1) by (simp add: holds_def nat_add_distrib)
    with assms j show ?thesis by (simp add: holds_def load_memory_def)
  qed
  with assms show ?thesis by (auto simp: mem_holds_def holds_def)
qed

text \<open>
  C8. The machine runs what the assembler wrote. If encoding a line succeeds, and the code is loaded
  into the memory of the virtual machine with the program counter at the place of the line, then a step of the
  machine is the meaning of the instruction the mnemonic of the line stands for: \<open>ADD\<close> adds, \<open>SUB\<close> subtracts, \<open>MUL\<close> multiplies modulo
  \<open>2 ^ 16\<close>, \<open>DIV\<close> divides or reports a division by zero, \<open>MOV\<close> copies, loads and stores move a word of memory, and so on. The register operands
  are the registers named, the number or symbol operand is the low sixteen bits of its value in the symbol table,
  and execution continues behind the instruction or at the target.
\<close>

theorem assembled_instruction_runs:
  assumes enc: "encode_instruction src n syms exts pc op args (code, rs) = Inr (pc', code', rs')"
    and vm: "vm_ok s" "vm_mem s = load_memory base code'" "vm_pc s = base + pc"
    and base: "0 \<le> base" "base + int (length code') \<le> mem_size"
  shows "vm_step s = instr_sem (denote syms op args) s"
proof -
  obtain k where k: "instr_sizes op = Some k" using encode_instruction_known [OF enc] by blast
  from encode_instruction_holds [OF enc k]
  have "mem_holds (vm_pc s) (instr_bytes (denote syms op args)) s" "instr_ok (denote syms op args)"
    using load_memory_holds [OF _ vm(2) base] vm(3) by simp_all
  from vm_step_instr [OF this(1) vm(1) this(2)] show ?thesis .
qed

definition jnz_code :: "u8 list" where
  "jnz_code = [0x32, 1, 0x04, 0x02]"

definition jnz_vm :: vm where
  "jnz_vm = \<lparr>vm_mem = load_memory 0x300 jnz_code, vm_regs = [0, 7, 0, 0, 0, 0, 0, 0], vm_pc = 0x300, vm_out = []\<rparr>"

theorem assembled_instruction_runs_witness:
  "vm_step jnz_vm = instr_sem (denote [(''loop'', 0x204)] ''JNZ'' [''R1'', ''loop'']) jnz_vm
   \<and> instr_sem (denote [(''loop'', 0x204)] ''JNZ'' [''R1'', ''loop'']) jnz_vm = Inr (Running (jnz_vm\<lparr>vm_pc := 0x204\<rparr>))"
proof
  show "vm_step jnz_vm = instr_sem (denote [(''loop'', 0x204)] ''JNZ'' [''R1'', ''loop'']) jnz_vm"
  proof (rule assembled_instruction_runs [where base = "0x300"])
    show "encode_instruction ''l.asm'' 3 [(''loop'', 0x204)] [] 0 ''JNZ'' [''R1'', ''loop''] (replicate 4 0, [])
      = Inr (4, jnz_code, [\<lparr>rel_offset = 2, rel_size = 2, rel_symbol = ''loop'', rel_addend = 0\<rparr>])"
      by code_simp
  qed (simp_all add: jnz_vm_def vm_ok_def in_u16_def jnz_code_def mem_size_def)
  have "denote [(''loop'', 0x204)] ''JNZ'' [''R1'', ''loop''] = Jnz 1 0x204" by code_simp
  then show "instr_sem (denote [(''loop'', 0x204)] ''JNZ'' [''R1'', ''loop'']) jnz_vm
      = Inr (Running (jnz_vm\<lparr>vm_pc := 0x204\<rparr>))"
    by (simp add: reg_def jnz_vm_def)
qed

end
