(* ===== verification/Tool_Link_Correct.thy ===== *)
theory Tool_Link_Correct
  imports Tool_Exec_Correct
begin

text \<open>
  What the linker leaves in the linked code: at every relocation site the address of the symbol,
  everywhere else the bytes of the modules; and what loading a relocatable image makes of the
  sites.
\<close>


section \<open>Definitions\<close>

text \<open>The sixteen-bit word at an offset.\<close>

definition vec_u16 :: "u8 list \<Rightarrow> int \<Rightarrow> int" where
  "vec_u16 code pos = uint (code ! nat pos) + 256 * uint (code ! nat (pos + 1))"

definition clear_of :: "int \<Rightarrow> int \<Rightarrow> bool" where
  "clear_of p q \<longleftrightarrow> p + 2 \<le> q \<or> q + 2 \<le> p"

definition sites_apart :: "int list \<Rightarrow> bool" where
  "sites_apart ps \<longleftrightarrow> sorted_wrt clear_of ps"

definition module_sites :: "linker_module \<Rightarrow> int list" where
  "module_sites m = map (\<lambda>r. mod_base m + rel_offset r) (obj_relocations (mod_data m))"

definition link_sites :: "linker_module list \<Rightarrow> int list" where
  "link_sites ms = concat (map module_sites ms)"

text \<open>A site and the value it is given.\<close>

definition site_of :: "symtab \<Rightarrow> linker_module \<Rightarrow> reloc \<Rightarrow> int \<times> int" where
  "site_of globals m r = (mod_base m + rel_offset r,
     (case resolve_symbol (rel_symbol r) m globals of Inr v \<Rightarrow> v + rel_addend r | Inl _ \<Rightarrow> 0))"

definition all_sites :: "symtab \<Rightarrow> linker_module list \<Rightarrow> (int \<times> int) list" where
  "all_sites globals ms = concat (map (\<lambda>m. map (site_of globals m) (obj_relocations (mod_data m))) ms)"

definition patch_all :: "(int \<times> int) list \<Rightarrow> u8 list \<Rightarrow> u8 list res" where
  "patch_all ps = res_fold (\<lambda>(pos, v). patch_u16 pos v) ps"


section \<open>Patching\<close>

lemma patch_u16_InrD:
  assumes "patch_u16 pos v xs = Inr ys"
  shows "0 \<le> pos \<and> pos + 1 < int (length xs)
    \<and> ys = xs[nat pos := word_of_int v, nat (pos + 1) := word_of_int (v div 256)]"
  using assms by (auto simp: patch_u16_def set_byte_def res_simps split: if_splits)

lemma u16_of_bytes:
  "uint (word_of_int v :: u8) + 256 * uint (word_of_int (v div 256) :: u8) = low16 v"
proof -
  have "v mod 65536 = v mod 256 + 256 * (v div 256 mod 256)"
    using zmod_zmult2_eq [of 256 v 256] by simp
  then show ?thesis by (simp add: uint_word_of_int low16_def)
qed

lemma patch_u16_value: "patch_u16 pos v xs = Inr ys \<Longrightarrow> vec_u16 ys pos = low16 v"
  by (auto dest!: patch_u16_InrD simp: vec_u16_def u16_of_bytes nth_list_update nat_eq_iff)

lemma patch_u16_other:
  assumes "patch_u16 pos v xs = Inr ys" "int i \<noteq> pos" "int i \<noteq> pos + 1"
  shows "ys ! i = xs ! i"
proof -
  note d = patch_u16_InrD [OF assms(1)]
  then have "nat pos \<noteq> i" "nat (pos + 1) \<noteq> i" using assms(2,3) by auto
  with d show ?thesis by simp
qed

lemma patch_u16_length: "patch_u16 pos v xs = Inr ys \<Longrightarrow> length ys = length xs"
  by (auto dest!: patch_u16_InrD)

lemma patch_u16_apart:
  assumes "patch_u16 pos v xs = Inr ys" "clear_of q pos" "0 \<le> q"
  shows "vec_u16 ys q = vec_u16 xs q"
  using patch_u16_other [OF assms(1), of "nat q"] patch_u16_other [OF assms(1), of "nat (q + 1)"] assms(2,3)
  by (auto simp: vec_u16_def clear_of_def)

lemma patch_all_other:
  "patch_all ps xs = Inr ys \<Longrightarrow> \<forall>(pos, v) \<in> set ps. int i \<noteq> pos \<and> int i \<noteq> pos + 1 \<Longrightarrow> ys ! i = xs ! i"
proof (induction ps arbitrary: xs)
  case (Cons p ps)
  obtain pos v where p: "p = (pos, v)" by (cases p)
  with Cons.prems obtain zs where "patch_u16 pos v xs = Inr zs" "patch_all ps zs = Inr ys"
    by (auto simp: patch_all_def res_simps)
  with Cons p patch_u16_other [of pos v xs zs i] show ?case by auto
qed (simp add: patch_all_def)

lemma patch_all_length: "patch_all ps xs = Inr ys \<Longrightarrow> length ys = length xs"
  by (induction ps arbitrary: xs) (auto simp: patch_all_def res_simps dest: patch_u16_length)

lemma patch_all_apart:
  "patch_all ps xs = Inr ys \<Longrightarrow> \<forall>(pos, v) \<in> set ps. clear_of q pos \<Longrightarrow> 0 \<le> q \<Longrightarrow> vec_u16 ys q = vec_u16 xs q"
proof (induction ps arbitrary: xs)
  case (Cons p ps)
  obtain pos v where p: "p = (pos, v)" by (cases p)
  with Cons.prems obtain zs where "patch_u16 pos v xs = Inr zs" "patch_all ps zs = Inr ys"
    by (auto simp: patch_all_def res_simps)
  with Cons p patch_u16_apart [of pos v xs zs q] show ?case by auto
qed (simp add: patch_all_def)

text \<open>With sites that do not overlap, every site holds its value at the end.\<close>

lemma patch_all_value:
  "patch_all ps xs = Inr ys \<Longrightarrow> sites_apart (map fst ps) \<Longrightarrow> (pos, v) \<in> set ps \<Longrightarrow> vec_u16 ys pos = low16 v"
proof (induction ps arbitrary: xs)
  case (Cons p ps)
  obtain pos0 v0 where p: "p = (pos0, v0)" by (cases p)
  with Cons.prems obtain zs where zs: "patch_u16 pos0 v0 xs = Inr zs" "patch_all ps zs = Inr ys"
    by (auto simp: patch_all_def res_simps)
  have ap: "\<forall>(q, w) \<in> set ps. clear_of pos0 q" using Cons.prems(2) p by (auto simp: sites_apart_def)
  show ?case
  proof (cases "(pos, v) = (pos0, v0)")
    case True
    with patch_all_apart [OF zs(2) ap] patch_u16_InrD [OF zs(1)] patch_u16_value [OF zs(1)] show ?thesis by simp
  next
    case False
    with Cons.prems Cons.IH [OF zs(2)] p show ?thesis by (auto simp: sites_apart_def)
  qed
qed simp


section \<open>The linker\<close>

lemma apply_reloc_InrD:
  assumes "apply_reloc globals m r (xs, ps) = Inr (ys, qs)"
  shows "\<exists>v. resolve_symbol (rel_symbol r) m globals = Inr v \<and> qs = ps @ [mod_base m + rel_offset r]
    \<and> patch_u16 (mod_base m + rel_offset r) (v + rel_addend r) xs = Inr ys"
  using assms by (auto simp: apply_reloc_def Let_def res_simps split: if_splits)

lemma apply_module_patches:
  assumes "res_fold (apply_reloc globals m) rs (xs, ps) = Inr (ys, qs)"
  shows "patch_all (map (site_of globals m) rs) xs = Inr ys
    \<and> qs = ps @ map fst (map (site_of globals m) rs)
    \<and> (\<forall>r \<in> set rs. \<exists>v. resolve_symbol (rel_symbol r) m globals = Inr v)"
  using assms
proof (induction rs arbitrary: xs ps)
  case (Cons r rs)
  from Cons.prems obtain zs ps' where z: "apply_reloc globals m r (xs, ps) = Inr (zs, ps')"
    "res_fold (apply_reloc globals m) rs (zs, ps') = Inr (ys, qs)" by (auto simp: res_simps)
  from apply_reloc_InrD [OF z(1)] Cons.IH [OF z(2)] show ?case
    by (auto simp: patch_all_def site_of_def)
qed (simp add: patch_all_def)

lemma patch_all_append: "patch_all (ps @ qs) xs = res_bind (patch_all ps xs) (patch_all qs)"
  by (simp add: patch_all_def res_fold_append)

lemma apply_modules_patches:
  assumes "res_fold (apply_module globals) ms (xs, ps) = Inr (ys, qs)"
  shows "patch_all (all_sites globals ms) xs = Inr ys \<and> qs = ps @ map fst (all_sites globals ms)
    \<and> (\<forall>m \<in> set ms. \<forall>r \<in> set (obj_relocations (mod_data m)). \<exists>v. resolve_symbol (rel_symbol r) m globals = Inr v)"
  using assms
proof (induction ms arbitrary: xs ps)
  case (Cons m ms)
  from Cons.prems obtain zs ps' where z: "apply_module globals m (xs, ps) = Inr (zs, ps')"
    "res_fold (apply_module globals) ms (zs, ps') = Inr (ys, qs)" by (auto simp: res_simps)
  from apply_module_patches [OF z(1) [unfolded apply_module_def]] Cons.IH [OF z(2)] show ?case
    by (auto simp: all_sites_def patch_all_append)
qed (simp add: patch_all_def all_sites_def)

lemma all_sites_fst: "map fst (all_sites globals ms) = link_sites ms"
  by (induction ms) (simp_all add: all_sites_def link_sites_def module_sites_def site_of_def)

text \<open>With sizes that are the lengths of the code, the copied modules are the codes in sequence.\<close>

definition sized :: "linker_module \<Rightarrow> bool" where
  "sized m \<longleftrightarrow> obj_size (mod_data m) = int (length (obj_code (mod_data m)))"

definition codes :: "linker_module list \<Rightarrow> u8 list" where
  "codes ms = concat (map (obj_code \<circ> mod_data) ms)"

lemma assign_bases_data: "assign_bases c ms = (ms', c') \<Longrightarrow> map mod_data ms' = map mod_data ms"
  by (induction ms arbitrary: c ms') (auto simp: Let_def split: prod.splits)

lemma assign_bases_cursor:
  "list_all sized ms \<Longrightarrow> assign_bases c ms = (ms', c') \<Longrightarrow> c' = c + int (length (codes ms))"
proof (induction ms arbitrary: c ms')
  case (Cons m ms)
  then obtain ms'' where "assign_bases (c + int (length (obj_code (mod_data m)))) ms = (ms'', c')"
    by (auto simp: Let_def sized_def split: prod.splits)
  from Cons.IH [OF _ this] Cons.prems(1) show ?case by (simp add: codes_def)
qed (simp add: codes_def)

lemma copy_at_zeros:
  "copy_at bs (int (length pre)) (pre @ replicate (length bs + n) 0) = Inr (pre @ bs @ replicate n 0)"
  by (auto simp: copy_at_def)

lemma copy_modules:
  "list_all sized ms \<Longrightarrow> assign_bases (int (length pre)) ms = (ms', c') \<Longrightarrow>
     res_fold copy_module ms' (pre @ replicate (length (codes ms)) 0) = Inr (pre @ codes ms)"
proof (induction ms arbitrary: pre ms')
  case (Cons m ms)
  let ?c = "obj_code (mod_data m)"
  obtain ms'' where a: "assign_bases (int (length (pre @ ?c))) ms = (ms'', c')"
    and ms': "ms' = m\<lparr>mod_base := int (length pre)\<rparr> # ms''"
    using Cons.prems by (auto simp: sized_def Let_def split: prod.splits)
  have "copy_module (m\<lparr>mod_base := int (length pre)\<rparr>) (pre @ replicate (length (codes (m # ms))) 0)
      = Inr ((pre @ ?c) @ replicate (length (codes ms)) 0)"
    using copy_at_zeros [of ?c pre "length (codes ms)"] by (simp add: copy_module_def codes_def)
  with Cons.IH [OF _ a] Cons.prems(1) ms' show ?case by (simp add: codes_def)
qed (simp add: codes_def)

lemma link_image_InrD:
  assumes link: "link_image modules mode la es = Inr img" and sized: "list_all sized modules"
    and bases: "assign_bases 0 modules = (ms, cursor)"
  obtains globals linked pending entry where "collect_globals ms = Inr globals"
    "res_fold (apply_module globals) ms (codes modules, []) = Inr (linked, pending)"
    "link_entry ms globals es = Inr entry" "img_code img = linked" "mode = ''absolute'' \<or> mode = ''relocatable''"
    "img_entry img = (if mode = ''absolute'' then entry + la else entry)"
    "img_relocations img = (if mode = ''relocatable'' then pending else [])"
proof -
  have cur: "cursor = int (length (codes modules))" using assign_bases_cursor [OF sized bases] by simp
  have cp: "res_fold copy_module ms (replicate (length (codes modules)) 0) = Inr (codes modules)"
    using copy_modules [OF sized, of "[]"] bases by simp
  show thesis
    using link cp bases cur that by (auto simp: link_image_def Let_def res_simps split: if_splits)
qed

text \<open>A program that loads and prints a word another module exports.\<close>

definition user_module :: linker_module where
  "user_module = \<lparr>mod_path = ''main.obj.json'', mod_data =
     \<lparr>obj_module = ''main.mcr'', obj_size = 7, obj_code = [0x11, 0, 0, 0, 0x40, 0, 0x01], obj_symbols = [(''start'', 0)],
      obj_globals = [], obj_externs = [''VALUE''], obj_entry = 0,
      obj_relocations = [\<lparr>rel_offset = 2, rel_size = 2, rel_symbol = ''VALUE'', rel_addend = 0\<rparr>]\<rparr>, mod_base = 0\<rparr>"

definition value_module :: linker_module where
  "value_module = \<lparr>mod_path = ''lib.obj.json'', mod_data =
     \<lparr>obj_module = ''lib.mcr'', obj_size = 2, obj_code = [21, 0], obj_symbols = [(''VALUE'', 0)],
      obj_globals = [''VALUE''], obj_externs = [], obj_entry = 0, obj_relocations = []\<rparr>, mod_base = 0\<rparr>"

definition linked_image :: "string \<Rightarrow> int \<Rightarrow> int \<Rightarrow> int list \<Rightarrow> int \<Rightarrow> image" where
  "linked_image mode entry la sites v = \<lparr>img_mode = mode, img_size = 9, img_entry = entry, img_load_address = la,
     img_code = [0x11, 0, 7, 0, 0x40, 0, 0x01, 21, 0], img_relocations = sites, img_symbols = [(''VALUE'', v)]\<rparr>"

subsection \<open>Addresses\<close>

text \<open>
  What the addresses should be, from the object files alone: a module begins where the code of the modules before it ends, the
  exported symbols are at the beginning of their module plus their value, and a symbol seen from a module is the module's own
  or else the exported one.
\<close>

definition module_start :: "linker_module list \<Rightarrow> nat \<Rightarrow> int" where
  "module_start modules j = int (length (codes (take j modules)))"

definition exports :: "linker_module list \<Rightarrow> (string \<times> int) list" where
  "exports modules = concat (map (\<lambda>j. concat (map (\<lambda>name.
     case map_of (obj_symbols (mod_data (modules ! j))) name of None \<Rightarrow> [] | Some v \<Rightarrow> [(name, module_start modules j + v)])
     (obj_globals (mod_data (modules ! j))))) [0..<length modules])"

definition symbol_address :: "linker_module list \<Rightarrow> nat \<Rightarrow> string \<Rightarrow> int option" where
  "symbol_address modules j name =
     (case map_of (obj_symbols (mod_data (modules ! j))) name of
        Some v \<Rightarrow> Some (module_start modules j + v)
      | None \<Rightarrow> map_of (exports modules) name)"

definition reloc_sites :: "linker_module list \<Rightarrow> int list" where
  "reloc_sites modules = concat (map (\<lambda>j. map (\<lambda>r. module_start modules j + rel_offset r) (obj_relocations (mod_data (modules ! j))))
     [0..<length modules])"

lemma assign_bases_nth:
  "list_all sized ms \<Longrightarrow> assign_bases c ms = (ms', c') \<Longrightarrow>
     length ms' = length ms \<and> (\<forall>j < length ms. ms' ! j = (ms ! j)\<lparr>mod_base := c + module_start ms j\<rparr>)"
proof (induction ms arbitrary: c ms')
  case (Cons m ms)
  obtain ms'' where a: "assign_bases (c + int (length (obj_code (mod_data m)))) ms = (ms'', c')"
    and ms': "ms' = m\<lparr>mod_base := c\<rparr> # ms''"
    using Cons.prems by (auto simp: sized_def Let_def split: prod.splits)
  from Cons.IH [OF _ a] Cons.prems(1) show ?case
    by (auto simp: ms' nth_Cons' module_start_def codes_def split: nat.splits) (auto simp: take_Cons' codes_def)
qed simp

lemma placed_modules:
  assumes "list_all sized modules" "assign_bases 0 modules = (ms, cursor)"
  shows "ms = map (\<lambda>j. (modules ! j)\<lparr>mod_base := module_start modules j\<rparr>) [0..<length modules]"
  using assign_bases_nth [OF assms] by (intro nth_equalityI) auto

lemma link_sites_placed:
  "list_all sized modules \<Longrightarrow> assign_bases 0 modules = (ms, cursor) \<Longrightarrow> link_sites ms = reloc_sites modules"
  unfolding link_sites_def by (drule (1) placed_modules) (simp add: module_sites_def reloc_sites_def comp_def)

text \<open>The table of the linker is the exported symbols, and no name is exported twice.\<close>

definition adds :: "symtab \<Rightarrow> (string \<times> int) list \<Rightarrow> symtab \<Rightarrow> bool" where
  "adds g es g' \<longleftrightarrow> smap_ok g' \<and> distinct (map fst es) \<and> (\<forall>k \<in> fst ` set es. map_of g k = None) \<and>
     (\<forall>k. map_of g' k = (case map_of g k of Some v \<Rightarrow> Some v | None \<Rightarrow> map_of es k))"

lemma adds_append: "adds g es g' \<Longrightarrow> adds g' fs g'' \<Longrightarrow> adds g (es @ fs) g''"
proof -
  assume a: "adds g es g'" "adds g' fs g''"
  have n: "map_of g k = None \<and> k \<notin> fst ` set es" if "k \<in> fst ` set fs" for k
  proof -
    have "\<forall>k \<in> fst ` set fs. map_of g' k = None" using a(2) unfolding adds_def by (elim conjE)
    then have "map_of g' k = None" using that by (rule bspec)
    moreover have "map_of g' k = (case map_of g k of Some v \<Rightarrow> Some v | None \<Rightarrow> map_of es k)" using a(1) unfolding adds_def by blast
    ultimately show ?thesis by (cases "map_of g k") (simp_all add: map_of_eq_None_iff)
  qed
  have "map_of g'' k = (case map_of g k of Some v \<Rightarrow> Some v | None \<Rightarrow> map_of (es @ fs) k)" for k
    using a by (auto simp: adds_def map_add_def split: option.splits)
  moreover have "distinct (map fst (es @ fs))" using a n by (auto simp: adds_def)
  ultimately show ?thesis using a n by (auto simp: adds_def)
qed

lemma define_global_adds:
  assumes "define_global m name g = Inr g'" "smap_ok g"
  shows "adds g (case map_of (obj_symbols (mod_data m)) name of None \<Rightarrow> [] | Some v \<Rightarrow> [(name, mod_base m + v)]) g'"
  using assms by (auto simp: define_global_def adds_def smap_set_ok split: option.splits if_splits)

lemma fold_adds:
  assumes "\<And>x g g'. x \<in> set xs \<Longrightarrow> f x g = Inr g' \<Longrightarrow> smap_ok g \<Longrightarrow> adds g (e x) g'" "res_fold f xs g = Inr g'" "smap_ok g"
  shows "adds g (concat (map e xs)) g'"
  using assms
proof (induction xs arbitrary: g)
  case Nil
  then show ?case by (simp add: adds_def option.case_eq_if)
next
  case (Cons x xs)
  from Cons.prems(2) obtain h where h: "f x g = Inr h" "res_fold f xs h = Inr g'" by (auto simp: res_simps)
  from Cons.prems(1) [OF _ h(1) Cons.prems(3)] have a: "adds g (e x) h" by simp
  then have "adds h (concat (map e xs)) g'" using Cons.prems(1) h(2) by (intro Cons.IH) (auto simp: adds_def)
  with a show ?case using adds_append by simp
qed

lemma collect_globals_exports:
  assumes "list_all sized modules" "assign_bases 0 modules = (ms, cursor)" "collect_globals ms = Inr g"
  shows "distinct (map fst (exports modules))" "map_of g = map_of (exports modules)"
proof -
  let ?e = "\<lambda>m. concat (map (\<lambda>name. case map_of (obj_symbols (mod_data m)) name of None \<Rightarrow> [] | Some v \<Rightarrow> [(name, mod_base m + v)])
    (obj_globals (mod_data m)))"
  have "adds [] (concat (map ?e ms)) g"
  proof (rule fold_adds [OF _ assms(3) [unfolded collect_globals_def]])
    show "adds g (?e m) g'" if "res_fold (define_global m) (obj_globals (mod_data m)) g = Inr g'" "smap_ok g" for m g g'
      by (rule fold_adds [OF define_global_adds that])
  qed (simp add: smap_ok_def)
  moreover have "concat (map ?e ms) = exports modules" by (simp add: placed_modules [OF assms(1,2)] exports_def comp_def cong: option.case_cong)
  ultimately show "distinct (map fst (exports modules))" "map_of g = map_of (exports modules)" by (auto simp: adds_def)
qed

lemma resolve_placed:
  assumes "list_all sized modules" "assign_bases 0 modules = (ms, cursor)" "collect_globals ms = Inr g" "j < length modules"
    "resolve_symbol name (ms ! j) g = Inr v"
  shows "symbol_address modules j name = Some v" "mod_base (ms ! j) = module_start modules j" "mod_data (ms ! j) = mod_data (modules ! j)"
    "ms ! j \<in> set ms"
proof -
  have m: "ms ! j = (modules ! j)\<lparr>mod_base := module_start modules j\<rparr>" "length ms = length modules"
    using placed_modules [OF assms(1,2)] assms(4) by simp_all
  then show "mod_base (ms ! j) = module_start modules j" "mod_data (ms ! j) = mod_data (modules ! j)" by simp_all
  show "ms ! j \<in> set ms" using m(2) assms(4) by (intro nth_mem) simp
  show "symbol_address modules j name = Some v"
    using assms(5) m(1) collect_globals_exports(2) [OF assms(1-3)]
    by (auto simp: resolve_symbol_def symbol_address_def split: option.splits)
qed

text \<open>
  C17. Linking resolves every relocation and nothing else. For modules whose recorded sizes are the lengths of
  their code and whose relocation sites do not overlap, a successful link exports no name twice, and leaves, at each site of
  each module, the low sixteen bits of the address of the symbol plus the addend: the symbol of the module itself, which is at the
  beginning of the module in the image plus its value there, or else the exported one, at the beginning of the module that exports it plus its value.
  Every byte outside the sites is the byte of the modules laid out in sequence.
\<close>

theorem linked_sites_resolved:
  assumes link: "link_image modules mode la es = Inr img" and sized: "list_all sized modules" and ap: "sites_apart (reloc_sites modules)"
  shows "distinct (map fst (exports modules)) \<and>
    (\<forall>j < length modules. \<forall>r \<in> set (obj_relocations (mod_data (modules ! j))). \<exists>a.
       symbol_address modules j (rel_symbol r) = Some a \<and>
       vec_u16 (img_code img) (module_start modules j + rel_offset r) = (a + rel_addend r) mod 65536) \<and>
    length (img_code img) = length (codes modules) \<and>
    (\<forall>i. (\<forall>p \<in> set (reloc_sites modules). int i \<noteq> p \<and> int i \<noteq> p + 1) \<longrightarrow> img_code img ! i = codes modules ! i)"
proof -
  obtain ms cursor where bases: "assign_bases 0 modules = (ms, cursor)" by fastforce
  note sites = link_sites_placed [OF sized bases]
  obtain globals linked pending entry where g: "collect_globals ms = Inr globals"
    and ap': "res_fold (apply_module globals) ms (codes modules, []) = Inr (linked, pending)"
    and code: "img_code img = linked"
    by (rule link_image_InrD [OF link sized bases])
  note p = apply_modules_patches [OF ap']
  have val: "\<exists>a. symbol_address modules j (rel_symbol r) = Some a \<and>
      vec_u16 linked (module_start modules j + rel_offset r) = (a + rel_addend r) mod 65536"
    if j: "j < length modules" and r: "r \<in> set (obj_relocations (mod_data (modules ! j)))" for j r
  proof -
    have "length ms = length modules" using placed_modules [OF sized bases] by simp
    then have mj: "ms ! j \<in> set ms" using j by (intro nth_mem) simp
    have r': "r \<in> set (obj_relocations (mod_data (ms ! j)))" using j r placed_modules [OF sized bases] by simp
    with p mj obtain v where v: "resolve_symbol (rel_symbol r) (ms ! j) globals = Inr v" by blast
    note R = resolve_placed [OF sized bases g j v]
    have "site_of globals (ms ! j) r \<in> set (all_sites globals ms)" using mj r' by (auto simp: all_sites_def)
    then have "(module_start modules j + rel_offset r, v + rel_addend r) \<in> set (all_sites globals ms)"
      using v R(2) by (simp add: site_of_def)
    from patch_all_value [OF conjunct1 [OF p] _ this] ap v R(1) show ?thesis by (simp add: all_sites_fst sites low16_def)
  qed
  have other: "linked ! i = codes modules ! i"
    if i: "\<forall>p \<in> set (reloc_sites modules). int i \<noteq> p \<and> int i \<noteq> p + 1" for i
  proof -
    have "\<forall>(pos, v) \<in> set (all_sites globals ms). int i \<noteq> pos \<and> int i \<noteq> pos + 1"
      using i by (force simp flip: sites all_sites_fst [of globals])
    from patch_all_other [OF conjunct1 [OF p] this] show ?thesis .
  qed
  have len: "length linked = length (codes modules)" using patch_all_length [OF conjunct1 [OF p]] .
  show ?thesis
    unfolding code by (intro conjI ballI allI impI) (use collect_globals_exports(1) [OF sized bases g] val other len in blast)+
qed

lemma linked_example:
  "link_image [user_module, value_module] ''absolute'' 0x1000 None = Inr (linked_image ''absolute'' 0x1000 0x1000 [] 0x1007)"
  "link_image [user_module, value_module] ''relocatable'' 0x1000 None = Inr (linked_image ''relocatable'' 0 0 [2] 7)"
  "list_all sized [user_module, value_module]" "sites_apart (reloc_sites [user_module, value_module])"
  "symbol_address [user_module, value_module] 0 ''VALUE'' = Some 7" "module_start [user_module, value_module] 0 = 0"
  by code_simp+

theorem linked_sites_resolved_witness:
  "symbol_address [user_module, value_module] 0 ''VALUE'' = Some 7 \<and>
   vec_u16 (img_code (linked_image ''absolute'' 0x1000 0x1000 [] 0x1007)) 2 = 7 \<and>
   length (img_code (linked_image ''absolute'' 0x1000 0x1000 [] 0x1007)) = 9"
  using linked_sites_resolved [OF linked_example(1,3,4)] linked_example(5,6)
  by (auto simp: user_module_def value_module_def codes_def)


section \<open>Loading a relocatable image\<close>

definition fields :: "'d jvalue \<Rightarrow> (string \<times> 'd jvalue) list" where
  "fields v = (case v of JObject m \<Rightarrow> m | _ \<Rightarrow> [])"

lemma smap_fold:
  "smap_ok m \<Longrightarrow> smap_ok (fold (\<lambda>(k, v). smap_set k v) kvs m)
     \<and> map_of (fold (\<lambda>(k, v). smap_set k v) kvs m) = map_of m ++ map_of (rev kvs)"
proof (induction kvs arbitrary: m)
  case (Cons kv kvs)
  obtain k v where kv: "kv = (k, v)" by (cases kv)
  have "map_of (smap_set k v m) = map_of m ++ map_of [(k, v)]"
    using map_of_smap_set [OF Cons.prems, of k v] by (simp add: fun_eq_iff map_add_def)
  with Cons.IH [OF smap_set_ok [OF Cons.prems, of k v]] kv show ?case
    by (simp del: map_of_smap_set map_of.simps)
qed simp

lemma smap_ok_Nil [simp]: "smap_ok []"
  by (simp add: smap_ok_def)

lemma image_field:
  "obj_at k (fields (image_value img)) = (case map_of (rev
     [(''format'', JString ''wirth-exe-v1''),
      (''mode'', JString (img_mode img)),
      (''size'', JInt (img_size img)),
      (''entry'', JInt (img_entry img)),
      (''load_address'', JInt (img_load_address img)),
      (''code'', JArray (map (\<lambda>b. JInt (uint b)) (img_code img))),
      (''relocations'', JArray (map site_value (img_relocations img))),
      (''symbols'', JObject (fold (\<lambda>(name, v). smap_set name (JInt v)) (img_symbols img) []))]) k of
    None \<Rightarrow> Inl (Missing_Key k) | Some v \<Rightarrow> Inr v)"
  unfolding obj_at_def fields_def image_value_def jvalue.case
  by (subst smap_fold [THEN conjunct2]) (simp_all del: rev.simps)

lemma site_value_offset: "as_object (site_value pos) = Inr ro \<Longrightarrow> obj_at ''offset'' ro = Inr (JInt pos)"
  by (auto simp: site_value_def obj_at_def smap_ok_def smap_set_ok)

lemma relocate_site_value:
  "relocate_site dops base (site_value pos) code
     = res_bind (read_vec_u16 pos code) (\<lambda>v. patch_u16 pos (v + base) code)"
proof -
  obtain ro where "as_object (site_value pos :: 'a jvalue) = Inr ro" by (simp add: site_value_def)
  with site_value_offset [OF this] show ?thesis by (simp add: relocate_site_def)
qed

lemma patch_u16_in: "0 \<le> pos \<Longrightarrow> pos + 1 < int (length xs) \<Longrightarrow> \<exists>ys. patch_u16 pos v xs = Inr ys"
  by (auto simp: patch_u16_def set_byte_def)

lemma relocate_site_in:
  assumes "0 \<le> pos" "pos + 1 < int (length xs)"
  shows "\<exists>ys. relocate_site dops base (site_value pos) xs = Inr ys
    \<and> patch_u16 pos (vec_u16 xs pos + base) xs = Inr ys"
  using patch_u16_in [OF assms, of "vec_u16 xs pos + base"] assms
  by (auto simp: relocate_site_value read_vec_u16_def vec_u16_def)

text \<open>Relocating every site once adds the base to each.\<close>

lemma relocate_sites:
  "\<forall>p \<in> set ps. 0 \<le> p \<and> p + 1 < int (length xs) \<Longrightarrow> sites_apart ps \<Longrightarrow>
   \<exists>ys. res_fold (relocate_site dops base) (map site_value ps) xs = Inr ys
     \<and> (\<forall>p \<in> set ps. vec_u16 ys p = low16 (vec_u16 xs p + base))
     \<and> (\<forall>q. (\<forall>p \<in> set ps. clear_of q p) \<longrightarrow> 0 \<le> q \<longrightarrow> vec_u16 ys q = vec_u16 xs q)"
proof (induction ps arbitrary: xs)
  case (Cons p ps)
  from Cons.prems(1) relocate_site_in [of p xs dops base] obtain zs where
    z: "relocate_site dops base (site_value p) xs = Inr zs" "patch_u16 p (vec_u16 xs p + base) xs = Inr zs"
    by auto
  have ap: "\<forall>q \<in> set ps. clear_of p q \<and> clear_of q p" using Cons.prems(2) by (auto simp: sites_apart_def clear_of_def)
  have len: "length zs = length xs" using patch_u16_length [OF z(2)] .
  from Cons.IH [of zs] Cons.prems len obtain ys where
    y: "res_fold (relocate_site dops base) (map site_value ps) zs = Inr ys"
    "\<forall>q \<in> set ps. vec_u16 ys q = low16 (vec_u16 zs q + base)"
    "\<forall>q. (\<forall>p \<in> set ps. clear_of q p) \<longrightarrow> 0 \<le> q \<longrightarrow> vec_u16 ys q = vec_u16 zs q"
    by (auto simp: sites_apart_def)
  have "vec_u16 ys p = low16 (vec_u16 xs p + base)"
    using y(3) ap Cons.prems(1) patch_u16_value [OF z(2)] by simp
  moreover have "vec_u16 zs q = vec_u16 xs q" if "clear_of q p" "0 \<le> q" for q
    using patch_u16_apart [OF z(2)] that by simp
  ultimately show ?case
    using y z(1) ap Cons.prems(1) by (intro exI [of _ ys]) auto
qed simp

lemma low16_add: "low16 (low16 x + y) = low16 (x + y)"
  by (simp add: low16_def mod_add_left_eq)

lemma patch_all_bounds: "patch_all ps xs = Inr ys \<Longrightarrow> \<forall>(p, v) \<in> set ps. 0 \<le> p \<and> p + 1 < int (length xs)"
proof (induction ps arbitrary: xs)
  case (Cons q ps)
  obtain p v where q: "q = (p, v)" by (cases q)
  with Cons.prems obtain zs where z: "patch_u16 p v xs = Inr zs" "patch_all ps zs = Inr ys"
    by (auto simp: patch_all_def res_simps)
  from Cons.IH [OF z(2)] patch_u16_InrD [OF z(1)] q show ?case by auto
qed simp

text \<open>
  C20. A relocatable image can be loaded anywhere. For modules as in the property of the linker, linking in mode \<open>relocatable\<close> and
  loading the image at any base always succeeds in relocating it, and afterwards each relocation site holds the
  low sixteen bits of the base plus the symbol's address in the image plus the addend: the address at which the symbol
  is in the machine's memory.
\<close>

theorem relocatable_load_resolved:
  assumes link: "link_image modules ''relocatable'' la es = Inr img" and sized: "list_all sized modules"
    and ap: "sites_apart (reloc_sites modules)"
  shows "\<exists>code. relocate_image dops (fields (image_value img)) ''relocatable'' (Some base) (img_code img) = Inr (base, code) \<and>
    (\<forall>j < length modules. \<forall>r \<in> set (obj_relocations (mod_data (modules ! j))). \<exists>a.
       symbol_address modules j (rel_symbol r) = Some a \<and>
       vec_u16 code (module_start modules j + rel_offset r) = (base + a + rel_addend r) mod 65536)"
proof -
  obtain ms cursor where bases: "assign_bases 0 modules = (ms, cursor)" by fastforce
  note sites = link_sites_placed [OF sized bases]
  obtain globals linked pending entry where g: "collect_globals ms = Inr globals"
    and ap': "res_fold (apply_module globals) ms (codes modules, []) = Inr (linked, pending)"
    and code: "img_code img = linked" and rel: "img_relocations img = (if ''relocatable'' = ''relocatable'' then pending else [])"
    by (rule link_image_InrD [OF link sized bases])
  note p = apply_modules_patches [OF ap']
  have pend: "pending = link_sites ms" using p by (simp add: all_sites_fst)
  have inside: "\<forall>p \<in> set (link_sites ms). 0 \<le> p \<and> p + 1 < int (length linked)"
    using patch_all_bounds [OF conjunct1 [OF p]] patch_all_length [OF conjunct1 [OF p]]
    by (auto simp flip: all_sites_fst [of globals])
  obtain ys where y: "res_fold (relocate_site dops base) (map site_value (link_sites ms)) linked = Inr ys"
    "\<forall>p \<in> set (link_sites ms). vec_u16 ys p = low16 (vec_u16 linked p + base)"
    using relocate_sites [OF inside] ap unfolding sites by blast
  have load: "relocate_image dops (fields (image_value img)) ''relocatable'' (Some base) (img_code img) = Inr (base, ys)"
    using y(1) rel pend code by (simp add: relocate_image_def image_field)
  have val: "\<exists>a. symbol_address modules j (rel_symbol r) = Some a \<and>
      vec_u16 ys (module_start modules j + rel_offset r) = (base + a + rel_addend r) mod 65536"
    if j: "j < length modules" and r: "r \<in> set (obj_relocations (mod_data (modules ! j)))" for j r
  proof -
    have "length ms = length modules" using placed_modules [OF sized bases] by simp
    then have mj: "ms ! j \<in> set ms" using j by (intro nth_mem) simp
    have r': "r \<in> set (obj_relocations (mod_data (ms ! j)))" using j r placed_modules [OF sized bases] by simp
    with p mj obtain v where v: "resolve_symbol (rel_symbol r) (ms ! j) globals = Inr v" by blast
    note R = resolve_placed [OF sized bases g j v]
    have "site_of globals (ms ! j) r \<in> set (all_sites globals ms)" using mj r' by (auto simp: all_sites_def)
    then have s: "(module_start modules j + rel_offset r, v + rel_addend r) \<in> set (all_sites globals ms)"
      using v R(2) by (simp add: site_of_def)
    have "module_start modules j + rel_offset r \<in> set (link_sites ms)"
      using s by (force simp flip: all_sites_fst [of globals])
    with y(2) patch_all_value [OF conjunct1 [OF p] _ s] ap R(1) low16_add [of "v + rel_addend r" base] show ?thesis
      by (simp add: all_sites_fst sites low16_def ac_simps)
  qed
  show ?thesis using load val by (intro exI [of _ ys]) blast
qed

theorem relocatable_load_resolved_witness:
  "\<exists>code. relocate_image no_doubles (fields (image_value (linked_image ''relocatable'' 0 0 [2] 7))) ''relocatable'' (Some 0x1000)
      (img_code (linked_image ''relocatable'' 0 0 [2] 7)) = Inr (0x1000, code) \<and> vec_u16 code 2 = 0x1007"
proof -
  from relocatable_load_resolved [OF linked_example(2-4), where dops = no_doubles and base = "0x1000"] obtain code where
    c: "relocate_image no_doubles (fields (image_value (linked_image ''relocatable'' 0 0 [2] 7))) ''relocatable'' (Some 0x1000)
      (img_code (linked_image ''relocatable'' 0 0 [2] 7)) = Inr (0x1000, code)"
    and v: "\<forall>j < length [user_module, value_module]. \<forall>r \<in> set (obj_relocations (mod_data ([user_module, value_module] ! j))). \<exists>a.
       symbol_address [user_module, value_module] j (rel_symbol r) = Some a \<and>
       vec_u16 code (module_start [user_module, value_module] j + rel_offset r) = (0x1000 + a + rel_addend r) mod 65536"
    by blast
  from v [rule_format, of 0 "\<lparr>rel_offset = 2, rel_size = 2, rel_symbol = ''VALUE'', rel_addend = 0\<rparr>"] linked_example(5,6)
  have "vec_u16 code 2 = 0x1007" by (simp add: user_module_def)
  with c show ?thesis by blast
qed

text \<open>
  C39. In mode \<open>absolute\<close> the load address moves the entry point but not the code: the linked code for a
  load address is the code linked for address zero, so its absolute operands name places relative to
  zero, while the machine copies the image to the load address and enters it there.
\<close>

theorem absolute_link_not_relocated:
  "link_image modules ''absolute'' la es = Inr img \<Longrightarrow>
     \<exists>img0. link_image modules ''absolute'' 0 es = Inr img0 \<and> img_code img = img_code img0
       \<and> img_entry img = img_entry img0 + la \<and> img_load_address img = la \<and> img_relocations img = []"
  by (auto simp: link_image_def Let_def res_simps split: prod.splits if_splits)

text \<open>The program prints 0 when linked absolute at 0x1000, and 21 when linked relocatable and loaded there.\<close>

lemma relocatable_example_runs:
  "run_image no_doubles (fields (image_value (linked_image ''relocatable'' 0 0 [2] 7))) (Some 0x1000) 10
     = Inr \<lparr>exit_code = 0, steps = 3, registers = [21, 0, 0, 0, 0, 0, 0, 0], printed = [21]\<rparr>"
  by code_simp

theorem absolute_link_not_relocated_witness:
  "(\<exists>img0. link_image [user_module, value_module] ''absolute'' 0 None = Inr img0 \<and>
      img_code (linked_image ''absolute'' 0x1000 0x1000 [] 0x1007) = img_code img0 \<and>
      img_entry (linked_image ''absolute'' 0x1000 0x1000 [] 0x1007) = img_entry img0 + 0x1000 \<and>
      img_load_address (linked_image ''absolute'' 0x1000 0x1000 [] 0x1007) = 0x1000 \<and>
      img_relocations (linked_image ''absolute'' 0x1000 0x1000 [] 0x1007) = []) \<and>
   run_image no_doubles (fields (image_value (linked_image ''absolute'' 0x1000 0x1000 [] 0x1007))) (Some 0x1000) 10
     = Inr \<lparr>exit_code = 0, steps = 3, registers = [0, 0, 0, 0, 0, 0, 0, 0], printed = [0]\<rparr>"
proof
  have "link_image [user_module, value_module] ''absolute'' 0x1000 None
    = Inr (linked_image ''absolute'' 0x1000 0x1000 [] 0x1007)" by code_simp
  then show "\<exists>img0. link_image [user_module, value_module] ''absolute'' 0 None = Inr img0 \<and>
      img_code (linked_image ''absolute'' 0x1000 0x1000 [] 0x1007) = img_code img0 \<and>
      img_entry (linked_image ''absolute'' 0x1000 0x1000 [] 0x1007) = img_entry img0 + 0x1000 \<and>
      img_load_address (linked_image ''absolute'' 0x1000 0x1000 [] 0x1007) = 0x1000 \<and>
      img_relocations (linked_image ''absolute'' 0x1000 0x1000 [] 0x1007) = []"
    by (rule absolute_link_not_relocated)
  show "run_image no_doubles (fields (image_value (linked_image ''absolute'' 0x1000 0x1000 [] 0x1007))) (Some 0x1000) 10
     = Inr \<lparr>exit_code = 0, steps = 3, registers = [0, 0, 0, 0, 0, 0, 0, 0], printed = [0]\<rparr>" by code_simp
qed

end
