(* ===== verification/Tool_Json_Correct.thy ===== *)
theory Tool_Json_Correct
  imports Tool_Json
begin

text \<open>
  Reading back what was written gives the value that was written, and the parser's recursion bound
  is never reached.
\<close>


section \<open>Strings\<close>

lemma digit_hex_lower: "n < 16 \<Longrightarrow> digit_of (hex_lower n) = int n"
proof -
  have "list_all (\<lambda>k. digit_of (hex_lower k) = int k) [0..<16]" by code_simp
  then show "n < 16 \<Longrightarrow> ?thesis" by (simp add: list_all_iff)
qed

lemma parse_hex_00:
  assumes "a < 16" "b < 16"
  shows "parse_hex 4 0 (CHR ''0'' # CHR ''0'' # hex_lower a # hex_lower b # r) = Inr (int (a * 16 + b), r)"
proof -
  have "digit_of (CHR ''0'') = 0" by (simp add: digit_of_def)
  with assms digit_hex_lower show ?thesis by (simp add: numeral_nat get_char_def)
qed

lemma parse_escaped_control:
  assumes "(of_char c :: nat) < 0x20"
  shows "parse_string_body (CHR 0x5C # CHR ''u'' # CHR ''0'' # CHR ''0''
      # hex_lower (of_char c div 16) # hex_lower (of_char c mod 16) # r) out = parse_string_body r (out @ [c])"
proof -
  have "parse_hex 4 0 (CHR ''0'' # CHR ''0'' # hex_lower (of_char c div 16) # hex_lower (of_char c mod 16) # r)
      = Inr (int (of_char c), r)"
    using parse_hex_00 [of "of_char c div 16" "of_char c mod 16" r] assms by simp
  moreover have "int (of_char c) \<le> 0x7F" "char_of (int (of_char c)) = c"
  proof -
    have "int (of_char c :: nat) < 0x20" using assms by linarith
    then show "int (of_char c) \<le> 0x7F" by linarith
  qed simp
  ultimately show ?thesis by (simp del: parse_hex.simps)
qed

lemma parse_escape_char: "parse_string_body (escape_char c @ r) out = parse_string_body r (out @ [c])"
proof (cases "c \<in> {CHR 0x22, CHR 0x5C, CHR 0x08, CHR 0x0C, CHR 0x0A, CHR 0x0D, CHR 0x09}")
  case True
  then show ?thesis by (elim insertE emptyE; hypsubst; simp add: escape_char_def unescape_def)
next
  case False
  then show ?thesis
    using parse_escaped_control [of c r out] by (simp add: escape_char_def)
qed

lemma parse_escaped: "parse_string_body (json_escape s @ CHR 0x22 # r) out = Inr (out @ s, r)"
  by (induction s arbitrary: out) (simp_all add: json_escape_def parse_escape_char)

lemma parse_quoted: "parse_string (quoted s @ r) = Inr (s, r)"
  by (simp add: parse_string_def quoted_def expect_def get_char_def parse_escaped)


section \<open>Numbers\<close>

definition num_stop :: "string \<Rightarrow> bool" where
  "num_stop r \<longleftrightarrow> (case r of [] \<Rightarrow> True
     | c # _ \<Rightarrow> \<not> isdigit c \<and> c \<noteq> CHR ''.'' \<and> c \<noteq> CHR ''e'' \<and> c \<noteq> CHR ''E'')"

lemma of_char_digit: "d < 10 \<Longrightarrow> (of_char (char_of (48 + d :: nat) :: char) :: int) = 48 + int d"
proof -
  assume "d < 10"
  then have "of_char (char_of (48 + d :: nat) :: char) = 48 + d" by simp
  then have "int (of_char (char_of (48 + d :: nat) :: char)) = 48 + int d" by (simp only: of_nat_add of_nat_numeral)
  then show ?thesis by (simp only: of_nat_of_char)
qed

lemma isdigit_digit: "d < 10 \<Longrightarrow> isdigit (char_of (48 + d :: nat))"
  by (simp add: isdigit_def)

lemma nat_digits_isdigit: "c \<in> set (nat_digits n) \<Longrightarrow> isdigit c"
  by (induction n rule: nat_digits.induct) (subst (asm) (2) nat_digits.simps, auto split: if_splits simp: isdigit_digit)

lemma nat_digits_ne: "nat_digits n \<noteq> []"
  by (subst nat_digits.simps) simp

lemma decimal_append: "decimal (a @ b) v = decimal b (decimal a v)"
  by (induction a arbitrary: v) auto

lemma decimal_nat_digits: "decimal (nat_digits n) 0 = int n"
proof (induction n rule: nat_digits.induct)
  case (1 n)
  show ?case
  proof (cases "n < 10")
    case True
    then show ?thesis by (subst nat_digits.simps) (simp add: of_char_digit)
  next
    case False
    have "int n = int (n div 10) * 10 + int (n mod 10)" by presburger
    with 1 False show ?thesis by (subst nat_digits.simps) (simp add: decimal_append of_char_digit)
  qed
qed

lemma digit_not_sign: "isdigit c \<Longrightarrow> c \<noteq> CHR ''-'' \<and> c \<noteq> CHR ''+''"
  by (auto simp: isdigit_def)

lemma takeWhile_digits:
  assumes "num_stop r" "\<forall>c \<in> set ds. isdigit c"
  shows "takeWhile isdigit (ds @ r) = ds" "dropWhile isdigit (ds @ r) = r"
  using assms by (induction ds) (auto simp: num_stop_def split: list.splits)

lemma number_sign_digits:
  "ds \<noteq> [] \<Longrightarrow> \<forall>c \<in> set ds. isdigit c \<Longrightarrow> number_sign (ds @ r) = (1, ds @ r)"
  by (cases ds) (auto simp: number_sign_def dest!: digit_not_sign)

lemma digit_not_space: "isdigit c \<Longrightarrow> \<not> isspace c"
  by (auto simp: isdigit_def isspace_def)

text \<open>An optional minus sign and digits are read back as the integer.\<close>

definition with_sign :: "bool \<Rightarrow> string \<Rightarrow> string" where
  "with_sign neg ds = (if neg then CHR ''-'' # ds else ds)"

lemma to_string_signed: "to_string v = with_sign (v < 0) (nat_digits (nat \<bar>v\<bar>))"
  by (simp add: to_string_def with_sign_def)

lemma stoll_signed:
  assumes "ds \<noteq> []" "\<forall>c \<in> set ds. isdigit c"
    and v: "v = (if neg then - 1 else 1) * decimal ds 0" "llong_min \<le> v" "v \<le> llong_max"
  shows "stoll (with_sign neg ds) = Inr v"
proof -
  have dw: "dropWhile isspace (with_sign neg ds) = with_sign neg ds"
    using assms(1,2) by (cases ds) (auto simp: with_sign_def isspace_def isdigit_def)
  have ns: "number_sign (with_sign neg ds) = ((if neg then - 1 else 1), ds)"
    using number_sign_digits [OF assms(1,2), of "[]"] by (simp add: with_sign_def number_sign_def)
  have tw: "takeWhile isdigit ds = ds" using assms(2) by (simp add: takeWhile_eq_all_conv)
  show ?thesis
    using v assms(1) by (simp add: stoll_def sto_def dw ns tw Let_def)
qed

lemma skip_number:
  assumes "ds \<noteq> []" "\<forall>c \<in> set ds. isdigit c" "num_stop r"
  shows "skip_digits (skip_sign (with_sign neg ds @ r)) = r" "skip_fraction r = (False, r)" "skip_exponent r = (False, r)"
proof -
  have "skip_sign (with_sign neg ds @ r) = ds @ r"
    using assms(1,2) by (cases ds) (auto simp: skip_sign_def with_sign_def peek_def dest!: digit_not_sign)
  with takeWhile_digits [OF assms(3,2)] show "skip_digits (skip_sign (with_sign neg ds @ r)) = r"
    by (simp add: skip_digits_def)
  show "skip_fraction r = (False, r)" "skip_exponent r = (False, r)"
    using assms(3) by (auto simp: skip_fraction_def skip_exponent_def peek_def num_stop_def split: list.splits)
qed

lemma parse_number_to_string:
  assumes "llong_min \<le> v" "v \<le> llong_max" "num_stop r"
  shows "parse_json_number dops (to_string v @ r) = Inr (JInt v, r)"
proof -
  let ?ds = "nat_digits (nat \<bar>v\<bar>)" and ?neg = "v < 0"
  have ds: "?ds \<noteq> []" "\<forall>c \<in> set ?ds. isdigit c" using nat_digits_ne nat_digits_isdigit by auto
  have "v = (if ?neg then - 1 else 1) * decimal ?ds 0" by (simp add: decimal_nat_digits)
  from stoll_signed [OF ds this assms(1,2)] have "stoll (with_sign ?neg ?ds) = Inr v" .
  moreover have "with_sign ?neg ?ds \<noteq> []" using nat_digits_ne by (simp add: with_sign_def)
  ultimately show ?thesis
    using skip_number(1) [OF ds assms(3), of ?neg] skip_number(2,3) [OF ds assms(3)] by (simp add: parse_json_number_def to_string_signed Let_def)
qed


section \<open>Values\<close>

lemma skip_ws_idem [simp]: "skip_ws (skip_ws s) = skip_ws s"
  by (simp add: skip_ws_def)

lemma skip_ws_indent [simp]: "skip_ws (indent n @ s) = skip_ws s"
  by (induction n) (simp_all add: skip_ws_def indent_def isspace_def)

lemma skip_ws_Cons: "skip_ws (c # s) = (if isspace c then skip_ws s else c # s)"
  by (simp add: skip_ws_def)

lemma isspace_simps [simp]:
  "isspace (CHR 0x0A)" "isspace (CHR '' '')" "\<not> isspace (CHR 0x22)" "\<not> isspace (CHR '','')"
  "\<not> isspace (CHR ''['')" "\<not> isspace (CHR '']'')" "\<not> isspace (CHR ''{'')" "\<not> isspace (CHR ''}'')"
  "\<not> isspace (CHR '':'')" "\<not> isspace (CHR ''t'')" "\<not> isspace (CHR ''f'')" "\<not> isspace (CHR ''n'')"
  by (simp_all add: isspace_def)

lemma parse_value_skip: "parse_value dops fuel (skip_ws s) = parse_value dops fuel s"
  by (cases fuel) simp_all

lemma parse_elements_skip: "parse_elements dops fuel (skip_ws s) = parse_elements dops fuel s"
  by (cases fuel) (simp_all add: parse_value_skip)

lemma parse_members_skip: "parse_members dops fuel (skip_ws s) m = parse_members dops fuel s m"
  by (cases fuel) simp_all

lemma to_string_start:
  "\<exists>c s. to_string v = c # s \<and> (isdigit c \<or> c = CHR ''-'')"
proof -
  obtain c s where "nat_digits (nat \<bar>v\<bar>) = c # s" using nat_digits_ne by (cases "nat_digits (nat \<bar>v\<bar>)") auto
  with nat_digits_isdigit [of c "nat \<bar>v\<bar>"] show ?thesis by (auto simp: to_string_signed with_sign_def)
qed

lemma dump_start: "plain v \<Longrightarrow> \<exists>c s. dump dops v d step = c # s \<and> \<not> isspace c \<and> c \<noteq> CHR '']''"
proof (cases v)
  case (JInt n)
  with to_string_start [of n] show ?thesis by (auto simp: isspace_def isdigit_def)
qed (auto simp: quoted_def)

lemma parse_int:
  assumes "plain (JInt n)" "num_stop r"
  shows "parse_value dops (Suc fuel) (dump dops (JInt n) d step @ r) = Inr (JInt n, r)"
proof -
  obtain c s where c: "to_string n = c # s" "isdigit c \<or> c = CHR ''-''" using to_string_start by blast
  then have "skip_ws (to_string n @ r) = to_string n @ r" by (auto simp: skip_ws_def isspace_def isdigit_def)
  moreover have "peek (to_string n @ r) = c" using c by (simp add: peek_def)
  moreover have "c \<notin> {CHR ''{'', CHR ''['', CHR 0x22, CHR ''t'', CHR ''f'', CHR ''n''}"
    using c(2) by (auto simp: isdigit_def)
  ultimately show ?thesis
    using parse_number_to_string [of n r dops] assms by (simp add: Let_def)
qed

lemma num_stop_simps [simp]: "num_stop (CHR '','' # r)" "num_stop (CHR 0x0A # r)" "num_stop []"
  by (simp_all add: num_stop_def isdigit_def)

lemma skip_ws_dump: "plain v \<Longrightarrow> skip_ws (dump dops v d step @ r) = dump dops v d step @ r"
  using dump_start [of v dops d step] by (auto simp: skip_ws_Cons)

lemma skip_ws_quoted [simp]: "skip_ws (quoted k @ r) = quoted k @ r"
  by (simp add: quoted_def skip_ws_Cons)

lemma peek_Cons [simp]: "peek (c # s) = c"
  by (simp add: peek_def)

lemma parse_elements_nl: "parse_elements dops fuel (CHR 0x0A # r) = parse_elements dops fuel r"
  using parse_elements_skip [of dops fuel "CHR 0x0A # r"] parse_elements_skip [of dops fuel r]
  by (simp add: skip_ws_Cons)

lemma parse_members_nl: "parse_members dops fuel (CHR 0x0A # r) m = parse_members dops fuel r m"
  using parse_members_skip [of dops fuel "CHR 0x0A # r"] parse_members_skip [of dops fuel r]
  by (simp add: skip_ws_Cons)

text \<open>One element of an array or member of an object, and the separator behind it.\<close>

lemma parse_elements_step:
  assumes "parse_value dops fuel (indent n @ w @ sep @ CHR 0x0A # r) = Inr (v, sep @ CHR 0x0A # r)"
  shows "sep = [] \<Longrightarrow> skip_ws r = CHR '']'' # r' \<Longrightarrow>
      parse_elements dops (Suc fuel) (indent n @ w @ sep @ CHR 0x0A # r) = Inr ([v], r')"
    and "sep = '','' \<Longrightarrow> parse_elements dops fuel r = Inr (vs, r'') \<Longrightarrow>
      parse_elements dops (Suc fuel) (indent n @ w @ sep @ CHR 0x0A # r) = Inr (v # vs, r'')"
  using assms by (auto simp: skip_ws_Cons get_char_def parse_elements_skip parse_elements_nl)

lemma parse_members_step:
  assumes "parse_value dops fuel (w @ sep @ CHR 0x0A # r) = Inr (v, sep @ CHR 0x0A # r)"
    and "skip_ws (w @ sep @ CHR 0x0A # r) = w @ sep @ CHR 0x0A # r"
  shows "sep = [] \<Longrightarrow> skip_ws r = CHR ''}'' # r' \<Longrightarrow>
      parse_members dops (Suc fuel) (indent n @ quoted k @ '': '' @ w @ sep @ CHR 0x0A # r) m
        = Inr (smap_emplace k v m, r')"
    and "sep = '','' \<Longrightarrow> 
      parse_members dops (Suc fuel) (indent n @ quoted k @ '': '' @ w @ sep @ CHR 0x0A # r) m
        = parse_members dops fuel r (smap_emplace k v m)"
  using assms by (simp_all add: skip_ws_Cons get_char_def parse_members_skip parse_members_nl parse_quoted expect_def)

lemma parse_array_start:
  assumes "parse_elements dops fuel s = Inr (vs, r)" "skip_ws s = c # s'" "c \<noteq> CHR '']''"
  shows "parse_value dops (Suc fuel) (CHR ''['' # CHR 0x0A # s) = Inr (JArray vs, r)"
  using assms parse_elements_skip [of dops fuel s] by (simp add: skip_ws_Cons Let_def)

lemma parse_object_start:
  assumes "parse_members dops fuel s [] = Inr (m, r)" "skip_ws s = CHR 0x22 # s'"
  shows "parse_value dops (Suc fuel) (CHR ''{'' # CHR 0x0A # s) = Inr (JObject m, r)"
  using assms parse_members_skip [of dops fuel s "[]"] by (simp add: skip_ws_Cons Let_def)

text \<open>The size of a text bounds the depth of the recursion on it.\<close>

lemma parse_dump:
  "plain v \<Longrightarrow> num_stop r \<Longrightarrow> length (dump dops v d step) < fuel \<Longrightarrow>
     parse_value dops fuel (dump dops v d step @ r) = Inr (v, r)"
  "\<forall>v \<in> set vs. plain v \<Longrightarrow> vs \<noteq> [] \<Longrightarrow> length (dump_elements dops vs d step) < fuel \<Longrightarrow>
     parse_elements dops fuel (dump_elements dops vs d step @ indent d @ CHR '']'' # r) = Inr (vs, r)"
  "\<forall>(k, v) \<in> set kvs. plain v \<Longrightarrow> kvs \<noteq> [] \<Longrightarrow> smap_ok (m @ kvs) \<Longrightarrow>
     length (dump_members dops kvs d step) < fuel \<Longrightarrow>
     parse_members dops fuel (dump_members dops kvs d step @ indent d @ CHR ''}'' # r) m = Inr (m @ kvs, r)"
proof (induction dops v d step and dops vs d step and dops kvs d step
    arbitrary: r fuel and r fuel and r fuel m rule: dump_dump_elements_dump_members.induct)
  case (1 dops depth step)
  then obtain f where "fuel = Suc f" by (cases fuel) auto
  then show ?case by (simp add: skip_ws_Cons get_char_def)
next
  case (2 dops v depth step)
  then obtain f where "fuel = Suc f" by (cases fuel) auto
  then show ?case by (cases v) (simp_all add: skip_ws_Cons get_char_def)
next
  case (3 dops v depth step)
  then obtain f where "fuel = Suc f" by (cases fuel) auto
  with 3 show ?case using parse_int by blast
next
  case (4 dops v depth step)
  then show ?case by simp
next
  case (5 dops s depth step)
  then obtain f where "fuel = Suc f" by (cases fuel) auto
  moreover have "peek (quoted s @ r) = CHR 0x22" by (simp add: quoted_def)
  ultimately show ?case using parse_quoted [of s r] by (simp add: Let_def)
next
  case (6 dops arr depth step)
  then obtain f where f: "fuel = Suc f" by (cases fuel) auto
  show ?case
  proof (cases arr)
    case Nil
    with f show ?thesis by (simp add: skip_ws_Cons)
  next
    case (Cons a as)
    have ih: "parse_elements dops f (dump_elements dops arr depth step @ indent depth @ CHR '']'' # r) = Inr (arr, r)"
      using 6 f Cons by simp
    obtain c s where "dump dops a (depth + step) step = c # s" "\<not> isspace c" "c \<noteq> CHR '']''"
      using dump_start [of a dops "depth + step" step] 6(2) Cons by auto
    then have "\<exists>s'. skip_ws (dump_elements dops arr depth step @ indent depth @ CHR '']'' # r) = c # s'"
      using Cons by (simp add: skip_ws_Cons)
    then show ?thesis using parse_array_start [OF ih] \<open>c \<noteq> CHR '']''\<close> f Cons by auto
  qed
next
  case (7 dops obj depth step)
  then obtain f where f: "fuel = Suc f" by (cases fuel) auto
  show ?case
  proof (cases obj)
    case Nil
    with f show ?thesis by (simp add: skip_ws_Cons)
  next
    case (Cons a as)
    obtain k v where a: "a = (k, v)" by (cases a)
    have ih: "parse_members dops f (dump_members dops obj depth step @ indent depth @ CHR ''}'' # r) [] = Inr (obj, r)"
      using 7(1) [of "[]" f r] 7(2-) f Cons by simp
    have "\<exists>s'. skip_ws (dump_members dops obj depth step @ indent depth @ CHR ''}'' # r) = CHR 0x22 # s'"
      using Cons a by (simp add: quoted_def skip_ws_Cons)
    then show ?thesis using parse_object_start [OF ih] f Cons by auto
  qed
next
  case (8 dops depth step)
  then show ?case by simp
next
  case (9 dops v vs depth step)
  then obtain f where f: "fuel = Suc f" by (cases fuel) auto
  let ?sep = "if vs \<noteq> [] then '','' else []"
  let ?rest = "dump_elements dops vs depth step @ indent depth @ CHR '']'' # r"
  have "parse_value dops f (dump dops v (depth + step) step @ ?sep @ CHR 0x0A # ?rest) = Inr (v, ?sep @ CHR 0x0A # ?rest)"
    using 9(1) [of "?sep @ CHR 0x0A # ?rest" f] 9(3-) f by simp
  then have pv: "parse_value dops f (indent (depth + step) @ dump dops v (depth + step) step @ ?sep @ CHR 0x0A # ?rest)
      = Inr (v, ?sep @ CHR 0x0A # ?rest)"
    using parse_value_skip [of dops f "indent (depth + step) @ dump dops v (depth + step) step @ ?sep @ CHR 0x0A # ?rest"]
      parse_value_skip [of dops f "dump dops v (depth + step) step @ ?sep @ CHR 0x0A # ?rest"] by simp
  show ?case
  proof (cases "vs = []")
    case True
    with parse_elements_step(1) [OF pv, of r] f show ?thesis by (simp add: skip_ws_Cons)
  next
    case False
    with 9(2) [of f r] 9(3-) f have "parse_elements dops f ?rest = Inr (vs, r)" by simp
    with parse_elements_step(2) [OF pv, of vs r] f False show ?thesis by simp
  qed
next
  case (10 dops depth step)
  then show ?case by simp
next
  case (11 dops k v kvs depth step)
  then obtain f where f: "fuel = Suc f" by (cases fuel) auto
  let ?sep = "if kvs \<noteq> [] then '','' else []"
  let ?rest = "dump_members dops kvs depth step @ indent depth @ CHR ''}'' # r"
  let ?w = "dump dops v (depth + step) step"
  have pv: "parse_value dops f (?w @ ?sep @ CHR 0x0A # ?rest) = Inr (v, ?sep @ CHR 0x0A # ?rest)"
    using 11(1) [of "?sep @ CHR 0x0A # ?rest" f] 11(3-) f by simp
  have sk: "skip_ws (?w @ ?sep @ CHR 0x0A # ?rest) = ?w @ ?sep @ CHR 0x0A # ?rest"
    by (rule skip_ws_dump) (use 11(3) in auto)
  have ok: "smap_ok (m @ [(k, v)])" using 11(5) by (auto simp: smap_ok_def sorted_wrt_append)
  show ?case
  proof (cases "kvs = []")
    case True
    with parse_members_step(1) [OF pv sk, of r] f smap_emplace_last [OF ok] show ?thesis by (simp add: skip_ws_Cons)
  next
    case False
    with 11(2) [of "m @ [(k, v)]" f r] 11(3-) f
    have "parse_members dops f ?rest (m @ [(k, v)]) = Inr (m @ (k, v) # kvs, r)" by simp
    with parse_members_step(2) [OF pv sk] f False smap_emplace_last [OF ok] show ?thesis by simp
  qed
qed

lemma json_text_roundtrip: "plain v \<Longrightarrow> parse_text dops (dump_text dops v) = Inr v"
  using parse_dump(1) [of v "[]" dops 0 2 "3 * length (dump dops v 0 2) + 3"]
  by (simp add: parse_text_def dump_text_def parse_value_skip) (simp add: skip_ws_def)


section \<open>The recursion bound\<close>

lemma skip_ws_length: "length (skip_ws s) \<le> length s"
  by (simp add: skip_ws_def length_dropWhile_le)

lemma get_char_length: "get_char s = Inr (c, r) \<Longrightarrow> length s = Suc (length r)"
  by (auto simp: get_char_def split: list.splits)

lemma expect_length: "expect ch s = Inr r \<Longrightarrow> length s = Suc (length r)"
  by (auto simp: expect_def res_simps split: if_splits dest: get_char_length)

lemma expect_literal_length: "expect_literal lit s = Inr r \<Longrightarrow> length s = length lit + length r"
  by (induction lit arbitrary: s) (auto simp: res_simps split: if_splits dest!: get_char_length)

lemma parse_string_body_length: "parse_string_body s out = Inr (t, r) \<Longrightarrow> length r < length s"
proof (induction s out rule: parse_string_body.induct)
  case (2 ch s out)
  show ?case
  proof (cases "ch = CHR 0x5C \<and> s \<noteq> [] \<and> hd s = CHR ''u''")
    case True
    then obtain r0 where s: "s = CHR ''u'' # r0" by (cases s) auto
    from 2(4) True s obtain code r' where h: "parse_hex 4 0 r0 = Inr (code, r')" "code \<le> 0x7F"
      "parse_string_body r' (out @ [char_of code]) = Inr (t, r)"
      by (auto simp: res_simps simp del: parse_hex.simps split: if_splits)
    from 2(1) [of "CHR ''u''" r0 "(code, r')" code r'] True s h parse_hex_length [OF h(1)] show ?thesis
      by (simp del: parse_hex.simps)
  next
    case False
    with 2 show ?thesis
      by (cases s) (fastforce split: if_splits option.splits simp del: parse_hex.simps)+
  qed
qed simp

lemma parse_string_length: "parse_string s = Inr (t, r) \<Longrightarrow> length r < length s"
  by (auto simp: parse_string_def res_simps dest!: parse_string_body_length expect_length)

lemma skip_digits_length: "length (skip_digits s) \<le> length s"
  by (simp add: skip_digits_def length_dropWhile_le)

lemma parse_json_number_length:
  assumes "parse_json_number dops s = Inr (v, r)"
  shows "length r < length s"
  using assms by (auto simp: parse_json_number_def Let_def res_simps split: prod.splits if_splits)

text \<open>A parser call that succeeds has consumed something.\<close>

lemma peek_skip_pos: "peek (skip_ws s) = c \<Longrightarrow> c \<noteq> CHR 0x00 \<Longrightarrow> length (skip_ws (drop 1 (skip_ws s))) < length s"
proof -
  assume "peek (skip_ws s) = c" "c \<noteq> CHR 0x00"
  then obtain s' where "skip_ws s = c # s'" by (cases "skip_ws s") (auto simp: peek_def)
  with skip_ws_length [of s] skip_ws_length [of s'] show ?thesis by simp
qed

lemma parse_consumes_all:
  "(\<forall>s v r. parse_value dops fuel s = Inr (v, r) \<longrightarrow> length r < length s) \<and>
   (\<forall>s vs r. parse_elements dops fuel s = Inr (vs, r) \<longrightarrow> length r < length s) \<and>
   (\<forall>s m kvs r. parse_members dops fuel s m = Inr (kvs, r) \<longrightarrow> length r < length s)"
proof (induction fuel)
  case (Suc fuel)
  note iv = Suc.IH [THEN conjunct1, rule_format]
    and ie = Suc.IH [THEN conjunct2, THEN conjunct1, rule_format]
    and im = Suc.IH [THEN conjunct2, THEN conjunct2, rule_format]
  show ?case
  proof (intro conjI allI impI)
    fix s v r
    assume a: "parse_value dops (Suc fuel) s = Inr (v, r)"
    have le: "length (skip_ws s) \<le> length s" by (rule skip_ws_length)
    have dr: "length (skip_ws (drop (Suc 0) (skip_ws s))) < length s" if "peek (skip_ws s) = c" "c \<noteq> CHR 0x00" for c
      using peek_skip_pos [OF that] by simp
    show "length r < length s"
      using a le dr
      by (auto simp: Let_def res_simps simp del: expect_literal.simps split: if_splits
          dest!: iv ie im parse_string_length expect_literal_length parse_json_number_length)
  next
    fix s vs r
    assume "parse_elements dops (Suc fuel) s = Inr (vs, r)"
    then obtain v r1 ch r2 where a: "parse_value dops fuel s = Inr (v, r1)" "get_char (skip_ws r1) = Inr (ch, r2)"
      "r = r2 \<or> (\<exists>us. parse_elements dops fuel (skip_ws r2) = Inr (us, r))"
      by (auto simp: res_simps split: if_splits)
    then show "length r < length s"
      using iv [OF a(1)] get_char_length [OF a(2)] skip_ws_length [of r1] skip_ws_length [of r2]
      by (auto dest!: ie)
  next
    fix s m kvs r
    assume "parse_members dops (Suc fuel) s m = Inr (kvs, r)"
    then obtain key r0 r00 v r1 ch r2 where a: "parse_string (skip_ws s) = Inr (key, r0)"
      "expect (CHR '':'') (skip_ws r0) = Inr r00" "parse_value dops fuel (skip_ws r00) = Inr (v, r1)"
      "get_char (skip_ws r1) = Inr (ch, r2)"
      "r = r2 \<or> parse_members dops fuel (skip_ws r2) (smap_emplace key v m) = Inr (kvs, r)"
      by (auto simp: res_simps split: if_splits)
    from a(5) show "length r < length s"
      using parse_string_length [OF a(1)] expect_length [OF a(2)] iv [OF a(3)] get_char_length [OF a(4)]
        skip_ws_length [of s] skip_ws_length [of r0] skip_ws_length [of r00] skip_ws_length [of r1] skip_ws_length [of r2]
      by (auto dest!: im)
  qed
qed simp

lemmas parse_value_consumes = parse_consumes_all [THEN conjunct1, rule_format]

lemma get_char_not_depth: "get_char s \<noteq> Inl Json_Depth"
  by (simp add: get_char_def split: list.splits)

lemma expect_not_depth: "expect ch s \<noteq> Inl Json_Depth"
  by (auto simp: expect_def res_bind_Inl_iff get_char_not_depth split: if_splits)

lemma expect_literal_not_depth: "expect_literal lit s \<noteq> Inl Json_Depth"
  by (induction lit arbitrary: s) (auto simp: res_bind_Inl_iff get_char_not_depth split: if_splits)

lemma parse_hex_not_depth: "parse_hex n code s \<noteq> Inl Json_Depth"
  by (induction n arbitrary: code s) (auto simp: res_bind_Inl_iff get_char_not_depth split: if_splits)

lemma parse_string_body_not_depth: "parse_string_body s out \<noteq> Inl Json_Depth"
proof (induction s out rule: parse_string_body.induct)
  case (2 ch s out)
  then show ?case
    by (auto simp: res_bind_Inl_iff parse_hex_not_depth simp del: parse_hex.simps
        split: if_splits list.splits option.splits)
qed simp

lemma parse_string_not_depth: "parse_string s \<noteq> Inl Json_Depth"
  by (auto simp: parse_string_def res_bind_Inl_iff parse_string_body_not_depth expect_not_depth)

lemma parse_json_number_not_depth:
  "\<forall>t. stod dops t \<noteq> Inl Json_Depth \<Longrightarrow> parse_json_number dops s \<noteq> Inl Json_Depth"
  by (auto simp: parse_json_number_def Let_def res_bind_Inl_iff stoll_def sto_def split: prod.splits if_splits)

lemmas not_depth = get_char_not_depth expect_not_depth expect_literal_not_depth parse_string_not_depth
  parse_json_number_not_depth

lemma parse_enough:
  assumes sd: "\<forall>t. stod dops t \<noteq> Inl Json_Depth"
  shows "(\<forall>s. 2 * length s + 1 \<le> fuel \<longrightarrow> parse_value dops fuel s \<noteq> Inl Json_Depth) \<and>
    (\<forall>s. 2 * length s + 2 \<le> fuel \<longrightarrow> parse_elements dops fuel s \<noteq> Inl Json_Depth) \<and>
    (\<forall>s m. 2 * length s + 2 \<le> fuel \<longrightarrow> parse_members dops fuel s m \<noteq> Inl Json_Depth)"
proof (induction fuel)
  case (Suc fuel)
  note iv = Suc.IH [THEN conjunct1, rule_format]
    and ie = Suc.IH [THEN conjunct2, THEN conjunct1, rule_format]
    and im = Suc.IH [THEN conjunct2, THEN conjunct2, rule_format]
  show ?case
  proof (intro conjI allI impI)
    fix s :: string
    assume f: "2 * length s + 1 \<le> Suc fuel"
    have e: "parse_elements dops fuel (skip_ws (drop (Suc 0) (skip_ws s))) \<noteq> Inl Json_Depth"
      "parse_members dops fuel (skip_ws (drop (Suc 0) (skip_ws s))) [] \<noteq> Inl Json_Depth"
      if "peek (skip_ws s) = c" "c \<noteq> CHR 0x00" for c
      using ie im peek_skip_pos [OF that] f by simp_all
    show "parse_value dops (Suc fuel) s \<noteq> Inl Json_Depth"
      using e by (auto simp: Let_def res_bind_Inl_iff not_depth sd simp del: expect_literal.simps split: if_splits)
  next
    fix s :: string
    assume f: "2 * length s + 2 \<le> Suc fuel"
    have "parse_elements dops fuel (skip_ws r2) \<noteq> Inl Json_Depth"
      if "parse_value dops fuel s = Inr (v, r1)" "get_char (skip_ws r1) = Inr (ch, r2)" for v r1 ch r2
      using parse_value_consumes [OF that(1)] get_char_length [OF that(2)] skip_ws_length [of r1] skip_ws_length [of r2]
        f by (intro ie) simp
    with iv [of s] f show "parse_elements dops (Suc fuel) s \<noteq> Inl Json_Depth"
      by (auto simp: res_bind_Inl_iff not_depth split: if_splits)
  next
    fix s :: string and m
    assume f: "2 * length s + 2 \<le> Suc fuel"
    have len: "length r00 + 1 < length s"
      if "parse_string (skip_ws s) = Inr (key, r0)" "expect (CHR '':'') (skip_ws r0) = Inr r00" for key r0 r00
      using parse_string_length [OF that(1)] expect_length [OF that(2)] skip_ws_length [of s] skip_ws_length [of r0]
      by linarith
    have v: "parse_value dops fuel (skip_ws r00) \<noteq> Inl Json_Depth" if "length r00 + 1 < length s" for r00
      using that f skip_ws_length [of r00] by (intro iv) simp
    have m: "parse_members dops fuel (skip_ws r2) m' \<noteq> Inl Json_Depth"
      if "length r00 + 1 < length s" "parse_value dops fuel (skip_ws r00) = Inr (v, r1)"
        "get_char (skip_ws r1) = Inr (ch, r2)" for r00 v r1 ch r2 m'
      using that(1) f parse_value_consumes [OF that(2)] get_char_length [OF that(3)]
        skip_ws_length [of r00] skip_ws_length [of r1] skip_ws_length [of r2] by (intro im) simp
    show "parse_members dops (Suc fuel) s m \<noteq> Inl Json_Depth"
      using len v m by (fastforce simp: res_bind_Inl_iff not_depth split: if_splits)
  qed
qed simp

text \<open>
  The reader always returns: the recursion of the parser is never deeper than the bound the model
  gives it, whatever the text, so every text has a value or one of the errors the reader reports. The
  hypothesis on the library's conversion of floating-point numbers says only that its errors are its own.
\<close>

theorem parse_text_no_depth:
  "\<forall>t. stod dops t \<noteq> Inl Json_Depth \<Longrightarrow> parse_text dops s \<noteq> Inl Json_Depth"
  using parse_enough [of dops "3 * length s + 3"] skip_ws_length [of s]
  by (auto simp: parse_text_def res_bind_Inl_iff split: if_splits)

definition integers_only :: "unit double_ops" where
  "integers_only = \<lparr>stod = (\<lambda>_. Inl Out_Of_Range), to_llong = (\<lambda>_. Inl Undefined), print_double = (\<lambda>_. [])\<rparr>"

theorem parse_text_no_depth_witness: "parse_text integers_only ''[[1, 2'' \<noteq> Inl Json_Depth"
  by (rule parse_text_no_depth) (simp add: integers_only_def)

end
