(* ===== verification/Toolchain.thy ===== *)
theory Toolchain
  imports Tool_Run Tool_Link_Correct Tool_Json_Correct
begin

text \<open>
  The tools in sequence. An object file that the assembler writes is read back by the linker as it was;
  its recorded size is the length of its code.
\<close>


section \<open>Definitions\<close>

definition in_llong :: "int \<Rightarrow> bool" where
  "in_llong v \<longleftrightarrow> llong_min \<le> v \<and> v \<le> llong_max"

definition reloc_in :: "nat \<Rightarrow> reloc \<Rightarrow> bool" where
  "reloc_in n r \<longleftrightarrow> 0 \<le> rel_offset r \<and> rel_offset r < int n \<and> rel_size r = 2 \<and> rel_addend r = 0"

text \<open>The object files that survive being written and read.\<close>

definition object_ok :: "object_file \<Rightarrow> bool" where
  "object_ok ob \<longleftrightarrow> smap_ok (obj_symbols ob) \<and> (\<forall>(k, v) \<in> set (obj_symbols ob). in_llong v)
     \<and> obj_size ob = int (length (obj_code ob)) \<and> in_llong (obj_size ob) \<and> in_llong (obj_entry ob)
     \<and> list_all (reloc_in (length (obj_code ob))) (obj_relocations ob)"


section \<open>Ordered objects\<close>

lemma smap_set_last:
  "smap_ok (m @ [(k, v)]) \<Longrightarrow> smap_set k v m = m @ [(k, v)]"
  by (induction m) (auto simp: smap_ok_def)

lemma fold_smap_set: "smap_ok (m @ kvs) \<Longrightarrow> fold (\<lambda>(k, v). smap_set k v) kvs m = m @ kvs"
proof (induction kvs arbitrary: m)
  case (Cons kv kvs)
  obtain k v where kv: "kv = (k, v)" by (cases kv)
  have "smap_ok (m @ [(k, v)])" using Cons.prems kv by (auto simp: smap_ok_def sorted_wrt_append)
  with Cons kv show ?case by (simp add: smap_set_last)
qed simp

lemma smap_ok_map: "smap_ok (map (\<lambda>(k, v). (k, f v)) m) = smap_ok m"
  by (simp add: smap_ok_def comp_def split_def)

lemma symbols_object:
  assumes "smap_ok m"
  shows "fold (\<lambda>(name, v). smap_set name (f v)) m [] = map (\<lambda>(k, v). (k, f v)) m"
proof -
  have "fold (\<lambda>(name, v). smap_set name (f v)) m [] = fold (\<lambda>(k, v). smap_set k v) (map (\<lambda>(k, v). (k, f v)) m) []"
    by (simp add: fold_map comp_def split_def)
  with fold_smap_set [of "[]" "map (\<lambda>(k, v). (k, f v)) m"] assms smap_ok_map [of f m] show ?thesis by simp
qed

lemma smap_set_subset: "set (smap_set k v m) \<subseteq> insert (k, v) (set m)"
  by (induction k v m rule: smap_set.induct) auto

lemma fold_smap_subset: "set (fold (\<lambda>(k, v). smap_set k v) kvs m) \<subseteq> set m \<union> set kvs"
proof (induction kvs arbitrary: m)
  case (Cons kv kvs)
  obtain k v where kv: "kv = (k, v)" by (cases kv)
  from Cons.IH [of "smap_set k v m"] smap_set_subset [of k v m] kv show ?case by auto
qed simp

lemma plain_fold_object:
  assumes "\<forall>(k, v) \<in> set kvs. plain v"
  shows "plain (JObject (fold (\<lambda>(k, v). smap_set k v) kvs []))"
  using fold_smap_subset [of kvs "[]"] smap_fold [of "[]" kvs] assms by auto


section \<open>Reading back an object file\<close>

lemma res_map_string: "res_map as_string (map JString ss) = Inr ss"
  by (induction ss) auto

lemma parse_code_bytes: "parse_code dops (map (\<lambda>b. JInt (uint b)) code) = Inr code"
  by (induction code) (auto simp: parse_code_def)

lemma parse_symbols_back:
  assumes "smap_ok (m @ syms)"
  shows "res_fold (\<lambda>(name, v) s. res_bind (as_int dops v) (\<lambda>n. Inr (smap_set name n s)))
    (map (\<lambda>(k, v). (k, JInt v)) syms) m = Inr (m @ syms)"
  using assms
proof (induction syms arbitrary: m)
  case (Cons kv syms)
  obtain k v where kv: "kv = (k, v)" by (cases kv)
  have "smap_ok (m @ [(k, v)])" using Cons.prems kv by (auto simp: smap_ok_def sorted_wrt_append)
  with Cons kv show ?case by (simp add: smap_set_last)
qed simp

lemma parse_reloc_value: "parse_reloc dops (reloc_value r) = Inr r"
  by (simp add: parse_reloc_def reloc_value_def obj_at_def smap_set_ok)

lemma parse_relocs: "res_map (parse_reloc dops) (map reloc_value rs) = Inr rs"
  by (induction rs) (auto simp: parse_reloc_value)

lemma object_fields:
  "fields (object_value ob) = fold (\<lambda>(k, v). smap_set k v)
     [(''format'', JString ''wirth-obj-v1''),
      (''module'', JString (obj_module ob)),
      (''size'', JInt (obj_size ob)),
      (''code'', JArray (map (\<lambda>b. JInt (uint b)) (obj_code ob))),
      (''symbols'', JObject (fold (\<lambda>(name, v). smap_set name (JInt v)) (obj_symbols ob) [])),
      (''globals'', JArray (map JString (obj_globals ob))),
      (''externs'', JArray (map JString (obj_externs ob))),
      (''entry'', JInt (obj_entry ob)),
      (''relocations'', JArray (map reloc_value (obj_relocations ob)))] []"
  by (simp add: object_value_def fields_def)

lemma object_lookup:
  "map_of (fields (object_value ob)) = map_of (rev
     [(''format'', JString ''wirth-obj-v1''),
      (''module'', JString (obj_module ob)),
      (''size'', JInt (obj_size ob)),
      (''code'', JArray (map (\<lambda>b. JInt (uint b)) (obj_code ob))),
      (''symbols'', JObject (fold (\<lambda>(name, v). smap_set name (JInt v)) (obj_symbols ob) [])),
      (''globals'', JArray (map JString (obj_globals ob))),
      (''externs'', JArray (map JString (obj_externs ob))),
      (''entry'', JInt (obj_entry ob)),
      (''relocations'', JArray (map reloc_value (obj_relocations ob)))])"
  unfolding object_fields by (subst smap_fold [THEN conjunct2]) (simp_all del: rev.simps)

lemma object_value_fields: "object_value ob = JObject (fields (object_value ob))"
  by (simp add: object_value_def fields_def)

lemma parse_object_value:
  assumes "smap_ok (obj_symbols ob)"
  shows "parse_object dops (object_value ob) = Inr ob"
  using assms parse_symbols_back [of "[]" "obj_symbols ob" dops]
  by (subst object_value_fields)
     (simp add: parse_object_def obj_at_def object_lookup parse_code_bytes symbols_object parse_symbols_def
       res_map_string parse_relocs)

lemma plain_reloc:
  assumes "reloc_in n r" "in_llong (int n)"
  shows "plain (reloc_value r :: 'd jvalue)"
proof -
  have "(reloc_value r :: 'd jvalue) = JObject (fold (\<lambda>(k, v). smap_set k v)
      [(''offset'', JInt (rel_offset r)), (''size'', JInt (rel_size r)), (''symbol'', JString (rel_symbol r)),
       (''addend'', JInt (rel_addend r))] [])"
    by (simp add: reloc_value_def)
  then show ?thesis
    using assms
    by (simp only:) (rule plain_fold_object, auto simp: reloc_in_def in_llong_def llong_min_def llong_max_def)
qed

lemma plain_object_value:
  assumes "object_ok ob"
  shows "plain (object_value ob)"
proof -
  have "plain (JInt (uint b))" for b :: u8
  proof -
    have "0 \<le> uint b" "uint b < 256" using unsigned_less [of b] by simp_all
    then show ?thesis unfolding plain.simps llong_min_def llong_max_def by linarith
  qed
  moreover have "\<forall>r \<in> set (obj_relocations ob). plain (reloc_value r)"
    using assms by (auto simp: object_ok_def list_all_iff intro: plain_reloc)
  moreover have "plain (JObject (fold (\<lambda>(name, v). smap_set name (JInt v)) (obj_symbols ob) []))"
    using assms by (auto simp: object_ok_def symbols_object smap_ok_map in_llong_def)
  ultimately show ?thesis
    using assms unfolding object_value_def
    by (intro plain_fold_object) (auto simp: object_ok_def in_llong_def simp del: plain.simps(6,7) intro!: plain.simps(6) [THEN iffD2])
qed


section \<open>What the assembler writes\<close>

lemma emit_u16_start: "emit_u16 i v xs = Inr ys \<Longrightarrow> 0 \<le> i \<and> i < int (length xs)"
  by (auto simp: emit_u16_def res_simps dest!: set_byte_InrD)

lemma emit_operand_relocs:
  assumes "emit_operand src n syms exts i a (xs, rs) = Inr (ys, rs')"
    and "list_all (reloc_in (length xs)) rs"
  shows "list_all (reloc_in (length ys)) rs'"
proof -
  have len: "length ys = length xs" using emit_operand_unchanged [OF assms(1)] by (simp add: unchanged_outside_def)
  show ?thesis
    using assms len
    by (auto simp: emit_operand_def emit_symbol_u16_def Let_def res_simps reloc_in_def
        split: if_splits option.splits dest: emit_u16_start)
qed

lemma encode_instruction_relocs:
  assumes enc: "encode_instruction src n syms exts pc op args (code, rs) = Inr (pc', code', rs')"
    and rs: "list_all (reloc_in (length code)) rs"
  shows "list_all (reloc_in (length code')) rs'"
proof -
  obtain k where k: "instr_sizes op = Some k" using encode_instruction_known [OF enc] by blast
  have len: "length code' = length code"
    using encode_instruction_step [OF enc k] by (simp add: unchanged_outside_def)
  from k show ?thesis
  proof (cases rule: instr_sizes_cases)
    case 5
    with enc obtain c d where "set_byte pc (the (opmap op)) code = Inr c" "emit_reg (pc + 1) (args ! 0) c = Inr d"
      "emit_operand src n syms exts (pc + 2) (args ! 1) (d, rs) = Inr (code', rs')"
      by (auto simp: encode_address res_simps split: if_splits)
    with rs show ?thesis using emit_operand_relocs set_byte_length emit_reg_length by metis
  next
    case 6
    with enc obtain c where "set_byte pc 0x30 code = Inr c"
      "emit_operand src n syms exts (pc + 1) (args ! 0) (c, rs) = Inr (code', rs')"
      by (auto simp: encode_jmp res_simps split: if_splits)
    with rs show ?thesis using emit_operand_relocs set_byte_length by metis
  qed (use enc rs len in \<open>auto simp: encode_plain encode_print encode_alu encode_loadi res_simps split: if_splits\<close>)
qed

definition p2_ok :: "symtab \<Rightarrow> pass2 \<Rightarrow> bool" where
  "p2_ok syms st \<longleftrightarrow> list_all (reloc_in (length (p2_code st))) (p2_relocs st)
     \<and> (p2_entry st = 0 \<or> p2_entry st \<in> snd ` set syms)"

lemma pass2_line_ok:
  assumes line: "pass2_line src syms exts (n, line) st = Inr st'" and ok: "p2_ok syms st"
  shows "p2_ok syms st'"
proof -
  have len: "length (p2_code st') = length (p2_code st)" using pass2_line_step [OF line] by simp
  show ?thesis
    using line ok len
    by (auto simp: pass2_line_def p2_ok_def Let_def res_simps split: if_splits option.splits
        dest: emit_operand_relocs encode_instruction_relocs map_of_SomeD intro: rev_image_eqI)
qed

lemma pass2_lines_ok:
  "res_fold (pass2_line src syms exts) ps st = Inr st' \<Longrightarrow> p2_ok syms st \<Longrightarrow> p2_ok syms st'"
  by (erule res_fold_inv) (auto intro: pass2_line_ok)

text \<open>The first pass keeps its addresses within \<open>long long\<close>.\<close>

definition p1_ok :: "pass1 \<Rightarrow> bool" where
  "p1_ok st \<longleftrightarrow> smap_ok (p1_symbols st) \<and> in_llong (p1_pc st) \<and> (\<forall>(k, v) \<in> set (p1_symbols st). in_llong v)"

lemma advance_ok: "advance n st = Inr st' \<Longrightarrow> p1_ok st \<Longrightarrow> p1_ok st'"
  by (auto simp: advance_def ll_add_def p1_ok_def in_llong_def res_simps split: if_splits)

lemma pass1_statement_ok: "pass1_statement src n line st = Inr st' \<Longrightarrow> p1_ok st \<Longrightarrow> p1_ok st'"
proof -
  assume a: "pass1_statement src n line st = Inr st'" and ok: "p1_ok st"
  have p: "p1_ok (st\<lparr>p1_parsed := ps\<rparr>)" for ps using ok by (simp add: p1_ok_def)
  show ?thesis
    using a p ok by (auto simp: pass1_statement_def Let_def res_simps p1_ok_def [of "p1_globals_update _ _"]
        p1_ok_def [of "p1_externs_update _ _"] split: if_splits option.splits dest!: advance_ok)
      (auto simp: p1_ok_def)
qed

lemma pass1_line_ok: "pass1_line src n l st = Inr st' \<Longrightarrow> p1_ok st \<Longrightarrow> p1_ok st'"
proof -
  assume a: "pass1_line src n l st = Inr st'" and ok: "p1_ok st"
  have p: "p1_ok (st\<lparr>p1_symbols := smap_set lab (p1_pc st) (p1_symbols st)\<rparr>)" for lab
    using ok smap_set_subset [of lab "p1_pc st" "p1_symbols st"] by (auto simp: p1_ok_def smap_set_ok)
  show ?thesis
    using a ok p by (auto simp: pass1_line_def Let_def split: if_splits prod.splits dest: pass1_statement_ok)
qed

lemma pass1_lines_ok: "pass1_lines src n ls st = Inr st' \<Longrightarrow> p1_ok st \<Longrightarrow> p1_ok st'"
  by (induction ls arbitrary: n st) (auto simp: res_simps dest: pass1_line_ok)

lemma assemble_object_ok:
  assumes "assemble_object lines module src = Inr ob"
  shows "object_ok ob"
proof -
  from assms obtain s1 s2 where p1: "pass1_lines src 1 lines pass1_start = Inr s1" and pos: "\<not> p1_pc s1 < 0"
    and p2: "res_fold (pass2_line src (p1_symbols s1) (p1_externs s1)) (p1_parsed s1)
       \<lparr>p2_pc = 0, p2_code = replicate (nat (p1_pc s1)) 0, p2_relocs = [], p2_entry = 0\<rparr> = Inr s2"
    and ob: "ob = \<lparr>obj_module = module, obj_size = int (length (p2_code s2)), obj_code = p2_code s2,
         obj_symbols = p1_symbols s1, obj_globals = remdups_adj (sort (p1_globals s1)),
         obj_externs = remdups_adj (sort (p1_externs s1)), obj_entry = p2_entry s2,
         obj_relocations = p2_relocs s2\<rparr>"
    by (auto simp: assemble_object_def res_simps split: if_splits)
  have "p1_ok pass1_start" by (simp add: p1_ok_def pass1_start_def in_llong_def llong_min_def llong_max_def)
  with p1 have ok1: "p1_ok s1" by (rule pass1_lines_ok)
  have ok2: "p2_ok (p1_symbols s1) s2" using pass2_lines_ok [OF p2] by (simp add: p2_ok_def)
  have len: "length (p2_code s2) = nat (p1_pc s1)" using pass2_lines_step [OF p2] by simp
  have "in_llong (p2_entry s2)"
    using ok1 ok2 by (auto simp: p1_ok_def p2_ok_def in_llong_def llong_min_def llong_max_def)
  with ob ok1 ok2 len pos show ?thesis
    by (auto simp: object_ok_def p1_ok_def p2_ok_def)
qed

text \<open>
  C4. Object files survive the disk. Whatever source the assembler accepts, the text it writes is read by the linker
  (through the JSON reader and \<open>parse_object\<close>) as exactly the object file the assembler had: module name, code
  bytes, symbol addresses, exports, externals, entry point and relocations; and its recorded
  size is the number of its code bytes.
\<close>

theorem object_file_roundtrip:
  assumes "assemble_object (read_lines source) module src = Inr ob"
  shows "\<exists>contents. assemble_text dops source module src = Inr contents \<and>
    load_module dops (path, contents) = Inr \<lparr>mod_path = path, mod_data = ob, mod_base = 0\<rparr> \<and>
    obj_size ob = int (length (obj_code ob))"
proof -
  have ok: "object_ok ob" by (rule assemble_object_ok [OF assms])
  have "parse_text dops (dump_text dops (object_value ob)) = Inr (object_value ob)"
    by (rule json_text_roundtrip [OF plain_object_value [OF ok]])
  moreover have "parse_object dops (object_value ob) = Inr ob"
    using ok by (intro parse_object_value) (simp add: object_ok_def)
  ultimately show ?thesis
    using assms ok by (simp add: assemble_text_def assemble_lines_def load_module_def object_ok_def)
qed

definition jump_source :: string where
  "jump_source = ''.GLOBAL loop'' @ [CHR 0x0A] @ ''loop: JMP loop''"

definition jump_object :: object_file where
  "jump_object = \<lparr>obj_module = ''j'', obj_size = 3, obj_code = [0x30, 0, 0], obj_symbols = [(''loop'', 0)],
     obj_globals = [''loop''], obj_externs = [], obj_entry = 0,
     obj_relocations = [\<lparr>rel_offset = 1, rel_size = 2, rel_symbol = ''loop'', rel_addend = 0\<rparr>]\<rparr>"

theorem object_file_roundtrip_witness:
  "\<exists>contents. assemble_text no_doubles jump_source ''j'' ''j.asm'' = Inr contents \<and>
    load_module no_doubles (''j.obj.json'', contents)
      = Inr \<lparr>mod_path = ''j.obj.json'', mod_data = jump_object, mod_base = 0\<rparr> \<and>
    obj_size jump_object = int (length (obj_code jump_object))"
proof (rule object_file_roundtrip)
  show "assemble_object (read_lines jump_source) ''j'' ''j.asm'' = Inr jump_object" by code_simp
qed

end
