(* ===== verification/Shell_Text.thy ===== *)
theory Shell_Text
  imports RamFs "HOL-Library.Sublist"
begin

text \<open>
  The text functions of the shell, \<open>src/kernel/shell.cpp\<close>: edit distance, resolution of paths, numbers,
  the splitting of a command line, base names and searches. A text is the list of the characters before its
  final zero byte.
\<close>

abbreviation (input) kMaxLine :: nat where "kMaxLine \<equiv> 192"
abbreviation (input) kMaxArgs :: nat where "kMaxArgs \<equiv> 24"
abbreviation (input) kMaxPath :: nat where "kMaxPath \<equiv> 64"

subsection \<open>Edit distance\<close>

definition min3 :: "nat \<Rightarrow> nat \<Rightarrow> nat \<Rightarrow> nat" where
  "min3 a b c = (let m = (if a < b then a else b) in if m < c then m else c)"

text \<open>\<open>edit_row c left prev b\<close> fills \<open>curr[1..]\<close> for the character \<open>c\<close>, with \<open>left\<close> the entry before.\<close>

fun edit_row :: "char \<Rightarrow> nat \<Rightarrow> nat list \<Rightarrow> cstring \<Rightarrow> nat list" where
  "edit_row c left (p # q # ps) (b # bs) =
     (let cost = (if c = b then 0 else 1); v = min3 (q + 1) (left + 1) (p + cost) in v # edit_row c v (q # ps) bs)"
| "edit_row c left prev bs = []"

fun edit_rows :: "nat \<Rightarrow> cstring \<Rightarrow> cstring \<Rightarrow> nat list \<Rightarrow> nat list" where
  "edit_rows i [] b prev = prev"
| "edit_rows i (c # a) b prev = edit_rows (i + 1) a b (i # edit_row c i prev b)"

definition edit_distance :: "cstring \<Rightarrow> cstring \<Rightarrow> nat" where
  "edit_distance a b =
     (if 32 < text_len a \<or> 32 < text_len b then text_len a + text_len b
      else edit_rows 1 a b [0..<text_len b + 1] ! text_len b)"

text \<open>The loop shared by the functions that suggest a name: the first item with the least distance.\<close>

fun best_match :: "cstring \<Rightarrow> cstring list \<Rightarrow> cstring option \<times> nat \<Rightarrow> cstring option \<times> nat" where
  "best_match name [] best = best"
| "best_match name (x # xs) (best, score) =
     (let s = edit_distance name x in best_match name xs (if s < score then (Some x, s) else (best, score)))"

definition suggest_from_list :: "cstring \<Rightarrow> cstring list \<Rightarrow> cstring option" where
  "suggest_from_list name items =
     (case best_match name items (None, 0xFFFFFFFF) of
        (Some best, score) \<Rightarrow> if score \<le> 3 then Some best else None
      | _ \<Rightarrow> None)"

definition suggest_command :: "cstring list \<Rightarrow> cstring \<Rightarrow> cstring option" where
  "suggest_command commands name =
     (case best_match name commands (None, 0xFFFFFFFF) of
        (None, _) \<Rightarrow> None
      | (Some best, score) \<Rightarrow>
          if score \<le> 2 then Some best
          else if score \<le> 3 \<and> 4 \<le> text_len name then Some best
          else None)"

subsection \<open>Paths\<close>

text \<open>The table of segments holds at most sixteen, counted after removing what \<open>..\<close> undid.\<close>

function seg_loop :: "cstring \<Rightarrow> cstring list \<Rightarrow> cstring list option" where
  "seg_loop [] segs = Some segs"
| "seg_loop (c # cs) segs =
     (if c = slash then seg_loop cs segs
      else let seg = c # takeWhile (\<lambda>x. x \<noteq> slash) cs; rest = dropWhile (\<lambda>x. x \<noteq> slash) cs in
        if seg = ''.'' then seg_loop rest segs
        else if seg = ''..'' then seg_loop rest (butlast segs)
        else if 16 \<le> length segs then None
        else seg_loop rest (segs @ [seg]))"
  by pat_completeness auto
termination
  by (relation "measure (length \<circ> fst)") (auto simp: length_dropWhile_le less_Suc_eq_le)

fun put_segs :: "nat \<Rightarrow> bool \<Rightarrow> cstring list \<Rightarrow> cstring \<Rightarrow> cstring option" where
  "put_segs out_size first [] out = Some out"
| "put_segs out_size first (s # ss) out =
     (if \<not> first \<and> out_size \<le> length out + 1 then None
      else let out = (if first then out else out @ [slash]) in
        if out_size \<le> length out + length s then None
        else put_segs out_size False ss (out @ s))"

definition normalize_absolute_path :: "cstring option \<Rightarrow> nat \<Rightarrow> cstring option" where
  "normalize_absolute_path inp out_size =
     (case inp of
        None \<Rightarrow> None
      | Some p \<Rightarrow>
          if out_size < 2 \<or> p = [] \<or> hd p \<noteq> slash then None
          else (case seg_loop (tl p) [] of
             None \<Rightarrow> None
           | Some segs \<Rightarrow> if segs = [] then Some [slash] else put_segs out_size True segs [slash]))"

definition resolve_path :: "cstring option \<Rightarrow> cstring option \<Rightarrow> nat \<Rightarrow> cstring option" where
  "resolve_path cwd input out_size =
     (case (cwd, input) of
        (Some cwd, Some input) \<Rightarrow>
          if out_size < 2 then None
          else if input \<noteq> [] \<and> hd input = slash then normalize_absolute_path (Some (copy_text input kMaxPath)) out_size
          else if text_equal cwd [slash] then
            normalize_absolute_path (Some (slash # copy_text input (kMaxPath - 1))) out_size
          else let merged = copy_text cwd kMaxPath; len = text_len merged in
            if kMaxPath \<le> len + 1 then None
            else normalize_absolute_path (Some (merged @ slash # copy_text input (kMaxPath - len - 1))) out_size
      | _ \<Rightarrow> None)"

fun skip_back :: "(char \<Rightarrow> bool) \<Rightarrow> cstring \<Rightarrow> nat \<Rightarrow> nat" where
  "skip_back P p 0 = 0"
| "skip_back P p (Suc i) = (if P (p ! Suc i) then skip_back P p i else Suc i)"

fun skip_name :: "cstring \<Rightarrow> nat \<Rightarrow> nat" where
  "skip_name p 0 = 0"
| "skip_name p (Suc i) = (if p ! i \<noteq> slash then skip_name p i else Suc i)"

definition path_basename :: "cstring option \<Rightarrow> cstring" where
  "path_basename path =
     (case path of
        None \<Rightarrow> []
      | Some p \<Rightarrow>
          if p = [] then []
          else if text_len p = 1 \<and> p ! 0 = slash then p
          else drop (skip_name p (skip_back (\<lambda>c. c = slash) p (text_len p - 1))) p)"

definition path_dirname :: "cstring \<Rightarrow> nat \<Rightarrow> cstring" where
  "path_dirname p out_size =
     (if text_len p = 0 \<or> (text_len p = 1 \<and> p ! 0 = slash) then copy_text [slash] out_size
      else let i = skip_back (\<lambda>c. c \<noteq> slash) p (skip_back (\<lambda>c. c = slash) p (text_len p - 1)) in
        if i = 0 then copy_text [slash] out_size
        else take (if out_size \<le> i then out_size - 1 else i) p)"

subsection \<open>Numbers\<close>

fun parse_decimal :: "cstring \<Rightarrow> u32 \<Rightarrow> u32 option" where
  "parse_decimal [] value = Some value"
| "parse_decimal (c # s) value =
     (if of_char c < (48 :: nat) \<or> (57 :: nat) < of_char c then None
      else parse_decimal s (value * 10 + of_nat (of_char c - 48)))"

definition parse_u32 :: "cstring option \<Rightarrow> u32 option" where
  "parse_u32 s = (case s of None \<Rightarrow> None | Some t \<Rightarrow> if t = [] then None else parse_decimal t 0)"

text \<open>The digits of \<open>write_dec\<close>, last first, at most eleven, then the text it sends.\<close>

fun dec_digits :: "nat \<Rightarrow> u32 \<Rightarrow> cstring" where
  "dec_digits 0 value = []"
| "dec_digits (Suc room) value =
     (if value = 0 then [] else char_of (48 + unat (value mod 10)) # dec_digits room (value div 10))"

definition write_dec :: "u32 \<Rightarrow> cstring" where
  "write_dec value = (if value = 0 then ''0'' else rev (dec_digits 11 value))"

subsection \<open>Arguments\<close>

definition is_space :: "char \<Rightarrow> bool" where
  "is_space c \<longleftrightarrow> c = CHR 0x20 \<or> c = CHR 0x09"

abbreviation (input) quote2 :: char where "quote2 \<equiv> CHR 0x22"
abbreviation (input) quote1 :: char where "quote1 \<equiv> CHR 0x27"

text \<open>\<open>next_arg\<close> takes one argument at the start of the text and returns what follows its end.\<close>

definition next_arg :: "char \<Rightarrow> cstring \<Rightarrow> cstring \<times> cstring" where
  "next_arg c cs =
     (if c = quote2 \<or> c = quote1 then (takeWhile (\<lambda>x. x \<noteq> c) cs, drop 1 (dropWhile (\<lambda>x. x \<noteq> c) cs))
      else (takeWhile (\<lambda>x. \<not> is_space x) (c # cs), drop 1 (dropWhile (\<lambda>x. \<not> is_space x) (c # cs))))"

lemma next_arg_length: "length (dropWhile is_space (snd (next_arg c cs))) \<le> length cs"
proof -
  have "length (snd (next_arg c cs)) \<le> length cs"
    using length_dropWhile_le [of "\<lambda>x. x \<noteq> c" cs] length_dropWhile_le [of "\<lambda>x. \<not> is_space x" "c # cs"]
    by (auto simp: next_arg_def)
  then show ?thesis using length_dropWhile_le order_trans by blast
qed

lemma parse_args_shorter:
  assumes "dropWhile is_space line = c # cs" "next_arg c cs = (arg, rest)" "dropWhile is_space rest = d # ds"
  shows "length ds < length line" "Suc (length ds) < length line"
proof -
  have "length (c # cs) \<le> length line" by (metis assms(1) length_dropWhile_le)
  moreover have "length (d # ds) \<le> length cs" using next_arg_length [of c cs] assms by (metis snd_conv)
  ultimately show "length ds < length line" "Suc (length ds) < length line" by simp_all
qed

function parse_args :: "nat \<Rightarrow> cstring \<Rightarrow> cstring list" where
  "parse_args argc line =
     (case dropWhile is_space line of
        [] \<Rightarrow> []
      | c # cs \<Rightarrow>
          if kMaxArgs \<le> argc then []
          else (case next_arg c cs of (arg, rest) \<Rightarrow>
            arg # (case dropWhile is_space rest of
                     [] \<Rightarrow> []
                   | d # ds \<Rightarrow> if d = CHR 0x23 then [] else parse_args (argc + 1) (d # ds))))"
  by pat_completeness auto
termination
  by (relation "measure (length \<circ> snd)") (auto intro: parse_args_shorter(2) [OF _ sym])

declare parse_args.simps [simp del]

text \<open>
  What \<open>parse_args\<close> leaves in the buffer: a zero byte in the place of the closing quote or the blank behind each argument,
  and in the place of a comment mark.
\<close>

function zeroed_line :: "nat \<Rightarrow> cstring \<Rightarrow> cstring" where
  "zeroed_line argc line =
     takeWhile is_space line @ (case dropWhile is_space line of
        [] \<Rightarrow> []
      | c # cs \<Rightarrow>
          if kMaxArgs \<le> argc then c # cs
          else (case next_arg c cs of (arg, rest) \<Rightarrow>
            let body = (if c = quote2 \<or> c = quote1 then c # arg else arg) in
            body @ (if length body + length rest < length (c # cs) then [CHR 0x00] else []) @ takeWhile is_space rest @
              (case dropWhile is_space rest of
                 [] \<Rightarrow> []
               | d # ds \<Rightarrow> if d = CHR 0x23 then CHR 0x00 # ds else zeroed_line (argc + 1) (d # ds))))"
  by pat_completeness auto
termination
  by (relation "measure (length \<circ> snd)") (auto intro: parse_args_shorter(2) [OF _ sym])

declare zeroed_line.simps [simp del]

fun join_args :: "nat \<Rightarrow> bool \<Rightarrow> cstring list \<Rightarrow> cstring \<Rightarrow> cstring" where
  "join_args out_size first [] out = out"
| "join_args out_size first (s # ss) out =
     (let out = (if \<not> first \<and> length out + 1 < out_size then out @ [CHR 0x20] else out) in
      join_args out_size False ss (out @ take (out_size - 1 - length out) s))"

definition join_rest_args :: "cstring list \<Rightarrow> nat \<Rightarrow> nat \<Rightarrow> cstring" where
  "join_rest_args argv start out_size = join_args out_size True (drop start argv) []"

subsection \<open>Searches\<close>

fun match_at :: "cstring \<Rightarrow> cstring \<Rightarrow> bool" where
  "match_at t [] = True"
| "match_at [] (n # ns) = False"
| "match_at (c # t) (n # ns) = (if c = n then match_at t ns else False)"

definition contains_text :: "cstring option \<Rightarrow> cstring option \<Rightarrow> bool" where
  "contains_text t needle =
     (case (t, needle) of
        (Some t, Some n) \<Rightarrow>
          if n = [] \<or> text_len t < text_len n then False
          else list_ex (\<lambda>i. match_at (drop i t) n) [0..<text_len t - text_len n + 1]
      | _ \<Rightarrow> False)"

fun contains_from :: "cstring \<Rightarrow> cstring \<Rightarrow> bool" where
  "contains_from [] needle = False"
| "contains_from (c # s) needle = (if match_at (c # s) needle then True else contains_from s needle)"

definition text_contains :: "cstring option \<Rightarrow> cstring option \<Rightarrow> bool" where
  "text_contains s needle =
     (case needle of
        None \<Rightarrow> True
      | Some n \<Rightarrow> if n = [] then True else (case s of None \<Rightarrow> False | Some t \<Rightarrow> contains_from t n))"

definition common_prefix_len :: "cstring \<Rightarrow> cstring \<Rightarrow> nat" where
  "common_prefix_len a b = length (takeWhile (\<lambda>(x, y). x = y) (zip a b))"

end
