(* ===== verification/Shell_History.thy ===== *)
theory Shell_History
  imports Shell_Text
begin

text \<open>
  The shell's history of command lines, \<open>src/kernel/shell.cpp\<close>: a ring of sixteen lines, the position shown
  by the arrow keys and the draft they interrupt. The ring implements the list of the last lines.
\<close>

abbreviation (input) kHistoryCapacity :: nat where "kHistoryCapacity \<equiv> 16"

record history =
  g_history :: "cstring list"
  g_history_count :: u32
  g_history_view :: int
  g_history_draft :: cstring
  g_history_draft_valid :: bool

definition history_start :: history where
  "history_start = \<lparr>g_history = replicate kHistoryCapacity [], g_history_count = 0, g_history_view = -1,
     g_history_draft = [], g_history_draft_valid = False\<rparr>"

definition history_size :: "history \<Rightarrow> nat" where
  "history_size h = (if unat (g_history_count h) < kHistoryCapacity then unat (g_history_count h) else kHistoryCapacity)"

definition history_at :: "history \<Rightarrow> nat \<Rightarrow> cstring option" where
  "history_at h index =
     (if history_size h \<le> index \<or> history_size h = 0 then None
      else let start = (if unat (g_history_count h) < kHistoryCapacity then 0 else unat (g_history_count h) mod kHistoryCapacity) in
        Some (g_history h ! ((start + index) mod kHistoryCapacity)))"

definition history_append :: "cstring \<Rightarrow> history \<Rightarrow> history" where
  "history_append line h =
     (if line = [] then h
      else if 0 < g_history_count h \<and>
        (case history_at h (history_size h - 1) of None \<Rightarrow> False | Some l \<Rightarrow> text_equal l line) then h
      else h\<lparr>g_history := (g_history h)[unat (g_history_count h) mod kHistoryCapacity := copy_text line kMaxLine],
             g_history_count := g_history_count h + 1\<rparr>)"

definition history_reset_view :: "history \<Rightarrow> history" where
  "history_reset_view h = h\<lparr>g_history_view := -1, g_history_draft_valid := False, g_history_draft := []\<rparr>"

subsection \<open>The line buffer\<close>

text \<open>
  The buffer keeps what stood in it behind the text. \<open>c_text\<close> is the text a reader of the buffer sees, and \<open>put_text\<close>
  is \<open>copy_text\<close> into the buffer.
\<close>

definition c_text :: "char list \<Rightarrow> cstring" where
  "c_text buf = takeWhile (\<lambda>c. c \<noteq> CHR 0x00) buf"

definition put_text :: "char list \<Rightarrow> cstring \<Rightarrow> nat \<Rightarrow> char list" where
  "put_text dst src max_size = (let t = copy_text src max_size in t @ CHR 0x00 # drop (length t + 1) dst)"

text \<open>The arrow keys. They return the buffer, the position, and whether the line is drawn again.\<close>

definition history_move_up :: "history \<Rightarrow> char list \<Rightarrow> nat \<Rightarrow> history \<times> char list \<times> nat \<times> bool" where
  "history_move_up h line pos =
     (let sz = history_size h in
      if sz = 0 then (h, line, pos, False)
      else let h = (if g_history_view h < 0
                    then h\<lparr>g_history_draft := copy_text (c_text line) kMaxLine, g_history_draft_valid := True, g_history_view := int sz - 1\<rparr>
                    else if 0 < g_history_view h then h\<lparr>g_history_view := g_history_view h - 1\<rparr> else h) in
        (case history_at h (nat (g_history_view h)) of
           None \<Rightarrow> (h, line, pos, False)
         | Some e \<Rightarrow> let line = put_text line e kMaxLine in (h, line, text_len (c_text line), True)))"

definition history_move_down :: "history \<Rightarrow> char list \<Rightarrow> nat \<Rightarrow> history \<times> char list \<times> nat \<times> bool" where
  "history_move_down h line pos =
     (let sz = history_size h in
      if sz = 0 \<or> g_history_view h < 0 then (h, line, pos, False)
      else if nat (g_history_view h) + 1 < sz then
        let h = h\<lparr>g_history_view := g_history_view h + 1\<rparr> in
        (case history_at h (nat (g_history_view h)) of
           None \<Rightarrow> (h, line, pos, False)
         | Some e \<Rightarrow> let line = put_text line e kMaxLine in (h, line, text_len (c_text line), True))
      else let h = h\<lparr>g_history_view := -1\<rparr>;
               line = (if g_history_draft_valid h then put_text line (g_history_draft h) kMaxLine else CHR 0x00 # tl line) in
        (h, line, text_len (c_text line), True))"

subsection \<open>The list of the last lines\<close>

definition history_list :: "history \<Rightarrow> cstring list" where
  "history_list h = map (\<lambda>i. the (history_at h i)) [0..<history_size h]"

definition spec_append :: "cstring \<Rightarrow> cstring list \<Rightarrow> cstring list" where
  "spec_append line l =
     (if line = [] \<or> (l \<noteq> [] \<and> last l = line) then l
      else (if length l = kHistoryCapacity then tl l else l) @ [take 191 line])"

lemma history_list_length: "length (history_list h) = history_size h"
  by (simp add: history_list_def)

lemma history_list_nth:
  "i < history_size h \<Longrightarrow> history_list h ! i =
     g_history h ! ((if unat (g_history_count h) < 16 then i else unat (g_history_count h) + i) mod 16)"
  by (auto simp: history_list_def history_at_def Let_def mod_add_left_eq)

lemma history_last:
  assumes "0 < history_size h"
  shows "history_at h (history_size h - 1) = Some (last (history_list h))"
proof -
  have "last (history_list h) = history_list h ! (history_size h - 1)"
    using assms by (simp add: last_conv_nth history_list_length flip: length_greater_0_conv)
  then show ?thesis using assms by (simp add: history_list_def) (simp add: history_at_def Let_def)
qed

lemma history_size_pos: "0 < history_size h \<longleftrightarrow> 0 < g_history_count h"
  by (simp add: history_size_def word_less_nat_alt)

lemma history_write:
  assumes "length (g_history h) = 16" "g_history_count h \<noteq> 0xFFFFFFFF"
    and h': "h' = h\<lparr>g_history := (g_history h)[unat (g_history_count h) mod 16 := x], g_history_count := g_history_count h + 1\<rparr>"
  shows "history_list h' = (if history_size h = 16 then tl (history_list h) else history_list h) @ [x]"
proof -
  define n where "n = unat (g_history_count h)"
  have "g_history_count h + 1 \<noteq> 0" using assms(2) by (auto simp: eq_neg_iff_add_eq_0 [symmetric])
  then have n': "unat (g_history_count h') = Suc n" using unatSuc [of "g_history_count h"] by (simp add: h' n_def add.commute)
  show ?thesis
  proof (cases "n < 16")
    case True
    then have sz: "history_size h = n" "history_size h' = Suc n" using n' by (auto simp: history_size_def n_def)
    have "history_list h' ! i = (history_list h @ [x]) ! i" if "i < Suc n" for i
    proof -
      have "(if Suc n < 16 then i else Suc n + i) mod 16 = i" using that True by (cases "n = 15") auto
      then have "history_list h' ! i = g_history h' ! i" using that sz history_list_nth [of i h'] unfolding n' by metis
      then show ?thesis
        using that True sz(1) assms(1) by (auto simp: history_list_nth nth_append history_list_length n_def [symmetric] less_Suc_eq h')
    qed
    then show ?thesis using sz True by (auto intro!: nth_equalityI simp: history_list_length)
  next
    case False
    then have sz: "history_size h = 16" "history_size h' = 16" using n' by (auto simp: history_size_def n_def)
    have "history_list h' ! i = (tl (history_list h) @ [x]) ! i" if "i < 16" for i
    proof (cases "i = 15")
      case True
      then have "(Suc n + i) mod 16 = n mod 16" using mod_add_self2 [of n 16] by simp
      then show ?thesis using True sz n' False assms(1) by (simp add: history_list_nth nth_append history_list_length h' n_def [symmetric])
    next
      case ne: False
      then have "\<not> 16 dvd Suc n + i - n" using that by (auto dest: dvd_imp_le)
      then have "(Suc n + i) mod 16 \<noteq> n mod 16" using mod_eq_dvd_iff_nat [of n "Suc n + i" 16] by simp
      then show ?thesis using ne that sz n' False assms(1)
        by (simp add: history_list_nth nth_append history_list_length nth_tl h' n_def [symmetric])
    qed
    then show ?thesis using sz by (auto intro!: nth_equalityI simp: history_list_length)
  qed
qed

text \<open>
  C30. The ring of lines implements a list: after appending a line the history, read through \<open>history_at\<close>, is the list
  of the last sixteen lines in order, without empty lines and immediate repetitions.
\<close>

theorem history_append_refines:
  assumes "length (g_history h) = 16" "g_history_count h \<noteq> 0xFFFFFFFF"
  shows "history_list (history_append line h) = spec_append line (history_list h)"
proof (cases "line = [] \<or> (history_list h \<noteq> [] \<and> last (history_list h) = line)")
  case True
  then show ?thesis using history_last [of h] history_size_pos [of h]
    by (auto simp: history_append_def spec_append_def history_list_length simp flip: length_greater_0_conv)
next
  case False
  then have "history_append line h = h\<lparr>g_history := (g_history h)[unat (g_history_count h) mod 16 := copy_text line kMaxLine],
      g_history_count := g_history_count h + 1\<rparr>"
    using history_last [of h] history_size_pos [of h]
    by (auto simp: history_append_def history_list_length simp flip: length_greater_0_conv)
  from history_write [OF assms this] False show ?thesis
    by (auto simp: spec_append_def history_list_length copy_text_def)
qed

theorem history_append_refines_witness:
  "history_list (history_append ''ld'' (history_append ''pwd'' history_start)) = [''pwd'', ''ld'']"
  using history_append_refines [of "history_append ''pwd'' history_start" "''ld''"]
  by (simp add: history_start_def history_append_def history_list_def history_at_def history_size_def spec_append_def copy_text_def)

text \<open>Up and then down again brings back the line that was being typed.\<close>

lemma history_up_down:
  assumes "g_history_view h = -1" "0 < history_size h" "length (c_text line) < kMaxLine"
    and "history_move_up h line pos = (h1, line1, pos1, b1)" "history_move_down h1 line1 pos1 = (h2, line2, pos2, b2)"
  shows "c_text line2 = c_text line \<and> pos2 = length (c_text line) \<and> g_history_view h2 = -1 \<and> g_history h2 = g_history h"
proof -
  have t: "c_text (put_text buf (c_text s) 192) = c_text s" if "length (c_text s) < 192" for buf s
  proof -
    have "\<And>x. x \<in> set (c_text s) \<Longrightarrow> x \<noteq> CHR 0x00" unfolding c_text_def by (blast dest: set_takeWhileD)
    then show ?thesis using that by (simp add: put_text_def Let_def c_text_def takeWhile_append2)
  qed
  let ?h = "h\<lparr>g_history_draft := copy_text (c_text line) kMaxLine, g_history_draft_valid := True, g_history_view := int (history_size h) - 1\<rparr>"
  have sz: "history_size ?h = history_size h" by (simp add: history_size_def)
  from assms(1,2,4) sz have "h1 = ?h" by (auto simp: history_move_up_def Let_def history_at_def nat_diff_distrib split: option.splits if_splits)
  moreover have "\<not> nat (int (history_size h) - 1) + 1 < history_size h" using assms(2) by linarith
  ultimately have "line2 = put_text line1 (c_text line) kMaxLine" "pos2 = text_len (c_text line2)" "g_history_view h2 = -1"
    "g_history h2 = g_history h" using assms(2,3,5) sz
    by (auto simp: history_move_down_def Let_def)
  then show ?thesis using t [OF assms(3)] by simp
qed

end
