(* ===== verification/Shell.thy ===== *)
theory Shell
  imports Shell_History RamFs
begin

text \<open>
  The commands of the shell that work on files, paths and text, \<open>src/kernel/shell.cpp\<close>. A command takes its
  arguments, the name of the command first, and the shell's state, whose output is all text sent to the
  serial port. \<open>None\<close> is a command that never returns.
\<close>

record 'h shell =
  cwd :: cstring
  running :: bool
  hist :: history
  g_fs :: "ramfs option"
  fs_heap :: 'h
  serial_out :: cstring

type_synonym 'h action = "'h shell \<Rightarrow> 'h shell option"
type_synonym 'h command = "cstring list \<Rightarrow> 'h action"

definition emit :: "cstring \<Rightarrow> 'h shell \<Rightarrow> 'h shell" where
  "emit t st = st\<lparr>serial_out := serial_out st @ t\<rparr>"

definition write_line :: "cstring \<Rightarrow> 'h shell \<Rightarrow> 'h shell" where
  "write_line t st = emit (t @ [CHR 0x0A]) st"

definition chars_of :: "u8 list \<Rightarrow> cstring" where
  "chars_of bs = map (\<lambda>b. char_of (unat b)) bs"

definition arg_to_path :: "cstring option \<Rightarrow> cstring \<Rightarrow> 'h shell \<Rightarrow> 'h shell \<times> cstring option" where
  "arg_to_path arg usage st =
     (case arg of
        None \<Rightarrow> (write_line usage st, None)
      | Some a \<Rightarrow> (case resolve_path (Some (cwd st)) (Some a) kMaxPath of
          None \<Rightarrow> (write_line ''invalid path'' st, None)
        | Some p \<Rightarrow> (st, Some p)))"

text \<open>The frame of most commands: without a path for the argument the command ends.\<close>

definition on_path :: "cstring \<Rightarrow> cstring \<Rightarrow> (cstring \<Rightarrow> 'h action) \<Rightarrow> 'h action" where
  "on_path a usage k st =
     (case arg_to_path (Some a) usage st of (st, None) \<Rightarrow> Some st | (st, Some p) \<Rightarrow> k p st)"

definition with_fs :: "(ramfs \<Rightarrow> 'h action) \<Rightarrow> 'h action" where
  "with_fs k st = (case g_fs st of None \<Rightarrow> Some (write_line ''fs unavailable'' st) | Some fs \<Rightarrow> k fs st)"

subsection \<open>Reading files\<close>

partial_function (option) read_chunks :: "int \<Rightarrow> u32 \<Rightarrow> ramfs \<Rightarrow> (ramfs \<times> u8 list list) option" where
  "read_chunks fd chunk fs =
     (case ramfs_read fd True chunk fs of (fs, n, bs) \<Rightarrow>
        if n \<le> 0 then Some (fs, [])
        else read_chunks fd chunk fs \<bind> (\<lambda>(fs, bss). Some (fs, bs # bss)))"

partial_function (option) read_upto :: "int \<Rightarrow> u32 \<Rightarrow> u8 list \<Rightarrow> ramfs \<Rightarrow> (ramfs \<times> u8 list) option" where
  "read_upto fd lim buf fs =
     (if lim \<le> of_nat (length buf) then Some (fs, buf)
      else case ramfs_read fd True (lim - of_nat (length buf)) fs of (fs, n, bs) \<Rightarrow>
        if n \<le> 0 then Some (fs, buf) else read_upto fd lim (buf @ bs) fs)"

text \<open>Open for reading, read all of it in chunks and close; the bytes come back by chunks.\<close>

definition read_file :: "cstring \<Rightarrow> u32 \<Rightarrow> ramfs \<Rightarrow> (ramfs \<times> u8 list list option) option" where
  "read_file path chunk fs =
     (case ramfs_open (Some path) kOpenRead fs of (fs, fd) \<Rightarrow>
        if fd < 0 then Some (fs, None)
        else read_chunks fd chunk fs \<bind> (\<lambda>(fs, bss). Some (fst (ramfs_close fd fs), Some bss)))"

definition get_file_size :: "cstring \<Rightarrow> ramfs \<Rightarrow> (ramfs \<times> u32 option) option" where
  "get_file_size path fs =
     read_file path 128 fs \<bind> (\<lambda>(fs, r). Some (fs, map_option (\<lambda>bss. of_nat (length (concat bss))) r))"

definition is_directory_path :: "cstring \<Rightarrow> ramfs \<Rightarrow> bool" where
  "is_directory_path path fs \<longleftrightarrow> 0 \<le> fst (ramfs_readdir (Some path) True 1 fs)"

definition is_regular_file :: "cstring \<Rightarrow> ramfs \<Rightarrow> ramfs \<times> bool" where
  "is_regular_file path fs =
     (case ramfs_open (Some path) kOpenRead fs of (fs, fd) \<Rightarrow>
        if fd < 0 then (fs, False) else (fst (ramfs_close fd fs), True))"

definition path_exists :: "cstring \<Rightarrow> ramfs \<Rightarrow> ramfs \<times> bool" where
  "path_exists path fs = (if is_directory_path path fs then (fs, True) else is_regular_file path fs)"

definition write_file_text ::
  "'h new_bytes \<Rightarrow> cstring \<Rightarrow> cstring \<Rightarrow> bool \<Rightarrow> ramfs \<times> 'h \<Rightarrow> (ramfs \<times> 'h \<times> bool) option" where
  "write_file_text nb path t append_mode s =
     (case s of (fs, h) \<Rightarrow>
        let base = kOpenWrite OR kOpenCreate; flags = (if append_mode then base OR kOpenRead else base OR kOpenTruncate) in
        case ramfs_open (Some path) flags fs of (fs, fd) \<Rightarrow>
          if fd < 0 then Some (fs, h, False)
          else (if append_mode then map_option fst (read_chunks fd 128 fs) else Some fs) \<bind> (\<lambda>fs.
            ramfs_write nb fd (Some (bytes_of t)) (of_nat (text_len t)) fs h \<bind> (\<lambda>(fs, h, wr).
              Some (fst (ramfs_close fd fs), h, 0 \<le> wr))))"

subsection \<open>Directories and simple file commands\<close>

definition cmd_pwd :: "'h command" where
  "cmd_pwd argv st = Some (write_line (cwd st) st)"

definition cmd_cd :: "'h command" where
  "cmd_cd argv st =
     (if length argv < 2 then Some (st\<lparr>cwd := copy_text ''/root'' kMaxPath\<rparr>)
      else on_path (argv ! 1) ''cd <dir>'' (\<lambda>p st.
        case g_fs st of
          None \<Rightarrow> Some (write_line ''cd: directory not found'' st)
        | Some fs \<Rightarrow> if is_directory_path p fs then Some (st\<lparr>cwd := copy_text p kMaxPath\<rparr>)
            else Some (write_line ''cd: directory not found'' st)) st)"

definition cmd_md :: "'h command" where
  "cmd_md argv = with_fs (\<lambda>fs st.
     if length argv < 2 then Some st
     else on_path (argv ! 1) ''md <dir>'' (\<lambda>p st.
       case ramfs_md (Some p) fs of (fs, r) \<Rightarrow>
         let st = st\<lparr>g_fs := Some fs\<rparr> in Some (if r < 0 then write_line ''md: failed'' st else st)) st)"

definition cmd_rd :: "'h command" where
  "cmd_rd argv = with_fs (\<lambda>fs st.
     if length argv < 2 then Some st
     else on_path (argv ! 1) ''rd <dir>'' (\<lambda>p st.
       case ramfs_rd (Some p) fs of (fs, r) \<Rightarrow>
         let st = st\<lparr>g_fs := Some fs\<rparr> in Some (if r < 0 then write_line ''rd: failed (non-empty or missing)'' st else st)) st)"

definition cmd_rm :: "'h command" where
  "cmd_rm argv = with_fs (\<lambda>fs st.
     if length argv < 2 then Some st
     else on_path (argv ! 1) ''rm <file>'' (\<lambda>p st.
       case ramfs_unlink (Some p) fs of (fs, r) \<Rightarrow>
         let st = st\<lparr>g_fs := Some fs\<rparr> in Some (if r < 0 then write_line ''rm: failed'' st else st)) st)"

definition cmd_touch :: "'h command" where
  "cmd_touch argv = with_fs (\<lambda>fs st.
     if length argv < 2 then Some st
     else on_path (argv ! 1) ''touch <file>'' (\<lambda>p st.
       case ramfs_open (Some p) (kOpenWrite OR kOpenCreate) fs of (fs, fd) \<Rightarrow>
         if fd < 0 then Some (write_line ''touch: failed'' (st\<lparr>g_fs := Some fs\<rparr>))
         else Some (st\<lparr>g_fs := Some (fst (ramfs_close fd fs))\<rparr>)) st)"

fun touch_all :: "cstring list \<Rightarrow> 'h action" where
  "touch_all [] st = Some st"
| "touch_all (a # as) st =
     on_path a ''touchmany <file1> [file2 ...]'' (\<lambda>p st.
       case g_fs st of
         None \<Rightarrow> None
       | Some fs \<Rightarrow> (case ramfs_open (Some p) (kOpenWrite OR kOpenCreate) fs of (fs, fd) \<Rightarrow>
           if fd < 0 then touch_all as (write_line (''touchmany: failed for '' @ a) (st\<lparr>g_fs := Some fs\<rparr>))
           else touch_all as (st\<lparr>g_fs := Some (fst (ramfs_close fd fs))\<rparr>))) st"

definition cmd_touchmany :: "'h command" where
  "cmd_touchmany argv = with_fs (\<lambda>fs st.
     if length argv < 2 then Some (write_line ''touchmany <file1> [file2 ...]'' st) else touch_all (tl argv) st)"

fun rm_all :: "cstring list \<Rightarrow> 'h action" where
  "rm_all [] st = Some st"
| "rm_all (a # as) st =
     on_path a ''rmmany <file1> [file2 ...]'' (\<lambda>p st.
       case g_fs st of
         None \<Rightarrow> None
       | Some fs \<Rightarrow> (case ramfs_unlink (Some p) fs of (fs, r) \<Rightarrow>
           let st = st\<lparr>g_fs := Some fs\<rparr> in
           rm_all as (if r < 0 then write_line (''rmmany: failed for '' @ a) st else st))) st"

definition cmd_rmmany :: "'h command" where
  "cmd_rmmany argv = with_fs (\<lambda>fs st.
     if length argv < 2 then Some (write_line ''rmmany <file1> [file2 ...]'' st) else rm_all (tl argv) st)"

subsection \<open>Showing files\<close>

definition cmd_cat :: "'h command" where
  "cmd_cat argv = with_fs (\<lambda>fs st.
     if length argv < 2 then Some (write_line ''cat <file>'' st)
     else on_path (argv ! 1) ''cat <file>'' (\<lambda>p st.
       read_file p 128 fs \<bind> (\<lambda>(fs, r). let st = st\<lparr>g_fs := Some fs\<rparr> in
         case r of
           None \<Rightarrow> Some (write_line ''cat: file not found'' st)
         | Some bss \<Rightarrow> Some (write_line (concat (map (\<lambda>bs. c_text (chars_of bs)) bss)) st))) st)"

definition cmd_catb :: "'h command" where
  "cmd_catb argv = with_fs (\<lambda>fs st.
     if length argv < 2 then Some (write_line ''catb <file>'' st)
     else on_path (argv ! 1) ''catb <file>'' (\<lambda>p st.
       read_file p 128 fs \<bind> (\<lambda>(fs, r). let st = st\<lparr>g_fs := Some fs\<rparr> in
         case r of
           None \<Rightarrow> Some (write_line ''catb: file not found'' st)
         | Some bss \<Rightarrow> Some (emit (chars_of (concat bss)) st))) st)"

text \<open>The counts of \<open>wc\<close>: lines, words and whether the last character was in a word.\<close>

fun wc_count :: "cstring \<Rightarrow> u32 \<times> u32 \<times> bool \<Rightarrow> u32 \<times> u32 \<times> bool" where
  "wc_count [] r = r"
| "wc_count (c # cs) (lines, words, in_word) =
     (let lines = (if c = CHR 0x0A then lines + 1 else lines) in
      if is_space c \<or> c = CHR 0x0A \<or> c = CHR 0x0D then wc_count cs (lines, words, False)
      else if \<not> in_word then wc_count cs (lines, words + 1, True)
      else wc_count cs (lines, words, in_word))"

definition cmd_wc :: "'h command" where
  "cmd_wc argv st =
     (if length argv < 2 then Some (write_line ''wc <file>'' st)
      else on_path (argv ! 1) ''wc <file>'' (\<lambda>p. with_fs (\<lambda>fs st.
        read_file p 128 fs \<bind> (\<lambda>(fs, r). let st = st\<lparr>g_fs := Some fs\<rparr> in
          case r of
            None \<Rightarrow> Some (write_line ''wc: file not found'' st)
          | Some bss \<Rightarrow>
              let t = chars_of (concat bss); (ls, ws, _) = wc_count t (0, 0, False) in
              Some (write_line (''lines='' @ write_dec ls @ '' words='' @ write_dec ws @ '' bytes='' @ write_dec (of_nat (length t))) st)))) st)"

text \<open>\<open>head_lines\<close> is what \<open>print_path_lines\<close> sends from the front, \<open>tail_from\<close> the place from which it sends from the end.\<close>

fun head_lines :: "u32 \<Rightarrow> u32 \<Rightarrow> cstring \<Rightarrow> cstring" where
  "head_lines max_lines lines [] = []"
| "head_lines max_lines lines (c # cs) =
     c # (if c = CHR 0x0A then (if max_lines \<le> lines + 1 then [] else head_lines max_lines (lines + 1) cs)
          else head_lines max_lines lines cs)"

fun tail_from :: "u32 \<Rightarrow> u32 \<Rightarrow> cstring \<Rightarrow> nat \<Rightarrow> nat" where
  "tail_from max_lines seen buf 0 = 0"
| "tail_from max_lines seen buf (Suc start) =
     (if buf ! start = CHR 0x0A then (if max_lines < seen + 1 then Suc start else tail_from max_lines (seen + 1) buf start)
      else tail_from max_lines seen buf start)"

definition print_path_lines :: "cstring \<Rightarrow> u32 \<Rightarrow> bool \<Rightarrow> 'h action" where
  "print_path_lines path max_lines from_end = with_fs (\<lambda>fs st.
     case ramfs_open (Some path) kOpenRead fs of (fs, fd) \<Rightarrow>
       if fd < 0 then Some (write_line ''file not found'' (st\<lparr>g_fs := Some fs\<rparr>))
       else read_upto fd 1023 [] fs \<bind> (\<lambda>(fs, bs).
         let st = st\<lparr>g_fs := Some (fst (ramfs_close fd fs))\<rparr>; buffer = chars_of bs in
         if \<not> from_end then Some (emit (head_lines max_lines 0 buffer) st)
         else Some (emit (drop (tail_from max_lines 0 buffer (length buffer)) buffer) st)))"

definition cmd_lines :: "cstring \<Rightarrow> bool \<Rightarrow> 'h command" where
  "cmd_lines name from_end argv st =
     (let usage = name @ '' <file> [lines]'' in
      if length argv < 2 then Some (write_line usage st)
      else on_path (argv ! 1) usage (\<lambda>p st.
        case (if length argv < 3 then Some 10 else parse_u32 (Some (argv ! 2))) of
          None \<Rightarrow> Some (write_line (name @ '': invalid line count'') st)
        | Some ls \<Rightarrow> map_option (emit [CHR 0x0A]) (print_path_lines p ls from_end st)) st)"

definition cmd_head :: "'h command" where
  "cmd_head = cmd_lines ''head'' False"

definition cmd_tail :: "'h command" where
  "cmd_tail = cmd_lines ''tail'' True"

definition cmd_size :: "'h command" where
  "cmd_size argv st =
     (if length argv < 2 then Some st
      else on_path (argv ! 1) ''size <file>'' (\<lambda>p st.
        case g_fs st of
          None \<Rightarrow> Some (write_line ''size: not a file'' st)
        | Some fs \<Rightarrow> get_file_size p fs \<bind> (\<lambda>(fs, r). let st = st\<lparr>g_fs := Some fs\<rparr> in
            case r of
              None \<Rightarrow> Some (write_line ''size: not a file'' st)
            | Some n \<Rightarrow> Some (write_line (write_dec n) st))) st)"

definition cmd_stat :: "'h command" where
  "cmd_stat argv st =
     (if length argv < 2 then Some (write_line ''stat <path>'' st)
      else on_path (argv ! 1) ''stat <path>'' (\<lambda>p. with_fs (\<lambda>fs st.
        let dn = fst (ramfs_readdir (Some p) True 16 fs) in
        if 0 \<le> dn then Some (write_line (''type=dir entries='' @ write_dec (word_of_int dn) @ '' path='' @ p) st)
        else get_file_size p fs \<bind> (\<lambda>(fs, r). let st = st\<lparr>g_fs := Some fs\<rparr> in
          case r of
            None \<Rightarrow> Some (write_line ''stat: not found'' st)
          | Some n \<Rightarrow> Some (write_line (''type=file size='' @ write_dec n @ '' path='' @ p) st)))) st)"

definition yes_no :: "bool \<Rightarrow> cstring" where
  "yes_no b = (if b then ''yes'' else ''no'')"

definition cmd_test :: "cstring \<Rightarrow> (cstring \<Rightarrow> ramfs \<Rightarrow> ramfs \<times> bool) \<Rightarrow> 'h command" where
  "cmd_test usage test argv st =
     (if length argv < 2 then Some st
      else on_path (argv ! 1) usage (\<lambda>p st.
        case g_fs st of
          None \<Rightarrow> Some (write_line ''no'' st)
        | Some fs \<Rightarrow> (case test p fs of (fs, b) \<Rightarrow> Some (write_line (yes_no b) (st\<lparr>g_fs := Some fs\<rparr>)))) st)"

definition cmd_exists :: "'h command" where
  "cmd_exists = cmd_test ''exists <path>'' path_exists"

definition cmd_isfile :: "'h command" where
  "cmd_isfile = cmd_test ''isfile <path>'' is_regular_file"

definition cmd_isdir :: "'h command" where
  "cmd_isdir = cmd_test ''isdir <path>'' (\<lambda>p fs. (fs, is_directory_path p fs))"

subsection \<open>Comparing, copying and moving\<close>

partial_function (option) cmp_loop :: "int \<Rightarrow> int \<Rightarrow> ramfs \<Rightarrow> (ramfs \<times> bool) option" where
  "cmp_loop a b fs =
     (case ramfs_read a True 128 fs of (fs, an, as) \<Rightarrow>
      case ramfs_read b True 128 fs of (fs, bn, bs) \<Rightarrow>
        if an \<noteq> bn then Some (fs, False)
        else if an \<le> 0 then Some (fs, True)
        else if as \<noteq> bs then Some (fs, False)
        else cmp_loop a b fs)"

definition cmd_cmp :: "'h command" where
  "cmd_cmp argv st =
     (let usage = ''cmp <file1> <file2>'' in
      if length argv < 3 then Some (write_line usage st)
      else on_path (argv ! 1) usage (\<lambda>a. on_path (argv ! 2) usage (\<lambda>b. with_fs (\<lambda>fs st.
        case ramfs_open (Some a) kOpenRead fs of (fs, afd) \<Rightarrow>
        case ramfs_open (Some b) kOpenRead fs of (fs, bfd) \<Rightarrow>
          if afd < 0 \<or> bfd < 0 then
            let fs = (if 0 \<le> afd then fst (ramfs_close afd fs) else fs);
                fs = (if 0 \<le> bfd then fst (ramfs_close bfd fs) else fs) in
            Some (write_line ''cmp: file missing'' (st\<lparr>g_fs := Some fs\<rparr>))
          else cmp_loop afd bfd fs \<bind> (\<lambda>(fs, same).
            let fs = fst (ramfs_close bfd (fst (ramfs_close afd fs))) in
            Some (write_line (if same then ''cmp: equal'' else ''cmp: different'') (st\<lparr>g_fs := Some fs\<rparr>)))))) st)"

text \<open>The flag says that a write failed.\<close>

partial_function (option) cp_loop ::
  "'h new_bytes \<Rightarrow> int \<Rightarrow> int \<Rightarrow> ramfs \<Rightarrow> 'h \<Rightarrow> (ramfs \<times> 'h \<times> bool) option" where
  "cp_loop nb src_fd dst_fd fs h =
     (case ramfs_read src_fd True 128 fs of (fs, n, bs) \<Rightarrow>
        if n \<le> 0 then Some (fs, h, False)
        else ramfs_write nb dst_fd (Some bs) (word_of_int n) fs h \<bind> (\<lambda>(fs, h, wr).
          if wr < 0 then Some (fs, h, True) else cp_loop nb src_fd dst_fd fs h))"

definition cp_files :: "'h new_bytes \<Rightarrow> cstring \<Rightarrow> cstring \<Rightarrow> ramfs \<Rightarrow> 'h action" where
  "cp_files nb src dst fs st =
     (case ramfs_open (Some src) kOpenRead fs of (fs, src_fd) \<Rightarrow>
        if src_fd < 0 then Some (write_line ''cp: source not found'' (st\<lparr>g_fs := Some fs\<rparr>))
        else case ramfs_open (Some dst) (kOpenWrite OR kOpenCreate OR kOpenTruncate) fs of (fs, dst_fd) \<Rightarrow>
          if dst_fd < 0 then
            Some (write_line ''cp: cannot open destination'' (st\<lparr>g_fs := Some (fst (ramfs_close src_fd fs))\<rparr>))
          else cp_loop nb src_fd dst_fd fs (fs_heap st) \<bind> (\<lambda>(fs, h, failed).
            let fs = fst (ramfs_close dst_fd (fst (ramfs_close src_fd fs)));
                st = st\<lparr>g_fs := Some fs, fs_heap := h\<rparr> in
            Some (if failed then write_line ''cp: write error'' st else st)))"

definition cmd_cp :: "'h new_bytes \<Rightarrow> 'h command" where
  "cmd_cp nb argv = with_fs (\<lambda>fs st.
     let usage = ''cp <src> <dst>'' in
     if length argv < 3 then Some (write_line usage st)
     else on_path (argv ! 1) usage (\<lambda>src. on_path (argv ! 2) usage (\<lambda>dst. cp_files nb src dst fs)) st)"

definition cmd_mv :: "'h new_bytes \<Rightarrow> 'h command" where
  "cmd_mv nb argv st =
     (if length argv < 3 then Some (write_line ''mv <src> <dst>'' st)
      else cmd_cp nb argv st \<bind> on_path (argv ! 1) ''mv <src> <dst>'' (\<lambda>src st.
        case g_fs st of
          None \<Rightarrow> Some (write_line ''mv: cleanup failed'' st)
        | Some fs \<Rightarrow> (case ramfs_unlink (Some src) fs of (fs, r) \<Rightarrow>
            let st = st\<lparr>g_fs := Some fs\<rparr> in Some (if r < 0 then write_line ''mv: cleanup failed'' st else st))))"

subsection \<open>Writing text\<close>

definition put_file :: "'h new_bytes \<Rightarrow> cstring \<Rightarrow> cstring \<Rightarrow> cstring \<Rightarrow> bool \<Rightarrow> 'h action" where
  "put_file nb name p t append_mode st =
     (case g_fs st of
        None \<Rightarrow> Some (write_line (name @ '': failed'') st)
      | Some fs \<Rightarrow> write_file_text nb p t append_mode (fs, fs_heap st) \<bind> (\<lambda>(fs, h, ok).
          let st = st\<lparr>g_fs := Some fs, fs_heap := h\<rparr> in
          Some (if ok then st else write_line (name @ '': failed'') st)))"

definition cmd_write :: "'h new_bytes \<Rightarrow> 'h command" where
  "cmd_write nb argv st =
     (if length argv < 3 then Some st
      else on_path (argv ! 1) ''write <file> <text...>'' (\<lambda>p. put_file nb ''write'' p (join_rest_args argv 2 kMaxLine) False) st)"

definition cmd_append :: "'h new_bytes \<Rightarrow> 'h command" where
  "cmd_append nb argv st =
     (if length argv < 3 then Some st
      else on_path (argv ! 1) ''append <file> <text...>'' (\<lambda>p. put_file nb ''append'' p (join_rest_args argv 2 kMaxLine) True) st)"

definition cmd_truncate :: "'h new_bytes \<Rightarrow> 'h command" where
  "cmd_truncate nb argv st =
     (if length argv < 2 then Some st
      else on_path (argv ! 1) ''truncate <file>'' (\<lambda>p. put_file nb ''truncate'' p [] False) st)"

end
