(* ===== verification/Shell_Commands.thy ===== *)
theory Shell_Commands
  imports Shell
begin

text \<open>
  The commands of the shell that list directories, search, compute paths or print, \<open>src/kernel/shell.cpp\<close>,
  and the table of commands.
\<close>

abbreviation (input) kMaxTreeDepth :: nat where "kMaxTreeDepth \<equiv> 8"

subsection \<open>Directories\<close>

text \<open>The path a command takes its directory from: the current one without an argument.\<close>

definition dir_arg :: "cstring list \<Rightarrow> cstring \<Rightarrow> (cstring \<Rightarrow> 'h action) \<Rightarrow> 'h action" where
  "dir_arg argv usage k st =
     (if length argv < 2 then k (copy_text (cwd st) kMaxPath) st else on_path (argv ! 1) usage k st)"

definition cmd_ld :: "'h command" where
  "cmd_ld argv = with_fs (\<lambda>fs. dir_arg argv ''ld [dir]'' (\<lambda>p st.
     case ramfs_readdir (Some p) True 32 fs of (n, es) \<Rightarrow>
       if n < 0 then Some (write_line ''ld: cannot list directory'' st)
       else Some (emit (concat (map (\<lambda>e. (if entry_is_directory e then ''d '' else ''f '') @ entry_name e @ [CHR 0x0A]) es)
         @ [CHR 0x0D, CHR 0x0A]) st)))"

definition cmd_countdir :: "'h command" where
  "cmd_countdir argv = with_fs (\<lambda>fs. dir_arg argv ''countdir [dir]'' (\<lambda>p st.
     let n = fst (ramfs_readdir (Some p) True 32 fs) in
     if n < 0 then Some (write_line ''countdir: failed'' st) else Some (write_line (write_dec (word_of_int n)) st)))"

text \<open>The recursion counts down from the depth that is left, \<open>kMaxTreeDepth + 1 - depth\<close>.\<close>

definition tree_child :: "cstring \<Rightarrow> cstring \<Rightarrow> cstring" where
  "tree_child path name =
     (if text_equal path [slash] then slash # copy_text name (kMaxPath - 1)
      else let child = copy_text path kMaxPath; len = text_len child in
        if len + 1 < kMaxPath then child @ slash # copy_text name (kMaxPath - len - 1) else child)"

fun tree_walk :: "nat \<Rightarrow> ramfs \<Rightarrow> cstring \<Rightarrow> cstring" where
  "tree_walk 0 fs path = []"
| "tree_walk (Suc left) fs path =
     (case ramfs_readdir (Some path) True 16 fs of (n, es) \<Rightarrow>
        if n < 0 then []
        else concat (map (\<lambda>e. concat (replicate (kMaxTreeDepth - left) ''  '') @ (if entry_is_directory e then ''+ '' else ''- '')
          @ entry_name e @ [CHR 0x0A]
          @ (if entry_is_directory e then tree_walk left fs (tree_child path (entry_name e)) else [])) es))"

definition cmd_tree :: "'h command" where
  "cmd_tree argv = dir_arg argv ''tree [dir]'' (\<lambda>p st.
     Some (emit (case g_fs st of None \<Rightarrow> [] | Some fs \<Rightarrow> tree_walk kMaxTreeDepth fs p) (write_line p st)))"

fun find_walk :: "nat \<Rightarrow> ramfs \<Rightarrow> cstring \<Rightarrow> cstring \<Rightarrow> cstring" where
  "find_walk 0 fs needle path = []"
| "find_walk (Suc left) fs needle path =
     (case ramfs_readdir (Some path) True 16 fs of (n, es) \<Rightarrow>
        if n < 0 then []
        else concat (map (\<lambda>e.
          if \<not> text_equal path [slash] \<and> kMaxPath \<le> text_len (copy_text path kMaxPath) + 1 then []
          else let child = tree_child path (entry_name e) in
            (if text_contains (Some (entry_name e)) (Some needle) then child @ [CHR 0x0A] else [])
            @ (if entry_is_directory e then find_walk left fs needle child else [])) es))"

definition cmd_find :: "'h command" where
  "cmd_find argv = dir_arg argv ''find [dir] [name-substring]'' (\<lambda>p st.
     Some (emit (case g_fs st of
         None \<Rightarrow> []
       | Some fs \<Rightarrow> find_walk (kMaxTreeDepth + 1) fs (if 3 \<le> length argv then argv ! 2 else []) p) st))"

subsection \<open>Searching and listing files\<close>

definition cmd_grep :: "'h command" where
  "cmd_grep argv = with_fs (\<lambda>fs st.
     if length argv < 3 then Some (write_line ''grep <text> <file>'' st)
     else on_path (argv ! 2) ''grep <text> <file>'' (\<lambda>p st.
       case ramfs_open (Some p) kOpenRead fs of (fs, fd) \<Rightarrow>
         if fd < 0 then Some (write_line ''grep: file not found'' (st\<lparr>g_fs := Some fs\<rparr>))
         else read_upto fd 1023 [] fs \<bind> (\<lambda>(fs, bs).
           let st = st\<lparr>g_fs := Some (fst (ramfs_close fd fs))\<rparr> in
           Some (write_line (if text_contains (Some (c_text (chars_of bs))) (Some (argv ! 1)) then ''match'' else ''no-match'') st))) st)"

fun number_lines :: "u32 \<Rightarrow> cstring \<Rightarrow> cstring" where
  "number_lines line [] = []"
| "number_lines line (c # cs) =
     c # (if c = CHR 0x0A then write_dec (line + 1) @ '': '' @ number_lines (line + 1) cs else number_lines line cs)"

definition cmd_nl :: "'h command" where
  "cmd_nl argv = with_fs (\<lambda>fs st.
     if length argv < 2 then Some st
     else on_path (argv ! 1) ''nl <file>'' (\<lambda>p st.
       read_file p 128 fs \<bind> (\<lambda>(fs, r). let st = st\<lparr>g_fs := Some fs\<rparr> in
         case r of
           None \<Rightarrow> Some (write_line ''nl: file not found'' st)
         | Some bss \<Rightarrow> Some (write_line (write_dec 1 @ '': '' @ number_lines 1 (chars_of (concat bss))) st))) st)"

subsection \<open>Paths\<close>

definition path_of_arg :: "cstring \<Rightarrow> cstring list \<Rightarrow> (cstring \<Rightarrow> cstring) \<Rightarrow> 'h action" where
  "path_of_arg name argv f st =
     (let a = (if 2 \<le> length argv then argv ! 1 else cwd st) in
      if a \<noteq> [] \<and> hd a = slash then Some (write_line (f (copy_text a kMaxPath)) st)
      else case resolve_path (Some (cwd st)) (Some a) kMaxPath of
        None \<Rightarrow> Some (write_line (name @ '': invalid path'') st)
      | Some p \<Rightarrow> Some (write_line (f p) st))"

definition cmd_basename :: "'h command" where
  "cmd_basename argv = path_of_arg ''basename'' argv (\<lambda>p. path_basename (Some p))"

definition cmd_dirname :: "'h command" where
  "cmd_dirname argv = path_of_arg ''dirname'' argv (\<lambda>p. path_dirname p kMaxPath)"

definition cmd_pathjoin :: "'h command" where
  "cmd_pathjoin argv st =
     (if length argv < 3 then Some (write_line ''pathjoin <a> <b>'' st)
      else let a = argv ! 1 in
        case resolve_path (Some (if a \<noteq> [] \<and> hd a = slash then [slash] else cwd st)) (Some a) kMaxPath of
          None \<Rightarrow> Some (write_line ''pathjoin: invalid'' st)
        | Some joined \<Rightarrow> (case resolve_path (Some joined) (Some (argv ! 2)) kMaxPath of
            None \<Rightarrow> Some (write_line ''pathjoin: invalid'' st)
          | Some p \<Rightarrow> Some (write_line p st)))"

definition cmd_realpath :: "'h command" where
  "cmd_realpath argv = dir_arg argv ''realpath <path>'' (\<lambda>p st. Some (write_line p st))"

subsection \<open>Printing\<close>

definition cmd_echo :: "'h command" where
  "cmd_echo argv st = Some (write_line (concat (map (\<lambda>i. (if 1 < i then [CHR 0x20] else []) @ argv ! i) [1..<length argv])) st)"

definition cmd_clear :: "'h command" where
  "cmd_clear argv st = Some (emit (concat (replicate 30 [CHR 0x0D, CHR 0x0A])) st)"

definition cmd_whoami :: "'h command" where
  "cmd_whoami argv st = Some (write_line ''root'' st)"

definition cmd_history :: "'h command" where
  "cmd_history argv st =
     (if history_size (hist st) = 0 then Some (write_line ''history: empty'' st)
      else Some (emit (concat (map (\<lambda>i. ''  '' @ write_dec (of_nat i + 1) @ '': '' @
        (case history_at (hist st) i of None \<Rightarrow> [] | Some e \<Rightarrow> e) @ [CHR 0x0A]) [0..<history_size (hist st)])) st))"

definition cmd_exit_shell :: "'h command" where
  "cmd_exit_shell argv st = Some ((write_line ''leaving shell'' st)\<lparr>running := False\<rparr>)"

partial_function (option) seq_loop :: "u32 \<Rightarrow> u32 \<Rightarrow> u32 \<Rightarrow> cstring option" where
  "seq_loop v last_v step =
     (if last_v < v then Some []
      else if last_v - v < step then Some (write_dec v @ [CHR 0x0A])
      else seq_loop (v + step) last_v step \<bind> (\<lambda>t. Some (write_dec v @ CHR 0x0A # t)))"

definition seq_args :: "cstring list \<Rightarrow> cstring + u32 \<times> u32 \<times> u32" where
  "seq_args argv =
     (let usage = ''seq <end> | seq <start> <end> [step]'' in
      if length argv = 2 then (case parse_u32 (Some (argv ! 1)) of None \<Rightarrow> Inl usage | Some e \<Rightarrow> Inr (1, e, 1))
      else if 3 \<le> length argv then
        (case (parse_u32 (Some (argv ! 1)), parse_u32 (Some (argv ! 2))) of
           (Some s, Some e) \<Rightarrow>
             if 4 \<le> length argv then (case parse_u32 (Some (argv ! 3)) of None \<Rightarrow> Inl ''seq: invalid step'' | Some d \<Rightarrow> Inr (s, e, d))
             else Inr (s, e, 1)
         | _ \<Rightarrow> Inl usage)
      else Inl usage)"

definition cmd_seq :: "'h command" where
  "cmd_seq argv st =
     (case seq_args argv of
        Inl msg \<Rightarrow> Some (write_line msg st)
      | Inr (start, last_v, step) \<Rightarrow>
          if step = 0 \<or> last_v < start then Some (write_line ''seq: invalid range'' st)
          else map_option (\<lambda>t. emit t st) (seq_loop start last_v step))"

definition cmd_repeat :: "'h command" where
  "cmd_repeat argv st =
     (if length argv < 3 then Some (write_line ''repeat <n> <text...>'' st)
      else case parse_u32 (Some (argv ! 1)) of
        None \<Rightarrow> Some (write_line ''repeat: invalid n'' st)
      | Some n \<Rightarrow> Some (emit (concat (replicate (unat n) (join_rest_args argv 2 kMaxLine @ [CHR 0x0A]))) st))"

subsection \<open>The table of commands\<close>

text \<open>The table of commands. \<open>other\<close> stands for the handlers without a model: devices, processor, packages and power.\<close>

definition kCommands :: "'h new_bytes \<Rightarrow> (cstring \<Rightarrow> 'h command) \<Rightarrow> (cstring \<times> 'h command) list" where
  "kCommands nb other =
     [(''help'', other ''help''), (''?'', other ''help''), (''man'', other ''help''), (''commands'', other ''help''),
      (''cmds'', other ''help''), (''apropos'', other ''help''), (''usage'', other ''help''), (''h'', other ''help''),
      (''clear'', cmd_clear), (''cls'', cmd_clear), (''reset'', cmd_clear), (''clean'', cmd_clear), (''wipe'', cmd_clear),
      (''screen'', cmd_clear), (''whoami'', cmd_whoami), (''iam'', cmd_whoami), (''user'', cmd_whoami), (''me'', cmd_whoami),
      (''id'', other ''id''), (''identity'', other ''id''), (''uidgid'', other ''id''), (''pwd'', cmd_pwd), (''cwd'', cmd_pwd),
      (''whereami'', cmd_pwd), (''here'', cmd_pwd), (''cd'', cmd_cd), (''chdir'', cmd_cd), (''changedir'', cmd_cd),
      (''goto'', cmd_cd), (''ld'', cmd_ld), (''dir'', cmd_ld), (''ll'', cmd_ld), (''la'', cmd_ld), (''l'', cmd_ld),
      (''list'', cmd_ld), (''listdir'', cmd_ld), (''contents'', cmd_ld), (''browse'', cmd_ld), (''showdir'', cmd_ld),
      (''showfiles'', cmd_ld), (''list-directory'', cmd_ld), (''md'', cmd_md), (''mk'', cmd_md), (''makedir'', cmd_md),
      (''newdir'', cmd_md), (''createdir'', cmd_md), (''create-dir'', cmd_md), (''rd'', cmd_rd), (''rd'', cmd_rd),
      (''rmd'', cmd_rd), (''removedir'', cmd_rd), (''deldir'', cmd_rd), (''delete-dir'', cmd_rd), (''remove-dir'', cmd_rd),
      (''cat'', cmd_cat), (''print'', cmd_cat), (''type'', cmd_cat), (''more'', cmd_cat), (''less'', cmd_cat),
      (''show'', cmd_cat), (''view'', cmd_cat), (''read'', cmd_cat), (''display'', cmd_cat), (''dump'', cmd_cat),
      (''readfile'', cmd_cat), (''touch'', cmd_touch), (''create'', cmd_touch), (''newfile'', cmd_touch),
      (''mkfile'', cmd_touch), (''createfile'', cmd_touch), (''new-file'', cmd_touch), (''create-file'', cmd_touch),
      (''rm'', cmd_rm), (''del'', cmd_rm), (''erase'', cmd_rm), (''delete'', cmd_rm), (''unlink'', cmd_rm),
      (''remove'', cmd_rm), (''trash'', cmd_rm), (''echo'', cmd_echo), (''say'', cmd_echo), (''speak'', cmd_echo),
      (''printline'', cmd_echo), (''printf'', cmd_echo), (''cp'', cmd_cp nb), (''copy'', cmd_cp nb),
      (''duplicate'', cmd_cp nb), (''dup'', cmd_cp nb), (''clone'', cmd_cp nb), (''mv'', cmd_mv nb), (''move'', cmd_mv nb),
      (''rename'', cmd_mv nb), (''ren'', cmd_mv nb), (''head'', cmd_head), (''first'', cmd_head), (''top'', cmd_head),
      (''tail'', cmd_tail), (''last'', cmd_tail), (''bottom'', cmd_tail), (''wc'', cmd_wc), (''count'', cmd_wc),
      (''metrics'', cmd_wc), (''cmp'', cmd_cmp), (''diff'', cmd_cmp), (''compare'', cmd_cmp), (''stat'', cmd_stat),
      (''info'', cmd_stat), (''fileinfo'', cmd_stat), (''status'', cmd_stat), (''details'', cmd_stat), (''tree'', cmd_tree),
      (''treedir'', cmd_tree), (''lsr'', cmd_tree), (''env'', other ''env''), (''set'', other ''env''),
      (''vars'', other ''env''), (''printenv'', other ''env''), (''uname'', other ''uname''), (''ver'', other ''uname''),
      (''version'', other ''uname''), (''about'', other ''uname''), (''sysinfo'', other ''uname''),
      (''kernel'', other ''uname''), (''cpu'', other ''cpu''), (''cpuid'', other ''cpu''), (''lscpu'', other ''cpu''),
      (''hwinfo'', other ''cpu''), (''lspci'', other ''pci''), (''pci'', other ''pci''), (''lshid'', other ''hid''),
      (''lskb'', other ''keyboard''), (''hid'', other ''hid''), (''kbd'', other ''keyboard''),
      (''keyboard'', other ''keyboard''), (''ahci'', other ''ahci''), (''devices'', other ''devices''),
      (''devs'', other ''devices''), (''lsdev'', other ''devices''), (''lsdevices'', other ''devices''),
      (''drivers'', other ''drivers''), (''lsdrv'', other ''drivers''), (''drvs'', other ''drivers''),
      (''modules'', other ''drivers''), (''history'', cmd_history), (''hlist'', cmd_history), (''df'', other ''df''),
      (''disk'', other ''df''), (''storage'', other ''df''), (''lsdisk'', other ''lsblk''), (''lsblk'', other ''lsblk''),
      (''sync'', other ''sync''), (''apt'', other ''pkg''), (''apt-get'', other ''pkg''), (''pkg'', other ''pkg''),
      (''pkgmgr'', other ''pkg''), (''basename'', cmd_basename), (''base'', cmd_basename), (''dirname'', cmd_dirname),
      (''dirbase'', cmd_dirname), (''exists'', cmd_exists), (''test-exists'', cmd_exists), (''isfile'', cmd_isfile),
      (''test-file'', cmd_isfile), (''isdir'', cmd_isdir), (''test-dir'', cmd_isdir), (''size'', cmd_size),
      (''filesize'', cmd_size), (''write'', cmd_write nb), (''overwrite'', cmd_write nb), (''append'', cmd_append nb),
      (''appendfile'', cmd_append nb), (''truncate'', cmd_truncate nb), (''truncatefile'', cmd_truncate nb), (''nl'', cmd_nl),
      (''number-lines'', cmd_nl), (''hexdump'', other ''hexdump''), (''xxd'', other ''hexdump''), (''find'', cmd_find),
      (''walk'', cmd_find), (''grep'', cmd_grep), (''search'', cmd_grep), (''sleep'', other ''sleep''),
      (''pause'', other ''sleep''), (''tick'', other ''tick''), (''ticks'', other ''tick''), (''uptime'', other ''uptime''),
      (''up'', other ''uptime''), (''ps'', other ''ps''), (''proc'', other ''ps''), (''tasks'', other ''ps''),
      (''meminfo'', other ''meminfo''), (''mem'', other ''meminfo''), (''free'', other ''free''), (''pathjoin'', cmd_pathjoin),
      (''joinpath'', cmd_pathjoin), (''realpath'', cmd_realpath), (''normpath'', cmd_realpath), (''seq'', cmd_seq),
      (''range'', cmd_seq), (''repeat'', cmd_repeat), (''repeattext'', cmd_repeat), (''catb'', cmd_catb),
      (''catraw'', cmd_catb), (''countdir'', cmd_countdir), (''dircount'', cmd_countdir), (''touchmany'', cmd_touchmany),
      (''mkfiles'', cmd_touchmany), (''rmmany'', cmd_rmmany), (''rmfiles'', cmd_rmmany), (''true'', other ''ctrue''),
      (''yes'', other ''ctrue''), (''false'', other ''cfalse''), (''no'', other ''cfalse''), (''halt'', other ''halt''),
      (''exit'', cmd_exit_shell), (''quit'', cmd_exit_shell), (''logoff'', cmd_exit_shell), (''shutdown'', other ''poweroff''),
      (''stdn'', other ''poweroff''), (''poweroff'', other ''poweroff''), (''stop'', other ''halt''),
      (''off'', other ''halt''), (''powerdown'', other ''halt''), (''reboot'', other ''reboot''),
      (''restart'', other ''reboot''), (''rbt'', other ''reboot''), (''warmboot'', other ''reboot''),
      (''reset-machine'', other ''reboot'')]"

subsection \<open>The loop of \<open>seq\<close>\<close>

text \<open>
  \<open>seq\<close> always ends and prints its whole range: for every start not above the end and every step but zero,
  also when the next number would pass \<open>2 ^ 32\<close>, the loop prints start, start + step and so on up to the end.
\<close>

theorem seq_loop_range:
  assumes "step \<noteq> 0" "v \<le> last_v"
  shows "seq_loop v last_v step =
    Some (concat (map (\<lambda>k. write_dec (v + of_nat k * step) @ [CHR 0x0A]) [0..<Suc ((unat last_v - unat v) div unat step)]))"
  using assms
proof (induction "unat last_v - unat v" arbitrary: v rule: less_induct)
  case less
  have d: "unat (last_v - v) = unat last_v - unat v" using less.prems(2) by (simp add: unat_sub)
  have s: "0 < unat step" using less.prems(1) by (simp add: unat_gt_0)
  show ?case
  proof (cases "last_v - v < step")
    case True
    then have "(unat last_v - unat v) div unat step = 0" using d by (simp add: word_less_nat_alt)
    then show ?thesis using True less.prems(2) by (subst seq_loop.simps) auto
  next
    case False
    then have le: "unat step \<le> unat last_v - unat v" using d by (simp add: word_less_nat_alt not_less)
    have lv: "unat v + unat step \<le> unat last_v" using le less.prems(2) by (simp add: word_le_nat_alt)
    moreover have "unat last_v < 2 ^ LENGTH(32)" by (rule unsigned_less)
    ultimately have u: "unat (v + step) = unat v + unat step" by (intro unat_add_lem [THEN iffD1]) simp
    let ?q = "(unat last_v - unat (v + step)) div unat step"
    have q: "(unat last_v - unat v) div unat step = Suc ?q"
      using le s div_add_self2 [of "unat step" "unat last_v - unat (v + step)"] u by (simp add: le_div_geq)
    have "seq_loop (v + step) last_v step =
        Some (concat (map (\<lambda>k. write_dec (v + step + of_nat k * step) @ [CHR 0x0A]) [0..<Suc ?q]))"
      using less.hyps [of "v + step"] less.prems u lv s by (simp add: word_le_nat_alt)
    moreover have "[0..<Suc (Suc ?q)] = 0 # map Suc [0..<Suc ?q]" by (simp add: map_Suc_upt upt_conv_Cons del: upt_Suc)
    ultimately show ?thesis unfolding q using False less.prems(2)
      by (subst seq_loop.simps) (auto simp: comp_def algebra_simps simp del: upt_Suc)
  qed
qed

theorem seq_loop_range_witness: "seq_loop 0xFFFFFFFE 0xFFFFFFFF 5 = Some (''4294967294'' @ [CHR 0x0A])"
proof -
  have "write_dec 0xFFFFFFFE = ''4294967294''" by code_simp
  then show ?thesis using seq_loop_range [of "5" "0xFFFFFFFE" "0xFFFFFFFF"] by simp
qed

end
