(* ===== verification/Shell_Text_Correct.thy ===== *)
theory Shell_Text_Correct
  imports Shell_Text
begin

text \<open>
  What the text functions of the shell compute: the least number of edits, the meaning of \<open>.\<close> and \<open>..\<close> in
  paths, numbers that read back as printed, and arguments that come back as quoted.
\<close>

subsection \<open>Edit distance is the least number of edits\<close>

text \<open>One edit inserts, removes or replaces a character.\<close>

inductive edit1 :: "cstring \<Rightarrow> cstring \<Rightarrow> bool" where
  insert: "edit1 (u @ v) (u @ x # v)"
| remove: "edit1 (u @ x # v) (u @ v)"
| replace: "edit1 (u @ x # v) (u @ y # v)"

text \<open>A way to line two texts up, with the number of places at which they differ.\<close>

inductive aligned :: "nat \<Rightarrow> cstring \<Rightarrow> cstring \<Rightarrow> bool" where
  nil: "aligned 0 [] []"
| keep: "aligned n a b \<Longrightarrow> aligned n (c # a) (c # b)"
| subst: "aligned n a b \<Longrightarrow> aligned (Suc n) (c # a) (d # b)"
| ins: "aligned n a b \<Longrightarrow> aligned (Suc n) a (d # b)"
| del: "aligned n a b \<Longrightarrow> aligned (Suc n) (c # a) b"

fun lev :: "cstring \<Rightarrow> cstring \<Rightarrow> nat" where
  "lev [] b = length b"
| "lev a [] = length a"
| "lev (c # a) (d # b) = min3 (lev a (d # b) + 1) (lev (c # a) b + 1) (lev a b + (if c = d then 0 else 1))"

lemma min3_le: "min3 a b c \<le> a" "min3 a b c \<le> b" "min3 a b c \<le> c"
  by (auto simp: min3_def Let_def)

lemma min3_cases: "min3 a b c = a \<or> min3 a b c = b \<or> min3 a b c = c"
  by (auto simp: min3_def Let_def)

lemma aligned_refl: "aligned 0 a a"
  by (induction a) (auto intro: aligned.intros)

lemma aligned_Nil: "aligned (length b) [] b" "aligned (length a) a []"
  by (induction b, auto intro: aligned.intros) (induction a, auto intro: aligned.intros)

lemma aligned_lev: "aligned (lev a b) a b"
proof (induction a b rule: lev.induct)
  case (3 c a d b)
  have "aligned (lev a (d # b) + 1) (c # a) (d # b)" "aligned (lev (c # a) b + 1) (c # a) (d # b)"
    "aligned (lev a b + (if c = d then 0 else 1)) (c # a) (d # b)"
    using 3 by (auto intro: aligned.intros)
  then show ?case
    using min3_cases [of "lev a (d # b) + 1" "lev (c # a) b + 1" "lev a b + (if c = d then 0 else 1)"] by (metis lev.simps(3))
next
  case (1 b)
  then show ?case by (simp add: aligned_Nil)
next
  case (2 c a)
  then show ?case using aligned_Nil(2) [of "c # a"] by simp
qed

lemma lev_Nil2: "lev a [] = length a"
  by (cases a) simp_all

lemma lev_steps: "lev a (d # b) \<le> Suc (lev a b)" "lev (c # a) b \<le> Suc (lev a b)"
  "lev (c # a) (d # b) \<le> Suc (lev a b)" "lev (c # a) (c # b) \<le> lev a b"
  subgoal by (cases a) (use min3_le(2) in \<open>auto simp del: One_nat_def simp: Suc_eq_plus1\<close>)
  subgoal by (cases b) (use min3_le(1) in \<open>auto simp del: One_nat_def simp: Suc_eq_plus1 lev_Nil2\<close>)
  subgoal using min3_le(3) [of "lev a (d # b) + 1" "lev (c # a) b + 1" "lev a b + (if c = d then 0 else 1)"] by (auto split: if_splits)
  subgoal using min3_le(3) [of "lev a (c # b) + 1" "lev (c # a) b + 1" "lev a b"] by simp
  done

lemma lev_least: "aligned n a b \<Longrightarrow> lev a b \<le> n"
proof (induction rule: aligned.induct)
  case (keep n a b c)
  then show ?case using lev_steps(4) [of c a b] by linarith
next
  case (subst n a b c d)
  then show ?case using lev_steps(3) [of c a d b] by linarith
next
  case (ins n a b d)
  then show ?case using lev_steps(1) [of a d b] by linarith
next
  case (del n a b c)
  then show ?case using lev_steps(2) [of c a b] by linarith
qed simp

lemma aligned_append: "aligned n a b \<Longrightarrow> aligned m a' b' \<Longrightarrow> aligned (n + m) (a @ a') (b @ b')"
  by (induction rule: aligned.induct) (auto intro: aligned.intros)

lemma aligned_rev: "aligned n a b \<Longrightarrow> aligned n (rev a) (rev b)"
proof (induction rule: aligned.induct)
  case (keep n a b c)
  then show ?case using aligned_append [OF _ aligned_refl [of "[c]"]] by fastforce
next
  case (subst n a b c d)
  have "aligned 1 [c] [d]" using aligned.subst [OF aligned.nil] by simp
  with subst show ?case using aligned_append by fastforce
next
  case (ins n a b d)
  have "aligned 1 [] [d]" using aligned.ins [OF aligned.nil] by simp
  with ins show ?case using aligned_append by fastforce
next
  case (del n a b c)
  have "aligned 1 [c] []" using aligned.del [OF aligned.nil] by simp
  with del show ?case using aligned_append by fastforce
qed (simp add: aligned.nil)

lemma lev_rev: "lev (rev a) (rev b) = lev a b"
proof (rule antisym)
  show "lev (rev a) (rev b) \<le> lev a b" by (rule lev_least [OF aligned_rev [OF aligned_lev]])
  show "lev a b \<le> lev (rev a) (rev b)" using lev_least [OF aligned_rev [OF aligned_lev [of "rev a" "rev b"]]] by simp
qed

lemma aligned_split: "aligned n a (u @ v) \<Longrightarrow> \<exists>k m a1 a2. n = k + m \<and> a = a1 @ a2 \<and> aligned k a1 u \<and> aligned m a2 v"
proof (induction n a "u @ v" arbitrary: u rule: aligned.induct)
  case nil
  then show ?case by (auto intro: aligned.nil)
next
  case (keep n a b c)
  show ?case
  proof (cases u)
    case Nil
    then show ?thesis using keep aligned.nil aligned.keep by (metis add_0 append_Nil)
  next
    case (Cons x u')
    with keep obtain k m a1 a2 where "n = k + m" "a = a1 @ a2" "aligned k a1 u'" "aligned m a2 v" by auto
    with keep Cons show ?thesis by (metis Cons_eq_append_conv aligned.keep list.inject)
  qed
next
  case (subst n a b c d)
  show ?case
  proof (cases u)
    case Nil
    then show ?thesis using subst aligned.nil aligned.subst by (metis add_0 append_Nil)
  next
    case (Cons x u')
    with subst obtain k m a1 a2 where 1: "n = k + m" "a = a1 @ a2" "aligned k a1 u'" "aligned m a2 v" by auto
    then have "aligned (Suc k) (c # a1) u" using Cons aligned.subst by blast
    then show ?thesis using 1 by (intro exI [of _ "Suc k"] exI [of _ m] exI [of _ "c # a1"] exI [of _ a2]) simp
  qed
next
  case (ins n a b d)
  show ?case
  proof (cases u)
    case Nil
    then show ?thesis using ins aligned.nil aligned.ins by (metis add_0 append_Nil)
  next
    case (Cons x u')
    with ins obtain k m a1 a2 where 1: "n = k + m" "a = a1 @ a2" "aligned k a1 u'" "aligned m a2 v" by auto
    then have "aligned (Suc k) a1 u" using Cons aligned.ins by blast
    then show ?thesis using 1 by (intro exI [of _ "Suc k"] exI [of _ m] exI [of _ a1] exI [of _ a2]) simp
  qed
next
  case (del n a c)
  then obtain k m a1 a2 where 1: "n = k + m" "a = a1 @ a2" "aligned k a1 u" "aligned m a2 v" by blast
  then have "aligned (Suc k) (c # a1) u" using aligned.del by blast
  then show ?case using 1 by (intro exI [of _ "Suc k"] exI [of _ m] exI [of _ "c # a1"] exI [of _ a2]) simp
qed

lemma aligned_drop: "aligned n a (x # v) \<Longrightarrow> \<exists>m \<le> Suc n. aligned m a v"
proof (induction n a "x # v" rule: aligned.induct)
  case (del n a c)
  then show ?case by (meson Suc_le_mono aligned.del)
qed (auto intro: aligned.intros le_SucI)

lemma aligned_change: "aligned n a (x # v) \<Longrightarrow> \<exists>m \<le> Suc n. aligned m a (y # v)"
proof (induction n a "x # v" rule: aligned.induct)
  case (del n a c)
  then show ?case by (meson Suc_le_mono aligned.del)
qed (auto intro: aligned.intros le_SucI)

lemma aligned_edit1: "edit1 b c \<Longrightarrow> aligned n a b \<Longrightarrow> \<exists>m \<le> Suc n. aligned m a c"
proof (induction rule: edit1.induct)
  case (insert u v x)
  then obtain k m a1 a2 where "n = k + m" "a = a1 @ a2" "aligned k a1 u" "aligned m a2 v" using aligned_split by blast
  then show ?case using aligned_append [OF _ aligned.ins, of k a1 u m a2 v x] by auto
next
  case (remove u x v)
  then obtain k m a1 a2 where 1: "n = k + m" "a = a1 @ a2" "aligned k a1 u" "aligned m a2 (x # v)" using aligned_split by blast
  from aligned_drop [OF 1(4)] obtain m' where "m' \<le> Suc m" "aligned m' a2 v" by blast
  then show ?case using 1 aligned_append [of k a1 u m' a2 v] by (intro exI [of _ "k + m'"]) simp
next
  case (replace u x v y)
  then obtain k m a1 a2 where 1: "n = k + m" "a = a1 @ a2" "aligned k a1 u" "aligned m a2 (x # v)" using aligned_split by blast
  from aligned_change [OF 1(4)] obtain m' where "m' \<le> Suc m" "aligned m' a2 (y # v)" by blast
  then show ?case using 1 aligned_append [of k a1 u m' a2 "y # v"] by (intro exI [of _ "k + m'"]) simp
qed

lemma edits_aligned: "(edit1 ^^ n) a b \<Longrightarrow> \<exists>m \<le> n. aligned m a b"
proof (induction n arbitrary: b)
  case 0
  then show ?case using aligned_refl by auto
next
  case (Suc n)
  then obtain c where "(edit1 ^^ n) a c" "edit1 c b" by auto
  with Suc.IH obtain m where "m \<le> n" "aligned m a c" by blast
  with aligned_edit1 [OF \<open>edit1 c b\<close>] show ?case by (meson Suc_le_mono order_trans)
qed

lemma edit1_Cons:
  assumes "edit1 a b"
  shows "edit1 (c # a) (c # b)"
  using assms
proof (cases rule: edit1.cases)
  case (insert u v x)
  then show ?thesis using edit1.insert [of "c # u" v x] by simp
next
  case (remove u x v)
  then show ?thesis using edit1.remove [of "c # u" x v] by simp
next
  case (replace u x v y)
  then show ?thesis using edit1.replace [of "c # u" x v y] by simp
qed

lemma edits_Cons: "(edit1 ^^ n) a b \<Longrightarrow> (edit1 ^^ n) (c # a) (c # b)"
  by (induction n arbitrary: b) (auto intro: edit1_Cons)

lemma aligned_edits: "aligned n a b \<Longrightarrow> (edit1 ^^ n) a b"
proof (induction rule: aligned.induct)
  case (subst n a b c d)
  then show ?case using edits_Cons [of n a b c] edit1.replace [of "[]" c b d] by auto
next
  case (ins n a b d)
  then show ?case using edit1.insert [of "[]" b d] by auto
next
  case (del n a b c)
  then show ?case using edits_Cons [of n a b c] edit1.remove [of "[]" c b] by auto
qed (auto intro: edits_Cons)

text \<open>The rows of the table, \<open>p\<close> the reversed beginning of the second text.\<close>

fun lev_row :: "cstring \<Rightarrow> cstring \<Rightarrow> cstring \<Rightarrow> nat list" where
  "lev_row u p [] = [lev u p]"
| "lev_row u p (b # bs) = lev u p # lev_row u (b # p) bs"

lemma lev_row_Cons: "\<exists>r. lev_row u p bs = lev u p # r"
  by (cases bs) simp_all

lemma edit_row_lev: "edit_row c (lev (c # u) p) (lev_row u p bs) bs = tl (lev_row (c # u) p bs)"
proof (induction bs arbitrary: p)
  case (Cons b bs)
  obtain r r' where "lev_row u (b # p) bs = lev u (b # p) # r" "lev_row (c # u) (b # p) bs = lev (c # u) (b # p) # r'"
    using lev_row_Cons by metis
  with Cons.IH [of "b # p"] show ?case by (simp add: Let_def)
qed simp

lemma lev_row_start: "[length p..<length p + length bs + 1] = lev_row [] p bs"
proof (induction bs arbitrary: p)
  case (Cons b bs)
  from Cons.IH [of "b # p"] show ?case by (simp add: upt_conv_Cons del: upt_Suc)
qed simp

lemma edit_rows_lev: "edit_rows (Suc (length u)) a b (lev_row u [] b) = lev_row (rev a @ u) [] b"
proof (induction a arbitrary: u)
  case (Cons c a)
  obtain r where "lev_row (c # u) [] b = lev (c # u) [] # r" using lev_row_Cons by metis
  with edit_row_lev [of c u "[]" b] Cons.IH [of "c # u"] show ?case by simp
qed simp

lemma lev_row_last: "lev_row u p bs ! length bs = lev u (rev bs @ p)"
  by (induction bs arbitrary: p) simp_all

lemma edit_distance_lev: "length a \<le> 32 \<Longrightarrow> length b \<le> 32 \<Longrightarrow> edit_distance a b = lev a b"
  using lev_row_start [of "[]" b] edit_rows_lev [of "[]" a b] lev_row_last [of "rev a" "[]" b] lev_rev [of a b]
  by (simp add: edit_distance_def del: upt_Suc)

text \<open>
  C18. The distance by which the shell suggests a name is the least number of insertions, removals and
  replacements of one character that turn one text into the other, for texts of at most 32 characters.
\<close>

theorem edit_distance_least:
  assumes "length a \<le> 32" "length b \<le> 32"
  shows "(edit1 ^^ edit_distance a b) a b \<and> (\<forall>n. (edit1 ^^ n) a b \<longrightarrow> edit_distance a b \<le> n)"
  using aligned_edits [OF aligned_lev] edits_aligned lev_least edit_distance_lev [OF assms]
  by (metis order_trans)

theorem edit_distance_least_witness:
  "edit_distance ''mkdri'' ''mkdir'' = 2 \<and> (edit1 ^^ 2) ''mkdri'' ''mkdir'' \<and> \<not> (edit1 ^^ 1) ''mkdri'' ''mkdir''"
proof -
  have 2: "edit_distance ''mkdri'' ''mkdir'' = 2" by code_simp
  moreover have "(edit1 ^^ edit_distance ''mkdri'' ''mkdir'') ''mkdri'' ''mkdir''"
    "(edit1 ^^ 1) ''mkdri'' ''mkdir'' \<longrightarrow> edit_distance ''mkdri'' ''mkdir'' \<le> 1"
    using edit_distance_least [of "''mkdri''" "''mkdir''"] by auto
  ultimately show ?thesis by (auto simp del: One_nat_def)
qed

subsection \<open>Suggestions\<close>

lemma best_match_least:
  "best_match name xs (best, score) = (r, k) \<Longrightarrow>
   k \<le> score \<and> (\<forall>x \<in> set xs. k \<le> edit_distance name x) \<and> (r = best \<and> k = score \<or> (\<exists>x \<in> set xs. r = Some x \<and> k = edit_distance name x))"
proof (induction xs arbitrary: best score)
  case (Cons x xs)
  show ?case
  proof (cases "edit_distance name x < score")
    case True
    then show ?thesis using Cons.IH [of "Some x" "edit_distance name x"] Cons.prems by (fastforce simp: Let_def)
  next
    case False
    then show ?thesis using Cons.IH [of best score] Cons.prems by (fastforce simp: Let_def)
  qed
qed simp

text \<open>A suggested command is one of the table, and none is nearer to what was typed.\<close>

lemma suggest_command_nearest:
  assumes "suggest_command cmds name = Some c"
  shows "c \<in> set cmds \<and> edit_distance name c \<le> 3 \<and> (\<forall>x \<in> set cmds. edit_distance name c \<le> edit_distance name x)"
proof -
  obtain r k where b: "best_match name cmds (None, 0xFFFFFFFF) = (r, k)" by fastforce
  with assms have "r = Some c" "k \<le> 3" by (auto simp: suggest_command_def split: option.splits if_splits)
  with best_match_least [OF b] show ?thesis by auto
qed

subsection \<open>Paths\<close>

text \<open>What a name in a path does to the directory reached so far.\<close>

definition follow :: "cstring list \<Rightarrow> cstring \<Rightarrow> cstring list" where
  "follow dir c = (if c = ''.'' then dir else if c = ''..'' then butlast dir else dir @ [c])"

text \<open>The directory never gets deeper than the table of segments allows.\<close>

fun shallow :: "cstring list \<Rightarrow> cstring list \<Rightarrow> bool" where
  "shallow dir [] = True"
| "shallow dir (c # cs) \<longleftrightarrow> length (follow dir c) \<le> 16 \<and> shallow (follow dir c) cs"

lemma follow_simps: "follow dir ''.'' = dir" "follow dir ''..'' = butlast dir"
  "c \<noteq> ''.'' \<Longrightarrow> c \<noteq> ''..'' \<Longrightarrow> follow dir c = dir @ [c]"
  by (simp_all add: follow_def)

lemma seg_loop_Cons:
  "c \<noteq> slash \<Longrightarrow> seg_loop (c # cs) segs =
     (let seg = c # takeWhile (\<lambda>x. x \<noteq> slash) cs in
      if length (follow segs seg) \<le> 16 \<or> seg = ''.'' \<or> seg = ''..'' then seg_loop (dropWhile (\<lambda>x. x \<noteq> slash) cs) (follow segs seg)
      else None)"
  by (simp add: follow_def Let_def)

lemma seg_loop_follow:
  "length segs \<le> 16 \<Longrightarrow>
   seg_loop s segs = (if shallow segs (components s) then Some (foldl follow segs (components s)) else None)"
proof (induction s arbitrary: segs rule: components.induct)
  case (2 c cs)
  show ?case
  proof (cases "c = slash")
    case False
    let ?seg = "c # takeWhile (\<lambda>x. x \<noteq> slash) cs"
    have "?seg = ''.'' \<or> ?seg = ''..'' \<Longrightarrow> length (follow segs ?seg) \<le> 16"
      using "2.prems" by (elim disjE; simp only: follow_simps; simp)
    with False have "seg_loop (c # cs) segs =
        (if length (follow segs ?seg) \<le> 16 then seg_loop (dropWhile (\<lambda>x. x \<noteq> slash) cs) (follow segs ?seg) else None)"
      unfolding seg_loop_Cons [OF False] Let_def by (intro if_cong) blast+
    then show ?thesis using "2.IH"(2) [OF False, of "follow segs ?seg"] False by simp
  qed (use 2 in simp)
qed simp

abbreviation (input) slashed :: "cstring list \<Rightarrow> cstring" where
  "slashed cs \<equiv> concat (map (\<lambda>c. slash # c) cs)"

lemma put_segs_more:
  "list_all (\<lambda>c. c \<noteq> []) ss \<Longrightarrow> length out < n \<Longrightarrow>
   put_segs n False ss out = (if length (out @ slashed ss) < n then Some (out @ slashed ss) else None)"
proof (induction ss arbitrary: out)
  case (Cons s ss)
  then show ?case using Cons.IH [of "out @ slash # s"] by (auto simp: Let_def)
qed simp

lemma put_segs_path:
  assumes "valid_names ss" "ss \<noteq> []" "2 \<le> n"
  shows "put_segs n True ss [slash] = (if length (path_of ss) < n then Some (path_of ss) else None)"
proof -
  obtain s r where "ss = s # r" using assms(2) by (cases ss) auto
  with assms put_segs_more [of r "slash # s" n] show ?thesis by (auto simp: path_of_def valid_names_def list_all_iff)
qed

lemma follow_valid: "valid_names dir \<Longrightarrow> valid_names cs \<Longrightarrow> valid_names (foldl follow dir cs)"
  proof (induction cs arbitrary: dir)
  case (Cons c cs)
  have "valid_names (butlast dir)" using Cons.prems(1) by (auto simp: valid_names_def list_all_iff dest: in_set_butlastD)
  moreover have "valid_names (dir @ [c])" "valid_names cs" using Cons.prems by (simp_all add: valid_names_def)
  ultimately have "valid_names (follow dir c)" using Cons.prems(1) unfolding follow_def by presburger
  with Cons.IH \<open>valid_names cs\<close> show ?case by simp
qed simp

lemma normalize_absolute_path_eq:
  assumes "2 \<le> n"
  shows "normalize_absolute_path (Some (slash # p)) n =
    (let dir = foldl follow [] (components p) in
     if shallow [] (components p) \<and> length (path_of dir) < n then Some (path_of dir) else None)"
  using assms seg_loop_follow [of "[]" p] put_segs_path [of "foldl follow [] (components p)" n]
    follow_valid [OF _ valid_names_components, of "[]" p]
  by (auto simp: normalize_absolute_path_def Let_def path_of_def valid_names_def)

lemma slashed_components: "length (slashed (components p)) \<le> Suc (length p)"
  "p = [] \<or> hd p = slash \<Longrightarrow> length (slashed (components p)) \<le> length p"
proof (induction p rule: components.induct)
  case (2 c cs)
  let ?d = "dropWhile (\<lambda>x. x \<noteq> slash) cs"
  have d: "?d = [] \<or> hd ?d = slash" using hd_dropWhile [of "\<lambda>x. x \<noteq> slash" cs] by blast
  have "length (takeWhile (\<lambda>x. x \<noteq> slash) cs) + length ?d = length cs" by (metis length_append takeWhile_dropWhile_id)
  then have *: "length (slashed (components (c # cs))) \<le> Suc (length (c # cs))" if "c \<noteq> slash"
    using "2.IH"(4) [OF that d] that by simp
  show "length (slashed (components (c # cs))) \<le> Suc (length (c # cs))"
    using "2.IH"(1) * by (cases "c = slash") simp_all
  show "length (slashed (components (c # cs))) \<le> length (c # cs)" if "c # cs = [] \<or> hd (c # cs) = slash"
    using "2.IH"(1) that by simp
qed simp_all

lemma slashed_follow: "length (slashed (foldl follow dir cs)) \<le> length (slashed dir) + length (slashed cs)"
proof (induction cs arbitrary: dir)
  case (Cons c cs)
  have "length (slashed (butlast dir)) \<le> length (slashed dir)" by (cases dir rule: rev_cases) auto
  then have "length (slashed (follow dir c)) \<le> length (slashed dir) + Suc (length c)" by (auto simp: follow_def)
  with Cons.IH [of "follow dir c"] show ?case by simp
qed simp

lemma resolved_fits: "Suc (length p) < n \<Longrightarrow> length (path_of (foldl follow [] (components p))) < n"
  using slashed_follow [of "[]" "components p"] slashed_components(1) [of p] by (auto simp: path_of_def)

lemma no_char: "c \<notin> set w \<Longrightarrow> takeWhile (\<lambda>x. x \<noteq> c) (w @ c # q) = w" "c \<notin> set w \<Longrightarrow> dropWhile (\<lambda>x. x \<noteq> c) (w @ c # q) = c # q"
  "c \<notin> set w \<Longrightarrow> takeWhile (\<lambda>x. x \<noteq> c) w = w" "c \<notin> set w \<Longrightarrow> dropWhile (\<lambda>x. x \<noteq> c) w = []"
  by (induction w) auto

lemma components_slash_append: "components (p @ slash # q) = components p @ components q"
proof (induction p rule: components.induct)
  case (2 c cs)
  show ?case
  proof (cases "c = slash \<or> slash \<in> set cs")
    case True
    then show ?thesis using 2 by (auto simp: dropWhile_append1 takeWhile_append1)
  next
    case False
    then show ?thesis by (simp add: no_char)
  qed
qed simp

text \<open>
  C19. The shell resolves a path as its names say: from the root for a path that starts with a slash and
  from the current directory otherwise, \<open>.\<close> stays and \<open>..\<close> goes one directory up, never above the root. For texts
  that fit the buffer, the result is exactly that path, unless it gets deeper than sixteen names on the way.
\<close>

theorem resolve_path_follows:
  assumes "cwd \<noteq> []" "hd cwd = slash" "length cwd + length input < 63"
  shows "resolve_path (Some cwd) (Some input) 64 =
    (let names = (if input \<noteq> [] \<and> hd input = slash then components input else components cwd @ components input) in
     if shallow [] names then Some (path_of (foldl follow [] names)) else None)"
proof (cases "input \<noteq> [] \<and> hd input = slash")
  case True
  then obtain p where p: "input = slash # p" by (cases input) auto
  then show ?thesis
    using assms normalize_absolute_path_eq [of 64 p] resolved_fits [of p 64] by (simp add: resolve_path_def Let_def)
next
  case False
  obtain q where q: "cwd = slash # q" using assms by (cases cwd) auto
  show ?thesis
  proof (cases "q = []")
    case True
    then show ?thesis using False q assms normalize_absolute_path_eq [of 64 input] resolved_fits [of input 64]
      by (auto simp: resolve_path_def Let_def)
  next
    case ne: False
    have c: "components (q @ slash # input) = components cwd @ components input" using components_slash_append q by simp
    have "resolve_path (Some cwd) (Some input) 64 = normalize_absolute_path (Some (slash # q @ slash # input)) 64"
      using False ne q assms by (auto simp: resolve_path_def Let_def)
    then show ?thesis
      using False c assms q normalize_absolute_path_eq [of 64 "q @ slash # input"] resolved_fits [of "q @ slash # input" 64]
      by (auto simp: Let_def)
  qed
qed

theorem resolve_path_follows_witness:
  "resolve_path (Some ''/root/docs'') (Some ''../.././etc//hosts'') 64 = Some ''/etc/hosts''"
proof -
  have c: "components ''/root/docs'' @ components ''../.././etc//hosts'' = [''root'', ''docs'', ''..'', ''..'', ''.'', ''etc'', ''hosts'']"
    by code_simp
  show ?thesis
    using resolve_path_follows [of "''/root/docs''" "''../.././etc//hosts''"]
    by (simp add: c del: components.simps) (simp add: follow_def path_of_def)
qed

text \<open>A longer path is cut to fit the buffer without a word, and names another file.\<close>

lemma resolve_path_truncates:
  "resolve_path (Some ''/'') (Some (slash # replicate 62 CHR ''a'' @ ''bcd'')) 64 = Some (slash # replicate 62 CHR ''a'')"
  by code_simp

subsection \<open>Numbers\<close>

lemma parse_digits_snoc:
  "parse_decimal (s @ [c]) v = (case parse_decimal s v of None \<Rightarrow> None | Some x \<Rightarrow> parse_decimal [c] x)"
  by (induction s arbitrary: v) auto

lemma parse_dec_digits: "unat v < 10 ^ n \<Longrightarrow> parse_decimal (rev (dec_digits n v)) 0 = Some v"
proof (induction n arbitrary: v)
  case 0
  then show ?case by (simp add: unat_eq_0)
next
  case (Suc n)
  have m: "unat (v mod 10) < 10" using unat_mod [of v 10] by simp
  have "unat (v div 10) < 10 ^ n" using Suc.prems unat_div [of v 10] by (simp add: less_mult_imp_div_less mult.commute)
  from Suc.IH [OF this] have "parse_decimal (rev (dec_digits n (v div 10))) 0 = Some (v div 10)" .
  moreover have "of_char (char_of (48 + unat (v mod 10)) :: char) = 48 + unat (v mod 10)" using m by simp
  moreover have "v div 10 * 10 + v mod 10 = v" by (rule div_mult_mod_eq)
  ultimately show ?case using m by (auto simp: parse_digits_snoc)
qed

text \<open>
  Every 32-bit number that \<open>write_dec\<close> prints, \<open>parse_u32\<close> reads back as the same number.
\<close>

theorem parse_write_dec: "parse_u32 (Some (write_dec v)) = Some v"
proof (cases "v = 0")
  case True
  then show ?thesis by (simp add: parse_u32_def write_dec_def)
next
  case False
  have "unat v < 2 ^ LENGTH(32)" by (rule unsigned_less)
  then have "unat v < 10 ^ 11" by simp
  from parse_dec_digits [OF this] False show ?thesis by (simp add: parse_u32_def write_dec_def numeral_eq_Suc)
qed

subsection \<open>Arguments\<close>

definition in_quotes :: "cstring list \<Rightarrow> cstring" where
  "in_quotes ws = concat (map (\<lambda>w. quote2 # w @ [quote2, CHR 0x20]) ws)"

lemma quoted_skip: "dropWhile is_space (in_quotes ws) = in_quotes ws"
  by (cases ws) (simp_all add: in_quotes_def is_space_def)

lemma quoted_args:
  assumes "n + length ws \<le> 24" "\<forall>w \<in> set ws. quote2 \<notin> set w"
  shows "parse_args n (in_quotes ws) = ws"
  using assms
proof (induction ws arbitrary: n)
  case Nil
  then show ?case by (simp add: in_quotes_def parse_args.simps)
next
  case (Cons w ws)
  let ?r = "CHR 0x20 # in_quotes ws"
  have q: "in_quotes (w # ws) = quote2 # w @ quote2 # ?r" by (simp add: in_quotes_def)
  have w: "takeWhile (\<lambda>x. x \<noteq> quote2) (w @ quote2 # ?r) = w" "dropWhile (\<lambda>x. x \<noteq> quote2) (w @ quote2 # ?r) = quote2 # ?r"
    using Cons.prems(2) by (simp_all add: no_char)
  have s: "dropWhile is_space ?r = in_quotes ws" using quoted_skip [of ws] by (simp add: is_space_def)
  have IH: "parse_args (Suc n) (in_quotes ws) = ws" using Cons by simp
  have "parse_args n (in_quotes (w # ws)) = w # (case in_quotes ws of [] \<Rightarrow> [] | d # ds \<Rightarrow> if d = CHR 0x23 then [] else parse_args (n + 1) (d # ds))"
    unfolding q using Cons.prems(1) w s by (subst parse_args.simps) (simp add: is_space_def next_arg_def)
  then show ?case using IH by (cases ws) (auto simp: in_quotes_def)
qed

lemma next_arg_parts:
  assumes "next_arg c cs = (arg, rest)"
  shows "length (if c = CHR 0x22 \<or> c = CHR 0x27 then c # arg else arg) + length rest = length (c # cs) \<or>
    Suc (length (if c = CHR 0x22 \<or> c = CHR 0x27 then c # arg else arg) + length rest) = length (c # cs)"
proof -
  have len: "length (takeWhile P xs) + length (drop 1 (dropWhile P xs)) = length xs \<or>
      Suc (length (takeWhile P xs) + length (drop 1 (dropWhile P xs))) = length xs" for P and xs :: cstring
    using arg_cong [OF takeWhile_dropWhile_id [of P xs], of length] by (cases "dropWhile P xs") (auto simp del: dropWhile_eq_Nil_conv takeWhile_dropWhile_id takeWhile_eq_all_conv)
  show ?thesis using assms len [of "\<lambda>x. x \<noteq> c" cs] len [of "\<lambda>x. \<not> is_space x" "c # cs"]
    unfolding next_arg_def by (auto simp del: takeWhile.simps dropWhile.simps drop_Suc split: if_splits)
qed

text \<open>The zero bytes replace characters one for one.\<close>

lemma zeroed_line_length: "length (zeroed_line n t) = length t"
proof (induction n t rule: zeroed_line.induct)
  case (1 n t)
  have split: "length (takeWhile is_space xs) + length (dropWhile is_space xs) = length xs" for xs :: cstring
    by (metis length_append takeWhile_dropWhile_id)
  show ?case
  proof (cases "dropWhile is_space t")
    case Nil
    then show ?thesis using split [of t] by (subst zeroed_line.simps) (simp del: dropWhile_eq_Nil_conv)
  next
    case (Cons c cs)
    obtain arg rest where na: "next_arg c cs = (arg, rest)" by fastforce
    define body where "body = (if c = CHR 0x22 \<or> c = CHR 0x27 then c # arg else arg)"
    define tail where "tail = (case dropWhile is_space rest of [] \<Rightarrow> []
      | d # ds \<Rightarrow> if d = CHR 0x23 then CHR 0x00 # ds else zeroed_line (n + 1) (d # ds))"
    have parts: "length body + length rest = length (c # cs) \<or> Suc (length body + length rest) = length (c # cs)"
      using next_arg_parts [OF na] by (simp add: body_def)
    have "zeroed_line n t = takeWhile is_space t @ (if 24 \<le> n then c # cs else body @
        (if length body + length rest < length (c # cs) then [CHR 0x00] else []) @ takeWhile is_space rest @ tail)"
      unfolding body_def tail_def by (subst zeroed_line.simps) (simp only: Cons na list.case prod.case Let_def)
    moreover have "length tail = length (dropWhile is_space rest)" if "n < 24"
      unfolding tail_def using 1 [OF Cons _ na [symmetric] refl] that
      by (cases "dropWhile is_space rest") (auto simp del: dropWhile_eq_Nil_conv)
    ultimately show ?thesis using split [of t] split [of rest] parts Cons by auto
  qed
qed

text \<open>
  Arguments come back as they were quoted: for up to 24 texts without a double quote, splitting the
  line on which each stands in double quotes returns exactly these texts, whatever else they contain.
\<close>

theorem parse_args_quoted:
  assumes "n + length ws \<le> 24" "\<forall>w \<in> set ws. quote2 \<notin> set w"
  shows "parse_args n (in_quotes ws) = ws"
  using assms by (rule quoted_args)

theorem parse_args_quoted_witness: "parse_args 0 (in_quotes [''rm'', ''a b'', ''# c'']) = [''rm'', ''a b'', ''# c'']"
  using parse_args_quoted [of 0 "[''rm'', ''a b'', ''# c'']"] by simp

subsection \<open>Searches\<close>

lemma match_at_prefix: "match_at t n \<longleftrightarrow> prefix n t"
  by (induction t n rule: match_at.induct) auto

lemma text_contains_sublist: "text_contains (Some t) (Some n) \<longleftrightarrow> sublist n t"
proof -
  have "n \<noteq> [] \<Longrightarrow> contains_from t n \<longleftrightarrow> sublist n t" by (induction t) (auto simp: match_at_prefix sublist_Cons_right)
  then show ?thesis by (auto simp: text_contains_def)
qed

lemma contains_text_sublist: "contains_text (Some t) (Some n) \<longleftrightarrow> n \<noteq> [] \<and> sublist n t"
proof -
  have "(\<exists>i < length t - length n + 1. prefix n (drop i t)) \<longleftrightarrow> sublist n t" if "length n \<le> length t"
  proof
    assume "sublist n t"
    then obtain u v where "t = u @ n @ v" by (auto simp: sublist_def)
    then show "\<exists>i < length t - length n + 1. prefix n (drop i t)" by (intro exI [of _ "length u"]) simp
  qed (metis prefix_imp_sublist sublist_drop sublist_order.order_trans)
  moreover have "sublist n t \<Longrightarrow> length n \<le> length t" by (rule sublist_length_le)
  ultimately show ?thesis by (auto simp: contains_text_def match_at_prefix list_ex_iff not_less Bex_def simp del: upt_Suc)
qed

end
