(* ===== verification/Bytes.thy ===== *)
theory Bytes
  imports Memory
begin

text \<open>
  Buffers of bytes as lists: the little-endian fields that the partition scanner, the
  storage layer and the image builder read and write at offsets of their sectors, and the
  splitting of a buffer into sectors of 512 bytes.
\<close>

named_theorems buf_simps "reads of a buffer after writes"


section \<open>Definitions\<close>

definition le16 :: "u8 list \<Rightarrow> nat \<Rightarrow> u16" where
  "le16 bs off = ucast (bs ! off) OR push_bit 8 (ucast (bs ! (off + 1)))"

definition le32 :: "u8 list \<Rightarrow> nat \<Rightarrow> u32" where
  "le32 bs off = ucast (bs ! off) OR push_bit 8 (ucast (bs ! (off + 1)))
     OR push_bit 16 (ucast (bs ! (off + 2))) OR push_bit 24 (ucast (bs ! (off + 3)))"

definition le16_bytes :: "u16 \<Rightarrow> u8 list" where
  "le16_bytes v = [ucast v, ucast (drop_bit 8 v)]"

definition le32_bytes :: "u32 \<Rightarrow> u8 list" where
  "le32_bytes v = [ucast v, ucast (drop_bit 8 v), ucast (drop_bit 16 v), ucast (drop_bit 24 v)]"

text \<open>The bytes of \<open>xs\<close> stored at an offset, the whole of which lies inside the buffer.\<close>

definition put_bytes :: "nat \<Rightarrow> u8 list \<Rightarrow> u8 list \<Rightarrow> u8 list" where
  "put_bytes off xs bs = take off bs @ xs @ drop (off + length xs) bs"

text \<open>A buffer of \<open>n\<close> zeros after a read put \<open>xs\<close> at its front.\<close>

definition fill_buffer :: "nat \<Rightarrow> u8 list \<Rightarrow> u8 list" where
  "fill_buffer n xs = take n (xs @ replicate n 0)"

text \<open>\<open>n\<close> sectors of a device, one after the other.\<close>

fun sector_run :: "(u64 \<Rightarrow> u8 list) \<Rightarrow> u64 \<Rightarrow> nat \<Rightarrow> u8 list" where
  "sector_run view lba 0 = []"
| "sector_run view lba (Suc n) = view lba @ sector_run view (lba + 1) n"

text \<open>The sectors of a device after \<open>n\<close> of them were written from a buffer.\<close>

fun put_sectors :: "u64 \<Rightarrow> nat \<Rightarrow> u8 list \<Rightarrow> (u64 \<Rightarrow> u8 list) \<Rightarrow> u64 \<Rightarrow> u8 list" where
  "put_sectors lba 0 bs view = view"
| "put_sectors lba (Suc n) bs view = put_sectors (lba + 1) n (drop 512 bs) (view(lba := take 512 bs))"


section \<open>Lemmas\<close>

lemma le16_bytes_length [simp]: "length (le16_bytes v) = 2"
  by (simp add: le16_bytes_def)

lemma le32_bytes_length [simp]: "length (le32_bytes v) = 4"
  by (simp add: le32_bytes_def)

lemma word_split2: "ucast (ucast v :: u8) OR push_bit 8 (ucast (ucast (drop_bit 8 v) :: u8)) = (v :: u16)"
  by (rule bit_word_eqI) (auto simp: bit_simps)

lemma le16_split: "le16 (le16_bytes v @ bs) 0 = v"
  using word_split2 [of v] by (simp add: le16_def le16_bytes_def)

lemma le32_split: "le32 (le32_bytes v @ bs) 0 = v"
  using word_split4 [of v] by (simp add: le32_def le32_bytes_def numeral_2_eq_2 numeral_3_eq_3)

lemma le16_drop: "off + 2 \<le> length bs \<Longrightarrow> le16 bs off = le16 (drop off bs) 0"
  by (simp add: le16_def nth_drop)

lemma le32_drop: "off + 4 \<le> length bs \<Longrightarrow> le32 bs off = le32 (drop off bs) 0"
  by (simp add: le32_def nth_drop)

lemma put_bytes_length [simp]: "off + length xs \<le> length bs \<Longrightarrow> length (put_bytes off xs bs) = length bs"
  by (simp add: put_bytes_def)

lemma put_bytes_drop: "off + length xs \<le> length bs \<Longrightarrow> drop off (put_bytes off xs bs) = xs @ drop (off + length xs) bs"
  by (simp add: put_bytes_def)

lemma put_bytes_nth:
  "off + length xs \<le> length bs \<Longrightarrow> i < length bs \<Longrightarrow>
   put_bytes off xs bs ! i = (if off \<le> i \<and> i < off + length xs then xs ! (i - off) else bs ! i)"
  by (auto simp: put_bytes_def nth_append min_def)

lemma le16_put [buf_simps]: "off + 2 \<le> length bs \<Longrightarrow> le16 (put_bytes off (le16_bytes v) bs) off = v"
  by (simp add: le16_drop put_bytes_drop le16_split)

lemma le32_put [buf_simps]: "off + 4 \<le> length bs \<Longrightarrow> le32 (put_bytes off (le32_bytes v) bs) off = v"
  by (simp add: le32_drop put_bytes_drop le32_split)

lemma le32_put_other [buf_simps]:
  "off + length xs \<le> length bs \<Longrightarrow> k + 4 \<le> length bs \<Longrightarrow> k + 4 \<le> off \<or> off + length xs \<le> k \<Longrightarrow>
   le32 (put_bytes off xs bs) k = le32 bs k"
  by (auto simp: le32_def put_bytes_nth)

lemma le16_put_other [buf_simps]:
  "off + length xs \<le> length bs \<Longrightarrow> k + 2 \<le> length bs \<Longrightarrow> k + 2 \<le> off \<or> off + length xs \<le> k \<Longrightarrow>
   le16 (put_bytes off xs bs) k = le16 bs k"
  by (auto simp: le16_def put_bytes_nth)

lemma fill_buffer_length [simp]: "length (fill_buffer n xs) = n"
  by (simp add: fill_buffer_def)

lemma fill_buffer_id [simp]: "length xs = n \<Longrightarrow> fill_buffer n xs = xs"
  by (simp add: fill_buffer_def)

lemma unat_ucast_u64: "unat (ucast (c :: u32) :: u64) = unat c"
  by (simp add: unsigned_ucast_eq take_bit_nat_eq_self less_le_trans [OF unat_u32_less])

subsection \<open>Sectors\<close>

lemma sector_run_length: "(\<And>l. length (view l) = 512) \<Longrightarrow> length (sector_run view lba n) = 512 * n"
  by (induction n arbitrary: lba) simp_all

lemma sector_run_shift: "sector_run (\<lambda>l. view (start + l)) lba n = sector_run view (start + lba) n"
  by (induction n arbitrary: lba) (simp_all add: add.assoc)

lemma put_sectors_shift:
  "put_sectors lba n bs (\<lambda>l. view (start + l)) = (\<lambda>l. put_sectors (start + lba) n bs view (start + l))"
proof (induction n arbitrary: lba bs view)
  case (Suc n)
  have "(\<lambda>l. view (start + l))(lba := take 512 bs) = (\<lambda>l. (view(start + lba := take 512 bs)) (start + l))" by auto
  then show ?case using Suc [of "lba + 1" "drop 512 bs" "view(start + lba := take 512 bs)"]
    by (simp add: add.assoc del: fun_upd_apply)
qed simp

lemma put_sectors_length:
  "length bs = 512 * n \<Longrightarrow> (\<And>l. length (view l) = 512) \<Longrightarrow> length (put_sectors lba n bs view x) = 512"
  by (induction n arbitrary: lba bs view) simp_all

lemma put_sectors_outside:
  "unat lba + n \<le> 2 ^ 64 \<Longrightarrow> unat x < unat lba \<or> unat lba + n \<le> unat x \<Longrightarrow> put_sectors lba n bs view x = view x"
proof (induction n arbitrary: lba bs view)
  case (Suc n)
  have ne: "x \<noteq> lba" using Suc.prems by auto
  show ?case
  proof (cases n)
    case (Suc m)
    have "unat (lba + 1) = unat lba + 1" using Suc.prems Suc by (simp add: unat_word_ariths)
    then have "put_sectors (lba + 1) n (drop 512 bs) (view(lba := take 512 bs)) x = (view(lba := take 512 bs)) x"
      using Suc.prems ne by (intro Suc.IH) (auto simp: less_Suc_eq)
    with ne show ?thesis by simp
  qed (use ne in simp)
qed simp

lemma sector_run_cong: "(\<And>i. i < n \<Longrightarrow> f (lba + of_nat i) = g (lba + of_nat i)) \<Longrightarrow> sector_run f lba n = sector_run g lba n"
proof (induction n arbitrary: lba)
  case (Suc n)
  have "f (lba + 1 + of_nat i) = g (lba + 1 + of_nat i)" if "i < n" for i
    using Suc.prems [of "Suc i"] that by (simp add: add.assoc)
  with Suc.IH [of "lba + 1"] Suc.prems [of 0] show ?case by simp
qed simp

lemma sector_run_put_sectors:
  "length bs = 512 * n \<Longrightarrow> unat lba + n \<le> 2 ^ 64 \<Longrightarrow> sector_run (put_sectors lba n bs view) lba n = bs"
proof (induction n arbitrary: lba bs view)
  case (Suc n)
  have l: "length (drop 512 bs) = 512 * n" using Suc.prems by simp
  let ?v = "view(lba := take 512 bs)"
  show ?case
  proof (cases n)
    case 0
    then show ?thesis using Suc.prems by simp
  next
    case (Suc m)
    have u: "unat (lba + 1) = unat lba + 1" using Suc.prems Suc by (simp add: unat_word_ariths)
    have "put_sectors (lba + 1) n (drop 512 bs) ?v lba = take 512 bs"
      using u Suc.prems by (subst put_sectors_outside) auto
    then show ?thesis using Suc.IH [OF l, of "lba + 1" ?v] u Suc.prems by (simp del: fun_upd_apply)
  qed
qed simp

end
