(* ===== verification/Block.thy ===== *)
theory Block
  imports Bytes RamFs
begin

text \<open>
  Block devices and partitions: \<open>src/kernel/block.cpp\<close> and \<open>src/kernel/block_partition.cpp\<close>. The table of
  devices holds pointers to the devices of the drivers (\<open>Disk\<close>) and to those inside the partition
  records (\<open>Part\<close>). A function pointer of a device is one of a driver or the function of a
  partition slot, which calls the function of the device below. What a driver's functions do
  to the hardware's state is a parameter. A call through a null pointer, and a chain of
  partitions that runs in a circle, do not return: \<open>None\<close>.
\<close>


section \<open>Definitions\<close>

subsection \<open>Devices\<close>

datatype sector_fn = Driver nat | Partition_Slot nat

datatype dev_ref = Disk nat | Part nat

record block_device =
  dev_name :: "cstring option"
  block_size :: u32
  block_count :: u64
  read_fn :: "sector_fn option"
  write_fn :: "sector_fn option"

record partition_record =
  part_used :: bool
  part_device :: block_device
  part_base :: "dev_ref option"
  start_lba :: u64
  sector_count :: u64

record blocks =
  disks :: "nat \<Rightarrow> block_device"
  g_devices :: "dev_ref option list"
  g_partitions :: "partition_record list"

record 'd drivers =
  drv_read :: "nat \<Rightarrow> u64 \<Rightarrow> u32 \<Rightarrow> 'd \<Rightarrow> u8 list option \<times> 'd"
  drv_write :: "nat \<Rightarrow> u64 \<Rightarrow> u8 list \<Rightarrow> u32 \<Rightarrow> 'd \<Rightarrow> bool \<times> 'd"

definition kMaxPartitions :: nat where
  "kMaxPartitions = 8"

fun deref :: "blocks \<Rightarrow> dev_ref \<Rightarrow> block_device" where
  "deref b (Disk n) = disks b n"
| "deref b (Part s) = part_device (g_partitions b ! s)"

definition block_register_device :: "dev_ref option \<Rightarrow> blocks \<Rightarrow> blocks \<times> bool" where
  "block_register_device dev b =
     (case dev of
        None \<Rightarrow> (b, False)
      | Some r \<Rightarrow>
          case find_slot (\<lambda>x. x = None) (g_devices b) of
            None \<Rightarrow> (b, False)
          | Some i \<Rightarrow> (b\<lparr>g_devices := (g_devices b)[i := Some r]\<rparr>, True))"

text \<open>The loop reads the table afresh at each index, so it also visits what a visitor registers behind it.\<close>

fun visit_devices :: "(dev_ref \<Rightarrow> blocks \<times> 'u \<Rightarrow> (blocks \<times> 'u) option) \<Rightarrow> nat list \<Rightarrow> bool \<Rightarrow> blocks \<times> 'u \<Rightarrow>
    (blocks \<times> 'u \<times> bool) option" where
  "visit_devices visitor [] seen (b, u) = Some (b, u, seen)"
| "visit_devices visitor (i # is) seen (b, u) =
     (case g_devices b ! i of
        None \<Rightarrow> visit_devices visitor is seen (b, u)
      | Some r \<Rightarrow> visitor r (b, u) \<bind> visit_devices visitor is True)"

definition block_visit_devices :: "(dev_ref \<Rightarrow> blocks \<times> 'u \<Rightarrow> (blocks \<times> 'u) option) option \<Rightarrow> blocks \<times> 'u \<Rightarrow>
    (blocks \<times> 'u \<times> bool) option" where
  "block_visit_devices visitor bu =
     (case visitor of None \<Rightarrow> Some (fst bu, snd bu, False) | Some v \<Rightarrow> visit_devices v [0..<8] False bu)"

definition block_get_primary :: "blocks \<Rightarrow> dev_ref option" where
  "block_get_primary b = g_devices b ! 0"

fun same_name :: "cstring \<Rightarrow> cstring \<Rightarrow> bool" where
  "same_name (n # ns) (c # cs) = (if n = c then same_name ns cs else False)"
| "same_name [] [] = True"
| "same_name _ _ = False"

fun find_name :: "cstring \<Rightarrow> blocks \<Rightarrow> dev_ref option list \<Rightarrow> dev_ref option" where
  "find_name name b [] = None"
| "find_name name b (None # ds) = find_name name b ds"
| "find_name name b (Some r # ds) =
     (case dev_name (deref b r) of
        None \<Rightarrow> find_name name b ds
      | Some n \<Rightarrow> if same_name n name then Some r else find_name name b ds)"

definition block_find_by_name :: "cstring option \<Rightarrow> blocks \<Rightarrow> dev_ref option" where
  "block_find_by_name name b = (case name of None \<Rightarrow> None | Some n \<Rightarrow> find_name n b (g_devices b))"

subsection \<open>Calls through the function pointers\<close>

partial_function (option) call_read ::
  "'d drivers \<Rightarrow> blocks \<Rightarrow> sector_fn \<Rightarrow> u64 \<Rightarrow> u32 \<Rightarrow> 'd \<Rightarrow> (u8 list option \<times> 'd) option" where
  "call_read dr b f lba count d =
     (case f of
        Driver n \<Rightarrow> Some (drv_read dr n lba count d)
      | Partition_Slot slot \<Rightarrow>
          (if kMaxPartitions \<le> slot \<or> \<not> part_used (g_partitions b ! slot) \<or> part_base (g_partitions b ! slot) = None
           then Some (None, d)
           else if sector_count (g_partitions b ! slot) < lba + ucast count then Some (None, d)
           else case read_fn (deref b (the (part_base (g_partitions b ! slot)))) of
             None \<Rightarrow> None
           | Some g \<Rightarrow> call_read dr b g (start_lba (g_partitions b ! slot) + lba) count d))"

partial_function (option) call_write ::
  "'d drivers \<Rightarrow> blocks \<Rightarrow> sector_fn \<Rightarrow> u64 \<Rightarrow> u8 list \<Rightarrow> u32 \<Rightarrow> 'd \<Rightarrow> (bool \<times> 'd) option" where
  "call_write dr b f lba buf count d =
     (case f of
        Driver n \<Rightarrow> Some (drv_write dr n lba buf count d)
      | Partition_Slot slot \<Rightarrow>
          (if kMaxPartitions \<le> slot \<or> \<not> part_used (g_partitions b ! slot) \<or> part_base (g_partitions b ! slot) = None
           then Some (False, d)
           else if sector_count (g_partitions b ! slot) < lba + ucast count then Some (False, d)
           else case write_fn (deref b (the (part_base (g_partitions b ! slot)))) of
             None \<Rightarrow> Some (False, d)
           | Some g \<Rightarrow> call_write dr b g (start_lba (g_partitions b ! slot) + lba) buf count d))"

definition dev_read :: "'d drivers \<Rightarrow> blocks \<Rightarrow> dev_ref \<Rightarrow> u64 \<Rightarrow> u32 \<Rightarrow> 'd \<Rightarrow> (u8 list option \<times> 'd) option" where
  "dev_read dr b r lba count d =
     (case read_fn (deref b r) of None \<Rightarrow> None | Some f \<Rightarrow> call_read dr b f lba count d)"

definition dev_write :: "'d drivers \<Rightarrow> blocks \<Rightarrow> dev_ref \<Rightarrow> u64 \<Rightarrow> u8 list \<Rightarrow> u32 \<Rightarrow> 'd \<Rightarrow> (bool \<times> 'd) option" where
  "dev_write dr b r lba buf count d =
     (case write_fn (deref b r) of None \<Rightarrow> None | Some f \<Rightarrow> call_write dr b f lba buf count d)"

subsection \<open>Partitions\<close>

definition find_free_slot :: "blocks \<Rightarrow> nat" where
  "find_free_slot b =
     (case find_slot (\<lambda>p. \<not> part_used p) (g_partitions b) of None \<Rightarrow> kMaxPartitions | Some i \<Rightarrow> i)"

definition digit_char :: "nat \<Rightarrow> char" where
  "digit_char n = char_of (48 + n)"

definition build_partition_name :: "cstring option \<Rightarrow> nat \<Rightarrow> nat \<Rightarrow> cstring" where
  "build_partition_name base_name index out_size =
     (let out = copy_text (case base_name of None \<Rightarrow> ''disk'' | Some n \<Rightarrow> if n = [] then ''disk'' else n) out_size in
      if out_size \<le> text_len out + 3 then out
      else if index + 1 < 10 then out @ [CHR ''p'', digit_char (index + 1)]
      else out @ [CHR ''p'', digit_char ((index + 1) div 10 mod 10), digit_char ((index + 1) mod 10)])"

definition new_partition :: "blocks \<Rightarrow> dev_ref \<Rightarrow> u8 list \<Rightarrow> nat \<Rightarrow> nat \<Rightarrow> partition_record" where
  "new_partition b base mbr i slot =
     (let dev = deref b base; entry = 446 + i * 16; sectors = le32 mbr (entry + 12) in
      \<lparr>part_used = True,
       part_device = \<lparr>dev_name = Some (build_partition_name (dev_name dev) i 16), block_size = block_size dev,
         block_count = ucast sectors, read_fn = Some (Partition_Slot slot),
         write_fn = (if write_fn dev \<noteq> None then Some (Partition_Slot slot) else None)\<rparr>,
       part_base = Some base, start_lba = ucast (le32 mbr (entry + 8)), sector_count = ucast sectors\<rparr>)"

text \<open>One entry of the partition table; \<open>False\<close> when the scan stops because no slot is left.\<close>

definition scan_entry :: "dev_ref \<Rightarrow> u8 list \<Rightarrow> nat \<Rightarrow> blocks \<times> nat \<Rightarrow> (blocks \<times> nat) \<times> bool" where
  "scan_entry base mbr i bf =
     (let b = fst bf; found = snd bf; entry = 446 + i * 16; slot = find_free_slot b in
      if mbr ! (entry + 4) = 0 \<or> le32 mbr (entry + 12) = 0 then ((b, found), True)
      else if kMaxPartitions \<le> slot then ((b, found), False)
      else let rec = new_partition b base mbr i slot;
               (b, ok) = block_register_device (Some (Part slot)) (b\<lparr>g_partitions := (g_partitions b)[slot := rec]\<rparr>) in
        if ok then ((b, Suc found), True)
        else ((b\<lparr>g_partitions := (g_partitions b)[slot := rec\<lparr>part_used := False\<rparr>]\<rparr>, found), True))"

fun scan_entries :: "dev_ref \<Rightarrow> u8 list \<Rightarrow> nat list \<Rightarrow> blocks \<times> nat \<Rightarrow> blocks \<times> nat" where
  "scan_entries base mbr [] bf = bf"
| "scan_entries base mbr (i # is) bf =
     (case scan_entry base mbr i bf of (bf', True) \<Rightarrow> scan_entries base mbr is bf' | (bf', False) \<Rightarrow> bf')"

definition scan_mbr_partitions :: "'d drivers \<Rightarrow> dev_ref option \<Rightarrow> blocks \<Rightarrow> 'd \<Rightarrow> (blocks \<times> 'd \<times> bool) option" where
  "scan_mbr_partitions dr base b d =
     (case base of
        None \<Rightarrow> Some (b, d, False)
      | Some r \<Rightarrow>
          if read_fn (deref b r) = None then Some (b, d, False)
          else map_option (\<lambda>(res, d). case res of
              None \<Rightarrow> (b, d, False)
            | Some bs \<Rightarrow> let mbr = fill_buffer 512 bs in
                if mbr ! 510 \<noteq> 0x55 \<or> mbr ! 511 \<noteq> 0xAA then (b, d, False)
                else case scan_entries r mbr [0, 1, 2, 3] (b, 0) of (b, found) \<Rightarrow> (b, d, found \<noteq> 0))
            (dev_read dr b r 0 1 d))"

text \<open>What \<open>kmain\<close> does with every device once the drivers have registered theirs.\<close>

definition scan_all_devices :: "'d drivers \<Rightarrow> blocks \<times> 'd \<Rightarrow> (blocks \<times> 'd \<times> bool) option" where
  "scan_all_devices dr =
     block_visit_devices (Some (\<lambda>r (b, d). map_option (\<lambda>(b, d, _). (b, d)) (scan_mbr_partitions dr (Some r) b d)))"

definition no_device :: block_device where
  "no_device = \<lparr>dev_name = None, block_size = 0, block_count = 0, read_fn = None, write_fn = None\<rparr>"

definition free_partition :: partition_record where
  "free_partition = \<lparr>part_used = False, part_device = no_device, part_base = None, start_lba = 0, sector_count = 0\<rparr>"

text \<open>The tables before any driver has run.\<close>

definition no_blocks :: "(nat \<Rightarrow> block_device) \<Rightarrow> blocks" where
  "no_blocks ds = \<lparr>disks = ds, g_devices = replicate 8 None, g_partitions = replicate 8 free_partition\<rparr>"

end
