(* ===== verification/Block_Correct.thy ===== *)
theory Block_Correct
  imports Block
begin

text \<open>
  Correctness of the block layer: where a device's sectors lie on a disk, that calls through
  partitions return and act on just those sectors, and that scanning keeps the tables sound.
\<close>


section \<open>Specification\<close>

text \<open>
  What the code relies on of the driver of disk \<open>k\<close>, with sectors of 512 bytes and for the sectors below
  \<open>lim\<close>: \<open>sects\<close> gives the contents of each disk. A read changes no sector and returns the sectors
  asked for; a successful write replaces exactly the sectors named.
\<close>

definition drivers_ok :: "'d drivers \<Rightarrow> (nat \<Rightarrow> 'd \<Rightarrow> u64 \<Rightarrow> u8 list) \<Rightarrow> nat \<Rightarrow> nat \<Rightarrow> bool" where
  "drivers_ok dr sects k lim \<longleftrightarrow> lim \<le> 2 ^ 64 \<and>
     (\<forall>d l. length (sects k d l) = 512) \<and>
     (\<forall>lba c d r d'. unat lba + unat c \<le> lim \<and> drv_read dr k lba c d = (r, d') \<longrightarrow>
        (\<forall>j. sects j d' = sects j d) \<and> (\<forall>bs. r = Some bs \<longrightarrow> bs = sector_run (sects k d) lba (unat c))) \<and>
     (\<forall>lba buf c d d'. unat lba + unat c \<le> lim \<and> drv_write dr k lba buf c d = (True, d') \<and> length buf = 512 * unat c \<longrightarrow>
        sects k d' = put_sectors lba (unat c) buf (sects k d) \<and> (\<forall>j. j \<noteq> k \<longrightarrow> sects j d' = sects j d))"

text \<open>The device \<open>r\<close> is disk \<open>k\<close> from sector \<open>off\<close> on.\<close>

inductive lies_on :: "blocks \<Rightarrow> dev_ref \<Rightarrow> nat \<Rightarrow> u64 \<Rightarrow> bool" for b where
  on_disk: "read_fn (disks b n) = Some (Driver n) \<Longrightarrow> write_fn (disks b n) \<in> {None, Some (Driver n)} \<Longrightarrow>
     lies_on b (Disk n) n 0"
| on_part: "s < 8 \<Longrightarrow> part_used (g_partitions b ! s) \<Longrightarrow> part_base (g_partitions b ! s) = Some r \<Longrightarrow>
     read_fn (part_device (g_partitions b ! s)) = Some (Partition_Slot s) \<Longrightarrow>
     write_fn (part_device (g_partitions b ! s)) \<in> {None, Some (Partition_Slot s)} \<Longrightarrow> lies_on b r k off \<Longrightarrow>
     lies_on b (Part s) k (off + start_lba (g_partitions b ! s))"

inductive_cases lies_on_diskE: "lies_on b (Disk n) k off"
inductive_cases lies_on_partE: "lies_on b (Part s) k off"

text \<open>
  The tables: used slots come first, each hangs below a disk or an earlier slot, and only used slots
  are registered.
\<close>

definition slot_ok :: "blocks \<Rightarrow> nat \<Rightarrow> bool" where
  "slot_ok b s \<longleftrightarrow>
     read_fn (part_device (g_partitions b ! s)) = Some (Partition_Slot s) \<and>
     write_fn (part_device (g_partitions b ! s)) \<in> {None, Some (Partition_Slot s)} \<and>
     (\<exists>r. part_base (g_partitions b ! s) = Some r \<and> (\<forall>t. r = Part t \<longrightarrow> t < s))"

definition blocks_inv :: "blocks \<Rightarrow> bool" where
  "blocks_inv b \<longleftrightarrow> length (g_devices b) = 8 \<and> length (g_partitions b) = 8 \<and>
     (\<forall>n. read_fn (disks b n) = Some (Driver n) \<and> write_fn (disks b n) \<in> {None, Some (Driver n)}) \<and>
     (\<exists>k \<le> 8. \<forall>s < 8. part_used (g_partitions b ! s) \<longleftrightarrow> s < k) \<and>
     (\<forall>s < 8. part_used (g_partitions b ! s) \<longrightarrow> slot_ok b s) \<and>
     (\<forall>s. Some (Part s) \<in> set (g_devices b) \<longrightarrow> s < 8 \<and> part_used (g_partitions b ! s))"


section \<open>Calls\<close>

lemma drivers_okD:
  assumes "drivers_ok dr sects k lim"
  shows "length (sects k d l) = 512" "lim \<le> 2 ^ 64"
    and "drv_read dr k lba c d = (r, d') \<Longrightarrow> unat lba + unat c \<le> lim \<Longrightarrow> sects j d' = sects j d"
    and "drv_read dr k lba c d = (Some bs, d') \<Longrightarrow> unat lba + unat c \<le> lim \<Longrightarrow> bs = sector_run (sects k d) lba (unat c)"
    and "drv_write dr k lba buf c d = (True, d') \<Longrightarrow> unat lba + unat c \<le> lim \<Longrightarrow> length buf = 512 * unat c \<Longrightarrow>
      sects k d' = put_sectors lba (unat c) buf (sects k d)"
    and "drv_write dr k lba buf c d = (True, d') \<Longrightarrow> unat lba + unat c \<le> lim \<Longrightarrow> length buf = 512 * unat c \<Longrightarrow>
      j \<noteq> k \<Longrightarrow> sects j d' = sects j d"
  using assms unfolding drivers_ok_def by blast+

lemma dev_read_disk: "read_fn (disks b n) = Some (Driver n) \<Longrightarrow> dev_read dr b (Disk n) lba c d = Some (drv_read dr n lba c d)"
  by (simp add: dev_read_def call_read.simps)

lemma dev_write_disk:
  "write_fn (disks b n) \<in> {None, Some (Driver n)} \<Longrightarrow> dev_write dr b (Disk n) lba buf c d = Some (res, d') \<Longrightarrow>
   drv_write dr n lba buf c d = (res, d')"
  by (auto simp: dev_write_def call_write.simps)

lemma dev_read_part:
  assumes "s < 8" "part_used (g_partitions b ! s)" "part_base (g_partitions b ! s) = Some r"
    "read_fn (part_device (g_partitions b ! s)) = Some (Partition_Slot s)"
  shows "dev_read dr b (Part s) lba c d =
    (if sector_count (g_partitions b ! s) < lba + ucast c then Some (None, d)
     else dev_read dr b r (start_lba (g_partitions b ! s) + lba) c d)"
  using assms by (simp add: dev_read_def call_read.simps [of dr b "Partition_Slot s"] kMaxPartitions_def split: option.split)

lemma dev_write_part:
  assumes "s < 8" "part_used (g_partitions b ! s)" "part_base (g_partitions b ! s) = Some r"
    "write_fn (part_device (g_partitions b ! s)) \<in> {None, Some (Partition_Slot s)}"
    and "dev_write dr b (Part s) lba buf c d = Some (True, d')"
  shows "lba + ucast c \<le> sector_count (g_partitions b ! s) \<and>
    dev_write dr b r (start_lba (g_partitions b ! s) + lba) buf c d = Some (True, d')"
  using assms
  by (auto simp: dev_write_def call_write.simps [of dr b "Partition_Slot s"] kMaxPartitions_def not_less
      split: option.splits if_splits)

lemma dev_read_returns: "lies_on b r k off \<Longrightarrow> \<exists>res. dev_read dr b r lba c d = Some res"
  by (induction arbitrary: lba rule: lies_on.induct) (auto simp: dev_read_disk dev_read_part)

lemma dev_read_sectors:
  assumes "lies_on b r k off" "drivers_ok dr sects k lim" "dev_read dr b r lba c d = Some (res, d')"
    "unat (off + lba) + unat c \<le> lim"
  shows "sects j d' = sects j d \<and> (\<forall>bs. res = Some bs \<longrightarrow> bs = sector_run (sects k d) (off + lba) (unat c))"
  using assms
proof (induction arbitrary: lba rule: lies_on.induct)
  case (on_disk n)
  then have "drv_read dr n lba c d = (res, d')" by (simp add: dev_read_disk)
  then show ?case using drivers_okD(3,4) [OF on_disk.prems(1)] on_disk.prems(3) by auto
next
  case (on_part s r k off)
  show ?case
  proof (cases "sector_count (g_partitions b ! s) < lba + ucast c")
    case True
    then show ?thesis using on_part.prems on_part.hyps by (simp add: dev_read_part)
  next
    case False
    then have "dev_read dr b r (start_lba (g_partitions b ! s) + lba) c d = Some (res, d')"
      using on_part.prems on_part.hyps by (simp add: dev_read_part)
    from on_part.IH [OF on_part.prems(1) this] on_part.prems(3) show ?thesis by (simp add: add.assoc)
  qed
qed

lemma dev_write_sectors:
  assumes "lies_on b r k off" "drivers_ok dr sects k lim" "dev_write dr b r lba buf c d = Some (True, d')"
    "unat (off + lba) + unat c \<le> lim" "length buf = 512 * unat c"
  shows "sects k d' = put_sectors (off + lba) (unat c) buf (sects k d) \<and> (\<forall>j. j \<noteq> k \<longrightarrow> sects j d' = sects j d)"
  using assms(1-4)
proof (induction arbitrary: lba rule: lies_on.induct)
  case (on_disk n)
  from dev_write_disk [OF on_disk(2,4)] show ?case
    using drivers_okD(5,6) [OF on_disk.prems(1)] on_disk.prems(3) assms(5) by auto
next
  case (on_part s r k off)
  from dev_write_part [OF on_part.hyps(1-3,5) on_part.prems(2)]
  have "dev_write dr b r (start_lba (g_partitions b ! s) + lba) buf c d = Some (True, d')" by blast
  from on_part.IH [OF on_part.prems(1) this] on_part.prems(3) show ?case by (simp add: add.assoc)
qed

text \<open>The sectors of a device, as its user sees them.\<close>

definition dev_view :: "(nat \<Rightarrow> 'd \<Rightarrow> u64 \<Rightarrow> u8 list) \<Rightarrow> nat \<Rightarrow> u64 \<Rightarrow> 'd \<Rightarrow> u64 \<Rightarrow> u8 list" where
  "dev_view sects k off d = (\<lambda>l. sects k d (off + l))"

lemma dev_read_view:
  assumes "lies_on b r k off" "drivers_ok dr sects k lim" "dev_read dr b r lba c d = Some (res, d')"
    "unat (off + lba) + unat c \<le> lim"
  shows "dev_view sects k off d' = dev_view sects k off d"
    and "res = Some bs \<Longrightarrow> bs = sector_run (dev_view sects k off d) lba (unat c)"
  using dev_read_sectors [OF assms] by (auto simp: dev_view_def sector_run_shift)

lemma dev_write_view:
  assumes "lies_on b r k off" "drivers_ok dr sects k lim" "dev_write dr b r lba buf c d = Some (True, d')"
    "unat (off + lba) + unat c \<le> lim" "length buf = 512 * unat c"
  shows "dev_view sects k off d' = put_sectors lba (unat c) buf (dev_view sects k off d)"
  using dev_write_sectors [OF assms] by (simp add: dev_view_def put_sectors_shift)

lemma dev_view_length: "drivers_ok dr sects k lim \<Longrightarrow> length (dev_view sects k off d l) = 512"
  by (simp add: dev_view_def drivers_okD)


section \<open>Scanning\<close>

lemma blocks_invD:
  assumes "blocks_inv b"
  shows "length (g_devices b) = 8" "length (g_partitions b) = 8"
    and "read_fn (disks b n) = Some (Driver n)" "write_fn (disks b n) \<in> {None, Some (Driver n)}"
    and "s < 8 \<Longrightarrow> part_used (g_partitions b ! s) \<Longrightarrow> slot_ok b s"
    and "s < 8 \<Longrightarrow> part_used (g_partitions b ! s) \<Longrightarrow> t < s \<Longrightarrow> part_used (g_partitions b ! t)"
    and "Some (Part s) \<in> set (g_devices b) \<Longrightarrow> s < 8 \<and> part_used (g_partitions b ! s)"
proof -
  show "s < 8 \<Longrightarrow> part_used (g_partitions b ! s) \<Longrightarrow> t < s \<Longrightarrow> part_used (g_partitions b ! t)"
    using assms unfolding blocks_inv_def by (metis order_less_trans)
qed (use assms in \<open>auto simp: blocks_inv_def\<close>)

lemma part_lies_on: "blocks_inv b \<Longrightarrow> s < 8 \<Longrightarrow> part_used (g_partitions b ! s) \<Longrightarrow> \<exists>k off. lies_on b (Part s) k off"
proof (induction s rule: less_induct)
  case (less s)
  note inv = blocks_invD [OF less.prems(1)]
  from inv(5) [OF less.prems(2,3)] obtain r where r: "part_base (g_partitions b ! s) = Some r" "\<And>t. r = Part t \<Longrightarrow> t < s"
    and f: "read_fn (part_device (g_partitions b ! s)) = Some (Partition_Slot s)"
      "write_fn (part_device (g_partitions b ! s)) \<in> {None, Some (Partition_Slot s)}"
    unfolding slot_ok_def by blast
  have "\<exists>k off. lies_on b r k off"
  proof (cases r)
    case (Disk n)
    then show ?thesis using on_disk inv(3,4) by blast
  next
    case (Part t)
    then show ?thesis using less.IH [of t] r(2) less.prems inv(6) by fastforce
  qed
  then show ?case using on_part less.prems(2,3) r(1) f by blast
qed

definition known :: "blocks \<Rightarrow> dev_ref \<Rightarrow> bool" where
  "known b r \<longleftrightarrow> (\<forall>s. r = Part s \<longrightarrow> s < 8 \<and> part_used (g_partitions b ! s))"

lemma known_lies_on:
  assumes "blocks_inv b" "known b r"
  shows "\<exists>k off. lies_on b r k off"
proof (cases r)
  case (Disk n)
  then show ?thesis using on_disk blocks_invD(3,4) [OF assms(1)] by blast
next
  case (Part s)
  then show ?thesis using part_lies_on [OF assms(1)] assms(2) by (simp add: known_def)
qed

text \<open>What a scan may do to the tables: fill free slots.\<close>

definition grown :: "blocks \<Rightarrow> blocks \<Rightarrow> bool" where
  "grown b b' \<longleftrightarrow> disks b' = disks b \<and>
     (\<forall>s < 8. part_used (g_partitions b ! s) \<longrightarrow> g_partitions b' ! s = g_partitions b ! s)"

lemma grown_refl [simp]: "grown b b"
  by (simp add: grown_def)

lemma grown_trans: "grown a b \<Longrightarrow> grown b c \<Longrightarrow> grown a c"
  by (auto simp: grown_def)

lemma grown_known: "grown b b' \<Longrightarrow> known b r \<Longrightarrow> known b' r"
  by (auto simp: grown_def known_def)

lemma first_free:
  assumes "blocks_inv b" "find_free_slot b < 8"
  shows "s < 8 \<Longrightarrow> part_used (g_partitions b ! s) \<longleftrightarrow> s < find_free_slot b"
proof -
  have f: "find_slot (\<lambda>p. \<not> part_used p) (g_partitions b) = Some (find_free_slot b)"
    using assms(2) by (auto simp: find_free_slot_def kMaxPartitions_def split: option.splits)
  assume "s < 8"
  then show ?thesis
    using f assms(1) blocks_invD(2,6) [OF assms(1)] unfolding find_slot_Some_iff
    by (metis linorder_neqE_nat)
qed

lemma known_below_free:
  "blocks_inv b \<Longrightarrow> find_free_slot b < 8 \<Longrightarrow> known b (Part t) \<Longrightarrow> t < find_free_slot b"
  using first_free [of b t] by (auto simp: known_def)

lemma fill_slot_inv:
  assumes inv: "blocks_inv b" and s: "find_free_slot b < 8" and base: "known b base"
    and rec: "part_base rec = Some base" "read_fn (part_device rec) = Some (Partition_Slot (find_free_slot b))"
      "write_fn (part_device rec) \<in> {None, Some (Partition_Slot (find_free_slot b))}"
    and devs: "length ds = 8"
      "\<And>x. Some (Part x) \<in> set ds \<Longrightarrow> Some (Part x) \<in> set (g_devices b) \<or> part_used rec \<and> x = find_free_slot b"
  shows "blocks_inv (b\<lparr>g_partitions := (g_partitions b)[find_free_slot b := rec], g_devices := ds\<rparr>)" (is "blocks_inv ?b")
proof -
  let ?k = "find_free_slot b"
  note D = blocks_invD [OF inv] and F = first_free [OF inv s]
  have nth: "g_partitions ?b ! x = (if x = ?k then rec else g_partitions b ! x)" if "x < 8" for x
    using that D(2) by simp
  have "\<forall>x < 8. part_used (g_partitions ?b ! x) \<longleftrightarrow> x < (if part_used rec then Suc ?k else ?k)"
    using nth F by (auto simp: less_Suc_eq)
  then have p: "\<exists>m \<le> 8. \<forall>x < 8. part_used (g_partitions ?b ! x) \<longleftrightarrow> x < m" using s
    by (intro exI [of _ "if part_used rec then Suc ?k else ?k"]) simp
  have q: "slot_ok ?b x" if x: "x < 8" "part_used (g_partitions ?b ! x)" for x
  proof (cases "x = ?k")
    case True
    then show ?thesis using nth [OF x(1)] rec known_below_free [OF inv s] base by (auto simp: slot_ok_def)
  next
    case False
    then show ?thesis using nth [OF x(1)] x D(5) [OF x(1)] by (simp add: slot_ok_def)
  qed
  have "x < 8 \<and> part_used (g_partitions ?b ! x)" if "Some (Part x) \<in> set ds" for x
    using devs(2) [OF that] D(7) [of x] nth [of x] F s by auto
  with p q devs(1) D(3,4) D(2) show ?thesis unfolding blocks_inv_def by (intro conjI) simp_all
qed

lemma new_partition_simps [simp]:
  "part_used (new_partition b base mbr i s)" "part_base (new_partition b base mbr i s) = Some base"
  "read_fn (part_device (new_partition b base mbr i s)) = Some (Partition_Slot s)"
  "write_fn (part_device (new_partition b base mbr i s)) \<in> {None, Some (Partition_Slot s)}"
  by (simp_all add: new_partition_def Let_def)

lemma new_partition_write:
  "write_fn (part_device (new_partition b base mbr i s)) = None \<or>
   write_fn (part_device (new_partition b base mbr i s)) = Some (Partition_Slot s)"
  using new_partition_simps(4) [of b base mbr i s] by simp

lemma scan_entry_cases:
  assumes "scan_entry base mbr i (b, n) = ((b', n'), go)"
  obtains "b' = b"
  | j where "find_free_slot b < 8" "find_slot (\<lambda>x. x = None) (g_devices b) = Some j"
      "b' = b\<lparr>g_partitions := (g_partitions b)[find_free_slot b := new_partition b base mbr i (find_free_slot b)],
             g_devices := (g_devices b)[j := Some (Part (find_free_slot b))]\<rparr>"
  | "find_free_slot b < 8"
      "b' = b\<lparr>g_partitions := (g_partitions b)[find_free_slot b := (new_partition b base mbr i (find_free_slot b))\<lparr>part_used := False\<rparr>],
             g_devices := g_devices b\<rparr>"
proof (cases "mbr ! (446 + i * 16 + 4) = 0 \<or> le32 mbr (446 + i * 16 + 12) = 0 \<or> 8 \<le> find_free_slot b")
  case True
  then have "b' = b" using assms unfolding scan_entry_def Let_def kMaxPartitions_def by (simp split: if_splits)
  then show ?thesis by (rule that(1))
next
  case False
  then show ?thesis
  proof (cases "find_slot (\<lambda>x. x = None) (g_devices b)")
    case None
    then have "b' = b\<lparr>g_partitions := (g_partitions b)[find_free_slot b := (new_partition b base mbr i (find_free_slot b))\<lparr>part_used := False\<rparr>],
        g_devices := g_devices b\<rparr>"
      using assms False unfolding scan_entry_def Let_def kMaxPartitions_def block_register_device_def by auto
    then show ?thesis using that(3) False by simp
  next
    case (Some j)
    then have "b' = b\<lparr>g_partitions := (g_partitions b)[find_free_slot b := new_partition b base mbr i (find_free_slot b)],
        g_devices := (g_devices b)[j := Some (Part (find_free_slot b))]\<rparr>"
      using assms False unfolding scan_entry_def Let_def kMaxPartitions_def block_register_device_def by simp
    then show ?thesis using that(2) False Some by simp
  qed
qed

lemma scan_entry_inv:
  assumes inv: "blocks_inv b" and base: "known b base" and run: "scan_entry base mbr i (b, n) = ((b', n'), go)"
  shows "blocks_inv b' \<and> grown b b'"
proof -
  let ?k = "find_free_slot b"
  have g: "grown b (b\<lparr>g_partitions := (g_partitions b)[?k := x], g_devices := ds\<rparr>)" if "?k < 8" for x ds
    using first_free [OF inv that] by (auto simp: grown_def nth_list_update)
  from run show ?thesis
  proof (cases rule: scan_entry_cases)
    case 1
    then show ?thesis using inv by simp
  next
    case (2 j)
    have "Some (Part x) \<in> set (g_devices b) \<or> x = ?k" if "Some (Part x) \<in> set ((g_devices b)[j := Some (Part ?k)])" for x
      using subsetD [OF set_update_subset_insert that] by auto
    then have "blocks_inv b'" unfolding 2(3) using blocks_invD(1) [OF inv] new_partition_write [of b base mbr i ?k]
      by (intro fill_slot_inv [OF inv 2(1) base]) auto
    then show ?thesis using g [OF 2(1)] 2(3) by blast
  next
    case 3
    then have "blocks_inv b'"
      unfolding 3(2) using blocks_invD(1) [OF inv] new_partition_write [of b base mbr i ?k]
      by (intro fill_slot_inv [OF inv 3(1) base]) auto
    then show ?thesis using g [OF 3(1)] 3(2) by blast
  qed
qed

lemma scan_entries_inv:
  "blocks_inv b \<Longrightarrow> known b base \<Longrightarrow> scan_entries base mbr is (b, n) = (b', n') \<Longrightarrow> blocks_inv b' \<and> grown b b'"
proof (induction "is" arbitrary: b n)
  case (Cons i "is")
  obtain b1 n1 go where e: "scan_entry base mbr i (b, n) = ((b1, n1), go)" by (metis surj_pair)
  from scan_entry_inv [OF Cons.prems(1,2) e] have *: "blocks_inv b1" "grown b b1" by blast+
  show ?case
  proof (cases go)
    case True
    then show ?thesis using Cons.IH [OF *(1) grown_known [OF *(2) Cons.prems(2)], of n1] Cons.prems(3) e * by (auto intro: grown_trans)
  qed (use Cons.prems(3) e * in simp)
qed simp

lemma scan_mbr_partitions_inv:
  assumes inv: "blocks_inv b" and r: "known b r"
  shows "\<exists>b' d' ok. scan_mbr_partitions dr (Some r) b d = Some (b', d', ok) \<and> blocks_inv b' \<and> grown b b'"
proof -
  obtain k off where "lies_on b r k off" using known_lies_on [OF assms] by blast
  from dev_read_returns [OF this] obtain res d' where rd: "dev_read dr b r 0 1 d = Some (res, d')" by fastforce
  obtain b' n where e: "scan_entries r (fill_buffer 512 (the res)) [0, 1, 2, 3] (b, 0) = (b', n)" by fastforce
  from scan_entries_inv [OF inv r e] rd e inv show ?thesis
    by (cases res) (auto simp: scan_mbr_partitions_def Let_def)
qed

lemma visit_scan_inv:
  "blocks_inv b \<Longrightarrow> set is \<subseteq> {..<8} \<Longrightarrow>
   \<exists>b' d' s. visit_devices (\<lambda>r (b, d). map_option (\<lambda>(b, d, _). (b, d)) (scan_mbr_partitions dr (Some r) b d)) is seen (b, d)
     = Some (b', d', s) \<and> blocks_inv b' \<and> grown b b'"
proof (induction "is" arbitrary: b d seen)
  case (Cons i "is")
  show ?case
  proof (cases "g_devices b ! i")
    case None
    then show ?thesis using Cons by simp
  next
    case (Some r)
    then have "Some r \<in> set (g_devices b)" using Cons.prems blocks_invD(1) by (metis insert_subset lessThan_iff list.simps(15) nth_mem)
    then have "known b r" using blocks_invD(7) [OF Cons.prems(1)] unfolding known_def by blast
    from scan_mbr_partitions_inv [OF Cons.prems(1) this, of dr d] obtain b1 d1 ok where
      1: "scan_mbr_partitions dr (Some r) b d = Some (b1, d1, ok)" "blocks_inv b1" "grown b b1" by blast
    from Cons.IH [OF 1(2), of True d1] Cons.prems obtain b2 d2 s where
      2: "visit_devices (\<lambda>r (b, d). map_option (\<lambda>(b, d, _). (b, d)) (scan_mbr_partitions dr (Some r) b d)) is True (b1, d1)
       = Some (b2, d2, s)" "blocks_inv b2" "grown b1 b2" by auto
    from 1 2 Some grown_trans [OF 1(3) 2(3)] show ?thesis by simp
  qed
qed simp


section \<open>Properties\<close>

text \<open>
  C33. The scan of all devices at boot always returns, although it also visits the partitions it
  registers on the way, and leaves the tables sound: devices and partitions that were there
  are as before, and every registered device lies on a disk from a certain sector on.
\<close>

theorem scan_all_devices_sound:
  assumes "blocks_inv b"
  shows "\<exists>b' d' seen. scan_all_devices dr (b, d) = Some (b', d', seen) \<and> blocks_inv b' \<and> grown b b' \<and>
    (\<forall>r. Some r \<in> set (g_devices b') \<longrightarrow> (\<exists>k off. lies_on b' r k off))"
proof -
  obtain b' d' seen where v: "scan_all_devices dr (b, d) = Some (b', d', seen)" "blocks_inv b'" "grown b b'"
    using visit_scan_inv [OF assms, of "[0..<8]" dr False d]
    unfolding scan_all_devices_def block_visit_devices_def by (auto simp: atLeast0LessThan)
  have "\<exists>k off. lies_on b' r k off" if "Some r \<in> set (g_devices b')" for r
    using that blocks_invD(7) [OF v(2)] known_lies_on [OF v(2), of r] unfolding known_def by blast
  with v show ?thesis by blast
qed

text \<open>
  C22. A partition is confined. When a write through a partition succeeds, its sector numbers do not
  exceed the 64-bit range and the partition lies on the disk, no sector outside the partition changes, on its own disk or on
  another, and the sectors written hold the buffer.
\<close>

theorem partition_write_confined:
  assumes "drivers_ok dr sects k lim" and "lies_on b (Part s) k off"
    and "dev_write dr b (Part s) lba buf c d = Some (True, d')" and "length buf = 512 * unat c"
    and "unat lba + unat c < 2 ^ 64" and "unat off + unat (sector_count (g_partitions b ! s)) \<le> lim" and "lim < 2 ^ 64"
  shows "sector_run (sects k d') (off + lba) (unat c) = buf \<and>
    (\<forall>j x. j \<noteq> k \<or> unat x < unat off \<or> unat off + unat (sector_count (g_partitions b ! s)) \<le> unat x \<longrightarrow>
      sects j d' x = sects j d x)"
proof -
  from assms(2) have "lba + ucast c \<le> sector_count (g_partitions b ! s)"
    by (cases rule: lies_on_partE) (use dev_write_part [OF _ _ _ _ assms(3)] in auto)
  moreover have "unat (lba + ucast c) = unat lba + unat c"
    using assms(5) unat_ucast_u64 [of c] by (simp add: unat_word_ariths)
  ultimately have le: "unat lba + unat c \<le> unat (sector_count (g_partitions b ! s))" by (simp add: word_le_nat_alt)
  then have st: "unat (off + lba) = unat off + unat lba" using assms(6,7) by (simp add: unat_word_ariths)
  have "unat (off + lba) + unat c \<le> lim" using st le assms(6) by simp
  from dev_write_sectors [OF assms(2,1,3) this assms(4)]
  have sk: "sects k d' = put_sectors (off + lba) (unat c) buf (sects k d)"
    and so: "\<And>j. j \<noteq> k \<Longrightarrow> sects j d' = sects j d" by simp_all
  have "sects k d' x = sects k d x"
    if "unat x < unat off \<or> unat off + unat (sector_count (g_partitions b ! s)) \<le> unat x" for x
    unfolding sk using that st le assms(6,7) by (intro put_sectors_outside) auto
  moreover have "sector_run (sects k d') (off + lba) (unat c) = buf"
    unfolding sk using st le assms(4,6,7) by (intro sector_run_put_sectors) auto
  ultimately show ?thesis using so by metis
qed


section \<open>Examples\<close>

text \<open>Disks kept in memory, a sector that was never written reads as zeros.\<close>

type_synonym ram_disks = "nat \<Rightarrow> u64 \<Rightarrow> u8 list"

definition ram_sects :: "nat \<Rightarrow> ram_disks \<Rightarrow> u64 \<Rightarrow> u8 list" where
  "ram_sects n d l = (if length (d n l) = 512 then d n l else replicate 512 0)"

definition ram_drivers :: "ram_disks drivers" where
  "ram_drivers = \<lparr>drv_read = (\<lambda>n lba c d. (Some (sector_run (ram_sects n d) lba (unat c)), d)),
     drv_write = (\<lambda>n lba buf c d.
       if length buf = 512 * unat c then (True, d(n := put_sectors lba (unat c) buf (ram_sects n d))) else (False, d))\<rparr>"

lemma ram_drivers_ok: "lim \<le> 2 ^ 64 \<Longrightarrow> drivers_ok ram_drivers ram_sects k lim"
proof -
  have l: "length (ram_sects n d l) = 512" for n d l by (simp add: ram_sects_def)
  have "ram_sects n (d(n := put_sectors lba c buf (ram_sects n d))) = put_sectors lba c buf (ram_sects n d)"
    if "length buf = 512 * c" for n d lba c buf
    using put_sectors_length [OF that, of "ram_sects n d", OF l] by (intro ext) (simp add: ram_sects_def)
  moreover have "k \<noteq> n \<Longrightarrow> ram_sects k (d(n := v)) = ram_sects k d" for k n d v
    by (intro ext) (simp add: ram_sects_def)
  moreover assume "lim \<le> 2 ^ 64"
  ultimately show ?thesis using l by (auto simp: drivers_ok_def ram_drivers_def split: if_splits)
qed

definition ram_disk :: "nat \<Rightarrow> block_device" where
  "ram_disk n = \<lparr>dev_name = Some ''ram'', block_size = 512, block_count = 0, read_fn = Some (Driver n), write_fn = Some (Driver n)\<rparr>"

text \<open>One disk with a partition of four sectors from sector 8.\<close>

definition ram_part :: partition_record where
  "ram_part = \<lparr>part_used = True, part_device = \<lparr>dev_name = Some ''ramp1'', block_size = 512, block_count = 4,
       read_fn = Some (Partition_Slot 0), write_fn = Some (Partition_Slot 0)\<rparr>,
     part_base = Some (Disk 0), start_lba = 8, sector_count = 4\<rparr>"

definition ram_blocks :: blocks where
  "ram_blocks = (no_blocks ram_disk)\<lparr>g_devices := (replicate 8 None)[0 := Some (Disk 0)],
     g_partitions := (replicate 8 free_partition)[0 := ram_part]\<rparr>"

lemma ram_blocks_sel:
  "g_partitions ram_blocks ! 0 = ram_part" "disks ram_blocks = ram_disk" "g_devices ram_blocks ! 0 = Some (Disk 0)"
  by (simp_all add: ram_blocks_def no_blocks_def)

lemma ram_disk_lies: "lies_on ram_blocks (Disk n) n 0"
  by (rule on_disk) (simp_all add: ram_blocks_sel ram_disk_def)

lemma ram_part_lies: "lies_on ram_blocks (Part 0) 0 8"
  using on_part [of 0 ram_blocks "Disk 0" 0 0] ram_disk_lies by (simp add: ram_blocks_sel ram_part_def)

lemma ram_blocks_inv: "blocks_inv ram_blocks"
proof -
  have "part_used (g_partitions ram_blocks ! s) \<longleftrightarrow> s < 1" if "s < 8" for s
    using that by (simp add: ram_blocks_def nth_list_update free_partition_def ram_part_def)
  moreover have "slot_ok ram_blocks 0" by (simp add: slot_ok_def ram_blocks_sel ram_part_def)
  moreover have "Some (Part s) \<notin> set (g_devices ram_blocks)" for s
    by (simp add: ram_blocks_def numeral_nat)
  ultimately show ?thesis
    by (auto simp: blocks_inv_def ram_blocks_sel ram_disk_def intro!: exI [of _ "1::nat"])
       (simp_all add: ram_blocks_def)
qed

lemma ram_part_write:
  "lba + ucast c \<le> 4 \<Longrightarrow> length buf = 512 * unat c \<Longrightarrow>
   dev_write ram_drivers ram_blocks (Part 0) lba buf c d
     = Some (True, d(0 := put_sectors (8 + lba) (unat c) buf (ram_sects 0 d)))"
  by (simp add: dev_write_def ram_blocks_sel ram_part_def call_write.simps kMaxPartitions_def ram_disk_def
      ram_drivers_def not_less)

theorem partition_write_confined_witness:
  "ram_sects 0 ((\<lambda>_ _. [])(0 := put_sectors 9 1 (replicate 512 7) (ram_sects 0 (\<lambda>_ _. [])))) 12
     = ram_sects 0 (\<lambda>_ _. []) 12"
  using partition_write_confined [OF ram_drivers_ok [of 100] ram_part_lies ram_part_write [of 1 1 "replicate 512 7" "\<lambda>_ _. []"]]
  by (simp add: ram_blocks_sel ram_part_def)

theorem scan_all_devices_sound_witness:
  "\<exists>b' d' seen. scan_all_devices ram_drivers (ram_blocks, (\<lambda>_ _. [])) = Some (b', d', seen) \<and> blocks_inv b' \<and> grown ram_blocks b'"
  using scan_all_devices_sound [OF ram_blocks_inv, of ram_drivers "\<lambda>_ _. []"] by blast

text \<open>
  The check of the range adds in 64 bits: a write at the last sector number passes it and lands on the
  sector before the partition.
\<close>

lemma partition_check_wraps:
  "\<exists>d'. dev_write ram_drivers ram_blocks (Part 0) 0xFFFFFFFFFFFFFFFF (replicate 512 7) 1 (\<lambda>_ _. []) = Some (True, d') \<and>
     ram_sects 0 d' 7 = replicate 512 7"
  using ram_part_write [of "0xFFFFFFFFFFFFFFFF" 1 "replicate 512 7" "\<lambda>_ _. []"] by (simp add: ram_sects_def)

end
