(* ===== verification/Storage.thy ===== *)
theory Storage
  imports Block_Correct RamFs_Correct
begin

text \<open>
  Persistent storage: \<open>src/kernel/storage.cpp\<close>. A superblock at sector 1 says where free space begins, an
  index at sector 2 names the packages stored from sector 10 on, and a package is a
  sequence of files. All of it is read and written through the primary block device or,
  when there is none, through the IDE driver. The drivers (\<open>hardware\<close>) are parameters. A buffer
  on the heap is a list of bytes beside the heap's state. \<open>None\<close> is a call that does not
  return, or that reads outside its buffer.
\<close>


section \<open>Definitions\<close>

subsection \<open>State\<close>

record superblock =
  magic :: u32
  next_free_lba :: u32
  reserved :: "u8 list"

record storage_handle =
  h_start_lba :: u32
  h_sectors :: u32

record 'd storage =
  sb :: superblock
  g_storage_ready :: bool
  st_blocks :: blocks
  st_dev :: 'd
  st_fs :: "ramfs option"
  st_heap :: mm

record 'd hardware =
  hw_drivers :: "'d drivers"
  nvme_init :: "blocks \<Rightarrow> 'd \<Rightarrow> blocks \<times> 'd"
  ide_init :: "'d \<Rightarrow> 'd"
  ide_present :: "'d \<Rightarrow> bool \<times> 'd"
  ide_read :: "u32 \<Rightarrow> 'd \<Rightarrow> u8 list option \<times> 'd"
  ide_write :: "u32 \<Rightarrow> u8 list \<Rightarrow> 'd \<Rightarrow> bool \<times> 'd"

definition SUPERBLOCK_LBA :: u32 where
  "SUPERBLOCK_LBA = 1"

definition DATA_START_LBA :: u32 where
  "DATA_START_LBA = 10"

definition INDEX_LBA :: u32 where
  "INDEX_LBA = 2"

definition MAGIC :: u32 where
  "MAGIC = 0x484F4B55"

definition sb_bytes :: "superblock \<Rightarrow> u8 list" where
  "sb_bytes s = le32_bytes (magic s) @ le32_bytes (next_free_lba s) @ reserved s"

definition sb_of :: "u8 list \<Rightarrow> superblock" where
  "sb_of bs = \<lparr>magic = le32 bs 0, next_free_lba = le32 bs 4, reserved = drop 8 bs\<rparr>"

subsection \<open>The IDE driver as a block device\<close>

fun ide_read_wrapper :: "'d hardware \<Rightarrow> u64 \<Rightarrow> nat \<Rightarrow> 'd \<Rightarrow> u8 list option \<times> 'd" where
  "ide_read_wrapper hw lba 0 d = (Some [], d)"
| "ide_read_wrapper hw lba (Suc n) d =
     (case ide_read hw (ucast lba) d of
        (None, d) \<Rightarrow> (None, d)
      | (Some bs, d) \<Rightarrow>
          case ide_read_wrapper hw (lba + 1) n d of
            (None, d) \<Rightarrow> (None, d)
          | (Some cs, d) \<Rightarrow> (Some (bs @ cs), d))"

fun ide_write_wrapper :: "'d hardware \<Rightarrow> u64 \<Rightarrow> u8 list \<Rightarrow> nat \<Rightarrow> 'd \<Rightarrow> bool \<times> 'd" where
  "ide_write_wrapper hw lba buf 0 d = (True, d)"
| "ide_write_wrapper hw lba buf (Suc n) d =
     (case ide_write hw (ucast lba) (take 512 buf) d of
        (False, d) \<Rightarrow> (False, d)
      | (True, d) \<Rightarrow> ide_write_wrapper hw (lba + 1) (drop 512 buf) n d)"

text \<open>Disk 0 is the one of the IDE driver.\<close>

definition ide_block :: block_device where
  "ide_block = \<lparr>dev_name = Some ''ide0'', block_size = 512, block_count = 0,
     read_fn = Some (Driver 0), write_fn = Some (Driver 0)\<rparr>"

definition all_drivers :: "'d hardware \<Rightarrow> 'd drivers" where
  "all_drivers hw =
     \<lparr>drv_read = (\<lambda>n lba c d. if n = 0 then ide_read_wrapper hw lba (unat c) d else drv_read (hw_drivers hw) n lba c d),
      drv_write = (\<lambda>n lba buf c d. if n = 0 then ide_write_wrapper hw lba buf (unat c) d
        else drv_write (hw_drivers hw) n lba buf c d)\<rparr>"

subsection \<open>Sectors of the primary device\<close>

definition primary_read :: "'d hardware \<Rightarrow> u32 \<Rightarrow> u32 \<Rightarrow> 'd storage \<Rightarrow> (u8 list option \<times> 'd storage) option" where
  "primary_read hw lba sectors st =
     (case block_get_primary (st_blocks st) of
        Some r \<Rightarrow> map_option (\<lambda>(res, d). (res, st\<lparr>st_dev := d\<rparr>))
          (dev_read (all_drivers hw) (st_blocks st) r (ucast lba) sectors (st_dev st))
      | None \<Rightarrow> (case ide_read_wrapper hw (ucast lba) (unat sectors) (st_dev st) of (res, d) \<Rightarrow> Some (res, st\<lparr>st_dev := d\<rparr>)))"

definition primary_write :: "'d hardware \<Rightarrow> u32 \<Rightarrow> u8 list \<Rightarrow> 'd storage \<Rightarrow> (bool \<times> 'd storage) option" where
  "primary_write hw lba buf st =
     (case block_get_primary (st_blocks st) of
        Some r \<Rightarrow> map_option (\<lambda>(ok, d). (ok, st\<lparr>st_dev := d\<rparr>))
          (dev_write (all_drivers hw) (st_blocks st) r (ucast lba) buf 1 (st_dev st))
      | None \<Rightarrow> (case ide_write hw lba buf (st_dev st) of (ok, d) \<Rightarrow> Some (ok, st\<lparr>st_dev := d\<rparr>)))"

subsection \<open>Initialisation\<close>

definition new_superblock :: superblock where
  "new_superblock = \<lparr>magic = MAGIC, next_free_lba = DATA_START_LBA, reserved = replicate 504 0\<rparr>"

definition bad_superblock :: "superblock \<Rightarrow> bool" where
  "bad_superblock s \<longleftrightarrow> magic s \<noteq> MAGIC \<or> next_free_lba s < DATA_START_LBA"

text \<open>What is done with the result of reading sector 1; the last component is what is written back.\<close>

definition take_superblock :: "u8 list option \<Rightarrow> superblock \<Rightarrow> superblock \<times> u8 list option" where
  "take_superblock res s =
     (case res of
        None \<Rightarrow> (s\<lparr>magic := 0, next_free_lba := DATA_START_LBA\<rparr>, None)
      | Some buf \<Rightarrow>
          if bad_superblock (sb_of buf) then (new_superblock, Some (sb_bytes new_superblock)) else (sb_of buf, None))"

definition init_from_device :: "'d hardware \<Rightarrow> dev_ref \<Rightarrow> 'd storage \<Rightarrow> 'd storage option" where
  "init_from_device hw r st =
     (let dr = all_drivers hw; b = st_blocks st in
      dev_read dr b r (ucast SUPERBLOCK_LBA) 1 (st_dev st) \<bind> (\<lambda>(res, d).
        case take_superblock res (sb st) of
          (s, None) \<Rightarrow> Some (st\<lparr>g_storage_ready := True, sb := s, st_dev := d\<rparr>)
        | (s, Some buf) \<Rightarrow> map_option (\<lambda>(_, d). st\<lparr>g_storage_ready := True, sb := s, st_dev := d\<rparr>)
            (dev_write dr b r (ucast SUPERBLOCK_LBA) buf 1 d)))"

definition init_from_ide :: "'d hardware \<Rightarrow> 'd storage \<Rightarrow> 'd storage" where
  "init_from_ide hw st =
     (case ide_present hw (ide_init hw (st_dev st)) of
        (False, d) \<Rightarrow> st\<lparr>st_dev := d, sb := (sb st)\<lparr>magic := 0, next_free_lba := DATA_START_LBA\<rparr>, g_storage_ready := False\<rparr>
      | (True, d) \<Rightarrow>
          let b = fst (block_register_device (Some (Disk 0)) ((st_blocks st)\<lparr>disks := (disks (st_blocks st))(0 := ide_block)\<rparr>));
              (res, d) = ide_read hw SUPERBLOCK_LBA d;
              (s, out) = take_superblock res (sb st);
              d = (case out of None \<Rightarrow> d | Some buf \<Rightarrow> snd (ide_write hw SUPERBLOCK_LBA buf d)) in
            st\<lparr>st_blocks := b, st_dev := d, sb := s, g_storage_ready := True\<rparr>)"

definition storage_init :: "'d hardware \<Rightarrow> 'd storage \<Rightarrow> 'd storage option" where
  "storage_init hw st =
     (case block_get_primary (st_blocks st) of
        Some r \<Rightarrow> init_from_device hw r st
      | None \<Rightarrow>
          case nvme_init hw (st_blocks st) (st_dev st) of (b, d) \<Rightarrow>
            let st = st\<lparr>st_blocks := b, st_dev := d\<rparr> in
            case block_get_primary b of
              Some r \<Rightarrow> init_from_device hw r st
            | None \<Rightarrow> Some (init_from_ide hw st))"

definition storage_used_sectors :: "'d storage \<Rightarrow> u32" where
  "storage_used_sectors st =
     (if next_free_lba (sb st) \<le> DATA_START_LBA then 0 else next_free_lba (sb st) - DATA_START_LBA)"

definition storage_flush :: "'d hardware \<Rightarrow> 'd storage \<Rightarrow> (bool \<times> 'd storage) option" where
  "storage_flush hw st = primary_write hw SUPERBLOCK_LBA (sb_bytes (sb st)) st"

subsection \<open>Reading and writing\<close>

text \<open>\<open>data\<close> is what the pointer points to from the current sector on, \<open>sz\<close> the bytes that remain.\<close>

fun write_loop :: "'d hardware \<Rightarrow> u8 list \<Rightarrow> u32 \<Rightarrow> nat \<Rightarrow> u32 \<Rightarrow> 'd storage \<Rightarrow> (bool \<times> 'd storage) option" where
  "write_loop hw data lba 0 sz st = Some (True, st)"
| "write_loop hw data lba (Suc n) sz st =
     (let copy = (if 512 < sz then 512 else sz);
          tmp = take (unat copy) data @ replicate (512 - unat copy) 0 in
      primary_write hw lba tmp st \<bind> (\<lambda>(ok, st).
        if \<not> ok then Some (False, st) else write_loop hw (drop 512 data) (lba + 1) n (sz - copy) st))"

definition storage_write :: "'d hardware \<Rightarrow> u8 list option \<Rightarrow> u32 \<Rightarrow> 'd storage \<Rightarrow> (storage_handle option \<times> 'd storage) option" where
  "storage_write hw data sz st =
     (case data of
        None \<Rightarrow> Some (None, st)
      | Some bs \<Rightarrow>
          if sz = 0 then Some (None, st)
          else let sectors = (sz + 511) div 512; start = next_free_lba (sb st) in
            write_loop hw bs start (unat sectors) sz st \<bind> (\<lambda>(ok, st).
              if \<not> ok then Some (None, st)
              else let st = st\<lparr>sb := (sb st)\<lparr>next_free_lba := next_free_lba (sb st) + sectors\<rparr>\<rparr> in
                storage_flush hw st \<bind> (\<lambda>(ok, st).
                  Some (if \<not> ok then None else Some \<lparr>h_start_lba = start, h_sectors = sectors\<rparr>, st))))"

definition storage_read :: "'d hardware \<Rightarrow> storage_handle \<Rightarrow> 'd storage \<Rightarrow> (u8 list option \<times> 'd storage) option" where
  "storage_read hw h st =
     (if h_sectors h = 0 then Some (None, st) else primary_read hw (h_start_lba h) (h_sectors h) st)"

definition storage_read_raw :: "'d hardware \<Rightarrow> u32 \<Rightarrow> u32 \<Rightarrow> 'd storage \<Rightarrow> (u8 list option \<times> 'd storage) option" where
  "storage_read_raw hw lba sectors st = primary_read hw lba sectors st"

subsection \<open>The index\<close>

fun index_walk :: "u8 list \<Rightarrow> nat \<Rightarrow> u32 \<Rightarrow> u32 option" where
  "index_walk buf 0 off = Some off"
| "index_walk buf (Suc n) off =
     (if 512 < off + 12 then None
      else let off = off + (12 + le32 buf (unat off)) in
        if 512 < off then None else index_walk buf n off)"

definition index_put :: "u8 list \<Rightarrow> u32 \<Rightarrow> cstring \<Rightarrow> u32 \<Rightarrow> u32 \<Rightarrow> u8 list" where
  "index_put buf off name start sectors =
     put_bytes 0 (le32_bytes (le32 buf 0 + 1))
       (put_bytes (unat off) (le32_bytes (of_nat (length name)) @ le32_bytes start @ le32_bytes sectors @ bytes_of name) buf)"

definition storage_add_index_entry :: "'d hardware \<Rightarrow> cstring \<Rightarrow> u32 \<Rightarrow> u32 \<Rightarrow> 'd storage \<Rightarrow> (bool \<times> 'd storage) option" where
  "storage_add_index_entry hw name start sectors st =
     storage_read_raw hw INDEX_LBA 1 st \<bind> (\<lambda>(res, st).
       let buf = (case res of None \<Rightarrow> replicate 512 0 | Some bs \<Rightarrow> fill_buffer 512 bs) in
       case index_walk buf (unat (le32 buf 0)) 4 of
         None \<Rightarrow> Some (False, st)
       | Some off \<Rightarrow>
           if 512 < off + (12 + of_nat (length name)) then Some (False, st)
           else primary_write hw INDEX_LBA (index_put buf off name start sectors) st)"

end
