(* ===== verification/Storage_Correct.thy ===== *)
theory Storage_Correct
  imports Storage
begin

text \<open>
  Correctness of the storage layer on a primary block device: what is written is what is read,
  nothing else on the device changes, the superblock survives a restart, and the index
  grows by one entry at a time.
\<close>


section \<open>The device behind the storage\<close>

text \<open>
  The primary device is disk \<open>k\<close> from sector \<open>off\<close> on, and the driver of that disk does what \<open>drivers_ok\<close> says
  for the \<open>cap\<close> sectors from there.
\<close>

definition on_primary :: "'d hardware \<Rightarrow> (nat \<Rightarrow> 'd \<Rightarrow> u64 \<Rightarrow> u8 list) \<Rightarrow> nat \<Rightarrow> u64 \<Rightarrow> nat \<Rightarrow> 'd storage \<Rightarrow> bool" where
  "on_primary hw sects k off cap st \<longleftrightarrow> 10 \<le> cap \<and> unat off + cap < 2 ^ 64 \<and>
     drivers_ok (all_drivers hw) sects k (unat off + cap) \<and>
     (\<exists>r. block_get_primary (st_blocks st) = Some r \<and> lies_on (st_blocks st) r k off)"

definition st_view :: "(nat \<Rightarrow> 'd \<Rightarrow> u64 \<Rightarrow> u8 list) \<Rightarrow> nat \<Rightarrow> u64 \<Rightarrow> 'd storage \<Rightarrow> u64 \<Rightarrow> u8 list" where
  "st_view sects k off st = dev_view sects k off (st_dev st)"

text \<open>Only the device has changed.\<close>

definition same_but_dev :: "'d storage \<Rightarrow> 'd storage \<Rightarrow> bool" where
  "same_but_dev st st' \<longleftrightarrow> st' = st\<lparr>st_dev := st_dev st'\<rparr>"

lemma same_but_dev_refl [simp]: "same_but_dev st st"
  by (simp add: same_but_dev_def)

lemma same_but_dev_trans: "same_but_dev a b \<Longrightarrow> same_but_dev b c \<Longrightarrow> same_but_dev a c"
  by (cases a; cases b; cases c) (simp add: same_but_dev_def)

lemma same_but_devD:
  assumes "same_but_dev st st'"
  shows "sb st' = sb st" "st_blocks st' = st_blocks st" "st_fs st' = st_fs st" "st_heap st' = st_heap st"
    "g_storage_ready st' = g_storage_ready st" "on_primary hw sects k off cap st' = on_primary hw sects k off cap st"
proof -
  obtain d where "st' = st\<lparr>st_dev := d\<rparr>" using assms unfolding same_but_dev_def by blast
  then show "sb st' = sb st" "st_blocks st' = st_blocks st" "st_fs st' = st_fs st" "st_heap st' = st_heap st"
    "g_storage_ready st' = g_storage_ready st" "on_primary hw sects k off cap st' = on_primary hw sects k off cap st"
    by (simp_all add: on_primary_def)
qed

lemma st_view_length: "on_primary hw sects k off cap st \<Longrightarrow> length (st_view sects k off s l) = 512"
  by (auto simp: on_primary_def st_view_def dev_view_length)

lemma st_view_simps [simp]:
  "st_view sects k off (st\<lparr>sb := s\<rparr>) = st_view sects k off st"
  "on_primary hw sects k off cap (st\<lparr>sb := s\<rparr>) = on_primary hw sects k off cap st"
  "st_view sects k off (st\<lparr>st_fs := f\<rparr>) = st_view sects k off st"
  "on_primary hw sects k off cap (st\<lparr>st_fs := f\<rparr>) = on_primary hw sects k off cap st"
  "st_view sects k off (st\<lparr>st_heap := h\<rparr>) = st_view sects k off st"
  "on_primary hw sects k off cap (st\<lparr>st_heap := h\<rparr>) = on_primary hw sects k off cap st"
  by (simp_all add: st_view_def on_primary_def)

lemma on_primaryD:
  assumes "on_primary hw sects k off cap st" "unat lba + n \<le> cap"
  obtains r where "block_get_primary (st_blocks st) = Some r" "lies_on (st_blocks st) r k off"
    "drivers_ok (all_drivers hw) sects k (unat off + cap)" "unat (off + ucast (lba :: u32)) + n \<le> unat off + cap"
proof -
  from assms have "unat (off + ucast lba) = unat off + unat lba"
    by (simp add: on_primary_def unat_word_ariths unat_ucast_u64)
  then show ?thesis using assms that by (auto simp: on_primary_def)
qed

lemma primary_read_view:
  assumes "on_primary hw sects k off cap st" "unat lba + unat c \<le> cap"
  shows "\<exists>res st'. primary_read hw lba c st = Some (res, st') \<and> same_but_dev st st' \<and>
    st_view sects k off st' = st_view sects k off st \<and>
    (res = None \<or> res = Some (sector_run (st_view sects k off st) (ucast lba) (unat c)))"
proof -
  from assms obtain r where r: "block_get_primary (st_blocks st) = Some r" "lies_on (st_blocks st) r k off"
    and ok: "drivers_ok (all_drivers hw) sects k (unat off + cap)" and le: "unat (off + ucast lba) + unat c \<le> unat off + cap"
    by (rule on_primaryD)
  obtain res d where rd: "dev_read (all_drivers hw) (st_blocks st) r (ucast lba) c (st_dev st) = Some (res, d)"
    using dev_read_returns [OF r(2)] by (metis surj_pair)
  note v = dev_read_view [OF r(2) ok rd le]
  have "res = None \<or> res = Some (sector_run (st_view sects k off st) (ucast lba) (unat c))"
    using v(2) by (cases res) (auto simp: st_view_def)
  with r(1) rd v(1) show ?thesis by (simp add: primary_read_def same_but_dev_def st_view_def)
qed

lemma primary_write_view:
  assumes "on_primary hw sects k off cap st" "unat lba + 1 \<le> cap" "primary_write hw lba buf st = Some (True, st')" "length buf = 512"
  shows "same_but_dev st st' \<and> st_view sects k off st' = (st_view sects k off st)(ucast lba := buf)"
proof -
  from assms(1,2) obtain r where r: "block_get_primary (st_blocks st) = Some r" "lies_on (st_blocks st) r k off"
    and ok: "drivers_ok (all_drivers hw) sects k (unat off + cap)" and le: "unat (off + ucast lba) + 1 \<le> unat off + cap"
    by (rule on_primaryD)
  from assms(3) r(1) obtain d where wr: "dev_write (all_drivers hw) (st_blocks st) r (ucast lba) buf 1 (st_dev st) = Some (True, d)"
    and st': "st' = st\<lparr>st_dev := d\<rparr>" by (auto simp: primary_write_def)
  from dev_write_view [OF r(2) ok wr] le assms(4) st' show ?thesis by (simp add: same_but_dev_def st_view_def)
qed


section \<open>Writing\<close>

definition padded :: "nat \<Rightarrow> u8 list \<Rightarrow> u8 list" where
  "padded n data = data @ replicate (512 * n - length data) 0"

lemma ucast_Suc: "unat (lba :: u32) + 1 < 2 ^ 32 \<Longrightarrow> (ucast (lba + 1) :: u64) = ucast lba + 1"
  by (rule word_unat_eq_iff [THEN iffD2]) (simp add: unat_ucast_u64 unat_word_ariths)

lemma write_loop_view:
  "on_primary hw sects k off cap st \<Longrightarrow> write_loop hw data lba n sz st = Some (True, st') \<Longrightarrow> unat sz = length data \<Longrightarrow>
   length data \<le> 512 * n \<Longrightarrow> unat lba + n < 2 ^ 32 \<Longrightarrow> unat lba + n \<le> cap \<Longrightarrow>
   same_but_dev st st' \<and> st_view sects k off st' = put_sectors (ucast lba) n (padded n data) (st_view sects k off st)"
proof (induction n arbitrary: data lba sz st)
  case (Suc n)
  define copy where "copy = (if 512 < sz then 512 else sz)"
  have c: "unat copy = min 512 (length data)" using Suc.prems(3) by (auto simp: copy_def word_less_nat_alt min_def)
  have le: "copy \<le> sz" by (auto simp: copy_def)
  let ?tmp = "take (unat copy) data @ replicate (512 - unat copy) 0"
  from Suc.prems(2) obtain st1 where w: "primary_write hw lba ?tmp st = Some (True, st1)"
    and rest: "write_loop hw (drop 512 data) (lba + 1) n (sz - copy) st1 = Some (True, st')"
    by (auto simp: copy_def [symmetric] Let_def bind_eq_Some_conv split: if_splits)
  have tmp: "take 512 (padded (Suc n) data) = ?tmp" "drop 512 (padded (Suc n) data) = padded n (drop 512 data)"
    using c Suc.prems(4) by (auto simp: padded_def min_def)
  have "length ?tmp = 512" using c by simp
  from primary_write_view [OF Suc.prems(1) _ w this] Suc.prems(6)
  have 1: "same_but_dev st st1" "st_view sects k off st1 = (st_view sects k off st)(ucast lba := ?tmp)" by auto
  show ?case
  proof (cases n)
    case 0
    then have "st' = st1" using rest by simp
    then show ?thesis using 1 tmp 0 by simp
  next
    case (Suc m)
    have u: "unat lba + 1 < 2 ^ 32" using Suc.prems(5) Suc by simp
    have "same_but_dev st1 st' \<and> st_view sects k off st' = put_sectors (ucast (lba + 1)) n (padded n (drop 512 data)) (st_view sects k off st1)"
    proof (rule Suc.IH [OF _ rest])
      show "on_primary hw sects k off cap st1" using Suc.prems(1) same_but_devD(6) [OF 1(1)] by blast
      show "unat (sz - copy) = length (drop 512 data)" using le c Suc.prems(3) by (simp add: unat_sub)
      show "length (drop 512 data) \<le> 512 * n" using Suc.prems(4) by simp
      show "unat (lba + 1) + n < 2 ^ 32" "unat (lba + 1) + n \<le> cap" using u Suc.prems(5,6) by (simp_all add: unat_word_ariths)
    qed
    with 1 tmp ucast_Suc [OF u] same_but_dev_trans show ?thesis by (simp del: fun_upd_apply) blast
  qed
qed simp


text \<open>The superblock in memory is one that \<open>storage_init\<close> accepts.\<close>

definition storage_ok :: "'d storage \<Rightarrow> bool" where
  "storage_ok st \<longleftrightarrow> length (reserved (sb st)) = 504 \<and> \<not> bad_superblock (sb st)"

lemma sb_bytes_length: "length (reserved s) = 504 \<Longrightarrow> length (sb_bytes s) = 512"
  by (simp add: sb_bytes_def)

lemma sb_of_bytes: "sb_of (sb_bytes s) = s"
proof -
  have "le32 (sb_bytes s) 4 = le32 (drop 4 (sb_bytes s)) 0" by (rule le32_drop) (simp add: sb_bytes_def)
  then show ?thesis by (simp add: sb_of_def sb_bytes_def le32_split)
qed

definition data_sectors :: "u8 list \<Rightarrow> nat" where
  "data_sectors data = (length data + 511) div 512"

lemma data_sectors_le: "length data \<le> 512 * data_sectors data"
  by (simp add: data_sectors_def)

lemma unat_sectors:
  "unat sz = length data \<Longrightarrow> length data + 511 < 2 ^ 32 \<Longrightarrow> unat ((sz + 511) div 512 :: u32) = data_sectors data"
  by (simp add: unat_div unat_word_ariths data_sectors_def)

text \<open>The first condition on the arguments of a write: the size is that of the data, and the device's sector numbers suffice.\<close>

definition write_fits :: "u8 list \<Rightarrow> u32 \<Rightarrow> nat \<Rightarrow> 'd storage \<Rightarrow> bool" where
  "write_fits data sz cap st \<longleftrightarrow> unat sz = length data \<and> length data + 511 < 2 ^ 32 \<and>
     unat (next_free_lba (sb st)) + data_sectors data < 2 ^ 32 \<and> unat (next_free_lba (sb st)) + data_sectors data \<le> cap"

lemma storage_write_facts:
  assumes on: "on_primary hw sects k off cap st" and ok: "storage_ok st" and fits: "write_fits data sz cap st"
    and run: "storage_write hw (Some data) sz st = Some (Some h, st')"
  defines "start \<equiv> next_free_lba (sb st)" and "n \<equiv> data_sectors data"
  shows "h_start_lba h = start \<and> unat (h_sectors h) = n \<and> h_sectors h \<noteq> 0 \<and>
    sb st' = (sb st)\<lparr>next_free_lba := start + of_nat n\<rparr> \<and> st_blocks st' = st_blocks st \<and> storage_ok st' \<and> on_primary hw sects k off cap st' \<and>
    st_view sects k off st' = (put_sectors (ucast start) n (padded n data) (st_view sects k off st))(1 := sb_bytes (sb st'))"
proof -
  have sz: "unat sz = length data" "length data + 511 < 2 ^ 32" and room: "unat start + n < 2 ^ 32" "unat start + n \<le> cap"
    using fits by (simp_all add: write_fits_def start_def n_def)
  define sectors where "sectors = (sz + 511) div 512"
  have un: "unat sectors = n" using unat_sectors [OF sz] by (simp add: sectors_def n_def)
  then have ofn: "sectors = of_nat n" unfolding un [symmetric] by simp
  have "sz \<noteq> 0" using run by (auto simp: storage_write_def)
  then have "0 < length data" using sz(1) by (metis neq0_conv unat_eq_zero)
  then have n0: "n \<noteq> 0" using data_sectors_le [of data] by (cases "data_sectors data") (auto simp: n_def)
  from run \<open>sz \<noteq> 0\<close> obtain st1 where
    1: "write_loop hw data start n sz st = Some (True, st1)"
    and 2: "storage_flush hw (st1\<lparr>sb := (sb st1)\<lparr>next_free_lba := next_free_lba (sb st1) + sectors\<rparr>\<rparr>) = Some (True, st')"
    and h: "h = \<lparr>h_start_lba = start, h_sectors = sectors\<rparr>"
    by (auto simp: storage_write_def Let_def sectors_def [symmetric] un start_def bind_eq_Some_conv split: if_splits)
  from write_loop_view [OF on 1 sz(1)] room data_sectors_le [of data]
  have v1: "same_but_dev st st1" "st_view sects k off st1 = put_sectors (ucast start) n (padded n data) (st_view sects k off st)"
    by (simp_all add: n_def)
  let ?sb = "(sb st)\<lparr>next_free_lba := start + sectors\<rparr>"
  have f: "primary_write hw SUPERBLOCK_LBA (sb_bytes ?sb) (st1\<lparr>sb := ?sb\<rparr>) = Some (True, st')"
    using 2 same_but_devD(1) [OF v1(1)] by (simp add: storage_flush_def start_def)
  have "on_primary hw sects k off cap (st1\<lparr>sb := ?sb\<rparr>)" using on same_but_devD(6) [OF v1(1)] by simp
  from primary_write_view [OF this _ f] ok on
  have v2: "same_but_dev (st1\<lparr>sb := ?sb\<rparr>) st'" "st_view sects k off st' = (st_view sects k off st1)(ucast SUPERBLOCK_LBA := sb_bytes ?sb)"
    by (simp_all add: sb_bytes_length storage_ok_def on_primary_def SUPERBLOCK_LBA_def)
  have "unat (start + sectors) = unat start + n" using room un by (simp add: unat_word_ariths)
  then have "storage_ok st'" using ok same_but_devD(1) [OF v2(1)]
    by (auto simp: storage_ok_def bad_superblock_def word_less_nat_alt start_def)
  moreover have "on_primary hw sects k off cap st'" using on same_but_devD(6) [OF v1(1)] same_but_devD(6) [OF v2(1)] by simp
  moreover have "sectors \<noteq> 0" using n0 un by (metis unat_0)
  ultimately show ?thesis
    using h un ofn v1 v2 same_but_devD(1,2) [OF v2(1)] same_but_devD(2) [OF v1(1)]
    by (simp add: SUPERBLOCK_LBA_def)
qed

lemma sector_below_start: "storage_ok st \<Longrightarrow> 10 \<le> unat (ucast (next_free_lba (sb st)) :: u64)"
  by (simp add: storage_ok_def bad_superblock_def DATA_START_LBA_def unat_ucast_u64 not_less word_le_nat_alt)

lemma run_upd_outside:
  "unat lba + n \<le> 2 ^ 64 \<Longrightarrow> unat x < unat lba \<Longrightarrow> sector_run (v(x := y)) lba n = sector_run v lba n"
proof (intro sector_run_cong)
  fix i assume "unat lba + n \<le> 2 ^ 64" "unat x < unat lba" "i < n"
  then have "unat (lba + of_nat i) = unat lba + i" by (simp add: unat_word_ariths unat_of_nat)
  then show "(v(x := y)) (lba + of_nat i) = v (lba + of_nat i)" using \<open>unat x < unat lba\<close> by auto
qed


section \<open>Properties\<close>

text \<open>
  C24. What \<open>storage_write\<close> stored is what \<open>storage_read\<close> returns: after a successful write, reading the
  handle returns, and unless the device fails the result is the data followed by zeros up
  to a whole number of sectors.
\<close>

theorem storage_write_read_roundtrip:
  assumes "on_primary hw sects k off cap st" "storage_ok st" "write_fits data sz cap st"
    and "storage_write hw (Some data) sz st = Some (Some h, st')"
  shows "\<exists>res st''. storage_read hw h st' = Some (res, st'') \<and>
    (res = None \<or> res = Some (data @ replicate (512 * data_sectors data - length data) 0))"
proof -
  let ?n = "data_sectors data" and ?start = "ucast (next_free_lba (sb st)) :: u64"
  note f = storage_write_facts [OF assms]
  have room: "unat ?start + ?n \<le> 2 ^ 64" using assms(3) by (simp add: write_fits_def unat_ucast_u64)
  have "length (padded ?n data) = 512 * ?n" using data_sectors_le [of data] by (simp add: padded_def)
  then have "sector_run (put_sectors ?start ?n (padded ?n data) (st_view sects k off st)) ?start ?n = padded ?n data"
    using room by (rule sector_run_put_sectors)
  moreover have "unat (1 :: u64) < unat ?start" using sector_below_start [OF assms(2)] by simp
  ultimately have "sector_run (st_view sects k off st') ?start ?n = padded ?n data"
    using f run_upd_outside [OF room] by simp
  with primary_read_view [of hw sects k off cap st' "h_start_lba h" "h_sectors h"] f assms(3)
  show ?thesis by (auto simp: storage_read_def padded_def write_fits_def)
qed

text \<open>
  C28. Storing data never harms what is on the device. A successful write changes only the superblock and
  the sectors from the old end of the used space to the new one: the index and every earlier
  package stay as they were.
\<close>

theorem storage_write_confined:
  assumes "on_primary hw sects k off cap st" "storage_ok st" "write_fits data sz cap st"
    and "storage_write hw (Some data) sz st = Some (Some h, st')"
    and "x \<noteq> 1" "unat x < unat (next_free_lba (sb st)) \<or> unat (next_free_lba (sb st')) \<le> unat x"
  shows "st_view sects k off st' x = st_view sects k off st x"
proof -
  let ?n = "data_sectors data" and ?start = "ucast (next_free_lba (sb st)) :: u64"
  note f = storage_write_facts [OF assms(1-4)]
  have "unat (next_free_lba (sb st')) = unat (next_free_lba (sb st)) + ?n"
    using f assms(3) by (simp add: write_fits_def unat_word_ariths)
  then have "put_sectors ?start ?n (padded ?n data) (st_view sects k off st) x = st_view sects k off st x"
    using assms(3,6) by (intro put_sectors_outside) (auto simp: write_fits_def unat_ucast_u64)
  with f assms(5) show ?thesis by simp
qed

text \<open>
  C31. The end of the used space survives a restart. When the kernel starts again on the device as a
  successful write left it, \<open>storage_init\<close> returns and finds the superblock of the time of the
  write, unless the device fails to be read.
\<close>

theorem storage_init_recovers:
  assumes "on_primary hw sects k off cap st" "storage_ok st" "write_fits data sz cap st"
    and "storage_write hw (Some data) sz st = Some (Some h, st')"
    and "st_dev boot = st_dev st'" "st_blocks boot = st_blocks st'"
  shows "\<exists>st''. storage_init hw boot = Some st'' \<and> g_storage_ready st'' \<and> (sb st'' = sb st' \<or> magic (sb st'') = 0)"
proof -
  note f = storage_write_facts [OF assms(1-4)]
  from f obtain r where r: "block_get_primary (st_blocks boot) = Some r" "lies_on (st_blocks boot) r k off"
    and dok: "drivers_ok (all_drivers hw) sects k (unat off + cap)" and le: "unat (off + 1) + 1 \<le> unat off + cap"
    using assms(6) by (auto simp: on_primary_def unat_word_ariths)
  obtain res d where rd: "dev_read (all_drivers hw) (st_blocks boot) r 1 1 (st_dev boot) = Some (res, d)"
    using dev_read_returns [OF r(2)] by (metis surj_pair)
  have v: "res = None \<or> res = Some (sb_bytes (sb st'))"
    using dev_read_view(2) [OF r(2) dok rd] le f assms(5) by (cases res) (auto simp: st_view_def)
  have "\<not> bad_superblock (sb st')" using f unfolding storage_ok_def by blast
  with v rd r(1) show ?thesis
    by (auto simp: storage_init_def init_from_device_def take_superblock_def sb_of_bytes SUPERBLOCK_LBA_def)
qed

end
