(* ===== verification/Storage_Index.thy ===== *)
theory Storage_Index
  imports Storage_Correct
begin

text \<open>
  The index of packages: what its sector says, and that adding an entry appends to it.
\<close>


section \<open>Specification\<close>

text \<open>The entries that the \<open>n\<close> records from an offset describe: name, first sector, number of sectors.\<close>

fun index_list :: "u8 list \<Rightarrow> nat \<Rightarrow> nat \<Rightarrow> (u8 list \<times> u32 \<times> u32) list" where
  "index_list buf 0 off = []"
| "index_list buf (Suc n) off =
     (let len = unat (le32 buf off) in
      (take len (drop (off + 12) buf), le32 buf (off + 4), le32 buf (off + 8)) # index_list buf n (off + 12 + len))"

fun index_end :: "u8 list \<Rightarrow> nat \<Rightarrow> nat \<Rightarrow> nat" where
  "index_end buf 0 off = off"
| "index_end buf (Suc n) off = index_end buf n (off + 12 + unat (le32 buf off))"

fun index_wf :: "u8 list \<Rightarrow> nat \<Rightarrow> nat \<Rightarrow> bool" where
  "index_wf buf 0 off \<longleftrightarrow> off \<le> 512"
| "index_wf buf (Suc n) off \<longleftrightarrow> off + 12 + unat (le32 buf off) \<le> 512 \<and> index_wf buf n (off + 12 + unat (le32 buf off))"

definition index_ok :: "u8 list \<Rightarrow> bool" where
  "index_ok buf \<longleftrightarrow> length buf = 512 \<and> index_wf buf (unat (le32 buf 0)) 4"

definition index_entries :: "u8 list \<Rightarrow> (u8 list \<times> u32 \<times> u32) list" where
  "index_entries buf = index_list buf (unat (le32 buf 0)) 4"


section \<open>Lemmas\<close>

lemma index_end_ge: "off \<le> index_end buf n off"
proof (induction n arbitrary: off)
  case (Suc n)
  from Suc [of "off + 12 + unat (le32 buf off)"] show ?case by simp
qed simp

lemma index_wf_end: "index_wf buf n off \<Longrightarrow> off + 12 * n \<le> index_end buf n off \<and> index_end buf n off \<le> 512"
proof (induction n arbitrary: off)
  case (Suc n)
  from Suc.IH [of "off + 12 + unat (le32 buf off)"] Suc.prems show ?case by simp
qed simp

lemma index_walk_end:
  "index_wf buf n (unat off) \<Longrightarrow> index_walk buf n off = Some (of_nat (index_end buf n (unat off)))"
proof (induction n arbitrary: off)
  case (Suc n)
  let ?len = "le32 buf (unat off)"
  have le: "unat off + 12 + unat ?len \<le> 512" using Suc.prems by simp
  have u: "unat (off + 12) = unat off + 12" "unat (off + (12 + ?len)) = unat off + 12 + unat ?len"
    using le by (simp_all add: unat_word_ariths)
  then have "\<not> 512 < off + 12" "\<not> 512 < off + (12 + ?len)" using le by (simp_all add: word_less_nat_alt)
  with Suc.IH [of "off + (12 + ?len)"] Suc.prems u show ?case by (simp add: Let_def)
qed simp

definition index_entry :: "u8 list \<Rightarrow> nat \<Rightarrow> u8 list \<times> u32 \<times> u32" where
  "index_entry buf e = (take (unat (le32 buf e)) (drop (e + 12) buf), le32 buf (e + 4), le32 buf (e + 8))"

lemma index_list_Suc: "index_list buf (Suc n) off = index_entry buf off # index_list buf n (off + 12 + unat (le32 buf off))"
  by (simp add: index_entry_def Let_def)

lemma index_list_snoc: "index_list buf (Suc n) off = index_list buf n off @ [index_entry buf (index_end buf n off)]"
proof (induction n arbitrary: off)
  case (Suc n)
  let ?o = "off + 12 + unat (le32 buf off)"
  have "index_list buf (Suc (Suc n)) off = index_entry buf off # index_list buf n ?o @ [index_entry buf (index_end buf n ?o)]"
    using Suc.IH [of ?o] index_list_Suc [of buf "Suc n" off] by (simp only:)
  then show ?case unfolding index_list_Suc [of buf n off] by simp
qed (simp add: index_entry_def)

lemma index_wf_snoc: "index_wf buf (Suc n) off \<longleftrightarrow> index_wf buf n off \<and> index_wf buf 1 (index_end buf n off)"
proof (induction n arbitrary: off)
  case (Suc n)
  let ?o = "off + 12 + unat (le32 buf off)"
  have "index_wf buf (Suc (Suc n)) off \<longleftrightarrow> ?o \<le> 512 \<and> index_wf buf n ?o \<and> index_wf buf 1 (index_end buf n ?o)"
    using Suc.IH [of ?o] index_wf.simps(2) [of buf "Suc n" off] by (simp only:)
  then show ?case unfolding index_wf.simps(2) [of buf n off] by simp
qed auto

lemma le32_cong: "(\<And>i. off \<le> i \<Longrightarrow> i < off + 4 \<Longrightarrow> b' ! i = b ! i) \<Longrightarrow> le32 b' off = le32 b off"
  by (simp add: le32_def)

lemma index_cong:
  "index_wf b n off \<Longrightarrow> length b = 512 \<Longrightarrow> length b' = 512 \<Longrightarrow>
   (\<And>i. off \<le> i \<Longrightarrow> i < index_end b n off \<Longrightarrow> b' ! i = b ! i) \<Longrightarrow>
   index_list b' n off = index_list b n off \<and> index_end b' n off = index_end b n off \<and> index_wf b' n off"
proof (induction n arbitrary: off)
  case (Suc n)
  let ?len = "unat (le32 b off)"
  have e: "off + 12 + ?len \<le> index_end b n (off + 12 + ?len)" by (rule index_end_ge)
  have same: "b' ! i = b ! i" if "off \<le> i" "i < off + 12 + ?len" for i using Suc.prems(4) [of i] that e by simp
  have "le32 b' (off + j) = le32 b (off + j)" if "j \<le> 8" for j using that same by (intro le32_cong) auto
  from this [of 0] this [of 4] this [of 8]
  have l: "le32 b' off = le32 b off" "le32 b' (off + 4) = le32 b (off + 4)" "le32 b' (off + 8) = le32 b (off + 8)" by simp_all
  have t: "take ?len (drop (off + 12) b') = take ?len (drop (off + 12) b)"
    using Suc.prems(1-3) same by (intro nth_equalityI) auto
  have "index_list b' n (off + 12 + ?len) = index_list b n (off + 12 + ?len) \<and>
      index_end b' n (off + 12 + ?len) = index_end b n (off + 12 + ?len) \<and> index_wf b' n (off + 12 + ?len)"
    using Suc.prems by (intro Suc.IH) auto
  with l t Suc.prems(1) show ?case by (simp add: Let_def)
qed simp

lemma index_put_correct:
  assumes ok: "index_ok buf" and off: "unat off = index_end buf (unat (le32 buf 0)) 4"
    and room: "unat off + 12 + length name \<le> 512"
  shows "index_ok (index_put buf off name start sectors) \<and>
    index_entries (index_put buf off name start sectors) = index_entries buf @ [(bytes_of name, start, sectors)]"
proof -
  let ?n = "unat (le32 buf 0)" and ?e = "unat off"
  define rec where "rec = le32_bytes (of_nat (length name)) @ le32_bytes start @ le32_bytes sectors @ bytes_of name"
  define b1 where "b1 = put_bytes ?e rec buf"
  define b2 where "b2 = put_bytes 0 (le32_bytes (le32 buf 0 + 1)) b1"
  have len: "length buf = 512" and wf: "index_wf buf ?n 4" using ok by (simp_all add: index_ok_def)
  have e4: "4 + 12 * ?n \<le> ?e" using index_wf_end [OF wf] off by simp
  have nl: "unat (of_nat (length name) :: u32) = length name" using room by simp
  have rl: "length rec = 12 + length name" by (simp add: rec_def bytes_of_def)
  have l1: "length b1 = 512" using len room rl by (simp add: b1_def)
  then have l2: "length b2 = 512" by (simp add: b2_def)
  have nth: "b2 ! i = b1 ! i" if "4 \<le> i" "i < 512" for i using that l1 by (simp add: b2_def put_bytes_nth)
  have before: "b2 ! i = buf ! i" if "4 \<le> i" "i < ?e" for i
    using that nth [of i] room len rl by (simp add: b1_def put_bytes_nth)
  have n2: "unat (le32 b2 0) = Suc ?n"
    using l1 e4 room by (simp add: b2_def le32_put unat_word_ariths)
  have c: "index_list b2 ?n 4 = index_list buf ?n 4 \<and> index_end b2 ?n 4 = index_end buf ?n 4 \<and> index_wf b2 ?n 4"
    using wf len l2 before off by (intro index_cong) auto
  have "drop ?e b2 = drop ?e b1" using l1 l2 nth e4 by (intro nth_equalityI) auto
  also have "\<dots> = rec @ drop (?e + length rec) buf" using room len rl by (simp add: b1_def put_bytes_drop)
  finally have d: "drop ?e b2 = rec @ drop (?e + length rec) buf" .
  have dk: "drop (?e + k) b2 = drop k rec @ drop (?e + length rec) buf" if "k \<le> 12" for k
    using arg_cong [OF d, of "drop k"] that rl by (simp add: add.commute)
  have r: "le32 b2 ?e = of_nat (length name)" "le32 b2 (?e + 4) = start" "le32 b2 (?e + 8) = sectors"
    using dk [of 0] dk [of 4] dk [of 8] room l2 by (simp_all add: le32_drop [of _ b2] rec_def le32_split)
  have t: "take (length name) (drop (?e + 12) b2) = bytes_of name" using dk [of 12] by (simp add: rec_def bytes_of_def)
  have "index_entries b2 = index_entries buf @ [(bytes_of name, start, sectors)]"
    using c r t nl off unfolding index_entries_def n2 index_list_snoc by (simp add: index_entry_def)
  moreover have "index_wf b2 (Suc ?n) 4" using c r nl off room unfolding index_wf_snoc by simp
  ultimately show ?thesis using l2 n2 by (simp add: index_put_def b2_def b1_def rec_def index_ok_def)
qed


lemma zeros_index_ok: "index_ok (replicate 512 0)" "index_entries (replicate 512 0) = []"
  by (simp_all add: index_ok_def index_entries_def le32_def)

lemma add_index_entry_works:
  assumes "on_primary hw sects k off cap st" "index_ok (st_view sects k off st 2)" "length name \<le> 1000"
    and "storage_add_index_entry hw name start sectors st = Some (True, st')"
  obtains res st1 buf buf' where "storage_read_raw hw INDEX_LBA 1 st = Some (res, st1)"
    "buf = (if res = None then replicate 512 0 else st_view sects k off st 2)"
    "st_view sects k off st' = (st_view sects k off st)(2 := buf')" "index_ok buf'"
    "index_entries buf' = index_entries buf @ [(bytes_of name, start, sectors)]"
proof -
  let ?v = "st_view sects k off st"
  have "unat INDEX_LBA + unat (1 :: u32) \<le> cap" using assms(1) by (simp add: on_primary_def INDEX_LBA_def)
  from primary_read_view [OF assms(1) this] obtain res st1 where
    1: "storage_read_raw hw INDEX_LBA 1 st = Some (res, st1)" "same_but_dev st st1" "st_view sects k off st1 = ?v"
      "res = None \<or> res = Some (?v 2)"
    by (auto simp: storage_read_raw_def INDEX_LBA_def)
  define buf where "buf = (if res = None then replicate 512 0 else ?v 2)"
  have ok: "index_ok buf" using assms(2) zeros_index_ok by (simp add: buf_def)
  then have len: "length buf = 512" and wf: "index_wf buf (unat (le32 buf 0)) 4" by (simp_all add: index_ok_def)
  have fill: "(case res of None \<Rightarrow> replicate 512 0 | Some bs \<Rightarrow> fill_buffer 512 bs) = buf"
    using 1(4) len by (auto simp: buf_def)
  let ?fin = "index_end buf (unat (le32 buf 0)) 4"
  have w: "index_walk buf (unat (le32 buf 0)) 4 = Some (of_nat ?fin)"
    using index_walk_end [of buf _ 4] wf by simp
  have e: "?fin \<le> 512" using index_wf_end [OF wf] by simp
  have u: "unat (of_nat ?fin + (12 + of_nat (length name)) :: u32) = ?fin + 12 + length name"
    using e assms(3) by (simp add: unat_word_ariths)
  from assms(4) have room: "?fin + 12 + length name \<le> 512"
    and wr: "primary_write hw INDEX_LBA (index_put buf (of_nat ?fin) name start sectors) st1 = Some (True, st')"
    using 1(1) w u by (auto simp: storage_add_index_entry_def fill Let_def word_less_nat_alt split: if_splits)
  have "unat (of_nat ?fin :: u32) = ?fin" using e by simp
  from index_put_correct [OF ok this] room this
  have new: "index_ok (index_put buf (of_nat ?fin) name start sectors)"
    "index_entries (index_put buf (of_nat ?fin) name start sectors) = index_entries buf @ [(bytes_of name, start, sectors)]"
    by auto
  have "on_primary hw sects k off cap st1" using assms(1) same_but_devD(6) [OF 1(2)] by blast
  from primary_write_view [OF this _ wr] new(1) assms(1)
  have "st_view sects k off st' = (st_view sects k off st1)(2 := index_put buf (of_nat ?fin) name start sectors)"
    by (simp add: index_ok_def on_primary_def INDEX_LBA_def)
  with that new 1 buf_def show ?thesis by simp
qed


section \<open>Properties\<close>

text \<open>
  Adding to the index appends exactly one entry. When the index sector could be read and was well
  formed and \<open>storage_add_index_entry\<close> succeeds, the sector is well formed again and lists the
  old entries followed by the new one, and no other sector of the device changes.
\<close>

theorem add_index_entry_appends:
  assumes "on_primary hw sects k off cap st" "index_ok (st_view sects k off st 2)" "length name \<le> 1000"
    and "storage_read_raw hw INDEX_LBA 1 st = Some (Some bs, st1)"
    and "storage_add_index_entry hw name start sectors st = Some (True, st')"
  shows "index_ok (st_view sects k off st' 2) \<and>
    index_entries (st_view sects k off st' 2) = index_entries (st_view sects k off st 2) @ [(bytes_of name, start, sectors)] \<and>
    (\<forall>x. x \<noteq> 2 \<longrightarrow> st_view sects k off st' x = st_view sects k off st x)"
  by (rule add_index_entry_works [OF assms(1-3,5)]) (use assms(4) in auto)

end
