(* ===== verification/Storage_Package.thy ===== *)
theory Storage_Package
  imports Storage_Index
begin

text \<open>
  Packages of \<open>src/kernel/storage.cpp\<close>: \<open>storage_restore_packages\<close> puts the files of every package of the index
  into the file system, and \<open>storage_snapshot_save\<close> writes all files of the file system as one
  package. The package is a sequence of records: length of the path, length of the data,
  path, data. The buffers on the heap are lists beside the heap's state.
\<close>


section \<open>Definitions\<close>

subsection \<open>Restoring\<close>

text \<open>The text in a zeroed buffer of \<open>n + 1\<close> characters into which up to \<open>n\<close> bytes were copied.\<close>

definition text_of :: "nat \<Rightarrow> u8 list \<Rightarrow> cstring" where
  "text_of n bs = map (\<lambda>b. char_of (unat b)) (takeWhile (\<lambda>b. b \<noteq> 0) (take n bs))"

text \<open>The prefixes of a path that end before a slash; they begin with a slash whatever the path begins with.\<close>

definition parent_prefixes :: "cstring \<Rightarrow> cstring list" where
  "parent_prefixes path = map (\<lambda>i. slash # take (i - 1) (drop 1 path)) (filter (\<lambda>i. path ! i = slash) [1..<length path])"

definition restore_flags :: u32 where
  "restore_flags = kOpenWrite OR kOpenCreate OR kOpenTruncate"

definition restore_file :: "'h new_bytes \<Rightarrow> cstring \<Rightarrow> u8 list \<Rightarrow> u32 \<Rightarrow> ramfs \<times> 'h \<Rightarrow> (ramfs \<times> 'h) option" where
  "restore_file nb path data data_len s =
     (let fs = (if path \<noteq> [] then fold (\<lambda>p fs. fst (ramfs_md (Some p) fs)) (parent_prefixes path) (fst s) else fst s) in
      case ramfs_open (Some path) restore_flags fs of (fs, ofd) \<Rightarrow>
        if ofd < 0 then Some (fs, snd s)
        else map_option (\<lambda>(fs, h, _). (fst (ramfs_close ofd fs), h)) (ramfs_write nb ofd (Some data) data_len fs (snd s)))"

text \<open>A record whose lengths reach outside the buffer passes the check when their sum wraps around; that is \<open>None\<close>.\<close>

function restore_files :: "'h new_bytes \<Rightarrow> u8 list \<Rightarrow> nat \<Rightarrow> ramfs \<times> 'h \<Rightarrow> (ramfs \<times> 'h) option" where
  "restore_files nb data po s =
     (if po + 8 \<le> length data then
        let path_len = le32 data po; data_len = le32 data (po + 4); p = po + 8 in
        if path_len = 0 \<or> of_nat (length data) < of_nat p + path_len + data_len then Some s
        else if length data < p + unat path_len + unat data_len then None
        else restore_file nb (text_of 255 (take (unat path_len) (drop p data)))
               (take (unat data_len) (drop (p + unat path_len) data)) data_len s
             \<bind> restore_files nb data (p + unat path_len + unat data_len)
      else Some s)"
  by pat_completeness auto
termination
  by (relation "measure (\<lambda>(_, data, po, _). length data - po)") auto

definition restore_marker :: "cstring \<Rightarrow> ramfs \<Rightarrow> ramfs" where
  "restore_marker name fs =
     (case ramfs_open (Some (''/var/lib/wirth/pkgdb/'' @ take 96 name @ ''.installed'')) restore_flags fs of
        (fs, mfd) \<Rightarrow> if mfd < 0 then fs else fst (ramfs_close mfd fs))"

text \<open>One package; \<open>None\<close> also when more sectors are named than a 32-bit size can hold.\<close>

definition restore_package :: "'d hardware \<Rightarrow> u32 \<Rightarrow> cstring \<Rightarrow> u32 \<Rightarrow> u32 \<Rightarrow> 'd storage \<Rightarrow> 'd storage option" where
  "restore_package hw pt name start sectors st =
     heap_alloc pt (sectors * 512) 4096 (st_heap st) \<bind> (\<lambda>(h, ptr).
       let st = st\<lparr>st_heap := h\<rparr> in
       if ptr = 0 then Some st
       else storage_read_raw hw start sectors st \<bind> (\<lambda>(res, st).
         case (res, st_fs st) of
           (None, _) \<Rightarrow> Some st
         | (Some bs, None) \<Rightarrow> None
         | (Some bs, Some fs) \<Rightarrow>
             if unat sectors * 512 \<noteq> unat (sectors * 512) then None
             else map_option (\<lambda>(fs, h). st\<lparr>st_fs := Some (restore_marker name fs), st_heap := h\<rparr>)
               (restore_files (heap_new_bytes pt) bs 0 (fs, st_heap st))))"

fun restore_entries :: "'d hardware \<Rightarrow> u32 \<Rightarrow> u8 list \<Rightarrow> nat \<Rightarrow> u32 \<Rightarrow> 'd storage \<Rightarrow> 'd storage option" where
  "restore_entries hw pt buf 0 off st = Some st"
| "restore_entries hw pt buf (Suc n) off st =
     (if 512 < off + 12 then Some st
      else let name_len = le32 buf (unat off); start = le32 buf (unat off + 4); sectors = le32 buf (unat off + 8);
               off = off + 12 in
        if name_len = 0 \<or> 512 < off + name_len then Some st
        else if 512 < unat off + min (unat name_len) 127 then None
        else restore_package hw pt (text_of 127 (take (unat name_len) (drop (unat off) buf))) start sectors st
             \<bind> restore_entries hw pt buf n (off + name_len))"

definition storage_restore_packages :: "'d hardware \<Rightarrow> u32 \<Rightarrow> 'd storage \<Rightarrow> 'd storage option" where
  "storage_restore_packages hw pt st =
     storage_read_raw hw INDEX_LBA 1 st \<bind> (\<lambda>(res, st).
       case res of
         None \<Rightarrow> Some st
       | Some bs \<Rightarrow> let buf = fill_buffer 512 bs in restore_entries hw pt buf (unat (le32 buf 0)) 4 st)"

subsection \<open>Snapshots\<close>

definition child_buffer :: "cstring \<Rightarrow> cstring \<Rightarrow> cstring" where
  "child_buffer path name =
     (if path = [slash] then slash # take 254 name
      else let p = take 255 path; p = (if length p + 1 < 256 then p @ [slash] else p) in p @ take (255 - length p) name)"

text \<open>The length of an open file, read in pieces of 512 bytes; \<open>None\<close> inside is a failed read.\<close>

partial_function (option) measure_file :: "int \<Rightarrow> u32 \<Rightarrow> ramfs \<Rightarrow> (ramfs \<times> u32 option) option" where
  "measure_file fd file_len fs =
     (case ramfs_read fd True 512 fs of (fs', n, bs) \<Rightarrow>
        (if n < 0 then Some (fst (ramfs_close fd fs'), None)
         else if n = 0 then Some (fst (ramfs_close fd fs'), Some file_len)
         else measure_file fd (file_len + word_of_int n) fs'))"

partial_function (option) compute_entries :: "cstring \<Rightarrow> dir_entry list \<Rightarrow> ramfs \<Rightarrow> u32 \<Rightarrow> (bool \<times> ramfs \<times> u32) option" where
  "compute_entries path es fs tot =
     (case es of
        [] \<Rightarrow> Some (True, fs, tot)
      | e # es' \<Rightarrow>
          (let child = child_buffer path (entry_name e) in
           if entry_is_directory e then
             (case ramfs_readdir (Some child) True 64 fs of (cnt, ces) \<Rightarrow>
                (if cnt < 0 then compute_entries path es' fs tot
                 else compute_entries child ces fs tot \<bind> (\<lambda>(ok, fs', tot').
                   if ok then compute_entries path es' fs' tot' else Some (False, fs', tot'))))
           else
             (case ramfs_open (Some child) kOpenRead fs of (fs1, fd) \<Rightarrow>
                (if fd < 0 then compute_entries path es' fs1 tot
                 else measure_file fd 0 fs1 \<bind> (\<lambda>(fs2, r).
                   case r of
                     None \<Rightarrow> Some (False, fs2, tot)
                   | Some file_len \<Rightarrow> compute_entries path es' fs2 (tot + (8 + of_nat (length child) + file_len)))))))"

definition compute :: "cstring \<Rightarrow> ramfs \<Rightarrow> u32 \<Rightarrow> (bool \<times> ramfs \<times> u32) option" where
  "compute path fs tot =
     (case ramfs_readdir (Some path) True 64 fs of (cnt, es) \<Rightarrow>
        if cnt < 0 then Some (True, fs, tot) else compute_entries path es fs tot)"

text \<open>
  The second pass. \<open>out\<close> is what the payload holds so far, so its length is the offset. The record of a
  file gets a zero for the length of its data, which is filled in when the data is read.
\<close>

partial_function (option) fill_data :: "u32 \<Rightarrow> int \<Rightarrow> u8 list \<Rightarrow> u32 \<Rightarrow> ramfs \<Rightarrow> (ramfs \<times> (u8 list \<times> u32) option) option" where
  "fill_data payload_size fd out file_len fs =
     (case ramfs_read fd True 512 fs of (fs', n, bs) \<Rightarrow>
        (if n < 0 then Some (fst (ramfs_close fd fs'), None)
         else if n = 0 then Some (fst (ramfs_close fd fs'), Some (out, file_len))
         else if payload_size < of_nat (length out) + word_of_int n then Some (fst (ramfs_close fd fs'), None)
         else fill_data payload_size fd (out @ bs) (file_len + word_of_int n) fs'))"

partial_function (option) fill_entries :: "u32 \<Rightarrow> cstring \<Rightarrow> dir_entry list \<Rightarrow> ramfs \<Rightarrow> u8 list \<Rightarrow> (bool \<times> ramfs \<times> u8 list) option" where
  "fill_entries payload_size path es fs out =
     (case es of
        [] \<Rightarrow> Some (True, fs, out)
      | e # es' \<Rightarrow>
          (let child = child_buffer path (entry_name e) in
           if entry_is_directory e then
             (case ramfs_readdir (Some child) True 64 fs of (cnt, ces) \<Rightarrow>
                (if cnt < 0 then fill_entries payload_size path es' fs out
                 else fill_entries payload_size child ces fs out \<bind> (\<lambda>(ok, fs', out').
                   if ok then fill_entries payload_size path es' fs' out' else Some (False, fs', out'))))
           else
             (case ramfs_open (Some child) kOpenRead fs of (fs1, fd) \<Rightarrow>
                (if fd < 0 then fill_entries payload_size path es' fs1 out
                 else if payload_size < of_nat (length out) + 8 + of_nat (length child)
                 then Some (False, fst (ramfs_close fd fs1), out)
                 else fill_data payload_size fd
                     (out @ le32_bytes (of_nat (length child)) @ le32_bytes 0 @ bytes_of child) 0 fs1 \<bind> (\<lambda>(fs2, r).
                   case r of
                     None \<Rightarrow> Some (False, fs2, out)
                   | Some (out', file_len) \<Rightarrow>
                       fill_entries payload_size path es' fs2 (put_bytes (length out + 4) (le32_bytes file_len) out'))))))"

definition fill :: "u32 \<Rightarrow> cstring \<Rightarrow> ramfs \<Rightarrow> (bool \<times> ramfs \<times> u8 list) option" where
  "fill payload_size path fs =
     (case ramfs_readdir (Some path) True 64 fs of (cnt, es) \<Rightarrow>
        if cnt < 0 then Some (True, fs, []) else fill_entries payload_size path es fs [])"

definition storage_snapshot_save :: "'d hardware \<Rightarrow> u32 \<Rightarrow> cstring option \<Rightarrow> 'd storage \<Rightarrow> (bool \<times> 'd storage) option" where
  "storage_snapshot_save hw pt name st =
     (case (st_fs st, name) of
        (Some fs, Some nm) \<Rightarrow>
          if \<not> g_storage_ready st then Some (False, st)
          else compute [slash] fs 0 \<bind> (\<lambda>(ok, fs, tot).
            let st = st\<lparr>st_fs := Some fs\<rparr> in
            if \<not> ok \<or> tot = 0 then Some (False, st)
            else heap_alloc pt tot 4096 (st_heap st) \<bind> (\<lambda>(h, ptr).
              let st = st\<lparr>st_heap := h\<rparr> in
              if ptr = 0 then Some (False, st)
              else fill tot [slash] fs \<bind> (\<lambda>(ok, fs, out).
                let st = st\<lparr>st_fs := Some fs\<rparr> in
                if \<not> ok then Some (False, st)
                else storage_write hw (Some out) (of_nat (length out)) st \<bind> (\<lambda>(hd, st).
                  case hd of
                    None \<Rightarrow> Some (False, st)
                  | Some hdl \<Rightarrow> storage_add_index_entry hw nm (h_start_lba hdl) (h_sectors hdl) st))))
      | _ \<Rightarrow> Some (False, st))"

end
