(* ===== verification/Storage_Snapshot.thy ===== *)
theory Storage_Snapshot
  imports Storage_Package
begin

text \<open>
  Correctness of packages: what a package of given files looks like, that restoring it restores
  these files one after the other, and that a snapshot is the package of all files of the
  file system.
\<close>


section \<open>Specification\<close>

fun encode_file :: "cstring \<times> u8 list \<Rightarrow> u8 list" where
  "encode_file (p, bs) = le32_bytes (of_nat (length p)) @ le32_bytes (of_nat (length bs)) @ bytes_of p @ bs"

definition encode_files :: "(cstring \<times> u8 list) list \<Rightarrow> u8 list" where
  "encode_files fls = concat (map encode_file fls)"

fun plain_file :: "cstring \<times> u8 list \<Rightarrow> bool" where
  "plain_file (p, bs) \<longleftrightarrow> p \<noteq> [] \<and> CHR 0x00 \<notin> set p \<and> length p \<le> 255"

fun restore_all :: "'h new_bytes \<Rightarrow> (cstring \<times> u8 list) list \<Rightarrow> ramfs \<times> 'h \<Rightarrow> (ramfs \<times> 'h) option" where
  "restore_all nb [] s = Some s"
| "restore_all nb ((p, bs) # fls) s = restore_file nb p bs (of_nat (length bs)) s \<bind> restore_all nb fls"


section \<open>Restoring\<close>

lemma bytes_of_length [simp]: "length (bytes_of p) = length p"
  by (simp add: bytes_of_def)

lemma char_byte: "char_of (unat (of_nat (of_char c) :: u8)) = (c :: char)"
proof -
  have "(of_char c :: nat) < 256" by (cases c) simp
  then show ?thesis by (simp add: unat_of_nat)
qed

lemma byte_char_zero: "(of_nat (of_char c) :: u8) = 0 \<longleftrightarrow> c = CHR 0x00"
proof
  assume "(of_nat (of_char c) :: u8) = 0"
  then show "c = CHR 0x00" using char_byte [of c] by (simp add: char_of_def)
qed simp

lemma text_of_bytes: "CHR 0x00 \<notin> set p \<Longrightarrow> length p \<le> n \<Longrightarrow> text_of n (bytes_of p) = p"
proof -
  assume p: "CHR 0x00 \<notin> set p" "length p \<le> n"
  have "takeWhile (\<lambda>b. b \<noteq> 0) (bytes_of p) = bytes_of p"
    using p(1) by (intro takeWhile_eq_all_conv [THEN iffD2]) (auto simp: bytes_of_def byte_char_zero)
  then have "text_of n (bytes_of p) = map (\<lambda>b. char_of (unat b)) (bytes_of p)"
    unfolding text_of_def using p(2) by (simp only: bytes_of_length take_all)
  then show ?thesis by (simp add: bytes_of_def char_byte map_idI)
qed

declare restore_files.simps [simp del]

lemma restore_files_zeros:
  "length pre + m < 2 ^ 32 \<Longrightarrow> restore_files nb (pre @ replicate m 0) (length pre) s = Some s"
proof (cases "8 \<le> m")
  case True
  then have "le32 (pre @ replicate m 0) (length pre) = 0" by (simp add: le32_def nth_append)
  then show ?thesis by (simp add: restore_files.simps [of nb _ "length pre"])
qed (simp add: restore_files.simps [of nb _ "length pre"])

lemma restore_files_decodes:
  "list_all plain_file fls \<Longrightarrow> length pre + length (encode_files fls) + m < 2 ^ 32 \<Longrightarrow>
   restore_files nb (pre @ encode_files fls @ replicate m 0) (length pre) s = restore_all nb fls s"
proof (induction fls arbitrary: pre s)
  case Nil
  then show ?case by (simp add: encode_files_def restore_files_zeros)
next
  case (Cons f fls)
  obtain p bs where f: "f = (p, bs)" by fastforce
  let ?rest = "encode_files fls @ replicate m 0"
  let ?data = "pre @ le32_bytes (of_nat (length p)) @ le32_bytes (of_nat (length bs)) @ bytes_of p @ bs @ ?rest"
  have p: "p \<noteq> []" "CHR 0x00 \<notin> set p" "length p \<le> 255" using Cons.prems(1) f by simp_all
  have len: "length pre + 8 + length p + length bs + length ?rest < 2 ^ 32"
    using Cons.prems(2) f by (simp add: encode_files_def)
  have data: "pre @ encode_files (f # fls) @ replicate m 0 = ?data" by (simp add: encode_files_def f)
  have l: "le32 ?data (length pre) = of_nat (length p)" "le32 ?data (length pre + 4) = of_nat (length bs)"
    by (simp_all add: le32_drop [of "length pre"] le32_drop [of "length pre + 4"] le32_split)
  have u: "unat (of_nat (length p) :: u32) = length p" "unat (of_nat (length bs) :: u32) = length bs" using len by simp_all
  have nz: "(of_nat (length p) :: u32) \<noteq> 0" using u(1) p(1) by (metis length_0_conv unat_0)
  have sum: "(of_nat (length pre + 8) + of_nat (length p) + of_nat (length bs) :: u32) = of_nat (length pre + 8 + length p + length bs)" by simp
  have "\<not> (of_nat (length ?data) :: u32) < of_nat (length pre + 8) + of_nat (length p) + of_nat (length bs)"
    unfolding sum using len by (subst word_less_nat_alt) (subst unat_of_nat_u32, simp, subst unat_of_nat_u32, simp, simp)
  then have "restore_files nb ?data (length pre) s =
      restore_file nb (text_of 255 (bytes_of p)) bs (of_nat (length bs)) s
        \<bind> restore_files nb ?data (length pre + 8 + length p + length bs)"
    using nz by (subst restore_files.simps) (simp add: l u Let_def del: of_nat_add of_nat_numeral)
  moreover have "restore_files nb ?data (length pre + 8 + length p + length bs) s' = restore_all nb fls s'" for s'
    using Cons.IH [of "pre @ le32_bytes (of_nat (length p)) @ le32_bytes (of_nat (length bs)) @ bytes_of p @ bs" s'] Cons.prems(1) len
    by (simp add: add.assoc)
  ultimately show ?case using text_of_bytes [OF p(2,3)] unfolding data
    by (cases "restore_file nb p bs (of_nat (length bs)) s") (simp_all add: f)
qed


section \<open>Reading a file\<close>

text \<open>\<open>fs\<close> is \<open>fs0\<close> with descriptor \<open>fd\<close> open for reading on the file \<open>p\<close> with contents \<open>c\<close>, at offset \<open>k\<close>.\<close>

definition reading :: "ramfs \<Rightarrow> int \<Rightarrow> cstring \<Rightarrow> u8 list \<Rightarrow> nat \<Rightarrow> ramfs \<Rightarrow> bool" where
  "reading fs0 fd p c k fs \<longleftrightarrow> ramfs_inv fs \<and> m_inodes fs = m_inodes fs0 \<and>
     files (fs_abs fs) = (files (fs_abs fs0))(fd \<mapsto> (p, of_nat k, 1)) \<and> files (fs_abs fs0) fd = None \<and>
     tree (fs_abs fs0) p = Some (File c) \<and> k \<le> length c \<and> length c < 2 ^ 32"

text \<open>The same files and the same descriptors.\<close>

definition same_fs :: "ramfs \<Rightarrow> ramfs \<Rightarrow> bool" where
  "same_fs fs0 fs \<longleftrightarrow> ramfs_inv fs \<and> m_inodes fs = m_inodes fs0 \<and> files (fs_abs fs) = files (fs_abs fs0)"

lemma tree_inodes: "m_inodes fs = m_inodes fs0 \<Longrightarrow> tree (fs_abs fs) = tree (fs_abs fs0)"
  by (simp add: fs_abs_def lookup_def find_inode_def cong: map_option_cong)

lemma ramfs_read_inodes: "ramfs_read fd b n fs = (fs', r, bs) \<Longrightarrow> m_inodes fs' = m_inodes fs"
  by (auto simp: ramfs_read_def set_fd_def Let_def split: if_splits option.splits)

lemma ramfs_close_inodes: "m_inodes (fst (ramfs_close fd fs)) = m_inodes fs"
  by (simp add: ramfs_close_def set_fd_def split: option.split)

lemma sint_512: "n \<le> 512 \<Longrightarrow> sint (of_nat n :: u32) = int n"
  by (simp add: signed_of_nat signed_take_bit_int_eq_self)

lemma reading_step:
  assumes "reading fs0 fd p c k fs"
  obtains m fs' where "k + m \<le> length c" "m = 0 \<longleftrightarrow> k = length c"
    "ramfs_read fd True 512 fs = (fs', int m, take m (drop k c))" "reading fs0 fd p c (k + m) fs'"
proof -
  note R = assms [unfolded reading_def]
  define m where "m = min 512 (length c - k)"
  have m: "k + m \<le> length c" "m = 0 \<longleftrightarrow> k = length c" "m \<le> 512" and tk: "take 512 (drop k c) = take m (drop k c)"
    using R by (auto simp: m_def min_def)
  obtain fs' r bs where rd: "ramfs_read fd True 512 fs = (fs', r, bs)" by (metis surj_pair)
  have t: "tree (fs_abs fs) p = Some (File c)" using R tree_inodes [of fs fs0] by simp
  have u: "unat (of_nat k :: u32) = k" using R by simp
  have l: "length (take m (drop k c)) = m" using m(1) by simp
  from ramfs_read_correct [OF _ rd] R
  have c: "ramfs_inv fs'" "(fs_abs fs', r, bs) = spec_read fd 512 (fs_abs fs)" by blast+
  have "spec_read fd 512 (fs_abs fs) =
      ((fs_abs fs)\<lparr>files := (files (fs_abs fs))(fd \<mapsto> (p, of_nat k + of_nat m, 1))\<rparr>, int m, take m (drop k c))"
    using R t u l m(3) by (simp add: spec_read_def Let_def sint_512 tk del: length_take length_drop)
  with c have f: "files (fs_abs fs') = (files (fs_abs fs))(fd \<mapsto> (p, of_nat k + of_nat m, 1))" "r = int m" "bs = take m (drop k c)"
    by simp_all
  have "reading fs0 fd p c (k + m) fs'"
    using R c(1) f(1) m(1) ramfs_read_inodes [OF rd] by (auto simp: reading_def)
  with that m rd f show ?thesis by blast
qed

lemma reading_close:
  assumes "reading fs0 fd p c k fs"
  shows "same_fs fs0 (fst (ramfs_close fd fs))"
proof -
  note R = assms [unfolded reading_def]
  obtain fs' r where cl: "ramfs_close fd fs = (fs', r)" by fastforce
  have "files (fs_abs fs') = (files (fs_abs fs))(fd := None)" "ramfs_inv fs'"
    using ramfs_close_correct [OF _ cl] R by (auto simp: spec_close_def)
  moreover have "(files (fs_abs fs))(fd := None) = files (fs_abs fs0)" using R by (intro ext) simp
  ultimately show ?thesis using R cl ramfs_close_inodes [of fd fs] by (simp add: same_fs_def)
qed

lemma measure_file_works:
  "reading fs0 fd p c k fs \<Longrightarrow>
   \<exists>fs'. measure_file fd n fs = Some (fs', Some (n + of_nat (length c - k))) \<and> same_fs fs0 fs'"
proof (induction "length c - k" arbitrary: k fs n rule: less_induct)
  case less
  from less.prems obtain m fs1 where m: "k + m \<le> length c" "m = 0 \<longleftrightarrow> k = length c"
    and rd: "ramfs_read fd True 512 fs = (fs1, int m, take m (drop k c))"
    and R: "reading fs0 fd p c (k + m) fs1" by (rule reading_step)
  show ?case
  proof (cases "m = 0")
    case True
    then show ?thesis using rd m reading_close [OF R] by (simp add: measure_file.simps)
  next
    case False
    then have "length c - (k + m) < length c - k" using m by simp
    from less.hyps [OF this R, of "n + of_nat m"] False rd
    have "\<exists>fs'. measure_file fd n fs = Some (fs', Some (n + of_nat m + of_nat (length c - (k + m)))) \<and> same_fs fs0 fs'"
      by (subst measure_file.simps) simp
    moreover have "(of_nat m + of_nat (length c - (k + m)) :: u32) = of_nat (length c - k)"
      unfolding of_nat_add [symmetric] using m(1) by simp
    ultimately show ?thesis by (simp add: add.assoc)
  qed
qed

lemma fill_data_works:
  "reading fs0 fd p c k fs \<Longrightarrow> length out + (length c - k) \<le> unat sz \<Longrightarrow>
   \<exists>fs'. fill_data sz fd out n fs = Some (fs', Some (out @ drop k c, n + of_nat (length c - k))) \<and> same_fs fs0 fs'"
proof (induction "length c - k" arbitrary: k fs n out rule: less_induct)
  case less
  from less.prems(1) obtain m fs1 where m: "k + m \<le> length c" "m = 0 \<longleftrightarrow> k = length c"
    and rd: "ramfs_read fd True 512 fs = (fs1, int m, take m (drop k c))"
    and R: "reading fs0 fd p c (k + m) fs1" by (rule reading_step)
  show ?case
  proof (cases "m = 0")
    case True
    then show ?thesis using rd m reading_close [OF R] by (simp add: fill_data.simps)
  next
    case False
    then have lt: "length c - (k + m) < length c - k" using m by simp
    have "length out + m < 2 ^ 32" using less.prems(2) m(1) unat_u32_less [of sz] by linarith
    then have "unat (of_nat (length out) + of_nat m :: u32) = length out + m" by (simp flip: of_nat_add)
    then have fits: "\<not> sz < of_nat (length out) + word_of_int (int m)"
      using less.prems(2) m(1) by (simp add: word_less_nat_alt)
    let ?out = "out @ take m (drop k c)"
    have "length ?out + (length c - (k + m)) \<le> unat sz" using less.prems(2) m(1) by simp
    from less.hyps [OF lt R this, of "n + of_nat m"] False rd fits
    have "\<exists>fs'. fill_data sz fd out n fs = Some (fs', Some (?out @ drop (k + m) c, n + of_nat m + of_nat (length c - (k + m)))) \<and> same_fs fs0 fs'"
      by (subst fill_data.simps) simp
    moreover have "(of_nat m + of_nat (length c - (k + m)) :: u32) = of_nat (length c - k)"
      unfolding of_nat_add [symmetric] using m(1) by simp
    moreover have "take m (drop k c) @ drop (k + m) c = drop k c"
      by (metis add.commute append_take_drop_id drop_drop)
    ultimately show ?thesis by (simp add: add.assoc)
  qed
qed


section \<open>Walking the tree\<close>

text \<open>A descriptor is left.\<close>

definition fd_left :: "ramfs \<Rightarrow> bool" where
  "fd_left fs \<longleftrightarrow> find (\<lambda>fd. files (fs_abs fs) fd = None) (map (\<lambda>i. int i + kFdOffset) [0..<32]) \<noteq> None"

lemma tree_name:
  assumes "ramfs_inv fs" "tree (fs_abs fs) p = Some n"
  shows "length p < 64" "normalize_path (Some p) 64 = Some p" "n = File c \<Longrightarrow> length c < 2 ^ 32"
proof -
  note ok = ramfs_invD(1) [OF assms(1)]
  obtain k where k: "k < 64" "used (m_inodes fs ! k)" "iname (m_inodes fs ! k) = p" "n = node_of (m_inodes fs ! k)"
    using find_inode_tree [OF ok, of p] assms(2) by (cases "find_inode fs p") auto
  show l: "length p < 64" using tables_okD(3) [OF ok k(1)] k(2,3) by (simp add: inode_ok_def)
  show "normalize_path (Some p) 64 = Some p"
    using ramfs_invD(4) [OF assms(1), of p] assms(2) l by (intro normalize_path_normal) simp_all
  assume "n = File c"
  then have "length c = unat (isize (m_inodes fs ! k))"
    using k contents_length [OF ok k(1,2)] by (auto simp: node_of_def split: if_splits)
  then show "length c < 2 ^ 32" using unat_u32_less by simp
qed

lemma find_None_Some: "find P xs = Some x \<Longrightarrow> P x"
  by (induction xs) (auto split: if_splits)

lemma open_reading:
  assumes inv: "ramfs_inv fs0" and t: "tree (fs_abs fs0) p = Some (File c)" and left: "fd_left fs0" and same: "same_fs fs0 fs"
  obtains fd fs1 where "ramfs_open (Some p) kOpenRead fs = (fs1, fd)" "0 \<le> fd" "reading fs0 fd p c 0 fs1"
proof -
  note S = same [unfolded same_fs_def]
  have tf: "tree (fs_abs fs) p = Some (File c)" using tree_inodes [of fs fs0] S t by simp
  obtain fd where fd: "find (\<lambda>fd. files (fs_abs fs) fd = None) (map (\<lambda>i. int i + kFdOffset) [0..<32]) = Some fd"
    using left S unfolding fd_left_def by auto
  then have free: "files (fs_abs fs) fd = None" by (rule find_None_Some)
  have pos: "0 \<le> fd" using fd by (auto simp: find_Some_iff)
  obtain fs1 r where op: "ramfs_open (Some p) kOpenRead fs = (fs1, r)" by fastforce
  have n: "normalize_path (Some p) 64 = Some p" using tree_name(2) [OF inv t] .
  from ramfs_open_correct [OF _ op] S
  have c: "ramfs_inv fs1" "(fs_abs fs1, r) = spec_open (room fs) (Some p) kOpenRead (fs_abs fs)" by blast+
  have "spec_open (room fs) (Some p) kOpenRead (fs_abs fs) = ((fs_abs fs)\<lparr>files := (files (fs_abs fs))(fd \<mapsto> (p, 0, 1))\<rparr>, fd)"
    using n tf fd by (simp add: spec_open_def Let_def)
  with c(2) have f: "files (fs_abs fs1) = (files (fs_abs fs))(fd \<mapsto> (p, 0, 1))" "r = fd" by simp_all
  have "m_inodes fs1 = m_inodes fs"
  proof -
    obtain k where "find_inode fs p = Some k" using find_inode_tree(2) [OF ramfs_invD(1), of fs p] S tf by fastforce
    then show ?thesis using op n by (auto simp: ramfs_open_def Let_def set_fd_def split: if_splits)
  qed
  then have "reading fs0 fd p c 0 fs1"
    using c(1) f(1) S free t tree_name(3) [OF inv t] by (simp add: reading_def)
  with that op f(2) pos show ?thesis by blast
qed

lemma readdir_entries:
  assumes inv: "ramfs_inv fs0" and t: "tree (fs_abs fs0) p = Some Dir" and same: "same_fs fs0 fs"
  shows "ramfs_readdir (Some p) True 64 fs = (int (length (entries p (m_inodes fs0))), entries p (m_inodes fs0))"
proof -
  note S = same [unfolded same_fs_def]
  have ok: "tables_ok fs" using S ramfs_invD(1) by blast
  have tf: "tree (fs_abs fs) p = Some Dir" using tree_inodes [of fs fs0] S t by simp
  then obtain k where k: "find_inode fs p = Some k" using find_inode_tree(2) [OF ok, of p] by fastforce
  then have "is_directory (m_inodes fs ! k)" using find_inode_tree(1) [OF ok k] tf by simp
  moreover have "length (entries q is) \<le> length is" for q "is" by (induction "is") (auto split: option.split)
  then have "length (entries p (m_inodes fs0)) \<le> 64" using S tables_okD(1) [OF ok] by (metis order_trans order_refl)
  ultimately show ?thesis
    using S k tree_name(2) [OF inv t] readdir_loop_entries [of "[]" 64 p "m_inodes fs"] by (simp add: ramfs_readdir_def Let_def)
qed

lemma entry_node:
  assumes inv: "ramfs_inv fs" and e: "e \<in> set (entries p (m_inodes fs))"
  shows "entry_is_directory e \<Longrightarrow> tree (fs_abs fs) (child_path p (entry_name e)) = Some Dir"
    and "\<not> entry_is_directory e \<Longrightarrow> \<exists>c. tree (fs_abs fs) (child_path p (entry_name e)) = Some (File c)"
    and "entry_name e \<noteq> []"
proof -
  note ok = ramfs_invD(1) [OF inv]
  have len: "length (iname i) < 64" if "i \<in> set (m_inodes fs)" "used i" for i
    using ok that by (auto simp: tables_ok_def list_all_iff inode_ok_def)
  obtain c d where ed: "e = \<lparr>entry_name = c, entry_is_directory = d\<rparr>" by (cases e) simp
  from e entries_set [OF len, of "m_inodes fs" c d p] ed obtain i where
    i: "i \<in> set (m_inodes fs)" "used i" "iname i = child_path p c" "is_directory i = d" and ne: "c \<noteq> []" by auto
  obtain k where "k < 64" "m_inodes fs ! k = i" using i(1) tables_okD(1) [OF ok] by (metis in_set_conv_nth)
  then have "tree (fs_abs fs) (child_path p c) = Some (node_of i)"
    using lookup_nth [OF ok, of k] i by (simp add: fs_abs_def)
  then show "entry_is_directory e \<Longrightarrow> tree (fs_abs fs) (child_path p (entry_name e)) = Some Dir"
    "\<not> entry_is_directory e \<Longrightarrow> \<exists>c. tree (fs_abs fs) (child_path p (entry_name e)) = Some (File c)" "entry_name e \<noteq> []"
    using ed i(4) ne by (simp_all add: node_of_def)
qed

lemma child_buffer_path: "length (child_path p c) < 64 \<Longrightarrow> child_buffer p c = child_path p c"
  by (auto simp: child_buffer_def child_path_def Let_def)

text \<open>The files below a directory in the order of the walk, to a given depth.\<close>

definition file_bytes :: "ramfs \<Rightarrow> cstring \<Rightarrow> u8 list" where
  "file_bytes fs p = (case tree (fs_abs fs) p of Some (File c) \<Rightarrow> c | _ \<Rightarrow> [])"

fun tree_files :: "nat \<Rightarrow> ramfs \<Rightarrow> cstring \<Rightarrow> dir_entry list \<Rightarrow> (cstring \<times> u8 list) list" where
  "tree_files d fs path [] = []"
| "tree_files 0 fs path (e # es) = tree_files 0 fs path es"
| "tree_files (Suc d) fs path (e # es) =
     (let child = child_path path (entry_name e) in
      (if entry_is_directory e then tree_files d fs child (entries child (m_inodes fs)) else [(child, file_bytes fs child)])
      @ tree_files (Suc d) fs path es)"

lemma encode_files_append [simp]: "encode_files (a @ b) = encode_files a @ encode_files b"
  by (simp add: encode_files_def)

lemma compute_entries_works:
  "ramfs_inv fs0 \<Longrightarrow> fd_left fs0 \<Longrightarrow> same_fs fs0 fs \<Longrightarrow> set es \<subseteq> set (entries path (m_inodes fs0)) \<Longrightarrow> 64 \<le> length path + d \<Longrightarrow>
   \<exists>fs'. compute_entries path es fs tot = Some (True, fs', tot + of_nat (length (encode_files (tree_files d fs0 path es)))) \<and> same_fs fs0 fs'"
proof (induction d fs0 path es arbitrary: fs tot rule: tree_files.induct)
  case (1 d fs0 path)
  then show ?case by (simp add: compute_entries.simps encode_files_def)
next
  case (2 fs0 path e es)
  let ?child = "child_path path (entry_name e)"
  have "e \<in> set (entries path (m_inodes fs0))" using "2.prems"(4) by simp
  from entry_node [OF "2.prems"(1) this] obtain n where "tree (fs_abs fs0) ?child = Some n" by (cases "entry_is_directory e") auto
  then have "length ?child < 64" using tree_name(1) [OF "2.prems"(1)] by blast
  then show ?case using "2.prems"(5) by (simp add: child_path_def split: if_splits)
next
  case (3 d fs0 path e es)
  let ?child = "child_path path (entry_name e)"
  have e: "e \<in> set (entries path (m_inodes fs0))" using "3.prems"(4) by simp
  note N = entry_node [OF "3.prems"(1) e]
  have len: "length ?child < 64" using N tree_name(1) [OF "3.prems"(1)] by (cases "entry_is_directory e") blast+
  note cb = child_buffer_path [OF len]
  have longer: "length path < length ?child" using N(3) by (auto simp: child_path_def)
  have sub: "set es \<subseteq> set (entries path (m_inodes fs0))" using "3.prems"(4) by simp
  show ?case
  proof (cases "entry_is_directory e")
    case True
    from readdir_entries [OF "3.prems"(1) N(1) [OF True] "3.prems"(3)]
    have rd: "ramfs_readdir (Some ?child) True 64 fs = (int (length (entries ?child (m_inodes fs0))), entries ?child (m_inodes fs0))" .
    from "3.IH"(1) [OF refl True "3.prems"(1-3) subset_refl, of tot] longer "3.prems"(5) obtain fs1 where
      1: "compute_entries ?child (entries ?child (m_inodes fs0)) fs tot =
        Some (True, fs1, tot + of_nat (length (encode_files (tree_files d fs0 ?child (entries ?child (m_inodes fs0))))))" "same_fs fs0 fs1"
      by auto
    from "3.IH"(2) [OF refl "3.prems"(1,2) 1(2) sub "3.prems"(5),
        of "tot + of_nat (length (encode_files (tree_files d fs0 ?child (entries ?child (m_inodes fs0)))))"]
    show ?thesis by (subst compute_entries.simps) (simp add: cb True rd 1(1) Let_def add.assoc)
  next
    case False
    then obtain c where c: "tree (fs_abs fs0) ?child = Some (File c)" using N(2) by blast
    obtain fd fs1 where op: "ramfs_open (Some ?child) kOpenRead fs = (fs1, fd)" "0 \<le> fd" and R: "reading fs0 fd ?child c 0 fs1"
      using open_reading [OF "3.prems"(1) c "3.prems"(2,3)] by blast
    from measure_file_works [OF R, of 0] obtain fs2 where
      m: "measure_file fd 0 fs1 = Some (fs2, Some (of_nat (length c)))" "same_fs fs0 fs2" by auto
    from "3.IH"(2) [OF refl "3.prems"(1,2) m(2) sub "3.prems"(5), of "tot + (8 + of_nat (length ?child) + of_nat (length c))"]
    show ?thesis using op m(1) c
      by (subst compute_entries.simps) (simp add: cb False file_bytes_def encode_files_def Let_def ac_simps)
  qed
qed

lemma put_length_field:
  "length a = 4 \<Longrightarrow> length b = 4 \<Longrightarrow> put_bytes (length out + 4) b (out @ a @ z @ r) = out @ a @ b @ r"
  if "length z = 4" for z
  using that by (simp add: put_bytes_def)

lemma fill_entries_works:
  "ramfs_inv fs0 \<Longrightarrow> fd_left fs0 \<Longrightarrow> same_fs fs0 fs \<Longrightarrow> set es \<subseteq> set (entries path (m_inodes fs0)) \<Longrightarrow> 64 \<le> length path + d \<Longrightarrow>
   length out + length (encode_files (tree_files d fs0 path es)) \<le> unat sz \<Longrightarrow>
   \<exists>fs'. fill_entries sz path es fs out = Some (True, fs', out @ encode_files (tree_files d fs0 path es)) \<and> same_fs fs0 fs'"
proof (induction d fs0 path es arbitrary: fs out rule: tree_files.induct)
  case (1 d fs0 path)
  then show ?case by (simp add: fill_entries.simps encode_files_def)
next
  case (2 fs0 path e es)
  let ?child = "child_path path (entry_name e)"
  have "e \<in> set (entries path (m_inodes fs0))" using "2.prems"(4) by simp
  from entry_node [OF "2.prems"(1) this] obtain n where "tree (fs_abs fs0) ?child = Some n" by (cases "entry_is_directory e") auto
  then have "length ?child < 64" using tree_name(1) [OF "2.prems"(1)] by blast
  then show ?case using "2.prems"(5) by (simp add: child_path_def split: if_splits)
next
  case (3 d fs0 path e es)
  let ?child = "child_path path (entry_name e)"
  have e: "e \<in> set (entries path (m_inodes fs0))" using "3.prems"(4) by simp
  note N = entry_node [OF "3.prems"(1) e]
  have len: "length ?child < 64" using N tree_name(1) [OF "3.prems"(1)] by (cases "entry_is_directory e") blast+
  note cb = child_buffer_path [OF len]
  have longer: "length path < length ?child" using N(3) by (auto simp: child_path_def)
  have sub: "set es \<subseteq> set (entries path (m_inodes fs0))" using "3.prems"(4) by simp
  show ?case
  proof (cases "entry_is_directory e")
    case True
    let ?sub = "encode_files (tree_files d fs0 ?child (entries ?child (m_inodes fs0)))"
    have room: "length out + length ?sub + length (encode_files (tree_files (Suc d) fs0 path es)) \<le> unat sz"
      using "3.prems"(6) True by (simp add: Let_def)
    from readdir_entries [OF "3.prems"(1) N(1) [OF True] "3.prems"(3)]
    have rd: "ramfs_readdir (Some ?child) True 64 fs = (int (length (entries ?child (m_inodes fs0))), entries ?child (m_inodes fs0))" .
    from "3.IH"(1) [OF refl True "3.prems"(1-3) subset_refl, of out] longer "3.prems"(5) room obtain fs1 where
      1: "fill_entries sz ?child (entries ?child (m_inodes fs0)) fs out = Some (True, fs1, out @ ?sub)" "same_fs fs0 fs1"
      by auto
    from "3.IH"(2) [OF refl "3.prems"(1,2) 1(2) sub "3.prems"(5), of "out @ ?sub"] room
    show ?thesis by (subst fill_entries.simps) (simp add: cb True rd 1(1) Let_def)
  next
    case False
    then obtain c where c: "tree (fs_abs fs0) ?child = Some (File c)" using N(2) by blast
    obtain fd fs1 where op: "ramfs_open (Some ?child) kOpenRead fs = (fs1, fd)" "0 \<le> fd" and R: "reading fs0 fd ?child c 0 fs1"
      using open_reading [OF "3.prems"(1) c "3.prems"(2,3)] by blast
    let ?hd = "le32_bytes (of_nat (length ?child))"
    let ?new = "encode_file (?child, c)"
    have room: "length out + length ?new + length (encode_files (tree_files (Suc d) fs0 path es)) \<le> unat sz"
      using "3.prems"(6) False c by (simp add: Let_def file_bytes_def encode_files_def)
    then have "length out + 8 + length ?child < 2 ^ 32" using unat_u32_less [of sz] by simp
    then have "unat (of_nat (length out) + 8 + of_nat (length ?child) :: u32) = length out + 8 + length ?child"
      by (metis of_nat_add of_nat_numeral unat_of_nat_u32)
    then have fits: "\<not> sz < of_nat (length out) + 8 + of_nat (length ?child)" using room by (simp add: word_less_nat_alt)
    from fill_data_works [OF R, of "out @ ?hd @ le32_bytes 0 @ bytes_of ?child" sz 0] room obtain fs2 where
      m: "fill_data sz fd (out @ ?hd @ le32_bytes 0 @ bytes_of ?child) 0 fs1
        = Some (fs2, Some (out @ ?hd @ le32_bytes 0 @ bytes_of ?child @ c, of_nat (length c)))" "same_fs fs0 fs2" by auto
    have put: "put_bytes (length out + 4) (le32_bytes (of_nat (length c))) (out @ ?hd @ le32_bytes 0 @ bytes_of ?child @ c) = out @ ?new"
      by (simp add: put_length_field)
    from "3.IH"(2) [OF refl "3.prems"(1,2) m(2) sub "3.prems"(5), of "out @ ?new"] room
    show ?thesis using op fits m(1) c put
      by (subst fill_entries.simps) (simp add: cb False Let_def file_bytes_def encode_files_def)
  qed
qed


section \<open>All files\<close>

definition all_files :: "ramfs \<Rightarrow> (cstring \<times> u8 list) list" where
  "all_files fs = tree_files 64 fs [slash] (entries [slash] (m_inodes fs))"

lemma tree_files_sound:
  "ramfs_inv fs \<Longrightarrow> set es \<subseteq> set (entries path (m_inodes fs)) \<Longrightarrow> (p, c) \<in> set (tree_files d fs path es) \<Longrightarrow>
   tree (fs_abs fs) p = Some (File c)"
proof (induction d fs path es rule: tree_files.induct)
  case (3 d fs path e es)
  let ?child = "child_path path (entry_name e)"
  have e: "e \<in> set (entries path (m_inodes fs))" and sub: "set es \<subseteq> set (entries path (m_inodes fs))" using "3.prems"(2) by simp_all
  show ?case
  proof (cases "(p, c) \<in> set (tree_files (Suc d) fs path es)")
    case True
    then show ?thesis using "3.IH"(2) [OF refl "3.prems"(1) sub] by blast
  next
    case False
    then show ?thesis
      using "3.IH"(1) [OF refl _ "3.prems"(1) subset_refl] entry_node(2) [OF "3.prems"(1) e] "3.prems"(3)
      by (auto simp: Let_def file_bytes_def split: if_splits)
  qed
qed simp_all

lemma node_entry:
  assumes inv: "ramfs_inv fs" and t: "tree (fs_abs fs) p = Some n" "p \<noteq> [slash]"
  obtains e where "e \<in> set (entries (parent_of p) (m_inodes fs))" "child_path (parent_of p) (entry_name e) = p"
    "entry_is_directory e = (n = Dir)" "length (parent_of p) < length p"
proof -
  note ok = ramfs_invD(1) [OF inv]
  have len: "length (iname i) < 64" if "i \<in> set (m_inodes fs)" "used i" for i
    using ok that by (auto simp: tables_ok_def list_all_iff inode_ok_def)
  have "normal_path p" using ramfs_invD(4) [OF inv] t by simp
  from normal_path_cases [OF this t(2)] obtain cs c where
    c: "valid_names (cs @ [c])" "p = path_of (cs @ [c])" "parent_of p = path_of cs" by metis
  have v: "c \<noteq> []" "slash \<notin> set c" using c(1) by (simp_all add: valid_names_def)
  have root: "path_of cs = [slash] \<longleftrightarrow> cs = []"
    using c(1) components_path_of [of cs] by (auto simp: path_of_def valid_names_def)
  have ch: "child_path (parent_of p) c = p"
    using c(2,3) root by (simp add: child_path_def path_of_snoc)
  obtain k where k: "k < 64" "used (m_inodes fs ! k)" "iname (m_inodes fs ! k) = p" "n = node_of (m_inodes fs ! k)"
    using find_inode_tree [OF ok, of p] t(1) by (cases "find_inode fs p") auto
  have "m_inodes fs ! k \<in> set (m_inodes fs)" using k(1) tables_okD(1) [OF ok] by simp
  then have "\<lparr>entry_name = c, entry_is_directory = (n = Dir)\<rparr> \<in> set (entries (parent_of p) (m_inodes fs))"
    using entries_set [OF len, of "m_inodes fs" c "n = Dir" "parent_of p"] v k ch by (auto simp: node_of_def)
  moreover have "length (parent_of p) < length p" using arg_cong [OF ch, of length] v(1) by (cases c) (auto simp: child_path_def split: if_splits)
  ultimately show ?thesis using that [of "\<lparr>entry_name = c, entry_is_directory = (n = Dir)\<rparr>"] ch by simp
qed

lemma tree_files_mem:
  "e \<in> set es \<Longrightarrow> entry_is_directory e \<Longrightarrow> x \<in> set (tree_files d fs (child_path path (entry_name e)) (entries (child_path path (entry_name e)) (m_inodes fs))) \<Longrightarrow>
   x \<in> set (tree_files (Suc d) fs path es)"
  "e \<in> set es \<Longrightarrow> \<not> entry_is_directory e \<Longrightarrow> (child_path path (entry_name e), file_bytes fs (child_path path (entry_name e))) \<in> set (tree_files (Suc d) fs path es)"
  by (induction es) (auto simp: Let_def)

lemma tree_files_mono: "x \<in> set (tree_files d fs path es) \<Longrightarrow> x \<in> set (tree_files (Suc d) fs path es)"
proof (induction d fs path es rule: tree_files.induct)
  case (3 d fs path e es)
  then show ?case by (auto simp: Let_def split: if_splits)
qed (simp_all add: Let_def)

lemma tree_files_mono_le: "d \<le> d' \<Longrightarrow> x \<in> set (tree_files d fs path es) \<Longrightarrow> x \<in> set (tree_files d' fs path es)"
  by (induction d' rule: dec_induct) (auto intro: tree_files_mono)

lemma tree_files_up:
  "ramfs_inv fs \<Longrightarrow> tree (fs_abs fs) q = Some Dir \<Longrightarrow> d + length q \<le> 64 \<Longrightarrow> x \<in> set (tree_files d fs q (entries q (m_inodes fs))) \<Longrightarrow>
   x \<in> set (all_files fs)"
proof (induction "length q" arbitrary: q d rule: less_induct)
  case less
  show ?case
  proof (cases "q = [slash]")
    case True
    then show ?thesis using less.prems(3,4) tree_files_mono_le [of d 64] by (simp add: all_files_def)
  next
    case False
    obtain e where e: "e \<in> set (entries (parent_of q) (m_inodes fs))" "child_path (parent_of q) (entry_name e) = q"
      "entry_is_directory e = (Dir = Dir)" "length (parent_of q) < length q"
      using node_entry [OF less.prems(1,2) False] by blast
    have "x \<in> set (tree_files (Suc d) fs (parent_of q) (entries (parent_of q) (m_inodes fs)))"
      using tree_files_mem(1) [OF e(1), of x d fs "parent_of q"] e less.prems(4) by simp
    moreover have "tree (fs_abs fs) (parent_of q) = Some Dir" using ramfs_invD(5) [OF less.prems(1)] less.prems(2) False by simp
    ultimately show ?thesis using less.hyps [OF e(4) less.prems(1), of "Suc d"] less.prems(3) e(4) by simp
  qed
qed

lemma all_files_set:
  assumes "ramfs_inv fs"
  shows "set (all_files fs) = {(p, c). tree (fs_abs fs) p = Some (File c)}"
proof (intro set_eqI iffI)
  fix x assume "x \<in> set (all_files fs)"
  then show "x \<in> {(p, c). tree (fs_abs fs) p = Some (File c)}"
    using tree_files_sound [OF assms subset_refl, of "fst x" "snd x" 64 "[slash]"] by (simp add: all_files_def split_beta)
next
  fix x assume "x \<in> {(p, c). tree (fs_abs fs) p = Some (File c)}"
  then obtain p c where x: "x = (p, c)" and t: "tree (fs_abs fs) p = Some (File c)" by auto
  have ne: "p \<noteq> [slash]" using ramfs_invD(3) [OF assms] t by auto
  obtain e where e: "e \<in> set (entries (parent_of p) (m_inodes fs))" "child_path (parent_of p) (entry_name e) = p"
    "entry_is_directory e = (File c = Dir)" "length (parent_of p) < length p"
    using node_entry [OF assms t ne] by blast
  have "x \<in> set (tree_files 1 fs (parent_of p) (entries (parent_of p) (m_inodes fs)))"
    using tree_files_mem(2) [OF e(1), of "parent_of p" fs 0] e t x by (simp add: file_bytes_def)
  then show "x \<in> set (all_files fs)"
    using ramfs_invD(5) [OF assms] t ne e(4) tree_name(1) [OF assms t] by (intro tree_files_up [OF assms, of "parent_of p" 1]) auto
qed


section \<open>Properties\<close>

text \<open>
  A snapshot is complete. For a sound file system with a descriptor left and a size that fits 32 bits, the
  two passes return and agree: the first computes exactly the size that the second fills,
  with the records of all files of the file system, each with its whole contents, and no
  others. The file system is left with the same files and the same descriptors.
\<close>

theorem snapshot_complete:
  assumes "ramfs_inv fs" "fd_left fs" "length (encode_files (all_files fs)) < 2 ^ 32"
  shows "\<exists>fs' fs''. compute [slash] fs 0 = Some (True, fs', of_nat (length (encode_files (all_files fs)))) \<and>
    fill (of_nat (length (encode_files (all_files fs)))) [slash] fs' = Some (True, fs'', encode_files (all_files fs)) \<and>
    set (all_files fs) = {(p, c). tree (fs_abs fs) p = Some (File c)} \<and>
    tree (fs_abs fs'') = tree (fs_abs fs) \<and> files (fs_abs fs'') = files (fs_abs fs)"
proof -
  let ?es = "entries [slash] (m_inodes fs)" and ?n = "length (encode_files (all_files fs))"
  note root = ramfs_invD(3) [OF assms(1)]
  have same: "same_fs fs fs" using assms(1) by (simp add: same_fs_def)
  from compute_entries_works [OF assms(1,2) same subset_refl, of "[slash]" 64 0] obtain fs' where
    1: "compute_entries [slash] ?es fs 0 = Some (True, fs', of_nat ?n)" "same_fs fs fs'" by (auto simp: all_files_def)
  have "unat (of_nat ?n :: u32) = ?n" using assms(3) by simp
  with fill_entries_works [OF assms(1,2) 1(2) subset_refl, of "[slash]" 64 "[]" "of_nat ?n"] obtain fs'' where
    2: "fill_entries (of_nat ?n) [slash] ?es fs' [] = Some (True, fs'', encode_files (all_files fs))" "same_fs fs fs''"
    by (auto simp: all_files_def)
  from 1 2 readdir_entries [OF assms(1) root same] readdir_entries [OF assms(1) root 1(2)] all_files_set [OF assms(1)]
    tree_inodes [of fs'' fs]
  show ?thesis by (auto simp: compute_def fill_def same_fs_def)
qed

lemma all_files_plain:
  assumes "ramfs_inv fs" "\<forall>p. tree (fs_abs fs) p \<noteq> None \<longrightarrow> CHR 0x00 \<notin> set p"
  shows "list_all plain_file (all_files fs)"
proof -
  have "p \<noteq> [] \<and> CHR 0x00 \<notin> set p \<and> length p \<le> 255" if "(p, c) \<in> set (all_files fs)" for p c
  proof -
    have t: "tree (fs_abs fs) p = Some (File c)" using that all_files_set [OF assms(1)] by auto
    then have "normal_path p" using ramfs_invD(4) [OF assms(1)] by simp
    then have "p \<noteq> []" by (auto simp: normal_path_def path_of_def)
    then show ?thesis using t assms(2) tree_name(1) [OF assms(1) t] by simp
  qed
  then show ?thesis by (auto simp: list_all_iff)
qed

text \<open>
  A package restores the files it was made of. Restoring the package of any list of files, whatever
  zeros follow it on the last sector, does the same as restoring the files one after the other.
\<close>

theorem package_roundtrip:
  assumes "list_all plain_file fls" "length (encode_files fls) + m < 2 ^ 32"
  shows "restore_files nb (encode_files fls @ replicate m 0) 0 s = restore_all nb fls s"
  using restore_files_decodes [of fls "[]" m nb s] assms by simp

text \<open>Any files written as a package and entered in the index are restored from the sectors the index names.\<close>

text \<open>What is on the device after a package was stored: its entry is the last of the index, and names the sectors of the package.\<close>

lemma stored_package:
  assumes "on_primary hw sects k off cap st" "storage_ok st" "index_ok (st_view sects k off st 2)" "length nm \<le> 1000"
    and "write_fits out (of_nat (length out)) cap st"
    and w: "storage_write hw (Some out) (of_nat (length out)) st = Some (Some hdl, st1)"
    and a: "storage_add_index_entry hw nm (h_start_lba hdl) (h_sectors hdl) st1 = Some (True, st')"
  obtains old start sectors where "index_ok (st_view sects k off st' 2)"
    "index_entries (st_view sects k off st' 2) = old @ [(bytes_of nm, start, sectors)]"
    "index_entries (st_view sects k off st 2) = [] \<Longrightarrow> old = []"
    "sector_run (st_view sects k off st') (ucast start) (unat sectors) = padded (data_sectors out) out"
    "unat sectors = data_sectors out" "unat start + unat sectors \<le> cap"
proof -
  let ?n = "length out" and ?d = "data_sectors out" and ?start = "ucast (next_free_lba (sb st)) :: u64"
  note f = storage_write_facts [OF assms(1,2,5) w]
  have room: "unat ?start + ?d \<le> 2 ^ 64" "unat ?start + ?d \<le> cap" and ten: "10 \<le> unat ?start"
    using assms(5) sector_below_start [OF assms(2)] by (simp_all add: write_fits_def unat_ucast_u64)
  have two: "st_view sects k off st1 2 = st_view sects k off st 2"
    using f ten room put_sectors_outside [of ?start ?d 2] by simp
  with assms(3) f obtain buf buf' where
    v: "buf = replicate 512 0 \<or> buf = st_view sects k off st 2"
      "st_view sects k off st' = (st_view sects k off st1)(2 := buf')" "index_ok buf'"
      "index_entries buf' = index_entries buf @ [(bytes_of nm, h_start_lba hdl, h_sectors hdl)]"
    using add_index_entry_works [of hw sects k off cap st1 nm "h_start_lba hdl" "h_sectors hdl" st'] assms(4) a by metis
  have "length (padded ?d out) = 512 * ?d" using data_sectors_le [of out] by (simp add: padded_def)
  then have "sector_run (put_sectors ?start ?d (padded ?d out) (st_view sects k off st)) ?start ?d = padded ?d out"
    using room(1) by (rule sector_run_put_sectors)
  then have "sector_run (st_view sects k off st') ?start ?d = padded ?d out"
    using f v(2) ten run_upd_outside [OF room(1)] by simp
  moreover have "index_entries (st_view sects k off st 2) = [] \<Longrightarrow> index_entries buf = []" using v(1) zeros_index_ok by auto
  ultimately show ?thesis
    using that [of "index_entries buf" "h_start_lba hdl" "h_sectors hdl"] f v room(2) by (simp add: unat_ucast_u64)
qed

lemma restore_padded:
  assumes "list_all plain_file fls" "length (encode_files fls) + 511 < 2 ^ 32"
  shows "restore_files nb (padded (data_sectors (encode_files fls)) (encode_files fls)) 0 s = restore_all nb fls s"
proof -
  let ?n = "length (encode_files fls)" and ?d = "data_sectors (encode_files fls)"
  have "512 * ?d < ?n + 512" by (simp add: data_sectors_def)
  then show ?thesis using restore_files_decodes [OF assms(1), of "[]" "512 * ?d - ?n" nb s] assms(2) by (simp add: padded_def)
qed

end
