(* ===== verification/Storage_Restore.thy ===== *)
theory Storage_Restore
  imports Storage_Snapshot
begin

text \<open>
  What restoring a package does to the tree of the file system: with no conflict between the package and the tree, room for the
  new names and memory for the new files, every file is there afterwards with its contents, missing directories above it
  are made, and nothing else changes.
\<close>

declare fs_abs_sel [simp del]

section \<open>Opening and closing\<close>

lemma find_free:
  assumes "f x = None" "3 \<le> x" "x < 35"
  obtains fd where "find (\<lambda>fd. f fd = None) (map (\<lambda>i. int i + 3) [0..<32]) = Some fd" "f fd = None" "0 \<le> fd"
proof -
  have "x \<in> set (map (\<lambda>i. int i + 3) [0..<32])" using assms by (auto simp: image_iff intro!: bexI [of _ "nat (x - 3)"])
  then have "find (\<lambda>fd. f fd = None) (map (\<lambda>i. int i + 3) [0..<32]) \<noteq> None" using assms(1) unfolding find_None_iff by blast
  then obtain fd where fd: "find (\<lambda>fd. f fd = None) (map (\<lambda>i. int i + 3) [0..<32]) = Some fd" by blast
  then have "fd \<in> set (map (\<lambda>i. int i + 3) [0..<32])" "f fd = None" unfolding find_Some_iff by (metis nth_mem)+
  with fd that show ?thesis by auto
qed

lemma spec_open_file:
  assumes "normalize_path (Some p) 64 = Some p" "tree a p = Some (File c)" "files a x = None" "3 \<le> x" "x < 35"
  obtains fd where "spec_open r (Some p) fl a =
    (\<lparr>tree = (if fl AND kOpenTruncate \<noteq> 0 \<and> fl AND kOpenWrite \<noteq> 0 then (tree a)(p \<mapsto> File []) else tree a),
      files = (files a)(fd \<mapsto> (p, 0, fl))\<rparr>, fd)" "files a fd = None" "0 \<le> fd"
proof -
  obtain fd where fd: "find (\<lambda>fd. files a fd = None) (map (\<lambda>i. int i + 3) [0..<32]) = Some fd" "files a fd = None" "0 \<le> fd"
    by (rule find_free [of "files a", OF assms(3-5)])
  with assms(1,2) show ?thesis by (intro that [of fd]) (simp_all add: spec_open_def Let_def)
qed

lemma spec_open_new:
  assumes "normalize_path (Some p) 64 = Some p" "tree a p = None" "tree a (parent_of p) = Some Dir" "r"
    "files a x = None" "3 \<le> x" "x < 35" "fl AND kOpenCreate \<noteq> 0"
  obtains fd where "spec_open r (Some p) fl a = (\<lparr>tree = (tree a)(p \<mapsto> File []), files = (files a)(fd \<mapsto> (p, 0, fl))\<rparr>, fd)"
    "files a fd = None" "0 \<le> fd"
proof -
  obtain fd where fd: "find (\<lambda>fd. files a fd = None) (map (\<lambda>i. int i + 3) [0..<32]) = Some fd" "files a fd = None" "0 \<le> fd"
    by (rule find_free [of "files a", OF assms(5-7)])
  with assms show ?thesis by (intro that [of fd]) (simp_all add: spec_open_def Let_def)
qed

lemma open_facts:
  assumes "ramfs_inv fs" "ramfs_open path fl fs = (fs', fd)"
  shows "ramfs_inv fs'" "(fs_abs fs', fd) = spec_open (room fs) path fl (fs_abs fs)"
  using ramfs_open_correct [OF assms] by blast+

lemma close_facts:
  assumes "ramfs_inv fs" "files (fs_abs fs) fd = Some x"
  shows "ramfs_inv (fst (ramfs_close fd fs))" "fs_abs (fst (ramfs_close fd fs)) = (fs_abs fs)\<lparr>files := (files (fs_abs fs))(fd := None)\<rparr>"
proof -
  obtain fs' r where c: "ramfs_close fd fs = (fs', r)" by fastforce
  from ramfs_close_correct [OF assms(1) c] assms(2) show "ramfs_inv (fst (ramfs_close fd fs))"
    "fs_abs (fst (ramfs_close fd fs)) = (fs_abs fs)\<lparr>files := (files (fs_abs fs))(fd := None)\<rparr>"
    by (auto simp: c spec_close_def)
qed

text \<open>Whether \<open>open\<close> for writing finds or creates the file \<open>q\<close>.\<close>

definition can_write :: "ramfs \<Rightarrow> cstring \<Rightarrow> bool" where
  "can_write fs q \<longleftrightarrow> (case tree (fs_abs fs) q of
      Some (File _) \<Rightarrow> True
    | Some Dir \<Rightarrow> False
    | None \<Rightarrow> tree (fs_abs fs) (parent_of q) = Some Dir \<and> room fs)"

lemma spec_open_write:
  assumes "normalize_path (Some q) 64 = Some q" "can_write fs q" "files a y = None" "3 \<le> y" "y < 35" "tree a = tree (fs_abs fs)"
  obtains fd where "spec_open (room fs) (Some q) 14 a = (\<lparr>tree = (tree a)(q \<mapsto> File []), files = (files a)(fd \<mapsto> (q, 0, 14))\<rparr>, fd)"
    "files a fd = None" "0 \<le> fd"
proof (cases "tree a q")
  case None
  then have "tree a (parent_of q) = Some Dir" "room fs" using assms(2,6) by (auto simp: can_write_def)
  then show ?thesis using spec_open_new [OF assms(1) None _ _ assms(3-5), of "room fs" 14] that by auto
next
  case (Some n)
  then obtain b where "tree a q = Some (File b)" using assms(2,6) by (cases n) (auto simp: can_write_def)
  then show ?thesis using spec_open_file [OF assms(1) _ assms(3-5), of b "room fs" 14] that by auto
qed

section \<open>The directories above a path\<close>

lemma slashes_snoc:
  assumes "P \<noteq> []" "slash \<notin> set c"
  shows "filter (\<lambda>i. (P @ slash # c) ! i = slash) [1..<length P + Suc (length c)] =
    filter (\<lambda>i. P ! i = slash) [1..<length P] @ [length P]"
  using assms(2)
proof (induction c rule: rev_induct)
  case Nil
  have "1 \<le> length P" using assms(1) by (cases P) simp_all
  then have "[1..<length P + Suc 0] = [1..<length P] @ [length P]" by simp
  moreover have "filter (\<lambda>i. (P @ [slash]) ! i = slash) [1..<length P] = filter (\<lambda>i. P ! i = slash) [1..<length P]"
    by (rule filter_cong) (auto simp: nth_append)
  ultimately show ?case by simp
next
  case (snoc x c)
  have up: "[1..<length P + Suc (length (c @ [x]))] = [1..<length P + Suc (length c)] @ [length P + Suc (length c)]"
    by (simp add: upt_Suc_append)
  have "filter (\<lambda>i. (P @ slash # c @ [x]) ! i = slash) [1..<length P + Suc (length c)] =
      filter (\<lambda>i. (P @ slash # c) ! i = slash) [1..<length P + Suc (length c)]"
    by (rule filter_cong) (auto simp: nth_append nth_Cons')
  then show ?case using snoc unfolding up by (auto simp: nth_append)
qed

lemma parent_prefixes_snoc:
  assumes "valid_names (cs @ [c])"
  shows "parent_prefixes (path_of (cs @ [c])) = (if cs = [] then [] else parent_prefixes (path_of cs) @ [path_of cs])"
proof (cases "cs = []")
  case True
  then have "path_of (cs @ [c]) = slash # c" "slash \<notin> set c" using assms by (simp_all add: path_of_def valid_names_def)
  moreover have "filter (\<lambda>i. (slash # c) ! i = slash) [1..<length (slash # c)] = []" if "slash \<notin> set c"
    using that by (auto simp: filter_empty_conv nth_Cons' in_set_conv_nth)
  ultimately show ?thesis using True by (simp add: parent_prefixes_def)
next
  case False
  let ?P = "path_of cs"
  have P: "path_of (cs @ [c]) = ?P @ slash # c" "slash \<notin> set c" using assms False by (simp_all add: path_of_def valid_names_def)
  obtain P' where P': "?P = slash # P'" using False by (cases cs) (simp_all add: path_of_def)
  have len: "length (?P @ slash # c) = length ?P + Suc (length c)" by simp
  have "parent_prefixes (path_of (cs @ [c])) = map (\<lambda>i. slash # take (i - 1) (drop 1 (?P @ slash # c)))
      (filter (\<lambda>i. ?P ! i = slash) [1..<length ?P] @ [length ?P])"
    unfolding P(1) parent_prefixes_def len using slashes_snoc [of ?P c] P(2) P' by simp
  also have "\<dots> = parent_prefixes ?P @ [?P]" by (auto simp: parent_prefixes_def P')
  finally show ?thesis using False by simp
qed

lemma parent_prefixes_root: "parent_prefixes [slash] = []"
  by (simp add: parent_prefixes_def)

lemma prefixes_parents:
  assumes "normal_path p" "p \<noteq> [slash]"
  shows "parent_prefixes p = (if parent_of p = [slash] then [] else parent_prefixes (parent_of p) @ [parent_of p])"
proof (rule normal_path_cases [OF assms])
  fix cs c assume p: "p = path_of (cs @ [c])" "valid_names (cs @ [c])"
  have "path_of cs = [slash] \<longleftrightarrow> cs = []"
    using p(2) by (cases cs) (auto simp: path_of_def valid_names_def)
  then show ?thesis using parent_prefixes_snoc [OF p(2)] parent_of_snoc [OF p(2)] by (simp add: p(1))
qed

lemma parent_shorter: "normal_path p \<Longrightarrow> p \<noteq> [slash] \<Longrightarrow> parent_of p \<noteq> [slash] \<Longrightarrow> length (parent_of p) < length p"
  using normal_path_child [of p] by (metis length_append less_add_same_cancel1 list.size(4) zero_less_Suc add_Suc_right)

text \<open>A tree has the directories above each of its paths.\<close>

lemma tree_ok_prefixes:
  "tree_ok u \<Longrightarrow> u p \<noteq> None \<Longrightarrow> d \<in> set (parent_prefixes p) \<Longrightarrow> u d = Some Dir"
proof (induction "length p" arbitrary: p rule: less_induct)
  case less
  have p: "normal_path p" "p \<noteq> [slash] \<Longrightarrow> u (parent_of p) = Some Dir" using less.prems(1,2) by (auto simp: tree_ok_def)
  have ne1: "p \<noteq> [slash]" using less.prems(3) parent_prefixes_root by auto
  then have ne: "p \<noteq> [slash]" "parent_of p \<noteq> [slash]"
    using less.prems(3) prefixes_parents [OF p(1)] by (auto split: if_splits)
  then have "d = parent_of p \<or> d \<in> set (parent_prefixes (parent_of p))"
    using less.prems(3) prefixes_parents [OF p(1)] by auto
  then show ?case
    using less.hyps [OF parent_shorter [OF p(1) ne] less.prems(1)] p(2) ne by auto
qed

section \<open>Room in the table of inodes\<close>

lemma tree_dom:
  assumes "tables_ok fs"
  shows "dom (tree (fs_abs fs)) = set (map iname (filter used (m_inodes fs)))"
proof (rule set_eqI)
  fix p
  have "p \<in> dom (tree (fs_abs fs)) \<longleftrightarrow> (\<exists>i. lookup fs p = Some i)" by (auto simp: fs_abs_sel)
  also have "\<dots> \<longleftrightarrow> p \<in> set (map iname (filter used (m_inodes fs)))"
    unfolding lookup_Some_iff [OF assms] by (auto simp: in_set_conv_nth tables_okD(1) [OF assms])
  finally show "p \<in> dom (tree (fs_abs fs)) \<longleftrightarrow> p \<in> set (map iname (filter used (m_inodes fs)))" .
qed

lemma free_slots_tree:
  assumes "tables_ok fs"
  shows "card (dom (tree (fs_abs fs))) + free_slots fs = 64"
proof -
  let ?is = "m_inodes fs"
  have "distinct (map iname (filter used ?is))" using unique_names_distinct [of ?is] assms by (simp add: tables_ok_def)
  then have "card (dom (tree (fs_abs fs))) = length (filter used ?is)" using tree_dom [OF assms] distinct_card by fastforce
  moreover have "free_slots fs = length (filter (\<lambda>i. \<not> used i) ?is)" by (simp add: count_slots_def)
  ultimately show ?thesis using sum_length_filter_compl [of used ?is] tables_okD(1) [OF assms] by simp
qed

text \<open>A part \<open>t\<close> of a tree grows towards \<open>t\<close> and \<open>u\<close> together: they agree on what is a directory, and the table has room for both.\<close>

definition fits :: "(cstring \<rightharpoonup> node) \<Rightarrow> (cstring \<rightharpoonup> node) \<Rightarrow> bool" where
  "fits u t \<longleftrightarrow> (\<forall>p n m. u p = Some n \<longrightarrow> t p = Some m \<longrightarrow> (n = Dir) = (m = Dir)) \<and> finite (dom u) \<and>
     card (dom t \<union> dom u) \<le> 64"

lemma fits_room:
  assumes "ramfs_inv fs" "fits u (tree (fs_abs fs))" "u p \<noteq> None" "tree (fs_abs fs) p = None"
  shows "room fs"
proof -
  let ?d = "dom (tree (fs_abs fs))"
  note ft = free_slots_tree [OF ramfs_invD(1) [OF assms(1)]]
  have "finite ?d" using tree_dom [OF ramfs_invD(1) [OF assms(1)]] by simp
  moreover have "?d \<subset> ?d \<union> dom u" using assms(3,4) by auto
  ultimately have "card ?d < card (?d \<union> dom u)" using assms(2) by (intro psubset_card_mono) (auto simp: fits_def)
  then have "card ?d < 64" using assms(2) by (simp add: fits_def)
  then show ?thesis using ft by (simp add: room_free_slots)
qed

lemma fits_upd:
  assumes "fits u t" "u p = Some n" "(n = Dir) = (m = Dir)"
  shows "fits u (t(p \<mapsto> m))"
proof -
  have "dom (t(p \<mapsto> m)) \<union> dom u = dom t \<union> dom u" using assms(2) by auto
  then show ?thesis using assms by (auto simp: fits_def)
qed

section \<open>Restoring\<close>

text \<open>\<open>t'\<close> is \<open>t\<close> with some directories of \<open>u\<close> added.\<close>

definition grown_at :: "(cstring \<rightharpoonup> node) \<Rightarrow> (cstring \<rightharpoonup> node) \<Rightarrow> (cstring \<rightharpoonup> node) \<Rightarrow> cstring \<Rightarrow> bool" where
  "grown_at u t t' q \<longleftrightarrow> t' q = t q \<or> t q = None \<and> u q = Some Dir \<and> t' q = Some Dir"

lemma grown_at_refl [simp]: "grown_at u t t q"
  by (simp add: grown_at_def)

lemma grown_at_trans: "grown_at u t t' q \<Longrightarrow> grown_at u t' t'' q \<Longrightarrow> grown_at u t t'' q"
  by (auto simp: grown_at_def)

definition short_tree :: "(cstring \<rightharpoonup> node) \<Rightarrow> bool" where
  "short_tree u \<longleftrightarrow> tree_ok u \<and> (\<forall>p \<in> dom u. length p < 64)"

lemma short_treeD:
  assumes "short_tree u" "u p = Some n"
  shows "normal_path p" "length p < 64" "normalize_path (Some p) 64 = Some p" "p \<noteq> [slash] \<Longrightarrow> u (parent_of p) = Some Dir"
proof -
  show n: "normal_path p" "length p < 64" "p \<noteq> [slash] \<Longrightarrow> u (parent_of p) = Some Dir"
    using assms by (auto simp: short_tree_def tree_ok_def)
  show "normalize_path (Some p) 64 = Some p" using normalize_path_normal [OF n(1,2)] by simp
qed

lemma md_step:
  assumes inv: "ramfs_inv fs" and u: "short_tree u" "fits u (tree (fs_abs fs))" "u d = Some Dir"
    and above: "tree (fs_abs fs) (parent_of d) = Some Dir"
  obtains fs' where "fst (ramfs_md (Some d) fs) = fs'" "ramfs_inv fs'" "files (fs_abs fs') = files (fs_abs fs)"
    "fits u (tree (fs_abs fs'))" "tree (fs_abs fs') d = Some Dir" "\<And>q. grown_at u (tree (fs_abs fs)) (tree (fs_abs fs')) q"
proof -
  obtain fs' r where run: "ramfs_md (Some d) fs = (fs', r)" by fastforce
  note c = ramfs_md_correct [OF inv run] and n = short_treeD [OF u(1,3)]
  show ?thesis
  proof (cases "tree (fs_abs fs) d")
    case None
    have "room fs" using fits_room [OF inv u(2) _ None] u(3) by simp
    with None have "fs_abs fs' = (fs_abs fs)\<lparr>tree := (tree (fs_abs fs))(d \<mapsto> Dir)\<rparr>"
      using c n(3) above None by (simp add: spec_md_def)
    then show ?thesis using c None fits_upd [OF u(2,3), of Dir] u(3) run by (intro that [of fs']) (auto simp: grown_at_def)
  next
    case (Some m)
    then have "m = Dir" using u(2,3) by (auto simp: fits_def)
    then have "fs_abs fs' = fs_abs fs" using c n(3) Some by (simp add: spec_md_def)
    then show ?thesis using c Some \<open>m = Dir\<close> u(2) run by (intro that [of fs']) simp_all
  qed
qed

lemma md_dirs:
  assumes "short_tree u" "u p \<noteq> None" "p \<noteq> [slash]"
  shows "ramfs_inv fs \<Longrightarrow> fits u (tree (fs_abs fs)) \<Longrightarrow>
    \<exists>fs'. fold (\<lambda>p fs. fst (ramfs_md (Some p) fs)) (parent_prefixes p) fs = fs' \<and> ramfs_inv fs' \<and>
      files (fs_abs fs') = files (fs_abs fs) \<and> fits u (tree (fs_abs fs')) \<and> tree (fs_abs fs') (parent_of p) = Some Dir \<and>
      (\<forall>q. grown_at u (tree (fs_abs fs)) (tree (fs_abs fs')) q)"
  using assms(2,3)
proof (induction "length p" arbitrary: p rule: less_induct)
  case less
  obtain n where n: "u p = Some n" using less.prems(3) by auto
  note N = short_treeD [OF assms(1) n]
  let ?d = "parent_of p"
  show ?case
  proof (cases "?d = [slash]")
    case True
    then have "parent_prefixes p = []" using prefixes_parents [OF N(1) less.prems(4)] by simp
    then show ?thesis using less.prems(1,2) ramfs_invD(3) True by auto
  next
    case False
    have d: "u ?d = Some Dir" using N(4) less.prems(4) by simp
    then have "u ?d \<noteq> None" by simp
    from less.hyps [OF parent_shorter [OF N(1) less.prems(4) False] less.prems(1,2) this False] obtain fs1 where
      1: "fold (\<lambda>p fs. fst (ramfs_md (Some p) fs)) (parent_prefixes ?d) fs = fs1" "ramfs_inv fs1"
        "files (fs_abs fs1) = files (fs_abs fs)" "fits u (tree (fs_abs fs1))" "tree (fs_abs fs1) (parent_of ?d) = Some Dir"
        "\<forall>q. grown_at u (tree (fs_abs fs)) (tree (fs_abs fs1)) q" by blast
    obtain fs2 where 2: "fst (ramfs_md (Some ?d) fs1) = fs2" "ramfs_inv fs2" "files (fs_abs fs2) = files (fs_abs fs1)"
      "fits u (tree (fs_abs fs2))" "tree (fs_abs fs2) ?d = Some Dir" "\<And>q. grown_at u (tree (fs_abs fs1)) (tree (fs_abs fs2)) q"
      using md_step [OF 1(2) assms(1) 1(4) d 1(5)] by blast
    have "fold (\<lambda>p fs. fst (ramfs_md (Some p) fs)) (parent_prefixes p) fs = fs2"
      using prefixes_parents [OF N(1) less.prems(4)] False 1(1) 2(1) by simp
    then show ?thesis using 1 2 grown_at_trans by (intro exI [of _ fs2]) fastforce
  qed
qed

lemma restore_file_works:
  assumes inv: "ramfs_inv fs" and u: "short_tree u" "fits u (tree (fs_abs fs))" "u p = Some (File c)"
    and N: "length c \<le> unat N" "N \<in> doubles" "64 \<le> N" and h: "plenty nb (Suc k) N h"
    and fd: "files (fs_abs fs) x = None" "3 \<le> x" "x < 35"
  obtains fs' h' where "restore_file nb p c (of_nat (length c)) (fs, h) = Some (fs', h')" "ramfs_inv fs'"
    "files (fs_abs fs') = files (fs_abs fs)" "fits u (tree (fs_abs fs'))" "tree (fs_abs fs') p = Some (File c)"
    "\<And>q. q \<noteq> p \<Longrightarrow> grown_at u (tree (fs_abs fs)) (tree (fs_abs fs')) q" "plenty nb k N h'"
proof -
  note P = short_treeD [OF u(1,3)]
  have root: "p \<noteq> [slash]" using u(1,3) by (auto simp: short_tree_def tree_ok_def)
  have "p \<noteq> []" using P(1) by (auto simp: normal_path_def path_of_def split: if_splits)
  from md_dirs [OF u(1) _ root inv u(2)] u(3) obtain fs1 where
    1: "fold (\<lambda>p fs. fst (ramfs_md (Some p) fs)) (parent_prefixes p) fs = fs1" "ramfs_inv fs1"
      "files (fs_abs fs1) = files (fs_abs fs)" "fits u (tree (fs_abs fs1))" "tree (fs_abs fs1) (parent_of p) = Some Dir"
      "\<And>q. grown_at u (tree (fs_abs fs)) (tree (fs_abs fs1)) q" by auto
  have cw: "can_write fs1 p"
    using 1(4,5) u(3) fits_room [OF 1(2,4)] unfolding can_write_def fits_def by (auto split: option.split node.split)
  obtain fs2 f where o: "ramfs_open (Some p) 14 fs1 = (fs2, f)" by fastforce
  obtain f' where "spec_open (room fs1) (Some p) 14 (fs_abs fs1) =
      (\<lparr>tree = (tree (fs_abs fs1))(p \<mapsto> File []), files = (files (fs_abs fs1))(f' \<mapsto> (p, 0, 14))\<rparr>, f')"
    "files (fs_abs fs1) f' = None" "0 \<le> f'" by (rule spec_open_write [OF P(3) cw _ fd(2,3) refl]) (use 1(3) fd(1) in simp_all)
  with open_facts [OF 1(2) o] have 2: "ramfs_inv fs2" "files (fs_abs fs1) f = None" "0 \<le> f"
    "fs_abs fs2 = \<lparr>tree = (tree (fs_abs fs1))(p \<mapsto> File []), files = (files (fs_abs fs1))(f \<mapsto> (p, 0, 14))\<rparr>" by simp_all
  have f2: "files (fs_abs fs2) f = Some (p, 0, 14)" "tree (fs_abs fs2) p = Some (File [])" using 2(4) by simp_all
  have len: "unat (of_nat (length c) :: u32) = length c" using N(1) unat_u32_less [of N] by (intro unat_of_nat_u32) simp
  obtain fs3 h' c' gap where 3: "ramfs_write nb f (Some c) (of_nat (length c)) fs2 h = Some (fs3, h', sint (of_nat (length c) :: u32))"
    "ramfs_inv fs3" "tree (fs_abs fs2) p = Some (File c')" "length gap = unat (0 :: u32) - length c'"
    "fs_abs fs3 = (fs_abs fs2)\<lparr>tree := (tree (fs_abs fs2))(p \<mapsto> File (copy_bytes (c' @ gap) (unat (0 :: u32)) c)),
       files := (files (fs_abs fs2))(f \<mapsto> (p, 0 + of_nat (length c), 14))\<rparr>" "plenty nb k N h'"
    by (rule write_plenty [OF 2(1) f2(1) _ _ _ N(2,3) h, of c "of_nat (length c)"]) (use len N(1) in simp_all)
  have "c' = []" "gap = []" using 3(3,4) f2(2) by simp_all
  then have abs: "tree (fs_abs fs3) = (tree (fs_abs fs1))(p \<mapsto> File c)" "files (fs_abs fs3) = (files (fs_abs fs1))(f \<mapsto> (p, of_nat (length c), 14))"
    using 3(5) 2(4) by (simp_all add: copy_bytes_def)
  have "files (fs_abs fs3) f = Some (p, of_nat (length c), 14)" using abs(2) by simp
  note cl = close_facts [OF 3(2) this]
  have run: "restore_file nb p c (of_nat (length c)) (fs, h) = Some (fst (ramfs_close f fs3), h')"
    using \<open>p \<noteq> []\<close> 1(1) o 2(3) 3(1) by (simp add: restore_file_def restore_flags_def)
  show ?thesis
  proof (rule that [OF run cl(1)])
    show "files (fs_abs (fst (ramfs_close f fs3))) = files (fs_abs fs)" using cl(2) abs(2) 1(3) 2(2) by (auto simp: fun_eq_iff)
    show "fits u (tree (fs_abs (fst (ramfs_close f fs3))))" using cl(2) abs(1) fits_upd [OF 1(4) u(3), of "File c"] by simp
    show "tree (fs_abs (fst (ramfs_close f fs3))) p = Some (File c)" using cl(2) abs(1) by simp
    show "grown_at u (tree (fs_abs fs)) (tree (fs_abs (fst (ramfs_close f fs3)))) q" if "q \<noteq> p" for q
      using that 1(6) [of q] cl(2) abs(1) by (simp add: grown_at_def)
  qed (rule 3(6))
qed

text \<open>Restoring the files of a list: each is there with its contents, and elsewhere only directories are added.\<close>

lemma restore_all_works:
  assumes "ramfs_inv fs" "short_tree u" "fits u (tree (fs_abs fs))" "\<forall>(p, c) \<in> set fls. u p = Some (File c) \<and> length c \<le> unat N"
    and N: "N \<in> doubles" "64 \<le> N" and "plenty nb (length fls) N h" and "files (fs_abs fs) x = None" and x: "3 \<le> x" "x < 35"
  shows "\<exists>fs' h'. restore_all nb fls (fs, h) = Some (fs', h') \<and> ramfs_inv fs' \<and> files (fs_abs fs') = files (fs_abs fs) \<and>
    fits u (tree (fs_abs fs')) \<and> (\<forall>(p, c) \<in> set fls. tree (fs_abs fs') p = Some (File c)) \<and>
    (\<forall>q. q \<notin> fst ` set fls \<longrightarrow> grown_at u (tree (fs_abs fs)) (tree (fs_abs fs')) q)"
  using assms(1,3,4,7,8)
proof (induction fls arbitrary: fs h)
  case Nil
  then show ?case by auto
next
  case (Cons f fls)
  obtain p c where f: "f = (p, c)" by fastforce
  have pc: "u p = Some (File c)" "length c \<le> unat N" using Cons.prems(3) f by simp_all
  obtain fs1 h1 where 1: "restore_file nb p c (of_nat (length c)) (fs, h) = Some (fs1, h1)" "ramfs_inv fs1"
    "files (fs_abs fs1) = files (fs_abs fs)" "fits u (tree (fs_abs fs1))" "tree (fs_abs fs1) p = Some (File c)"
    "\<And>q. q \<noteq> p \<Longrightarrow> grown_at u (tree (fs_abs fs)) (tree (fs_abs fs1)) q" "plenty nb (length fls) N h1"
    by (rule restore_file_works [OF Cons.prems(1) assms(2) Cons.prems(2) pc N _ Cons.prems(5) x, of nb "length fls" h])
      (use Cons.prems(4) in simp_all)
  have "\<forall>(p, c) \<in> set fls. u p = Some (File c) \<and> length c \<le> unat N" "files (fs_abs fs1) x = None"
    using Cons.prems(3,5) 1(3) by simp_all
  from Cons.IH [OF 1(2,4) this(1) 1(7) this(2)] obtain fs2 h2 where
    2: "restore_all nb fls (fs1, h1) = Some (fs2, h2)" "ramfs_inv fs2" "files (fs_abs fs2) = files (fs_abs fs1)"
      "fits u (tree (fs_abs fs2))" "\<forall>(p, c) \<in> set fls. tree (fs_abs fs2) p = Some (File c)"
      "\<forall>q. q \<notin> fst ` set fls \<longrightarrow> grown_at u (tree (fs_abs fs1)) (tree (fs_abs fs2)) q" by blast
  have "tree (fs_abs fs2) p = Some (File c)"
  proof (cases "p \<in> fst ` set fls")
    case True
    then obtain c' where "(p, c') \<in> set fls" by auto
    moreover from this have "c' = c" using Cons.prems(3) pc(1) by auto
    ultimately show ?thesis using 2(5) by auto
  next
    case False
    then show ?thesis using 2(6) 1(5) by (auto simp: grown_at_def)
  qed
  moreover have "grown_at u (tree (fs_abs fs)) (tree (fs_abs fs2)) q" if "q \<notin> fst ` set (f # fls)" for q
    using that 1(6) [of q] 2(6) grown_at_trans f by auto
  ultimately show ?case using f 1(1,3) 2 by (intro exI [of _ fs2] exI [of _ h2]) auto
qed

section \<open>Snapshots\<close>

lemma short_tree_fs: "ramfs_inv fs \<Longrightarrow> short_tree (tree (fs_abs fs))"
  using tree_name(1) by (fastforce simp: short_tree_def ramfs_inv_def)

text \<open>
  C9. A snapshot can be restored. When \<open>storage_snapshot_save\<close> succeeds, the last entry of the index on the device names
  sectors whose contents the code that restores a package turns into the files the file system had. Take any file system to
  restore into that has a free descriptor, agrees with the saved tree on what is a directory and has inodes for the names of
  both, and a heap that grants each file its buffer (requests of at most \<open>N\<close> bytes, \<open>N\<close> a power of two from 64 on
  that no saved file exceeds). Then the code returns; every saved file is there with its contents, paths that were not in the saved tree are
  as before, and of the saved directories those above files are made where they were missing.
\<close>

theorem snapshot_save_restores:
  assumes "on_primary hw sects k off cap st" "storage_ok st" "index_ok (st_view sects k off st 2)" "length nm \<le> 1000"
    and "st_fs st = Some fs" "ramfs_inv fs" "fd_left fs" "\<forall>p. tree (fs_abs fs) p \<noteq> None \<longrightarrow> CHR 0x00 \<notin> set p"
    and "write_fits (encode_files (all_files fs)) (of_nat (length (encode_files (all_files fs)))) cap st"
    and "storage_snapshot_save hw pt (Some nm) st = Some (True, st')"
    and target: "ramfs_inv fs0" "fits (tree (fs_abs fs)) (tree (fs_abs fs0))" "files (fs_abs fs0) x = None" "3 \<le> x" "x < 35"
    and memory: "N \<in> doubles" "64 \<le> N" "\<forall>p c. tree (fs_abs fs) p = Some (File c) \<longrightarrow> length c \<le> unat N"
      "plenty (heap_new_bytes pt) (length (all_files fs)) N h0"
  shows "\<exists>old start sectors fs1 h1. index_entries (st_view sects k off st' 2) = old @ [(bytes_of nm, start, sectors)] \<and>
    restore_files (heap_new_bytes pt) (sector_run (st_view sects k off st') (ucast start) (unat sectors)) 0 (fs0, h0) = Some (fs1, h1) \<and>
    ramfs_inv fs1 \<and> files (fs_abs fs1) = files (fs_abs fs0) \<and>
    (\<forall>p c. tree (fs_abs fs) p = Some (File c) \<longrightarrow> tree (fs_abs fs1) p = Some (File c)) \<and>
    (\<forall>p. tree (fs_abs fs) p = None \<longrightarrow> tree (fs_abs fs1) p = tree (fs_abs fs0) p) \<and>
    (\<forall>p. tree (fs_abs fs) p = Some Dir \<longrightarrow> tree (fs_abs fs1) p = tree (fs_abs fs0) p \<or> tree (fs_abs fs1) p = Some Dir)"
proof -
  let ?out = "encode_files (all_files fs)"
  let ?n = "length ?out"
  have n: "?n + 511 < 2 ^ 32" using assms(9) by (simp add: write_fits_def)
  have same: "same_fs fs fs" using assms(6) by (simp add: same_fs_def)
  note root = ramfs_invD(3) [OF assms(6)]
  from compute_entries_works [OF assms(6,7) same subset_refl, of "[slash]" 64 0] obtain fs1 where
    1: "compute [slash] fs 0 = Some (True, fs1, of_nat ?n)" "same_fs fs fs1"
    using readdir_entries [OF assms(6) root same] by (auto simp: all_files_def compute_def)
  have "unat (of_nat ?n :: u32) = ?n" using n by simp
  with fill_entries_works [OF assms(6,7) 1(2) subset_refl, of "[slash]" 64 "[]" "of_nat ?n"] obtain fs2 where
    2: "fill (of_nat ?n) [slash] fs1 = Some (True, fs2, ?out)"
    using readdir_entries [OF assms(6) root 1(2)] by (auto simp: all_files_def fill_def)
  from assms(10) 1(1) 2 assms(5) obtain h hdl st1 where
    w: "storage_write hw (Some ?out) (of_nat ?n) (st\<lparr>st_heap := h, st_fs := Some fs2\<rparr>) = Some (Some hdl, st1)"
    and a: "storage_add_index_entry hw nm (h_start_lba hdl) (h_sectors hdl) st1 = Some (True, st')"
    by (auto simp: storage_snapshot_save_def Let_def bind_eq_Some_conv split: if_splits option.splits)
  let ?st = "st\<lparr>st_heap := h, st_fs := Some fs2\<rparr>"
  have pre: "on_primary hw sects k off cap ?st" "storage_ok ?st" "write_fits ?out (of_nat ?n) cap ?st"
      "index_ok (st_view sects k off ?st 2)"
    using assms(1-3,9) by (simp_all add: storage_ok_def write_fits_def)
  have fl: "set (all_files fs) = {(p, c). tree (fs_abs fs) p = Some (File c)}" by (rule all_files_set [OF assms(6)])
  obtain fs1 h1 where 3: "restore_all (heap_new_bytes pt) (all_files fs) (fs0, h0) = Some (fs1, h1)" "ramfs_inv fs1"
      "files (fs_abs fs1) = files (fs_abs fs0)" "\<forall>(p, c) \<in> set (all_files fs). tree (fs_abs fs1) p = Some (File c)"
      "\<forall>q. q \<notin> fst ` set (all_files fs) \<longrightarrow> grown_at (tree (fs_abs fs)) (tree (fs_abs fs0)) (tree (fs_abs fs1)) q"
    using restore_all_works [OF target(1) short_tree_fs [OF assms(6)] target(2) _ memory(1,2,4) target(3-5)] memory(3) fl by auto
  have out: "fst ` set (all_files fs) = {p. \<exists>c. tree (fs_abs fs) p = Some (File c)}" unfolding fl by force
  obtain old start sectors where "index_entries (st_view sects k off st' 2) = old @ [(bytes_of nm, start, sectors)]"
    "sector_run (st_view sects k off st') (ucast start) (unat sectors) = padded (data_sectors ?out) ?out"
    by (rule stored_package [OF pre(1,2,4) assms(4) pre(3) w a])
  moreover have "\<forall>p c. tree (fs_abs fs) p = Some (File c) \<longrightarrow> tree (fs_abs fs1) p = Some (File c)" using 3(4) fl by auto
  moreover have "grown_at (tree (fs_abs fs)) (tree (fs_abs fs0)) (tree (fs_abs fs1)) p"
    if "tree (fs_abs fs) p = None \<or> tree (fs_abs fs) p = Some Dir" for p using 3(5) that unfolding out by auto
  ultimately show ?thesis
    using 3(1-3) restore_padded [OF all_files_plain [OF assms(6,8)] n, of "heap_new_bytes pt" "(fs0, h0)"]
    by (fastforce simp: grown_at_def)
qed

end
