(* ===== verification/Shell_Correct.thy ===== *)
theory Shell_Correct
  imports Shell Shell_Text_Correct Storage_Restore
begin

text \<open>
  The file commands of the shell against the abstract file system: what is read is the file's contents,
  \<open>cp\<close> copies, and \<open>mv\<close> moves, or loses the file when its destination cannot be opened.
\<close>

subsection \<open>Descriptors and paths\<close>

lemma resolved_normal:
  assumes "resolve_path d a 64 = Some p"
  shows "normalize_path (Some p) 64 = Some p" "normal_path p"
proof -
  obtain m where m: "normalize_absolute_path (Some m) 64 = Some p"
    using assms by (auto simp: resolve_path_def Let_def split: option.splits if_splits)
  then have "m \<noteq> []" "hd m = slash" by (auto simp: normalize_absolute_path_def split: if_splits)
  then obtain q where "m = slash # q" by (cases m) auto
  with m have p: "p = path_of (foldl follow [] (components q))" "length p < 64"
    using normalize_absolute_path_eq [of 64 q] by (auto simp: Let_def split: if_splits)
  moreover have "valid_names (foldl follow [] (components q))"
    using follow_valid [OF _ valid_names_components] by (simp add: valid_names_def)
  ultimately show n: "normal_path p" by simp
  show "normalize_path (Some p) 64 = Some p" using normalize_path_normal [OF n p(2)] by simp
qed

lemma on_path_Some: "resolve_path (Some (cwd st)) (Some a) 64 = Some p \<Longrightarrow> on_path a u k st = k p st"
  by (simp add: on_path_def arg_to_path_def)

subsection \<open>Reading\<close>

lemma read_step:
  assumes "ramfs_inv fs" "files (fs_abs fs) fd = Some (p, of_nat k, fl)" "fl AND kOpenRead \<noteq> 0" "tree (fs_abs fs) p = Some (File c)"
    "k \<le> length c"
  obtains m fs' where "k + m \<le> length c" "m = 0 \<longleftrightarrow> k = length c" "m \<le> 128" "ramfs_read fd True 128 fs = (fs', int m, take m (drop k c))"
    "ramfs_inv fs'" "fs_abs fs' = (fs_abs fs)\<lparr>files := (files (fs_abs fs))(fd \<mapsto> (p, of_nat (k + m), fl))\<rparr>"
proof -
  define m where "m = min 128 (length c - k)"
  have m: "k + m \<le> length c" "m = 0 \<longleftrightarrow> k = length c" "m \<le> 128" and tk: "take 128 (drop k c) = take m (drop k c)"
    using assms(5) by (auto simp: m_def min_def)
  have l: "length (take m (drop k c)) = m" using m(1) by simp
  have "length c < 2 ^ 32" using tree_name(3) [OF assms(1,4)] by blast
  then have u: "unat (of_nat k :: u32) = k" using assms(5) by simp
  obtain fs' r bs where rd: "ramfs_read fd True 128 fs = (fs', r, bs)" by (metis surj_pair)
  have s: "sint (of_nat m :: u32) = int m" using m(3) by (intro sint_512) simp
  have "spec_read fd 128 (fs_abs fs) =
      ((fs_abs fs)\<lparr>files := (files (fs_abs fs))(fd \<mapsto> (p, of_nat (k + m), fl))\<rparr>, int m, take m (drop k c))"
    using assms u l s by (simp add: spec_read_def Let_def tk del: length_take length_drop)
  with ramfs_read_correct [OF assms(1) rd] rd that m show ?thesis by auto
qed

lemma read_chunks_all:
  assumes "ramfs_inv fs" "files (fs_abs fs) fd = Some (p, of_nat k, fl)" "fl AND kOpenRead \<noteq> 0" "tree (fs_abs fs) p = Some (File c)"
    "k \<le> length c"
  shows "\<exists>fs' bss. read_chunks fd 128 fs = Some (fs', bss) \<and> concat bss = drop k c \<and> ramfs_inv fs' \<and>
    fs_abs fs' = (fs_abs fs)\<lparr>files := (files (fs_abs fs))(fd \<mapsto> (p, of_nat (length c), fl))\<rparr>"
  using assms
proof (induction "length c - k" arbitrary: k fs rule: less_induct)
  case less
  from less.prems obtain m fs1 where m: "k + m \<le> length c" "m = 0 \<longleftrightarrow> k = length c"
    and rd: "ramfs_read fd True 128 fs = (fs1, int m, take m (drop k c))" and 1: "ramfs_inv fs1"
    "fs_abs fs1 = (fs_abs fs)\<lparr>files := (files (fs_abs fs))(fd \<mapsto> (p, of_nat (k + m), fl))\<rparr>" by (rule read_step)
  show ?case
  proof (cases "m = 0")
    case True
    then show ?thesis using rd m 1 by (subst read_chunks.simps) simp
  next
    case False
    then have "length c - (k + m) < length c - k" using m by simp
    from less.hyps [OF this 1(1)] 1(2) less.prems m(1) obtain fs' bss where
      "read_chunks fd 128 fs1 = Some (fs', bss)" "concat bss = drop (k + m) c" "ramfs_inv fs'"
      "fs_abs fs' = (fs_abs fs)\<lparr>files := (files (fs_abs fs))(fd \<mapsto> (p, of_nat (length c), fl))\<rparr>" by auto
    moreover have "take m (drop k c) @ drop (k + m) c = drop k c" by (metis add.commute append_take_drop_id drop_drop)
    ultimately show ?thesis using rd False by (subst read_chunks.simps) simp
  qed
qed

lemma open_read:
  assumes "ramfs_inv fs" "tree (fs_abs fs) p = Some (File c)" "files (fs_abs fs) x = None" "3 \<le> x" "x < 35"
  obtains fd fs' where "ramfs_open (Some p) kOpenRead fs = (fs', fd)" "0 \<le> fd" "ramfs_inv fs'" "files (fs_abs fs) fd = None"
    "fs_abs fs' = (fs_abs fs)\<lparr>files := (files (fs_abs fs))(fd \<mapsto> (p, 0, 1))\<rparr>"
proof -
  obtain fs' fd' where o: "ramfs_open (Some p) kOpenRead fs = (fs', fd')" by fastforce
  obtain fd where "spec_open (room fs) (Some p) 1 (fs_abs fs) = (\<lparr>tree = tree (fs_abs fs), files = (files (fs_abs fs))(fd \<mapsto> (p, 0, 1))\<rparr>, fd)"
    "files (fs_abs fs) fd = None" "0 \<le> fd"
    using spec_open_file [OF tree_name(2) [OF assms(1,2)] assms(2-5), of "room fs" 1] by auto
  with open_facts [OF assms(1) o] o that show ?thesis by auto
qed

text \<open>
  Reading a file through the shell gives exactly its bytes: opening, reading in chunks to the end and closing
  returns, for every file and as long as a descriptor is free, the contents of the file, and leaves the
  file system and the open files as they were.
\<close>

theorem read_file_contents:
  assumes "ramfs_inv fs" "tree (fs_abs fs) p = Some (File c)" "files (fs_abs fs) x = None" "3 \<le> x" "x < 35"
  shows "\<exists>fs' bss. read_file p 128 fs = Some (fs', Some bss) \<and> concat bss = c \<and> ramfs_inv fs' \<and> fs_abs fs' = fs_abs fs"
proof -
  obtain fd fs1 where 1: "ramfs_open (Some p) kOpenRead fs = (fs1, fd)" "0 \<le> fd" "ramfs_inv fs1" "files (fs_abs fs) fd = None"
    "fs_abs fs1 = (fs_abs fs)\<lparr>files := (files (fs_abs fs))(fd \<mapsto> (p, 0, 1))\<rparr>" by (rule open_read [OF assms])
  from read_chunks_all [OF 1(3), of fd p 0 1 c] 1 assms(2) obtain fs2 bss where 2: "read_chunks fd 128 fs1 = Some (fs2, bss)" "concat bss = c"
    "ramfs_inv fs2" "fs_abs fs2 = (fs_abs fs)\<lparr>files := (files (fs_abs fs))(fd \<mapsto> (p, of_nat (length c), 1))\<rparr>" by auto
  have "(files (fs_abs fs))(fd := None) = files (fs_abs fs)" using 1(4) by (simp add: fun_upd_idem)
  with close_facts [OF 2(3), of fd] 2 1 show ?thesis by (simp add: read_file_def)
qed

theorem read_file_contents_witness:
  "\<exists>fs' bss. read_file ''/f'' 128 ramfs_one = Some (fs', Some bss) \<and> concat bss = [] \<and> fs_abs fs' = fs_abs ramfs_one"
  using read_file_contents [OF ramfs_one_facts(1), of "''/f''" "[]" 4] by (auto simp: ramfs_one_facts)

subsection \<open>Copying\<close>

text \<open>The end of a copy: the destination has a beginning of the source, all of it unless a write failed.\<close>

definition cp_done :: "abs_fs \<Rightarrow> int \<Rightarrow> int \<Rightarrow> cstring \<Rightarrow> u8 list \<Rightarrow> ramfs \<times> 'h \<times> bool \<Rightarrow> bool" where
  "cp_done a s d q c r \<longleftrightarrow> ramfs_inv (fst r) \<and> (\<exists>j x y. (snd (snd r) \<or> j = length c) \<and>
     fs_abs (fst r) = \<lparr>tree = (tree a)(q \<mapsto> File (take j c)), files = (files a)(s \<mapsto> x, d \<mapsto> y)\<rparr>)"

lemma cp_doneI:
  assumes "ramfs_inv fs" "fs_abs fs = \<lparr>tree = (tree a)(q \<mapsto> File (take j c)), files = (files a)(s \<mapsto> x, d \<mapsto> y)\<rparr>" "f \<or> j = length c"
  shows "cp_done a s d q c (fs, h, f)"
  unfolding cp_done_def fst_conv snd_conv using assms by blast

lemma cp_done_shift:
  assumes "cp_done a' s d q c r" "a' = \<lparr>tree = (tree a)(q \<mapsto> File b), files = (files a)(s \<mapsto> x, d \<mapsto> y)\<rparr>" "s \<noteq> d"
  shows "cp_done a s d q c r"
proof -
  obtain j x' y' where r: "ramfs_inv (fst r)" "snd (snd r) \<or> j = length c"
    "fs_abs (fst r) = \<lparr>tree = (tree a')(q \<mapsto> File (take j c)), files = (files a')(s \<mapsto> x', d \<mapsto> y')\<rparr>"
    using assms(1) unfolding cp_done_def by blast
  have "(tree a')(q \<mapsto> File (take j c)) = (tree a)(q \<mapsto> File (take j c))" "(files a')(s \<mapsto> x', d \<mapsto> y') = (files a)(s \<mapsto> x', d \<mapsto> y')"
    using assms(2,3) by (auto simp: fun_eq_iff)
  with r show ?thesis unfolding cp_done_def by metis
qed

context byte_allocator
begin

lemma cp_loop_works:
  assumes "ramfs_inv fs" "files (fs_abs fs) s = Some (p, of_nat k, 1)" "files (fs_abs fs) d = Some (q, of_nat k, fl)" "s \<noteq> d" "p \<noteq> q"
    "fl AND kOpenWrite \<noteq> 0" "tree (fs_abs fs) p = Some (File c)" "tree (fs_abs fs) q = Some (File (take k c))" "k \<le> length c" "length c \<le> 0x20000000" "in_order h"
  shows "\<exists>r. cp_loop new_bytes s d fs h = Some r \<and> cp_done (fs_abs fs) s d q c r \<and> in_order (fst (snd r))"
  using assms
proof (induction "length c - k" arbitrary: k fs h rule: less_induct)
  case less
  note P = less.prems
  obtain m fs1 where m: "k + m \<le> length c" "m = 0 \<longleftrightarrow> k = length c" "m \<le> 128"
    and rd: "ramfs_read s True 128 fs = (fs1, int m, take m (drop k c))" and 1: "ramfs_inv fs1"
    "fs_abs fs1 = (fs_abs fs)\<lparr>files := (files (fs_abs fs))(s \<mapsto> (p, of_nat (k + m), 1))\<rparr>"
    using read_step [OF P(1,2) _ P(7,9)] by auto
  show ?case
  proof (cases "m = 0")
    case True
    have "fs_abs fs1 = \<lparr>tree = (tree (fs_abs fs))(q \<mapsto> File (take (length c) c)),
        files = (files (fs_abs fs))(s \<mapsto> (p, of_nat (k + m), 1), d \<mapsto> (q, of_nat k, fl))\<rparr>"
      using True m P(3,4,8) 1(2) by (auto simp: fun_upd_idem)
    then have "cp_done (fs_abs fs) s d q c (fs1, h, False)" by (rule cp_doneI [OF 1(1)]) simp
    moreover have "cp_loop new_bytes s d fs h = Some (fs1, h, False)" by (subst cp_loop.simps) (simp add: rd True)
    ultimately show ?thesis using P(11) by auto
  next
    case False
    let ?bs = "take m (drop k c)"
    have len: "length ?bs = unat (of_nat m :: u32)" "unat (of_nat k :: u32) + unat (of_nat m :: u32) \<le> 0x80000000"
      and ord: "in_order h \<and> unat (of_nat k :: u32) + unat (of_nat m :: u32) \<le> 0x20000000"
      using m P(10,11) by auto
    have f1: "files (fs_abs fs1) d = Some (q, of_nat k, fl)" using 1(2) P(3,4) by simp
    have uk: "unat (of_nat k :: u32) = k" using P(9,10) by simp
    show ?thesis
    proof (cases rule: write_cases [OF 1(1) f1 P(6) len, of h])
      case 1
      then show ?thesis using ord by simp
    next
      case (2 h' n)
      note w = this(1)
      have "fs_abs fs1 = \<lparr>tree = (tree (fs_abs fs))(q \<mapsto> File (take k c)),
          files = (files (fs_abs fs))(s \<mapsto> (p, of_nat (k + m), 1), d \<mapsto> (q, of_nat k, fl))\<rparr>"
        using P(3,4,8) 1(2) by (auto simp: fun_upd_idem)
      then have "cp_done (fs_abs fs) s d q c (fs1, h', True)" by (rule cp_doneI [OF 1(1)]) simp
      moreover have "cp_loop new_bytes s d fs h = Some (fs1, h', True)" by (subst cp_loop.simps) (use False in \<open>simp add: rd w\<close>)
      ultimately show ?thesis using 2(3) [OF ord] by auto
    next
      case (3 fs2 h' c' gap)
      note w = this
      have "c' = take k c" "gap = []" using w(3,4) 1(2) P(8,9) uk by auto
      then have cb: "copy_bytes (c' @ gap) k ?bs = take (k + m) c" using P(9) m(1) by (simp add: copy_bytes_def take_add)
      have 2: "fs_abs fs2 = \<lparr>tree = (tree (fs_abs fs))(q \<mapsto> File (take (k + m) c)),
          files = (files (fs_abs fs))(s \<mapsto> (p, of_nat (k + m), 1), d \<mapsto> (q, of_nat (k + m), fl))\<rparr>"
        using w(5) 1(2) unfolding uk cb by (simp add: of_nat_add)
      have sm: "sint (of_nat m :: u32) = int m" using m(3) by (intro sint_512) simp
      have lt: "length c - (k + m) < length c - k" using False m by simp
      have f2: "files (fs_abs fs2) s = Some (p, of_nat (k + m), 1)" "files (fs_abs fs2) d = Some (q, of_nat (k + m), fl)"
        "tree (fs_abs fs2) p = Some (File c)" "tree (fs_abs fs2) q = Some (File (take (k + m) c))"
        unfolding 2 using P(4,5,7) by simp_all
      from less.hyps [OF lt w(2) f2(1,2) P(4-6) f2(3,4) m(1) P(10) w(6) [OF ord]] obtain r where
        r: "cp_loop new_bytes s d fs2 h' = Some r" "cp_done (fs_abs fs2) s d q c r" "in_order (fst (snd r))" by blast
      have "cp_loop new_bytes s d fs h = cp_loop new_bytes s d fs2 h'"
        by (subst cp_loop.simps) (use False in \<open>simp add: rd w(1) sm\<close>)
      with r cp_done_shift [OF r(2) 2 P(4)] show ?thesis by simp
    qed
  qed
qed

end

lemma two_free:
  assumes "f x = None" "3 \<le> x" "x < 35" "f y = None" "3 \<le> y" "y < 35" "x \<noteq> y"
  obtains z where "(f(s := v)) z = None" "3 \<le> z" "z < (35 :: int)"
proof (cases "x = s")
  case True
  then show ?thesis using assms by (intro that [of y]) auto
next
  case False
  then show ?thesis using assms by (intro that [of x]) auto
qed

context byte_allocator
begin

lemma cp_files_works:
  assumes inv: "ramfs_inv fs" and p: "tree (fs_abs fs) p = Some (File c)" and q: "normalize_path (Some q) 64 = Some q" "can_write fs q" "p \<noteq> q"
    and len: "length c \<le> 0x20000000" and ord: "in_order (fs_heap st)"
    and fds: "files (fs_abs fs) x = None" "3 \<le> x" "x < 35" "files (fs_abs fs) y = None" "3 \<le> y" "y < 35" "x \<noteq> y"
  shows "\<exists>st' fs' j. cp_files new_bytes p q fs st = Some st' \<and> g_fs st' = Some fs' \<and> ramfs_inv fs' \<and> cwd st' = cwd st \<and> in_order (fs_heap st') \<and>
    fs_abs fs' = (fs_abs fs)\<lparr>tree := (tree (fs_abs fs))(q \<mapsto> File (take j c))\<rparr> \<and>
    (j = length c \<and> serial_out st' = serial_out st \<or> serial_out st' = serial_out st @ ''cp: write error'' @ [CHR 0x0A])"
proof -
  have left: "fd_left fs" unfolding fd_left_def using find_free [of "files (fs_abs fs)", OF fds(1-3)] by (metis option.distinct(1))
  have same: "same_fs fs fs" using inv by (simp add: same_fs_def)
  obtain s fs1 where o1: "ramfs_open (Some p) kOpenRead fs = (fs1, s)" "0 \<le> s" and R: "reading fs s p c 0 fs1"
    using open_reading [OF inv p left same] by blast
  have room: "room fs1 = room fs" using R by (simp add: reading_def room_def)
  obtain s' fs1' where o1': "ramfs_open (Some p) kOpenRead fs = (fs1', s')" "ramfs_inv fs1'" "files (fs_abs fs) s' = None"
    "fs_abs fs1' = (fs_abs fs)\<lparr>files := (files (fs_abs fs))(s' \<mapsto> (p, 0, 1))\<rparr>" by (rule open_read [OF inv p fds(1-3)])
  have 1: "ramfs_inv fs1" "files (fs_abs fs) s = None" "fs_abs fs1 = (fs_abs fs)\<lparr>files := (files (fs_abs fs))(s \<mapsto> (p, 0, 1))\<rparr>"
    using o1 o1' by simp_all
  obtain z where z: "files (fs_abs fs1) z = None" "3 \<le> z" "z < 35"
    using two_free [of "files (fs_abs fs)", OF fds, of s "Some (p, 0, 1)"] 1(3) by auto
  have cw: "can_write fs1 q" using q(2) room 1(3) unfolding can_write_def by (auto split: option.splits node.splits)
  obtain d fs2 where o2: "ramfs_open (Some q) 14 fs1 = (fs2, d)" by fastforce
  note f2 = open_facts [OF 1(1) o2]
  obtain d' where "spec_open (room fs1) (Some q) 14 (fs_abs fs1) =
      (\<lparr>tree = (tree (fs_abs fs1))(q \<mapsto> File []), files = (files (fs_abs fs1))(d' \<mapsto> (q, 0, 14))\<rparr>, d')"
    "files (fs_abs fs1) d' = None" "0 \<le> d'" by (rule spec_open_write [OF q(1) cw z refl])
  with f2(2) have 2: "fs_abs fs2 = \<lparr>tree = (tree (fs_abs fs1))(q \<mapsto> File []), files = (files (fs_abs fs1))(d \<mapsto> (q, 0, 14))\<rparr>"
    "files (fs_abs fs1) d = None" "0 \<le> d" by simp_all
  have sd: "s \<noteq> d" using 2(2) 1(3) by auto
  have "files (fs_abs fs2) s = Some (p, of_nat 0, 1)" "files (fs_abs fs2) d = Some (q, of_nat 0, 14)"
    "tree (fs_abs fs2) p = Some (File c)" "tree (fs_abs fs2) q = Some (File (take 0 c))"
    using sd q(3) p 1(3) 2(1) by simp_all
  from cp_loop_works [OF f2(1) this(1,2) sd q(3) _ this(3,4) _ len ord] obtain fs3 h3 failed where
    lp: "cp_loop new_bytes s d fs2 (fs_heap st) = Some (fs3, h3, failed)" "cp_done (fs_abs fs2) s d q c (fs3, h3, failed)" "in_order h3" by auto
  from lp(2) obtain j v w where 3: "ramfs_inv fs3" "failed \<or> j = length c"
    "fs_abs fs3 = \<lparr>tree = (tree (fs_abs fs2))(q \<mapsto> File (take j c)), files = (files (fs_abs fs2))(s \<mapsto> v, d \<mapsto> w)\<rparr>"
    unfolding cp_done_def fst_conv snd_conv by blast
  have "files (fs_abs fs3) s = Some v" using 3(3) sd by simp
  note c1 = close_facts [OF 3(1) this]
  have "files (fs_abs (fst (ramfs_close s fs3))) d = Some w" using c1(2) 3(3) sd by simp
  note c2 = close_facts [OF c1(1) this]
  let ?fs = "fst (ramfs_close d (fst (ramfs_close s fs3)))"
  have "fs_abs ?fs = (fs_abs fs)\<lparr>tree := (tree (fs_abs fs))(q \<mapsto> File (take j c))\<rparr>"
    using c2(2) c1(2) 3(3) 2(1,2) 1(2,3) sd by (auto simp: fun_eq_iff)
  moreover have "cp_files new_bytes p q fs st = Some (let st = st\<lparr>g_fs := Some ?fs, fs_heap := h3\<rparr> in
      if failed then write_line ''cp: write error'' st else st)"
    using o1 o2 2(3) lp(1) by (simp add: cp_files_def Let_def)
  ultimately show ?thesis using c2(1) 3(2) lp(3)
    by (intro exI [of _ "let st = st\<lparr>g_fs := Some ?fs, fs_heap := h3\<rparr> in if failed then write_line ''cp: write error'' st else st"]
        exI [of _ ?fs] exI [of _ j]) (auto simp: write_line_def emit_def Let_def)
qed

end


lemma unlink_facts:
  assumes "ramfs_inv fs" "tree (fs_abs fs) p = Some (File c)" "\<not> opened p (fs_abs fs)"
  obtains fs' where "ramfs_unlink (Some p) fs = (fs', 0)" "ramfs_inv fs'" "fs_abs fs' = (fs_abs fs)\<lparr>tree := (tree (fs_abs fs))(p := None)\<rparr>"
proof -
  obtain fs' r where u: "ramfs_unlink (Some p) fs = (fs', r)" by fastforce
  from ramfs_unlink_correct [OF assms(1) u] assms(2,3) tree_name(2) [OF assms(1,2)] u that show ?thesis
    by (auto simp: spec_unlink_def)
qed

text \<open>
  C37. \<open>mv\<close> can lose a file. When the destination cannot be opened for writing, say because its directory does not
  exist, \<open>mv\<close> still removes the source, and afterwards the tree is the old one without the file.
\<close>

theorem mv_loses_file:
  assumes "ramfs_inv fs" "g_fs st = Some fs" "resolve_path (Some (cwd st)) (Some a) 64 = Some p" "resolve_path (Some (cwd st)) (Some b) 64 = Some q"
    and "tree (fs_abs fs) p = Some (File c)" "\<not> can_write fs q" "\<not> opened p (fs_abs fs)"
    and "files (fs_abs fs) x = None" "3 \<le> x" "x < 35"
  shows "\<exists>st' fs'. cmd_mv nb [n, a, b] st = Some st' \<and> g_fs st' = Some fs' \<and> ramfs_inv fs' \<and>
    fs_abs fs' = (fs_abs fs)\<lparr>tree := (tree (fs_abs fs))(p := None)\<rparr>"
proof -
  have left: "fd_left fs" unfolding fd_left_def using find_free [of "files (fs_abs fs)", OF assms(8-10)] by (metis option.distinct(1))
  have same: "same_fs fs fs" using assms(1) by (simp add: same_fs_def)
  obtain s fs1 where o1: "ramfs_open (Some p) kOpenRead fs = (fs1, s)" "0 \<le> s" and R: "reading fs s p c 0 fs1"
    using open_reading [OF assms(1,5) left same] by blast
  have room: "room fs1 = room fs" and t1: "tree (fs_abs fs1) = tree (fs_abs fs)" and i1: "ramfs_inv fs1"
    and s: "files (fs_abs fs1) s = Some (p, of_nat 0, 1)"
    using R tree_inodes [of fs1 fs] by (simp_all add: reading_def room_def)
  obtain fs2 d where o2: "ramfs_open (Some q) 14 fs1 = (fs2, d)" by fastforce
  have "spec_open (room fs1) (Some q) 14 (fs_abs fs1) = (fs_abs fs1, -1)"
    using assms(6) resolved_normal(1) [OF assms(4)] room t1
    by (auto simp: spec_open_def can_write_def split: option.splits node.splits)
  with open_facts [OF i1 o2] have 2: "ramfs_inv fs2" "fs_abs fs2 = fs_abs fs1" "d = -1" by simp_all
  note c = close_facts [OF 2(1), of s, unfolded 2(2), OF s]
  let ?fs = "fst (ramfs_close s fs2)"
  have abs: "fs_abs ?fs = fs_abs fs" using c(2) t1 R by (auto simp: reading_def fun_eq_iff intro: abs_fs.equality)
  obtain fs3 where u: "ramfs_unlink (Some p) ?fs = (fs3, 0)" "ramfs_inv fs3" "fs_abs fs3 = (fs_abs fs)\<lparr>tree := (tree (fs_abs fs))(p := None)\<rparr>"
    using unlink_facts [OF c(1), of p] abs assms(5,7) by metis
  have "cmd_cp nb [n, a, b] st = Some (write_line ''cp: cannot open destination'' (st\<lparr>g_fs := Some ?fs\<rparr>))"
    using assms(2-4) o1 o2 2(3) by (simp add: cmd_cp_def with_fs_def on_path_Some Let_def cp_files_def)
  moreover have "cwd (write_line t (st\<lparr>g_fs := Some ?fs\<rparr>)) = cwd st" "g_fs (write_line t (st\<lparr>g_fs := Some ?fs\<rparr>)) = Some ?fs" for t
    by (simp_all add: write_line_def emit_def)
  ultimately show ?thesis using assms(3) u by (simp add: cmd_mv_def on_path_Some)
qed

text \<open>
  \<open>append\<close> appends. On a heap in order and up to 512 MiB, writing a text to the end of an existing file either fails because the heap refuses
  memory, and changes nothing, or makes the contents the old ones followed by the text.
\<close>

theorem append_extends:
  assumes "ramfs_inv fs" "tree (fs_abs fs) p = Some (File c)" "files (fs_abs fs) x = None" "3 \<le> x" "x < 35"
    and "length c + length t \<le> 0x20000000" and ord: "heap_in_order h"
  shows "\<exists>fs' h' ok. write_file_text (heap_new_bytes pt) p t True (fs, h) = Some (fs', h', ok) \<and> ramfs_inv fs' \<and> heap_in_order h' \<and>
    fs_abs fs' = (if ok then (fs_abs fs)\<lparr>tree := (tree (fs_abs fs))(p \<mapsto> File (c @ bytes_of t))\<rparr> else fs_abs fs)"
proof -
  obtain fs1 fd where o: "ramfs_open (Some p) 7 fs = (fs1, fd)" by fastforce
  obtain fd' where "spec_open (room fs) (Some p) 7 (fs_abs fs) = (\<lparr>tree = tree (fs_abs fs), files = (files (fs_abs fs))(fd' \<mapsto> (p, 0, 7))\<rparr>, fd')"
    "files (fs_abs fs) fd' = None" "0 \<le> fd'"
    using spec_open_file [OF tree_name(2) [OF assms(1,2)] assms(2-5), of "room fs" 7] by auto
  with open_facts [OF assms(1) o] have 1: "ramfs_inv fs1" "fs_abs fs1 = \<lparr>tree = tree (fs_abs fs), files = (files (fs_abs fs))(fd \<mapsto> (p, 0, 7))\<rparr>"
    "files (fs_abs fs) fd = None" "0 \<le> fd" by simp_all
  have "files (fs_abs fs1) fd = Some (p, of_nat 0, 7)" "tree (fs_abs fs1) p = Some (File c)" using 1(2) assms(2) by simp_all
  from read_chunks_all [OF 1(1) this(1) _ this(2)] obtain fs2 bss where r2: "read_chunks fd 128 fs1 = Some (fs2, bss)" "ramfs_inv fs2"
    "fs_abs fs2 = (fs_abs fs1)\<lparr>files := (files (fs_abs fs1))(fd \<mapsto> (p, of_nat (length c), 7))\<rparr>" by auto
  have f2: "files (fs_abs fs2) fd = Some (p, of_nat (length c), 7)" using r2(3) by simp
  have n: "length (bytes_of t) = unat (of_nat (length t) :: u32)" "unat (of_nat (length c) :: u32) = length c"
    "unat (of_nat (length c) :: u32) + unat (of_nat (length t) :: u32) \<le> 0x80000000"
    and ord: "heap_in_order h \<and> unat (of_nat (length c) :: u32) + unat (of_nat (length t) :: u32) \<le> 0x20000000"
    using assms(6) ord by (simp_all add: bytes_of_def)
  have sn: "sint (of_nat (length t) :: u32) = int (length t)" using assms(6)
    by (simp add: signed_of_nat signed_take_bit_int_eq_self)
  have run: "write_file_text (heap_new_bytes pt) p t True (fs, h) =
      ramfs_write (heap_new_bytes pt) fd (Some (bytes_of t)) (of_nat (length t)) fs2 h \<bind> (\<lambda>(fs, h, wr). Some (fst (ramfs_close fd fs), h, 0 \<le> wr))"
    using o 1(4) r2(1) by (simp add: write_file_text_def)
  have unopen: "(files (fs_abs fs))(fd := None) = files (fs_abs fs)" using 1(3) by (simp add: fun_upd_idem)
  have w7: "(7 :: u32) AND kOpenWrite \<noteq> 0" by simp
  show ?thesis
  proof (cases rule: heap_bytes.write_cases [OF r2(2) f2 w7 n(1,3), of pt h])
    case 1
    then show ?thesis using ord by simp
  next
    case (2 h' m)
    note w = this(1)
    have "fs_abs (fst (ramfs_close fd fs2)) = fs_abs fs"
      using close_facts(2) [OF r2(2) f2] r2(3) 1(2) unopen by (auto intro: abs_fs.equality)
    then show ?thesis using run w close_facts(1) [OF r2(2) f2] 2(3) [OF ord] by auto
  next
    case (3 fs3 h' c' gap)
    note w = this
    have "c' = c" "gap = []" using w(3,4) r2(3) 1(2) assms(2) n(2) by auto
    then have "fs_abs fs3 = (fs_abs fs2)\<lparr>tree := (tree (fs_abs fs2))(p \<mapsto> File (c @ bytes_of t)),
         files := (files (fs_abs fs2))(fd \<mapsto> (p, of_nat (length c) + of_nat (length t), 7))\<rparr>"
      using w(5) unfolding n(2) by (simp add: copy_bytes_def)
    moreover from this have f3: "files (fs_abs fs3) fd = Some (p, of_nat (length c) + of_nat (length t), 7)" by simp
    ultimately have "fs_abs (fst (ramfs_close fd fs3)) = (fs_abs fs)\<lparr>tree := (tree (fs_abs fs))(p \<mapsto> File (c @ bytes_of t))\<rparr>"
      using close_facts(2) [OF w(2) f3] r2(3) 1(2) unopen by simp
    then show ?thesis using run w(1) w(6) [OF ord] sn close_facts(1) [OF w(2) f3] by auto
  qed
qed

subsection \<open>Examples\<close>

definition shell_on :: "ramfs \<Rightarrow> mm shell" where
  "shell_on fs = \<lparr>cwd = [slash], running = True, hist = history_start, g_fs = Some fs, fs_heap = mm_fresh, serial_out = []\<rparr>"

definition ramfs_closed :: ramfs where
  "ramfs_closed = fst (ramfs_close 3 ramfs_one)"

lemma ramfs_closed_facts: "ramfs_inv ramfs_closed" "fs_abs ramfs_closed = \<lparr>tree = [[slash] \<mapsto> Dir, ''/f'' \<mapsto> File []], files = Map.empty\<rparr>"
proof -
  have f: "files (fs_abs ramfs_one) 3 = Some (''/f'', 0, 7)" by (simp add: ramfs_one_facts)
  show "ramfs_inv ramfs_closed" "fs_abs ramfs_closed = \<lparr>tree = [[slash] \<mapsto> Dir, ''/f'' \<mapsto> File []], files = Map.empty\<rparr>"
    using close_facts [OF ramfs_one_facts(1) f] ramfs_one_facts by (simp_all add: ramfs_closed_def)
qed

lemma closed_room: "room ramfs_closed"
  by code_simp

lemma resolve_examples:
  "resolve_path (Some [slash]) (Some ''f'') 64 = Some ''/f''" "resolve_path (Some [slash]) (Some ''g'') 64 = Some ''/g''"
  "resolve_path (Some [slash]) (Some ''d/g'') 64 = Some ''/d/g''" "parent_of ''/g'' = ''/''" "parent_of ''/d/g'' = ''/d''"
  by code_simp+



theorem mv_loses_file_witness:
  "\<exists>st' fs'. cmd_mv (heap_new_bytes 0) [''mv'', ''f'', ''d/g''] (shell_on ramfs_closed) = Some st' \<and> g_fs st' = Some fs' \<and>
     tree (fs_abs fs') ''/f'' = None \<and> tree (fs_abs fs') ''/d/g'' = None"
proof -
  have "\<not> can_write ramfs_closed ''/d/g''" by (simp add: can_write_def ramfs_closed_facts resolve_examples)
  moreover have "\<not> opened ''/f'' (fs_abs ramfs_closed)" by (simp add: opened_def ramfs_closed_facts)
  ultimately show ?thesis
    using mv_loses_file [OF ramfs_closed_facts(1), of "shell_on ramfs_closed" "''f''" "''/f''" "''d/g''" "''/d/g''" "[]" 3
        "heap_new_bytes 0" "''mv''"] resolve_examples
    by (auto simp: shell_on_def ramfs_closed_facts)
qed

theorem append_extends_witness:
  "\<exists>fs' h' ok. write_file_text (heap_new_bytes 0) ''/f'' ''hi'' True (ramfs_closed, mm_fresh) = Some (fs', h', ok) \<and>
     (ok \<longrightarrow> tree (fs_abs fs') ''/f'' = Some (File [104, 105]))"
  using append_extends [OF ramfs_closed_facts(1), of "''/f''" "[]" 3 "''hi''" mm_fresh 0]
  by (auto simp: ramfs_closed_facts bytes_of_def mm_heaps_in_order)

end
