(* ===== verification/Shell_Line.thy ===== *)
theory Shell_Line
  imports Shell_Commands Shell_Correct
begin

text \<open>
  The line editor and the main loop of the shell, \<open>src/kernel/shell.cpp\<close>: completion, the keys, and running the
  commands. The input is the list of characters the serial port delivers. The line is the whole buffer with what
  older lines left behind the cursor; zero bytes in the input are left out of the model.
\<close>

record editor =
  line :: "char list"
  pos :: nat

definition prompt :: "'h shell \<Rightarrow> cstring" where
  "prompt st = CHR 0x1B # ''[1;36m'' @ ''root@wirth:'' @ CHR 0x1B # ''[1;32m'' @ cwd st @ CHR 0x1B # ''[0m'' @ ''# ''"

definition print_prompt :: "'h shell \<Rightarrow> 'h shell" where
  "print_prompt st = emit (prompt st) st"

definition redraw_input :: "editor \<Rightarrow> 'h shell \<Rightarrow> 'h shell" where
  "redraw_input ed st = emit (take (pos ed) (line ed)) (print_prompt (emit ([CHR 0x0D, CHR 0x1B] @ ''[2K'') st))"

subsection \<open>Completion\<close>

fun token_start :: "char list \<Rightarrow> nat \<Rightarrow> nat" where
  "token_start l 0 = 0"
| "token_start l (Suc i) = (if is_space (l ! i) then Suc i else token_start l i)"

fun last_slash_in :: "cstring \<Rightarrow> nat \<Rightarrow> nat option \<Rightarrow> nat option" where
  "last_slash_in [] i r = r"
| "last_slash_in (c # cs) i r = last_slash_in cs (i + 1) (if c = slash then Some i else r)"

text \<open>The directory to look in and the beginning of the name, from the token and the place of its last slash.\<close>

definition token_parts :: "cstring \<Rightarrow> cstring \<Rightarrow> cstring \<Rightarrow> nat option \<Rightarrow> (cstring \<times> cstring) option" where
  "token_parts dir token visible ls =
     (case ls of
        None \<Rightarrow> Some (copy_text dir kMaxPath, copy_text visible kMaxPath)
      | Some i \<Rightarrow>
          let pre = copy_text (drop (i + 1) visible) kMaxPath in
          if i = 0 then (if pre = [] then None else Some ([slash], pre))
          else (case resolve_path (Some dir) (Some (take (if i < kMaxPath then i else kMaxPath - 1) token)) kMaxPath of
             None \<Rightarrow> None
           | Some parent \<Rightarrow> if pre = [] then None else Some (parent, pre)))"

definition shared_len :: "cstring list \<Rightarrow> nat" where
  "shared_len names =
     (case names of
        [] \<Rightarrow> 0
      | n # ns \<Rightarrow> foldl (\<lambda>len m. let s = common_prefix_len n m in if s < len then s else len) (text_len n) ns)"

text \<open>The token is replaced as a whole; \<open>None\<close> is a line that would get too long.\<close>

definition replace_token :: "nat \<Rightarrow> cstring \<Rightarrow> editor \<Rightarrow> editor option" where
  "replace_token start r ed =
     (if kMaxLine \<le> start + text_len r then None
      else Some \<lparr>line = take start (line ed) @ r @ CHR 0x00 # drop (start + length r + 1) (line ed), pos = start + length r\<rparr>)"

definition complete_path_token :: "editor \<times> 'h shell \<Rightarrow> editor \<times> 'h shell" where
  "complete_path_token s =
     (case s of (ed, st) \<Rightarrow>
        let start = token_start (line ed) (pos ed) in
        if pos ed \<le> start then (ed, st)
        else let token = take (pos ed - start) (drop start (line ed)); visible = c_text (drop start (line ed));
                 ls = last_slash_in token 0 None; stem = (case ls of None \<Rightarrow> [] | Some i \<Rightarrow> take (i + 1) token) in
          (case (token_parts (cwd st) token visible ls, g_fs st) of
            (Some (parent, pre), Some fs) \<Rightarrow>
              (let matches = filter (\<lambda>e. text_starts_with (entry_name e) pre) (snd (ramfs_readdir (Some parent) True 32 fs)) in
               case matches of
                 [] \<Rightarrow> (ed, st)
               | [e] \<Rightarrow>
                   let r = take (kMaxPath - 1) (stem @ drop (text_len pre) (entry_name e));
                       r = (if entry_is_directory e \<and> length r + 1 < kMaxPath then r @ [slash] else r) in
                   (case replace_token start r ed of None \<Rightarrow> (ed, st) | Some ed \<Rightarrow> (ed, redraw_input ed st))
               | e # _ \<Rightarrow>
                   let common = shared_len (map entry_name matches) in
                   if text_len pre < common then
                     let r = take (kMaxPath - 1) (stem @ drop (text_len pre) (take common (entry_name e))) in
                     (case replace_token start r ed of None \<Rightarrow> (ed, st) | Some ed \<Rightarrow> (ed, redraw_input ed st))
                   else (ed, redraw_input ed (write_line (CHR 0x0A # ''tab matches: '' @
                     concat (map (\<lambda>i. (if i = 0 then [] else '', '') @ entry_name (matches ! i) @
                       (if entry_is_directory (matches ! i) then [slash] else [])) [0..<length matches])) st)))
          | _ \<Rightarrow> (ed, st)))"

definition type_text :: "cstring \<Rightarrow> editor \<times> 'h shell \<Rightarrow> editor \<times> 'h shell" where
  "type_text t s =
     (case s of (ed, st) \<Rightarrow>
        let t = take (kMaxLine - 1 - pos ed) t in
        (\<lparr>line = take (pos ed) (line ed) @ t @ drop (pos ed + length t) (line ed), pos = pos ed + length t\<rparr>, emit t st))"

definition complete_command_line :: "cstring list \<Rightarrow> editor \<times> 'h shell \<Rightarrow> editor \<times> 'h shell" where
  "complete_command_line names s =
     (case s of (ed, st) \<Rightarrow>
        let typed = take (pos ed) (line ed); start = length (takeWhile is_space typed) in
        if pos ed \<le> start then (ed, st)
        else let word = takeWhile (\<lambda>c. \<not> is_space c) (drop start typed); pre = take 63 word in
          if 0 < start \<or> start + length word \<noteq> pos ed then complete_path_token (ed, st)
          else let matches = filter (\<lambda>n. match_at n pre) names; common = shared_len matches in
            (case matches of
              [] \<Rightarrow> (ed, redraw_input ed (case suggest_command names pre of
                None \<Rightarrow> st
              | Some c \<Rightarrow> emit (CHR 0x0A # CHR 0x1B # ''[1;33m'' @ ''tab: try '' @ c @ CHR 0x1B # ''[0m'' @ [CHR 0x0A]) st))
            | [n] \<Rightarrow> type_text [CHR 0x20] (type_text (drop (length pre) n) (ed, st))
            | n # _ \<Rightarrow>
                if length pre < common then type_text (drop (length pre) (take common n)) (ed, st)
                else (ed, redraw_input ed (write_line (CHR 0x0A # ''tab matches: '' @
                  concat (map (\<lambda>i. (if i = 0 then [] else '', '') @ matches ! i) [0..<min 32 (length matches)])) st))))"

subsection \<open>Reading a line\<close>

definition use_history :: "(history \<Rightarrow> char list \<Rightarrow> nat \<Rightarrow> history \<times> char list \<times> nat \<times> bool) \<Rightarrow> editor \<times> 'h shell \<Rightarrow> editor \<times> 'h shell" where
  "use_history move s =
     (case s of (ed, st) \<Rightarrow> (case move (hist st) (line ed) (pos ed) of (h, l, p, drawn) \<Rightarrow>
        let ed = \<lparr>line = l, pos = p\<rparr>; st = st\<lparr>hist := h\<rparr> in (ed, if drawn then redraw_input ed st else st)))"

fun read_line :: "cstring list \<Rightarrow> cstring \<Rightarrow> editor \<times> 'h shell \<Rightarrow> (cstring \<times> editor \<times> 'h shell) option" where
  "read_line names [] s = None"
| "read_line names (c # cs) s =
     (if c = CHR 0x0D \<or> c = CHR 0x0A then Some (cs, fst s, emit [CHR 0x0A] (snd s))
      else if c = CHR 0x1B then
        (case cs of
           s1 # s2 # cs' \<Rightarrow>
             read_line names cs' (if s1 = CHR ''['' \<and> s2 = CHR ''A'' then use_history history_move_up s
               else if s1 = CHR ''['' \<and> s2 = CHR ''B'' then use_history history_move_down s else s)
         | _ \<Rightarrow> None)
      else if c = CHR 0x09 then read_line names cs (complete_command_line names s)
      else if c = CHR 0x08 \<or> c = CHR 0x7F then
        read_line names cs (if 0 < pos (fst s)
          then ((fst s)\<lparr>pos := pos (fst s) - 1\<rparr>, emit [CHR 0x08, CHR 0x20, CHR 0x08] (snd s)) else s)
      else read_line names cs (type_text [c] s))"

subsection \<open>The main loop\<close>

fun find_command :: "(cstring \<times> 'h command) list \<Rightarrow> cstring \<Rightarrow> 'h command option" where
  "find_command [] name = None"
| "find_command ((n, f) # cmds) name = (if text_equal n name then Some f else find_command cmds name)"

definition run_line :: "(cstring \<times> 'h command) list \<Rightarrow> editor \<times> 'h shell \<Rightarrow> (editor \<times> 'h shell) option" where
  "run_line cmds s =
     (case s of (ed, st) \<Rightarrow>
        let ed = ed\<lparr>line := (line ed)[pos ed := CHR 0x00]\<rparr> in
        if pos ed = 0 then Some (ed, st\<lparr>hist := history_reset_view (hist st)\<rparr>)
        else let t = c_text (line ed); st = st\<lparr>hist := history_reset_view (history_append t (hist st))\<rparr> in
          let ed = ed\<lparr>line := zeroed_line 0 t @ drop (length t) (line ed)\<rparr> in
          (case parse_args 0 t of
            [] \<Rightarrow> Some (ed, st)
          | name # args \<Rightarrow> (case find_command cmds name of
              Some f \<Rightarrow> map_option (Pair ed) (f (name # args) st)
            | None \<Rightarrow>
                let st = write_line (CHR 0x1B # ''[1;31m'' @ ''unknown command: '' @ name @ CHR 0x1B # ''[0m'') st in
                Some (ed, case suggest_command (map fst cmds) name of
                  None \<Rightarrow> st
                | Some c \<Rightarrow> emit (CHR 0x1B # ''[1;32m'' @ ''do you mean: '' @ c @ ''?'' @ CHR 0x0A # CHR 0x1B # ''[0m'') st))))"

lemma read_line_shorter: "read_line names inp s = Some (rest, s') \<Longrightarrow> length rest < length inp"
  by (induction names inp s rule: read_line.induct) (auto split: if_splits list.splits)

function run :: "(cstring \<times> 'h command) list \<Rightarrow> cstring \<Rightarrow> editor \<times> 'h shell \<Rightarrow> (editor \<times> 'h shell) option" where
  "run cmds inp s =
     (if \<not> running (snd s) then Some s
      else let s = ((fst s)\<lparr>pos := 0, line := (line (fst s))[0 := CHR 0x00]\<rparr>, print_prompt (snd s)) in
        case read_line (map fst cmds) inp s of
          None \<Rightarrow> Some s
        | Some (rest, s) \<Rightarrow> (case run_line cmds s of None \<Rightarrow> None | Some s \<Rightarrow> run cmds rest s))"
  by pat_completeness auto
termination
  by (relation "measure (\<lambda>(_, inp, _). length inp)") (auto dest: read_line_shorter)

subsection \<open>From the keys to the command\<close>

text \<open>A character that the editor just stores.\<close>

definition typable :: "char \<Rightarrow> bool" where
  "typable c \<longleftrightarrow> c \<notin> {CHR 0x00, CHR 0x08, CHR 0x09, CHR 0x0A, CHR 0x0D, CHR 0x1B, CHR 0x7F}"

lemma type_text_fits:
  "pos ed + length t < kMaxLine \<Longrightarrow>
   type_text t (ed, st) = (\<lparr>line = take (pos ed) (line ed) @ t @ drop (pos ed + length t) (line ed), pos = pos ed + length t\<rparr>, emit t st)"
  by (simp add: type_text_def Let_def)

lemma type_text_Cons:
  assumes "pos ed + length (c # t) < kMaxLine" "length (line ed) = kMaxLine"
  shows "type_text t (type_text [c] (ed, st)) = type_text (c # t) (ed, st)"
proof -
  let ?ed = "\<lparr>line = take (pos ed) (line ed) @ [c] @ drop (pos ed + 1) (line ed), pos = pos ed + 1\<rparr>"
  have 1: "type_text [c] (ed, st) = (?ed, emit [c] st)" using assms by (simp add: type_text_fits)
  have "type_text t (?ed, emit [c] st) = type_text (c # t) (ed, st)"
    using assms type_text_fits [of ?ed t "emit [c] st"] type_text_fits [of ed "c # t" st] by (simp add: emit_def add.commute)
  with 1 show ?thesis by simp
qed

lemma read_typable:
  assumes "list_all typable t" "pos ed + length t < kMaxLine" "length (line ed) = kMaxLine"
  shows "read_line names (t @ cs) (ed, st) = read_line names cs (type_text t (ed, st))"
  using assms
proof (induction t arbitrary: ed st)
  case Nil
  then show ?case by (cases ed) (simp add: type_text_fits emit_def)
next
  case (Cons c t)
  have c: "read_line names ((c # t) @ cs) (ed, st) = read_line names (t @ cs) (type_text [c] (ed, st))"
    using Cons.prems(1) by (auto simp: typable_def)
  obtain ed1 st1 where 1: "type_text [c] (ed, st) = (ed1, st1)" by fastforce
  then have "pos ed1 + length t < kMaxLine" "length (line ed1) = kMaxLine"
    using Cons.prems by (auto simp: type_text_fits)
  with Cons.IH [of ed1 st1] Cons.prems(1) have "read_line names (t @ cs) (ed1, st1) = read_line names cs (type_text t (ed1, st1))" by simp
  then show ?case using c 1 type_text_Cons [OF Cons.prems(2,3), of st] by simp
qed

text \<open>
  C11. What is typed is what runs. When arguments are typed in double quotes and entered, the shell runs the command
  that the first of them names, with exactly these arguments and on an otherwise unchanged state but for the
  history, which now ends with the typed line; then it reads on.
\<close>

theorem typed_command_runs:
  assumes "running st" "length (line ed) = 192" "length (in_quotes (name # args)) < 192" "length (name # args) \<le> 24"
    and "\<forall>w \<in> set (name # args). list_all typable w \<and> CHR 0x22 \<notin> set w" "find_command cmds name = Some f"
  shows "\<exists>ed' st'. run cmds (in_quotes (name # args) @ CHR 0x0D # rest) (ed, st) =
      (case f (name # args) st' of None \<Rightarrow> None | Some st'' \<Rightarrow> run cmds rest (ed', st'')) \<and>
    length (line ed') = 192 \<and> cwd st' = cwd st \<and> g_fs st' = g_fs st \<and> fs_heap st' = fs_heap st \<and>
    hist st' = history_reset_view (history_append (in_quotes (name # args)) (hist st))"
proof -
  let ?ws = "name # args"
  let ?t = "in_quotes ?ws" and ?ed = "ed\<lparr>pos := 0, line := (line ed)[0 := CHR 0x00]\<rparr>"
  have pl: "list_all typable ?t" using assms(5) by (auto simp: in_quotes_def list_all_iff typable_def)
  then have nul: "\<And>c. c \<in> set ?t \<Longrightarrow> c \<noteq> CHR 0x00" by (auto simp: list_all_iff typable_def)
  let ?ed1 = "\<lparr>line = ?t @ drop (length ?t) (line ?ed), pos = length ?t\<rparr>"
  have "read_line (map fst cmds) (?t @ CHR 0x0D # rest) (?ed, print_prompt st) =
      read_line (map fst cmds) (CHR 0x0D # rest) (type_text ?t (?ed, print_prompt st))"
    by (rule read_typable [OF pl]) (use assms in simp_all)
  then have rd: "read_line (map fst cmds) (?t @ CHR 0x0D # rest) (?ed, print_prompt st) =
      Some (rest, ?ed1, emit [CHR 0x0A] (emit ?t (print_prompt st)))"
    using assms(3) by (simp add: type_text_fits)
  let ?st = "(emit [CHR 0x0A] (emit ?t (print_prompt st)))\<lparr>hist := history_reset_view (history_append ?t (hist st))\<rparr>"
  let ?ed2 = "?ed1\<lparr>line := (line ?ed1)[length ?t := CHR 0x00]\<rparr>"
  let ?ed3 = "?ed2\<lparr>line := zeroed_line 0 ?t @ drop (length ?t) (line ?ed2)\<rparr>"
  have l: "line ?ed2 = ?t @ CHR 0x00 # drop (Suc (length ?t)) (line ?ed)" "length (line ?ed2) = 192"
    using assms(2,3) by (simp_all add: list_update_append Cons_nth_drop_Suc [symmetric] del: drop_update_cancel)
  then have ct: "c_text (line ?ed2) = ?t" unfolding c_text_def l(1) using nul by (subst takeWhile_append2) auto
  have pa: "parse_args 0 ?t = ?ws" by (rule quoted_args) (use assms(4,5) in auto)
  have ne: "?t \<noteq> []" by (simp add: in_quotes_def)
  have "run_line cmds (?ed1, emit [CHR 0x0A] (emit ?t (print_prompt st))) = map_option (Pair ?ed3) (f ?ws ?st)"
    using ct pa ne assms(6) by (simp add: run_line_def Let_def emit_def print_prompt_def)
  then have "run cmds (?t @ CHR 0x0D # rest) (ed, st) = (case f ?ws ?st of None \<Rightarrow> None | Some st'' \<Rightarrow> run cmds rest (?ed3, st''))"
    using rd assms(1) by (subst run.simps) (simp add: Let_def split: option.split)
  moreover have "length (line ?ed3) = 192" using l by (simp add: zeroed_line_length)
  ultimately show ?thesis
    by (intro exI [of _ ?ed3] exI [of _ ?st]) (simp add: emit_def print_prompt_def del: run.simps)
qed

subsection \<open>Completion loses what was typed\<close>

lemma token_start_word:
  "list_all (\<lambda>c. \<not> is_space c) t \<Longrightarrow> before = [] \<or> is_space (last before) \<Longrightarrow> token_start (before @ t @ r) (length before + length t) = length before"
proof (induction t arbitrary: r rule: rev_induct)
  case Nil
  then show ?case by (cases before rule: rev_cases) (auto simp: nth_append)
next
  case (snoc c t)
  have "(before @ (t @ [c]) @ r) ! (length before + length t) = c" by (simp add: nth_append)
  with snoc show ?case using snoc.IH [of "c # r"] by simp
qed

lemma last_slash_none: "slash \<notin> set t \<Longrightarrow> last_slash_in t i r = r"
  by (induction t arbitrary: i) auto

text \<open>
  Completion drops the beginning that was typed. When the beginning \<open>t\<close> of a file's name stands before the cursor
  and one file of the current directory matches, the token is replaced by the rest of the name alone, so
  after \<open>cat he\<close> and the tab key the line reads \<open>cat llo\<close> for a file \<open>hello\<close>.
\<close>

theorem completion_drops_typed:
  assumes "list_all (\<lambda>c. \<not> is_space c) t" "t \<noteq> []" "slash \<notin> set t" "CHR 0x00 \<notin> set t" "length t < 64"
    and "before = [] \<or> is_space (last before)" "length before < 128"
    and "line ed = before @ t @ CHR 0x00 # r" "pos ed = length before + length t" "g_fs st = Some fs" "length (cwd st) < 64"
    and "filter (\<lambda>e. text_starts_with (entry_name e) t) (snd (ramfs_readdir (Some (cwd st)) True 32 fs)) = [e]"
    and "\<not> entry_is_directory e" "length (entry_name e) < 64"
  shows "\<exists>ed' st'. complete_path_token (ed, st) = (ed', st') \<and> take (pos ed') (line ed') = before @ drop (length t) (entry_name e)"
proof -
  have s: "token_start (line ed) (pos ed) = length before" using token_start_word [OF assms(1,6), of "CHR 0x00 # r"] assms(8,9) by simp
  have tok: "take (pos ed - length before) (drop (length before) (line ed)) = t" using assms(8,9) by simp
  have "\<And>c. c \<in> set t \<Longrightarrow> c \<noteq> CHR 0x00" using assms(4) by auto
  then have vis: "c_text (drop (length before) (line ed)) = t" using assms(8) by (simp add: c_text_def takeWhile_append2)
  have parts: "token_parts (cwd st) t t None = Some (cwd st, t)" using assms(5,11) by (simp add: token_parts_def)
  let ?r = "drop (length t) (entry_name e)"
  have rep: "replace_token (length before) ?r ed =
      Some \<lparr>line = before @ ?r @ CHR 0x00 # drop (length before + length ?r + 1) (line ed), pos = length before + length ?r\<rparr>"
    using assms(7,8,14) by (simp add: replace_token_def)
  have "complete_path_token (ed, st) = (the (replace_token (length before) ?r ed), redraw_input (the (replace_token (length before) ?r ed)) st)"
    using s tok vis parts rep assms(2,3,9,10,12-14) by (simp add: complete_path_token_def Let_def last_slash_none)
  then show ?thesis using rep by simp
qed

subsection \<open>Examples\<close>

definition editor_empty :: editor where
  "editor_empty = \<lparr>line = replicate 192 CHR 0x00, pos = 0\<rparr>"

theorem typed_command_runs_witness:
  "\<exists>s. run [(''pwd'', cmd_pwd)] (in_quotes [''pwd''] @ [CHR 0x0D]) (editor_empty, shell_on ramfs_closed) = Some s"
proof -
  have "\<exists>ed' st'. run [(''pwd'', cmd_pwd)] (in_quotes [''pwd''] @ [CHR 0x0D]) (editor_empty, shell_on ramfs_closed) =
      (case cmd_pwd [''pwd''] st' of None \<Rightarrow> None | Some st'' \<Rightarrow> run [(''pwd'', cmd_pwd)] [] (ed', st''))"
    using typed_command_runs [of "shell_on ramfs_closed" editor_empty "''pwd''" "[]" "[(''pwd'', cmd_pwd)]" cmd_pwd "[]"]
    by (auto simp: shell_on_def editor_empty_def in_quotes_def typable_def simp del: run.simps)
  moreover have "\<exists>s. run cmds [] t = Some s" for cmds and t :: "editor \<times> mm shell"
    by (subst run.simps) (simp add: Let_def)
  ultimately show ?thesis by (auto simp: cmd_pwd_def simp del: run.simps)
qed

theorem completion_drops_typed_witness:
  "\<exists>ed' st'. complete_path_token (\<lparr>line = ''cat f'' @ replicate 187 CHR 0x00, pos = 5\<rparr>, shell_on ramfs_closed) = (ed', st') \<and>
     take (pos ed') (line ed') = ''cat ''"
proof -
  have l: "snd (ramfs_readdir (Some [slash]) True 32 ramfs_closed) = [\<lparr>entry_name = ''f'', entry_is_directory = False\<rparr>]"
    by code_simp
  have r: "replicate 187 CHR 0x00 = CHR 0x00 # replicate 186 CHR 0x00" by (simp add: numeral_eq_Suc)
  show ?thesis
    using completion_drops_typed [of "''f''" "''cat ''" "\<lparr>line = ''cat f'' @ replicate 187 CHR 0x00, pos = 5\<rparr>" "replicate 186 CHR 0x00"
        "shell_on ramfs_closed" ramfs_closed "\<lparr>entry_name = ''f'', entry_is_directory = False\<rparr>"] l r
    by (simp add: is_space_def shell_on_def)
qed

end
