(* ===== verification/Storage_Examples.thy ===== *)
theory Storage_Examples
  imports Storage_Restore
begin

text \<open>
  The theorems on storage at a concrete device: one disk in memory that is the primary device, no
  IDE disk, and a file system with one file.
\<close>

definition ram_hw :: "ram_disks hardware" where
  "ram_hw = \<lparr>hw_drivers = ram_drivers, nvme_init = Pair, ide_init = id, ide_present = Pair False,
     ide_read = (\<lambda>_. Pair None), ide_write = (\<lambda>_ _. Pair False)\<rparr>"

definition store_blocks :: blocks where
  "store_blocks = (no_blocks ram_disk)\<lparr>g_devices := [Some (Disk 1), None, None, None, None, None, None, None]\<rparr>"

definition heap_mapped :: mm where
  "heap_mapped = mm_fresh\<lparr>g_heap_limit := 0x200000, g_heap_mapped_end := 0x200000\<rparr>"

definition store :: "ram_disks storage" where
  "store = \<lparr>sb = new_superblock, g_storage_ready = True, st_blocks = store_blocks, st_dev = (\<lambda>_ _. []),
     st_fs = Some ramfs_data, st_heap = heap_mapped\<rparr>"

lemma store_sel [simp]:
  "sb store = new_superblock" "st_blocks store = store_blocks" "st_fs store = Some ramfs_data" "st_heap store = heap_mapped"
  "g_storage_ready store" "st_dev store = (\<lambda>_ _. [])"
  by (simp_all add: store_def)

lemma store_primary: "block_get_primary store_blocks = Some (Disk 1)"
  by (simp add: block_get_primary_def store_blocks_def)

lemma store_disk: "lies_on store_blocks (Disk n) n 0"
  by (rule on_disk) (simp_all add: store_blocks_def no_blocks_def ram_disk_def)

lemma ram_hw_ok: "lim \<le> 2 ^ 64 \<Longrightarrow> drivers_ok (all_drivers ram_hw) ram_sects 1 lim"
  using ram_drivers_ok [of lim 1] by (simp add: drivers_ok_def all_drivers_def ram_hw_def)

lemma store_on_primary: "st_blocks st = store_blocks \<Longrightarrow> on_primary ram_hw ram_sects 1 0 1000 st"
  using ram_hw_ok [of 1000] store_disk [of 1] by (simp add: on_primary_def store_primary)

lemma store_deref:
  "write_fn (deref store_blocks (Disk 1)) = Some (Driver 1)" "read_fn (deref store_blocks (Disk 1)) = Some (Driver 1)"
  by (simp_all add: store_blocks_def no_blocks_def ram_disk_def)

lemma call_driver:
  "call_write dr b (Driver n) lba buf c d = Some (drv_write dr n lba buf c d)"
  "call_read dr b (Driver n) lba c d = Some (drv_read dr n lba c d)"
  by (subst call_write.simps call_read.simps; simp)+

lemma ram_write:
  assumes "st_blocks st = store_blocks" "length buf = 512"
  shows "primary_write ram_hw lba buf st = Some (True, st\<lparr>st_dev := (st_dev st)(1 := put_sectors (ucast lba) 1 buf (ram_sects 1 (st_dev st)))\<rparr>)"
  using assms unfolding primary_write_def dev_write_def assms(1) store_primary option.case store_deref call_driver
  by (simp add: all_drivers_def ram_hw_def ram_drivers_def)

lemma ram_read:
  assumes "st_blocks st = store_blocks"
  shows "primary_read ram_hw lba c st = Some (Some (sector_run (ram_sects 1 (st_dev st)) (ucast lba) (unat c)), st)"
  unfolding primary_read_def dev_read_def assms store_primary option.case store_deref call_driver
  by (simp add: all_drivers_def ram_hw_def ram_drivers_def)

lemma one_sector: "0 < n \<Longrightarrow> n \<le> 512 \<Longrightarrow> (n + 511) div 512 = (1 :: u32)"
proof -
  assume n: "0 < n" "n \<le> 512"
  then have "0 < unat n" "unat n \<le> 512" by (simp_all add: word_less_nat_alt word_le_nat_alt)
  then have "unat ((n + 511) div 512) = 1" by (simp add: unat_div unat_word_ariths)
  then show ?thesis by (metis unat_1 unsigned_word_eqI)
qed

lemma store_write:
  assumes "st_blocks st = store_blocks" "sb st = new_superblock" "length bs = unat n" "0 < n" "n \<le> 512"
  obtains h st' where "storage_write ram_hw (Some bs) n st = Some (Some h, st')" "st_blocks st' = store_blocks"
    "st_view ram_sects 1 0 st' 2 = st_view ram_sects 1 0 st 2"
proof -
  have n: "0 < unat n" "unat n \<le> 512" "n \<noteq> 0" "\<not> 512 < n"
    using assms(4,5) by (auto simp: word_less_nat_alt word_le_nat_alt)
  have l: "length (sb_bytes (new_superblock\<lparr>next_free_lba := 11\<rparr>)) = 512"
    by (simp add: sb_bytes_length new_superblock_def)
  then obtain h st' where w: "storage_write ram_hw (Some bs) n st = Some (Some h, st')" "st_blocks st' = store_blocks"
    using assms(1-3) n one_sector [OF assms(4,5)]
    by (auto simp: storage_write_def ram_write Let_def storage_flush_def new_superblock_def DATA_START_LBA_def)
  moreover have "data_sectors bs = 1" using n assms(3) by (simp add: data_sectors_def)
  then have "st_view ram_sects 1 0 st' 2 = st_view ram_sects 1 0 st 2"
    using storage_write_facts [OF store_on_primary [OF assms(1)] _ _ w(1)] assms(2,3) n
    by (simp add: storage_ok_def new_superblock_def bad_superblock_def write_fits_def DATA_START_LBA_def)
  ultimately show ?thesis using that by blast
qed

lemma store_index:
  assumes "st_blocks st = store_blocks" "st_view ram_sects 1 0 st 2 = replicate 512 0" "length nm \<le> 400"
  obtains st' where "storage_add_index_entry ram_hw nm a b st = Some (True, st')"
proof -
  let ?buf = "replicate 512 0"
  have "sector_run (ram_sects 1 (st_dev st)) 2 1 = replicate 512 0" using assms(2) by (simp add: st_view_def dev_view_def)
  then have "storage_read_raw ram_hw INDEX_LBA 1 st = Some (Some ?buf, st)"
    using ram_read [OF assms(1), of INDEX_LBA 1] by (simp add: storage_read_raw_def INDEX_LBA_def)
  moreover have "length (index_put ?buf 4 nm a b) = 512"
    using index_put_correct [OF zeros_index_ok(1), of 4 nm a b] assms(3) by (simp add: le32_def index_ok_def)
  moreover have "\<not> 512 < 4 + (12 + of_nat (length nm) :: u32)"
    using assms(3) by (simp add: word_less_nat_alt unat_word_ariths)
  ultimately show ?thesis
    using ram_write [OF assms(1)] that by (simp add: storage_add_index_entry_def Let_def le32_def)
qed

lemma store_facts:
  "on_primary ram_hw ram_sects 1 0 1000 store" "storage_ok store" "length bs = 10 \<Longrightarrow> write_fits bs 10 1000 store"
  using store_on_primary [of store]
  by (simp_all add: storage_ok_def new_superblock_def bad_superblock_def write_fits_def data_sectors_def DATA_START_LBA_def)

theorem storage_write_read_roundtrip_witness:
  "\<exists>h st' res st''. storage_write ram_hw (Some (replicate 10 7)) 10 store = Some (Some h, st') \<and>
     storage_read ram_hw h st' = Some (res, st'') \<and> (res = None \<or> res = Some (replicate 10 7 @ replicate 502 0))"
proof -
  obtain h st' where w: "storage_write ram_hw (Some (replicate 10 7)) 10 store = Some (Some h, st')"
    by (rule store_write [of store "replicate 10 7" 10]) simp_all
  from storage_write_read_roundtrip [OF store_facts(1,2) store_facts(3) w] w show ?thesis
    by (auto simp: data_sectors_def)
qed

theorem storage_write_confined_witness:
  "\<exists>h st'. storage_write ram_hw (Some (replicate 10 7)) 10 store = Some (Some h, st') \<and>
     st_view ram_sects 1 0 st' 2 = st_view ram_sects 1 0 store 2"
proof -
  obtain h st' where w: "storage_write ram_hw (Some (replicate 10 7)) 10 store = Some (Some h, st')"
    by (rule store_write [of store "replicate 10 7" 10]) simp_all
  from storage_write_confined [OF store_facts(1,2) store_facts(3) w, of 2] w show ?thesis
    by (auto simp: new_superblock_def DATA_START_LBA_def)
qed

theorem storage_init_recovers_witness:
  "\<exists>h st' st''. storage_write ram_hw (Some (replicate 10 7)) 10 store = Some (Some h, st') \<and>
     storage_init ram_hw (store\<lparr>st_dev := st_dev st'\<rparr>) = Some st'' \<and> (sb st'' = sb st' \<or> magic (sb st'') = 0)"
proof -
  obtain h st' where w: "storage_write ram_hw (Some (replicate 10 7)) 10 store = Some (Some h, st')" "st_blocks st' = store_blocks"
    by (rule store_write [of store "replicate 10 7" 10]) simp_all
  from storage_init_recovers [OF store_facts(1,2) store_facts(3) w(1), of "store\<lparr>st_dev := st_dev st'\<rparr>"] w show ?thesis
    by auto
qed

subsection \<open>A snapshot\<close>

lemma data_file: "all_files ramfs_data = [(''/f'', [7, 9])]"
  by code_simp

lemma data_size: "length (encode_files (all_files ramfs_data)) = 12"
  by (simp add: data_file encode_files_def)

lemma data_left: "fd_left ramfs_data"
  by (simp add: fd_left_def ramfs_data_facts upt_rec)

theorem snapshot_complete_witness:
  "\<exists>fs'. compute [slash] ramfs_data 0 = Some (True, fs', 12) \<and> all_files ramfs_data = [(''/f'', [7, 9])]"
  using snapshot_complete [OF ramfs_data_facts(1) data_left] data_size data_file by auto

lemma heap_mapped_alloc:
  "\<exists>h p. heap_alloc 0 12 4096 heap_mapped = Some (h, p) \<and> p \<noteq> 0"
  "\<exists>h p. heap_alloc 0 144 4096 heap_mapped = Some (h, p) \<and> p \<noteq> 0"
  by (simp_all add: heap_alloc_def allocate_from_free_list_def free_list_walk.simps allocate_from_bump_def place_header_def
      heap_mapped_def mm_fresh_def heap_init_def heap_align_up_def Let_def map_heap_until.simps)

lemma zero_sector_index: "st_view ram_sects 1 0 store 2 = replicate 512 0"
  by (simp add: st_view_def dev_view_def ram_sects_def)

theorem snapshot_save_restores_witness:
  "\<exists>st' old start sectors. storage_snapshot_save ram_hw 0 (Some ''snap'') store = Some (True, st') \<and>
     index_entries (st_view ram_sects 1 0 st' 2) = old @ [(bytes_of ''snap'', start, sectors)] \<and>
     (\<exists>fs1 h1. restore_files (heap_new_bytes 0) (sector_run (st_view ram_sects 1 0 st') (ucast start) (unat sectors)) 0 (ramfs_reset, mm_mapped)
        = Some (fs1, h1) \<and> tree (fs_abs fs1) ''/f'' = Some (File [7, 9]))"
proof -
  have n: "length (encode_files (all_files ramfs_data)) < 2 ^ 32" by (simp add: data_size)
  have same: "same_fs ramfs_data ramfs_data" using ramfs_data_facts(1) by (simp add: same_fs_def)
  note root = ramfs_invD(3) [OF ramfs_data_facts(1)]
  from compute_entries_works [OF ramfs_data_facts(1) data_left same subset_refl, of "[slash]" 64 0] obtain fs1 where
    1: "compute [slash] ramfs_data 0 = Some (True, fs1, 12)" "same_fs ramfs_data fs1"
    using readdir_entries [OF ramfs_data_facts(1) root same] data_size by (auto simp: all_files_def compute_def)
  from fill_entries_works [OF ramfs_data_facts(1) data_left 1(2) subset_refl, of "[slash]" 64 "[]" 12] obtain fs2 where
    2: "fill 12 [slash] fs1 = Some (True, fs2, encode_files (all_files ramfs_data))"
    using readdir_entries [OF ramfs_data_facts(1) root 1(2)] data_size by (auto simp: all_files_def fill_def)
  obtain h p where h: "heap_alloc 0 12 4096 heap_mapped = Some (h, p)" "p \<noteq> 0" using heap_mapped_alloc by blast
  let ?st = "store\<lparr>st_fs := Some fs1, st_heap := h, st_fs := Some fs2\<rparr>"
  obtain hdl st1 where w: "storage_write ram_hw (Some (encode_files (all_files ramfs_data))) 12 ?st = Some (Some hdl, st1)"
    "st_blocks st1 = store_blocks" "st_view ram_sects 1 0 st1 2 = replicate 512 0"
    using store_write [of ?st "encode_files (all_files ramfs_data)" 12] data_size zero_sector_index by auto
  obtain st' where a: "storage_add_index_entry ram_hw ''snap'' (h_start_lba hdl) (h_sectors hdl) st1 = Some (True, st')"
    by (rule store_index [OF w(2,3), of "''snap''"]) simp_all
  have save: "storage_snapshot_save ram_hw 0 (Some ''snap'') store = Some (True, st')"
    using 1 2 h w(1) a data_size by (simp add: storage_snapshot_save_def Let_def)
  have "index_ok (st_view ram_sects 1 0 store 2)" by (simp only: zero_sector_index zeros_index_ok)
  moreover have "\<forall>p. tree (fs_abs ramfs_data) p \<noteq> None \<longrightarrow> CHR 0x00 \<notin> set p" by (simp add: ramfs_data_facts)
  moreover have "write_fits (encode_files (all_files ramfs_data)) (of_nat (length (encode_files (all_files ramfs_data)))) 1000 store"
    by (simp add: data_size write_fits_def data_sectors_def new_superblock_def DATA_START_LBA_def)
  moreover have "fits (tree (fs_abs ramfs_data)) (tree (fs_abs ramfs_reset))" by (simp add: fits_def ramfs_data_facts ramfs_reset_facts)
  moreover have "files (fs_abs ramfs_reset) 3 = None" by (simp add: ramfs_reset_facts)
  moreover have "\<forall>p c. tree (fs_abs ramfs_data) p = Some (File c) \<longrightarrow> length c \<le> unat (64 :: u32)" by (simp add: ramfs_data_facts)
  moreover have "plenty (heap_new_bytes 0) (length (all_files ramfs_data)) 64 mm_mapped" by (rule mm_mapped_plenty) (simp add: data_file)
  moreover have "tree (fs_abs ramfs_data) ''/f'' = Some (File [7, 9])" by (simp add: ramfs_data_facts)
  ultimately show ?thesis
    using snapshot_save_restores [OF store_facts(1,2) _ _ store_sel(3) ramfs_data_facts(1) data_left _ _ save
        ramfs_reset_facts(1), of 3 64 mm_mapped] save by fastforce
qed

end
