(* ===== verification/Shell_Package.thy ===== *)
theory Shell_Package
  imports Shell Storage_Examples
begin

text \<open>
  The package manager of the shell, \<open>src/kernel/shell.cpp\<close>: the built-in packages, their installation into the file system and
  onto the disk, and the command \<open>apt\<close>. It works on the state of \<open>Storage\<close>, which has the file system, the heap
  and the disk; the text it prints is returned beside it. \<open>None\<close> is a call that never returns.
\<close>

section \<open>Definitions\<close>

subsection \<open>The packages\<close>

record package_definition =
  pkg_name :: cstring
  pkg_version :: cstring
  pkg_summary :: cstring
  pkg_files :: "(cstring \<times> cstring) list"

definition out_line :: "cstring \<Rightarrow> cstring" where
  "out_line t = t @ [CHR 0x0A]"

definition kPkgDbDir :: cstring where
  "kPkgDbDir = ''/var/lib/wirth/pkgdb''"

definition kBaseSystemFiles :: "(cstring \<times> cstring) list" where
  "kBaseSystemFiles =
     [(''/etc/issue'', out_line ''wirth OS - package-managed shell build''),
      (''/etc/apt/sources.list.d/wirth.list'', out_line ''deb local://wirth stable main''),
      (''/usr/share/doc/wirth/base-system.txt'', out_line ''Base system metadata package.'')]"

definition kHomeLayoutFiles :: "(cstring \<times> cstring) list" where
  "kHomeLayoutFiles =
     [(''/root/README.txt'', out_line ''Root home workspace managed by wirth packages.''),
      (''/home/root/README.txt'', out_line ''Primary home directory for the root user.''),
      (''/home/root/Documents/README.txt'', out_line ''Documents folder seeded by the package manager.''),
      (''/home/root/Downloads/README.txt'', out_line ''Downloads folder seeded by the package manager.''),
      (''/home/root/Desktop/README.txt'', out_line ''Desktop folder seeded by the package manager.'')]"

definition kDevToolsFiles :: "(cstring \<times> cstring) list" where
  "kDevToolsFiles =
     [(''/usr/share/doc/wirth/devtools.txt'', out_line ''Developer tools and shell inspection helpers.''),
      (''/usr/share/doc/wirth/apt.txt'', out_line ''wirth apt-like package manager.''),
      (''/usr/share/doc/wirth/commands.txt'', out_line ''Shell command families and aliases.'')]"

definition kDemoDocsFiles :: "(cstring \<times> cstring) list" where
  "kDemoDocsFiles =
     [(''/opt/demo/hello.txt'', out_line ''Hello from a package-installed demo payload.''),
      (''/opt/demo/notes.txt'', out_line ''This package proves file installation works.'')]"

definition kPackages :: "package_definition list" where
  "kPackages =
     [\<lparr>pkg_name = ''base-system'', pkg_version = ''1.0'', pkg_summary = ''Base system metadata and apt bootstrap'', pkg_files = kBaseSystemFiles\<rparr>,
      \<lparr>pkg_name = ''home-layout'', pkg_version = ''1.0'', pkg_summary = ''Default home layout and starter docs'', pkg_files = kHomeLayoutFiles\<rparr>,
      \<lparr>pkg_name = ''devtools'', pkg_version = ''1.0'', pkg_summary = ''Developer docs and package inspection helpers'', pkg_files = kDevToolsFiles\<rparr>,
      \<lparr>pkg_name = ''demo-docs'', pkg_version = ''1.0'', pkg_summary = ''Demo payload installed under /opt'', pkg_files = kDemoDocsFiles\<rparr>]"

subsection \<open>The file system\<close>

text \<open>A test on the file system, which fails when there is none.\<close>

definition fs_test :: "(ramfs \<Rightarrow> ramfs \<times> bool) \<Rightarrow> 'd storage \<Rightarrow> 'd storage \<times> bool" where
  "fs_test f st =
     (case st_fs st of None \<Rightarrow> (st, False) | Some fs \<Rightarrow> (case f fs of (fs, b) \<Rightarrow> (st\<lparr>st_fs := Some fs\<rparr>, b)))"

definition put_text_file :: "u32 \<Rightarrow> cstring \<Rightarrow> cstring \<Rightarrow> 'd storage \<Rightarrow> ('d storage \<times> bool) option" where
  "put_text_file pt path t st =
     (case st_fs st of
        None \<Rightarrow> Some (st, False)
      | Some fs \<Rightarrow> map_option (\<lambda>(fs, h, ok). (st\<lparr>st_fs := Some fs, st_heap := h\<rparr>, ok))
          (write_file_text (heap_new_bytes pt) path t False (fs, st_heap st)))"

definition ensure_dir :: "cstring \<Rightarrow> 'd storage \<Rightarrow> 'd storage \<times> bool" where
  "ensure_dir path = fs_test (\<lambda>fs.
     case path_exists path fs of
       (fs, True) \<Rightarrow> (fs, True)
     | (fs, False) \<Rightarrow> (case ramfs_md (Some path) fs of (fs, r) \<Rightarrow> (fs, 0 \<le> r)))"

fun ensure_dirs :: "cstring list \<Rightarrow> 'd storage \<Rightarrow> 'd storage \<times> bool" where
  "ensure_dirs [] st = (st, True)"
| "ensure_dirs (d # ds) st = (case ensure_dir d st of (st, ok) \<Rightarrow> if ok then ensure_dirs ds st else (st, False))"

definition ensure_package_dirs :: "'d storage \<Rightarrow> 'd storage \<times> bool" where
  "ensure_package_dirs = ensure_dirs
     [''/var'', ''/var/lib'', ''/var/lib/wirth'', kPkgDbDir, ''/etc/apt'', ''/etc/apt/sources.list.d'', ''/usr'', ''/usr/share'',
      ''/usr/share/doc'', ''/usr/share/doc/wirth'', ''/opt'', ''/opt/demo'']"

definition find_package :: "cstring \<Rightarrow> package_definition option" where
  "find_package name = find (\<lambda>p. text_equal (pkg_name p) name) kPackages"

definition build_package_marker :: "cstring \<Rightarrow> nat \<Rightarrow> cstring" where
  "build_package_marker name out_size =
     (let out = copy_text kPkgDbDir out_size; len = text_len out in
      if out_size \<le> len + 2 then out
      else let out = (if out ! (len - 1) \<noteq> slash then out @ [slash] else out);
               out = out @ take (out_size - 1 - text_len out) name in
        if out_size \<le> length out + 12 then [] else out @ ''.installed'')"

definition package_installed :: "package_definition \<Rightarrow> 'd storage \<Rightarrow> 'd storage \<times> bool" where
  "package_installed pkg st =
     (let marker = build_package_marker (pkg_name pkg) 96 in
      if marker \<noteq> [] then fs_test (path_exists marker) st else (st, False))"

fun install_package_files :: "u32 \<Rightarrow> (cstring \<times> cstring) list \<Rightarrow> 'd storage \<Rightarrow> ('d storage \<times> bool) option" where
  "install_package_files pt [] st = Some (st, True)"
| "install_package_files pt ((path, body) # fls) st =
     put_text_file pt path body st \<bind> (\<lambda>(st, ok). if \<not> ok then Some (st, False) else install_package_files pt fls st)"

definition remove_package_files :: "package_definition \<Rightarrow> 'd storage \<Rightarrow> 'd storage" where
  "remove_package_files pkg st =
     (case st_fs st of
        None \<Rightarrow> st
      | Some fs \<Rightarrow>
          let fs = fold (\<lambda>(p, _) fs. fst (ramfs_unlink (Some p) fs)) (pkg_files pkg) fs;
              marker = build_package_marker (pkg_name pkg) 96;
              fs = (if marker \<noteq> [] then fst (ramfs_unlink (Some marker) fs) else fs) in
          st\<lparr>st_fs := Some fs\<rparr>)"

subsection \<open>Installation\<close>

definition payload_size :: "package_definition \<Rightarrow> u32" where
  "payload_size pkg = foldl (\<lambda>n (p, c). n + (8 + of_nat (text_len p) + of_nat (text_len c))) 0 (pkg_files pkg)"

fun payload_record :: "cstring \<times> cstring \<Rightarrow> u8 list" where
  "payload_record (path, body) =
     le32_bytes (of_nat (text_len path)) @ le32_bytes (of_nat (text_len body)) @ bytes_of path @ bytes_of body"

definition package_payload :: "package_definition \<Rightarrow> u8 list" where
  "package_payload pkg = concat (map payload_record (pkg_files pkg))"

text \<open>The part of \<open>install_package\<close> that keeps the package on the disk.\<close>

definition persist_package :: "'d hardware \<Rightarrow> u32 \<Rightarrow> package_definition \<Rightarrow> 'd storage \<Rightarrow> (bool \<times> 'd storage) option" where
  "persist_package hw pt pkg st =
     heap_alloc pt (payload_size pkg) 4096 (st_heap st) \<bind> (\<lambda>(h, ptr).
       let st = st\<lparr>st_heap := h\<rparr> in
       if ptr = 0 then Some (False, st)
       else storage_write hw (Some (package_payload pkg)) (payload_size pkg) st \<bind> (\<lambda>(hd, st).
         case hd of
           None \<Rightarrow> Some (False, st)
         | Some hdl \<Rightarrow> storage_add_index_entry hw (pkg_name pkg) (h_start_lba hdl) (h_sectors hdl) st))"

definition install_package :: "'d hardware \<Rightarrow> u32 \<Rightarrow> package_definition \<Rightarrow> 'd storage \<Rightarrow> ('d storage \<times> bool) option" where
  "install_package hw pt pkg st =
     (case ensure_package_dirs st of (st, ok) \<Rightarrow>
        if \<not> ok then Some (st, False)
        else case package_installed pkg st of (st, there) \<Rightarrow>
          if there then Some (st, True)
          else install_package_files pt (pkg_files pkg) st \<bind> (\<lambda>(st, ok).
            if \<not> ok then Some (remove_package_files pkg st, False)
            else persist_package hw pt pkg st \<bind> (\<lambda>(ok, st).
              if \<not> ok then Some (remove_package_files pkg st, False)
              else let marker = build_package_marker (pkg_name pkg) 96 in
                if marker = [] then Some (remove_package_files pkg st, False)
                else put_text_file pt marker (pkg_version pkg) st \<bind> (\<lambda>(st, ok).
                  if \<not> ok then Some (remove_package_files pkg st, False) else Some (st, True)))))"

subsection \<open>The command\<close>

definition package_match :: "package_definition \<Rightarrow> cstring option \<Rightarrow> bool" where
  "package_match pkg needle \<longleftrightarrow>
     (needle = None \<or> needle = Some [] \<or> contains_text (Some (pkg_name pkg)) needle \<or> contains_text (Some (pkg_summary pkg)) needle)"

definition suggest_package :: "cstring \<Rightarrow> cstring option" where
  "suggest_package name = suggest_from_list name (map pkg_name kPackages)"

definition print_package_info :: "package_definition \<Rightarrow> cstring" where
  "print_package_info pkg = out_line (pkg_name pkg @ '' '' @ pkg_version pkg @ '' - '' @ pkg_summary pkg)"

definition print_package_files :: "package_definition \<Rightarrow> cstring" where
  "print_package_files pkg = concat (map (\<lambda>(p, _). out_line (''  '' @ p)) (pkg_files pkg))"

definition print_package_status :: "package_definition \<Rightarrow> 'd storage \<Rightarrow> 'd storage \<times> cstring" where
  "print_package_status pkg st =
     (case package_installed pkg st of (st, b) \<Rightarrow> (st, (if b then ''installed '' else ''available '') @ print_package_info pkg))"

fun index_lines :: "package_definition list \<Rightarrow> 'd storage \<Rightarrow> 'd storage \<times> cstring" where
  "index_lines [] st = (st, [])"
| "index_lines (pkg # ps) st =
     (case package_installed pkg st of (st, b) \<Rightarrow>
        case index_lines ps st of (st, rest) \<Rightarrow>
          (st, out_line (pkg_name pkg @ ''|'' @ pkg_version pkg @ ''|'' @ (if b then ''installed'' else ''available'') @ ''|'' @ pkg_summary pkg) @ rest))"

definition write_package_index :: "u32 \<Rightarrow> 'd storage \<Rightarrow> ('d storage \<times> bool) option" where
  "write_package_index pt st =
     (case ensure_package_dirs st of (st, ok) \<Rightarrow>
        if \<not> ok then Some (st, False)
        else case index_lines kPackages st of (st, index) \<Rightarrow>
          put_text_file pt ''/var/lib/wirth/pkgdb/available.list'' (take 1023 index) st)"

fun print_package_catalog :: "package_definition list \<Rightarrow> bool \<Rightarrow> bool \<Rightarrow> cstring option \<Rightarrow> 'd storage \<Rightarrow> 'd storage \<times> cstring" where
  "print_package_catalog [] installed_only available_only needle st = (st, [])"
| "print_package_catalog (pkg # ps) installed_only available_only needle st =
     (case package_installed pkg st of (st, installed) \<Rightarrow>
        if installed_only \<and> \<not> installed \<or> available_only \<and> installed \<or> \<not> package_match pkg needle
        then print_package_catalog ps installed_only available_only needle st
        else case print_package_status pkg st of (st, t) \<Rightarrow>
          case print_package_catalog ps installed_only available_only needle st of (st, rest) \<Rightarrow> (st, t @ rest))"

definition package_not_found :: "cstring \<Rightarrow> cstring" where
  "package_not_found name =
     out_line (''apt: package not found: '' @ name) @
     (case suggest_package name of None \<Rightarrow> [] | Some s \<Rightarrow> out_line (''do you mean package: '' @ s @ ''?''))"

fun upgrade_packages :: "'d hardware \<Rightarrow> u32 \<Rightarrow> package_definition list \<Rightarrow> 'd storage \<Rightarrow> ('d storage \<times> cstring) option" where
  "upgrade_packages hw pt [] st = Some (st, [])"
| "upgrade_packages hw pt (pkg # ps) st =
     (case package_installed pkg st of (st, b) \<Rightarrow>
        if \<not> b then upgrade_packages hw pt ps st
        else install_package hw pt pkg (remove_package_files pkg st) \<bind> (\<lambda>(st, ok).
          upgrade_packages hw pt ps st \<bind> (\<lambda>(st, rest).
            Some (st, (if ok then [] else out_line (''apt: upgrade failed for '' @ pkg_name pkg)) @ rest))))"

fun change_packages :: "'d hardware \<Rightarrow> u32 \<Rightarrow> bool \<Rightarrow> cstring list \<Rightarrow> 'd storage \<Rightarrow> ('d storage \<times> cstring) option" where
  "change_packages hw pt install [] st = Some (st, [])"
| "change_packages hw pt install (name # names) st =
     (case find_package name of
        None \<Rightarrow> Some (st, package_not_found name)
      | Some pkg \<Rightarrow>
          if install then map_option (\<lambda>(st, ok). (st, out_line ((if ok then ''apt: installed '' else ''apt: install failed for '') @ pkg_name pkg)))
            (install_package hw pt pkg st)
          else Some (remove_package_files pkg st, out_line (''apt: removed '' @ pkg_name pkg)))
     \<bind> (\<lambda>(st, t). map_option (\<lambda>(st, rest). (st, t @ rest)) (change_packages hw pt install names st))"

definition cmd_pkg_show :: "cstring \<Rightarrow> cstring list \<Rightarrow> 'd storage \<Rightarrow> 'd storage \<times> cstring" where
  "cmd_pkg_show sub argv st =
     (if length argv < 3 then (st, out_line ''apt: package name required'')
      else case find_package (argv ! 2) of
        None \<Rightarrow> (st, package_not_found (argv ! 2))
      | Some pkg \<Rightarrow>
          case package_installed pkg st of (st, b) \<Rightarrow>
            (st, print_package_info pkg @ ''installed: '' @ out_line (if b then ''yes'' else ''no'') @
              (if text_equal sub ''policy'' then out_line (''candidate: '' @ pkg_version pkg)
               else if text_equal sub ''files'' then print_package_files pkg else [])))"

definition pkg_subcommands :: "cstring list" where
  "pkg_subcommands = [''update'', ''search'', ''list'', ''show'', ''info'', ''install'', ''remove'', ''files'', ''policy'', ''upgrade'']"

definition cmd_pkg :: "'d hardware \<Rightarrow> u32 \<Rightarrow> cstring list \<Rightarrow> 'd storage \<Rightarrow> ('d storage \<times> cstring) option" where
  "cmd_pkg hw pt argv st =
     (if length argv < 2 then Some (st, out_line ''usage: apt <update|search|list|show|install|remove|files|policy|upgrade>'')
      else let sub = argv ! 1; is = text_equal sub in
        if is ''update'' then
          map_option (\<lambda>(st, ok). (st, out_line (if ok then ''apt: package lists updated'' else ''apt: update failed''))) (write_package_index pt st)
        else if is ''search'' then
          Some (print_package_catalog kPackages False False (Some (if 3 \<le> length argv then argv ! 2 else [])) st)
        else if is ''list'' then
          let mode = (if 3 \<le> length argv then argv ! 2 else ''all'') in
          Some (if text_equal mode ''installed'' then print_package_catalog kPackages True False None st
            else if text_equal mode ''available'' then print_package_catalog kPackages False True None st
            else print_package_catalog kPackages False False None st)
        else if is ''show'' \<or> is ''info'' \<or> is ''policy'' \<or> is ''files'' then Some (cmd_pkg_show sub argv st)
        else if is ''upgrade'' then
          map_option (\<lambda>(st, t). (st, t @ out_line ''apt: upgrade complete'')) (upgrade_packages hw pt kPackages st)
        else if is ''install'' \<or> is ''remove'' then
          if length argv < 3 then
            Some (st, out_line (if is ''install'' then ''apt install <pkg> [pkg...]'' else ''apt remove <pkg> [pkg...]''))
          else change_packages hw pt (is ''install'') (drop 2 argv) st
        else Some (st, out_line (''apt: unknown subcommand: '' @ sub) @
          (case suggest_from_list sub pkg_subcommands of None \<Rightarrow> [] | Some s \<Rightarrow> out_line (''do you mean: '' @ s @ ''?''))))"

section \<open>Correctness\<close>

text \<open>Removing a package changes nothing but the file system; the disk and its index keep the package.\<close>

lemma remove_keeps_disk:
  "sb (remove_package_files pkg st) = sb st" "st_dev (remove_package_files pkg st) = st_dev st"
  "st_blocks (remove_package_files pkg st) = st_blocks st" "st_heap (remove_package_files pkg st) = st_heap st"
  by (cases "st_fs st"; simp add: remove_package_files_def Let_def)+








subsection \<open>After a restart\<close>




















end
