(* ===== verification/Efi_Image.thy ===== *)
theory Efi_Image
  imports Bytes RamFs
begin

text \<open>
  The builder of boot images, \<open>src/tools/efiImageBuilder/main.cpp\<close>: the layout of the FAT partition, its boot sector,
  allocation tables, directories and files, and the partition table of the disk. The image is the function from
  offsets to bytes, zero where nothing was written. The contents of the files that go into the image, and of the
  persistent partition that \<open>mkfs.ext4\<close> makes, are arguments; a file has less than \<open>2 ^ 32\<close> bytes, as the counters of the loops do.
\<close>

type_synonym disk_image = "nat \<Rightarrow> u8"

definition write_at :: "nat \<Rightarrow> u8 list \<Rightarrow> disk_image \<Rightarrow> disk_image" where
  "write_at off bs img = (\<lambda>i. if off \<le> i \<and> i < off + length bs then bs ! (i - off) else img i)"

abbreviation (input) kBytesPerSector :: u32 where "kBytesPerSector \<equiv> 512"
abbreviation (input) kSectorsPerCluster :: u32 where "kSectorsPerCluster \<equiv> 8"
abbreviation (input) kReservedSectors :: u32 where "kReservedSectors \<equiv> 1"
abbreviation (input) kNumFats :: u32 where "kNumFats \<equiv> 2"
abbreviation (input) kRootEntryCount :: u32 where "kRootEntryCount \<equiv> 512"
abbreviation (input) kBootPartitionMiB :: u32 where "kBootPartitionMiB \<equiv> 32"
abbreviation (input) kPartitionAlignmentSectors :: u64 where "kPartitionAlignmentSectors \<equiv> 2048"
abbreviation (input) kFatEoc :: u16 where "kFatEoc \<equiv> 0xFFFF"

record partition_entry =
  startSector :: u64
  sectorCount :: u64
  part_type :: u8
  bootable :: bool

record layout =
  totalSectors :: u32
  sectorsPerFat :: u32
  clusterCount :: u32
  firstFatSector :: u32
  rootDirSector :: u32
  firstDataSector :: u32

definition root_dir_sectors :: u32 where
  "root_dir_sectors = (kRootEntryCount * 32 + kBytesPerSector - 1) div kBytesPerSector"

fun layout_loop :: "nat \<Rightarrow> u32 \<Rightarrow> u32 \<Rightarrow> u32 \<Rightarrow> u32 \<times> u32" where
  "layout_loop 0 tot fatSectors clusters = (fatSectors, clusters)"
| "layout_loop (Suc i) tot fatSectors clusters =
     (let dataSectors = tot - kReservedSectors - root_dir_sectors - kNumFats * fatSectors;
          newClusters = dataSectors div kSectorsPerCluster;
          newFatSectors = ((newClusters + 2) * 2 + kBytesPerSector - 1) div kBytesPerSector in
      if newFatSectors = fatSectors then (fatSectors, newClusters) else layout_loop i tot newFatSectors newClusters)"

definition compute_layout :: "u32 \<Rightarrow> layout" where
  "compute_layout sizeMiB =
     (let tot = sizeMiB * 1024 * 1024 div kBytesPerSector in
      case layout_loop 16 tot 0 0 of (spf, clusters) \<Rightarrow>
        \<lparr>totalSectors = tot, sectorsPerFat = spf, clusterCount = clusters, firstFatSector = kReservedSectors,
         rootDirSector = kReservedSectors + kNumFats * spf,
         firstDataSector = kReservedSectors + kNumFats * spf + root_dir_sectors\<rparr>)"

definition cluster_to_sector :: "layout \<Rightarrow> u32 \<Rightarrow> u32" where
  "cluster_to_sector l cluster = firstDataSector l + (cluster - 2) * kSectorsPerCluster"

definition sector_offset :: "nat \<Rightarrow> u32 \<Rightarrow> nat" where
  "sector_offset base sector = base + unat sector * 512"

subsection \<open>Directory entries\<close>

definition set_dir_entry_name :: "cstring \<Rightarrow> cstring \<Rightarrow> u8 list" where
  "set_dir_entry_name name8 ext3 = take 8 (bytes_of name8 @ replicate 8 0x20) @ take 3 (bytes_of ext3 @ replicate 3 0x20)"

definition write_dir_entry :: "cstring \<Rightarrow> cstring \<Rightarrow> u8 \<Rightarrow> u16 \<Rightarrow> u32 \<Rightarrow> u8 list" where
  "write_dir_entry name8 ext3 attributes firstCluster fileSize =
     put_bytes 28 (le32_bytes fileSize) (put_bytes 26 (le16_bytes firstCluster)
       (put_bytes 11 [attributes] (set_dir_entry_name name8 ext3 @ replicate 21 0)))"

definition write_volume_label_entry :: "cstring \<Rightarrow> u8 list" where
  "write_volume_label_entry label = put_bytes 11 [0x08] (put_bytes 0 (bytes_of (take 11 label)) (replicate 32 0))"

definition write_dot_entry :: "bool \<Rightarrow> u16 \<Rightarrow> u8 list" where
  "write_dot_entry parent cluster =
     put_bytes 26 (le16_bytes cluster) (put_bytes 11 [0x10]
       (put_bytes 0 (if parent then [0x2E, 0x2E] else [0x2E]) (replicate 11 0x20 @ replicate 21 0)))"

subsection \<open>Boot sector and allocation tables\<close>

definition write_boot_sector :: "layout \<Rightarrow> nat \<Rightarrow> disk_image \<Rightarrow> disk_image" where
  "write_boot_sector l base img =
     (let sector = replicate 512 0;
          sector = put_bytes 0 [0xEB, 0x3C, 0x90] sector;
          sector = put_bytes 3 (bytes_of ''WIRTH'' @ [0]) sector;
          sector = put_bytes 11 (le16_bytes (ucast kBytesPerSector)) sector;
          sector = put_bytes 13 [ucast kSectorsPerCluster] sector;
          sector = put_bytes 14 (le16_bytes (ucast kReservedSectors)) sector;
          sector = put_bytes 16 [ucast kNumFats] sector;
          sector = put_bytes 17 (le16_bytes (ucast kRootEntryCount)) sector;
          sector = put_bytes 19 (le16_bytes (if totalSectors l < 65536 then ucast (totalSectors l) else 0)) sector;
          sector = put_bytes 21 [0xF8] sector;
          sector = put_bytes 22 (le16_bytes (ucast (sectorsPerFat l))) sector;
          sector = put_bytes 24 (le16_bytes 63) sector;
          sector = put_bytes 26 (le16_bytes 255) sector;
          sector = put_bytes 28 (le32_bytes 0) sector;
          sector = put_bytes 32 (le32_bytes (if 65536 \<le> totalSectors l then totalSectors l else 0)) sector;
          sector = put_bytes 36 [0x80, 0, 0x29] sector;
          sector = put_bytes 39 (le32_bytes 0x20260516) sector;
          sector = put_bytes 43 (bytes_of ''wirth ESP'' @ [0x20, 0x20]) sector;
          sector = put_bytes 54 (bytes_of ''FAT16   '') sector;
          sector = put_bytes 510 [0x55, 0xAA] sector in
      write_at base sector img)"

definition set_fat_entry :: "u16 \<Rightarrow> u16 \<Rightarrow> u8 list \<Rightarrow> u8 list" where
  "set_fat_entry cluster value fat =
     (let offset = unat cluster * 2 in
      if offset + 2 \<le> length fat then put_bytes offset (le16_bytes value) fat else fat)"

text \<open>\<open>write_chain start n fat\<close>: the loop from its place \<open>start + i\<close> on, with the clusters still to come.\<close>

fun write_chain :: "u32 \<Rightarrow> nat \<Rightarrow> u8 list \<Rightarrow> u8 list" where
  "write_chain start 0 fat = fat"
| "write_chain start (Suc n) fat =
     (let cur = ucast start; next_c = (if n \<noteq> 0 then cur + 1 else kFatEoc) in
      write_chain (start + 1) n (set_fat_entry cur next_c fat))"

definition fat_table :: "layout \<Rightarrow> u32 \<Rightarrow> u32 \<Rightarrow> u32 \<Rightarrow> u32 \<Rightarrow> u32 \<Rightarrow> bool \<Rightarrow> u8 list" where
  "fat_table l efi k32 k64 rootfs grub includeKernelFiles =
     (let fat = replicate (unat (sectorsPerFat l * kBytesPerSector)) 0;
          fat = set_fat_entry 1 kFatEoc (set_fat_entry 0 0xFFF8 fat);
          start = (if includeKernelFiles then 6 else 4);
          fat = set_fat_entry 5 kFatEoc (set_fat_entry 3 kFatEoc (set_fat_entry 2 kFatEoc fat));
          fat = (if includeKernelFiles then set_fat_entry 4 kFatEoc fat else fat);
          fat = write_chain start (unat efi) fat in
      if includeKernelFiles then
        write_chain (start + efi + k32 + k64 + rootfs) (unat grub)
          (write_chain (start + efi + k32 + k64) (unat rootfs)
            (write_chain (start + efi + k32) (unat k64) (write_chain (start + efi) (unat k32) fat)))
      else fat)"

definition write_fat_tables :: "layout \<Rightarrow> nat \<Rightarrow> u8 list \<Rightarrow> disk_image \<Rightarrow> disk_image" where
  "write_fat_tables l base fat img =
     write_at (sector_offset base (firstFatSector l + 1 * sectorsPerFat l)) fat
       (write_at (sector_offset base (firstFatSector l + 0 * sectorsPerFat l)) fat img)"

subsection \<open>Directories and files\<close>

definition write_root_directory :: "layout \<Rightarrow> nat \<Rightarrow> bool \<Rightarrow> disk_image \<Rightarrow> disk_image" where
  "write_root_directory l base includeKernelFiles img =
     (let root = replicate (unat (root_dir_sectors * kBytesPerSector)) 0;
          root = put_bytes 0 (write_volume_label_entry ''wirth ESP'') root;
          root = put_bytes 32 (write_dir_entry ''EFI'' [] 0x10 2 0) root;
          root = (if includeKernelFiles then put_bytes 64 (write_dir_entry ''BOOT'' [] 0x10 4 0) root else root) in
      write_at (sector_offset base (rootDirSector l)) root img)"

definition write_cluster :: "layout \<Rightarrow> nat \<Rightarrow> u32 \<Rightarrow> u8 list \<Rightarrow> disk_image \<Rightarrow> disk_image" where
  "write_cluster l base cluster bs img = write_at (sector_offset base (cluster_to_sector l cluster)) bs img"

definition cluster_of :: "u8 list list \<Rightarrow> u8 list" where
  "cluster_of entries = put_bytes 0 (concat entries) (replicate 4096 0)"

definition root_boot_cluster :: "u32 \<times> u32 \<Rightarrow> u32 \<times> u32 \<Rightarrow> u32 \<times> u32 \<Rightarrow> u8 list" where
  "root_boot_cluster k32 k64 rootfs =
     (let c = cluster_of [write_dot_entry False 4, write_dot_entry True 0,
            write_dir_entry ''KERNEL'' ''ELF'' 0x20 (ucast (fst k32)) (snd k32),
            write_dir_entry ''KERNEL64'' ''ELF'' 0x20 (ucast (fst k64)) (snd k64)];
          c = (if 0 < snd rootfs then put_bytes 128 (write_dir_entry ''ROOTFS'' ''SEED'' 0x20 (ucast (fst rootfs)) (snd rootfs)) c else c) in
      put_bytes 160 (write_dir_entry ''GRUB'' [] 0x10 5 0) c)"

text \<open>The files come as pairs of start cluster and size.\<close>

definition write_directory_clusters ::
  "layout \<Rightarrow> nat \<Rightarrow> u32 \<times> u32 \<Rightarrow> u32 \<times> u32 \<Rightarrow> u32 \<times> u32 \<Rightarrow> u32 \<times> u32 \<Rightarrow> u32 \<times> u32 \<Rightarrow> bool \<Rightarrow> disk_image \<Rightarrow> disk_image" where
  "write_directory_clusters l base efi k32 k64 rootfs grub includeKernelFiles img =
     (let img = write_cluster l base 2 (cluster_of [write_dot_entry False 2, write_dot_entry True 0, write_dir_entry ''BOOT'' [] 0x10 3 0]) img;
          img = write_cluster l base 3 (cluster_of [write_dot_entry False 3, write_dot_entry True 2,
            write_dir_entry ''BOOTX64'' ''EFI'' 0x20 (ucast (fst efi)) (snd efi)]) img in
      if \<not> includeKernelFiles then img
      else write_cluster l base 5 (cluster_of [write_dot_entry False 5, write_dot_entry True 4,
             write_dir_entry ''GRUB'' ''CFG'' 0x20 (ucast (fst grub)) (snd grub)])
           (write_cluster l base 4 (root_boot_cluster k32 k64 rootfs) img))"

function write_file_clusters :: "layout \<Rightarrow> nat \<Rightarrow> u8 list \<Rightarrow> u32 \<Rightarrow> disk_image \<Rightarrow> disk_image" where
  "write_file_clusters l base file cluster img =
     (if file = [] then img
      else write_file_clusters l base (drop 4096 file) (cluster + 1)
        (write_cluster l base cluster (take 4096 file @ replicate (4096 - length file) 0) img))"
  by pat_completeness auto
termination
  by (relation "measure (\<lambda>(_, _, file, _, _). length file)") auto

declare write_file_clusters.simps [simp del]

subsection \<open>The whole image\<close>

definition partition_bytes :: "partition_entry \<Rightarrow> u8 list" where
  "partition_bytes p =
     [if bootable p then 0x80 else 0, 0x01, 0x01, 0x00, part_type p, 0xFE, 0xFF, 0xFF]
     @ le32_bytes (ucast (startSector p)) @ le32_bytes (ucast (sectorCount p))"

definition write_mbr :: "partition_entry \<Rightarrow> partition_entry \<Rightarrow> disk_image \<Rightarrow> disk_image" where
  "write_mbr boot persistent img =
     write_at 0 (put_bytes 510 [0x55, 0xAA] (put_bytes 462 (partition_bytes persistent)
       (put_bytes 446 (partition_bytes boot) (replicate 512 0)))) img"

datatype image_error = Boot_Partition_Too_Small | Disk_Too_Small | Persistent_Size_Zero | Ext4_Size_Mismatch

definition clusters_for :: "u8 list \<Rightarrow> u32" where
  "clusters_for file = (of_nat (length file) + 4096 - 1) div 4096"

text \<open>Without kernels the image is the boot partition alone.\<close>

definition build_esp :: "u8 list \<Rightarrow> image_error + disk_image" where
  "build_esp efi =
     (let l = compute_layout kBootPartitionMiB in
      if clusterCount l < clusters_for efi + 0 + 0 + 0 + 3 then Inl Boot_Partition_Too_Small
      else Inr (write_file_clusters l 0 efi 4
        (write_directory_clusters l 0 (4, of_nat (length efi)) (0, 0) (0, 0) (0, 0) (0, 0) False
          (write_root_directory l 0 False
            (write_fat_tables l 0 (fat_table l (clusters_for efi) 0 0 0 0 False) (write_boot_sector l 0 (\<lambda>_. 0)))))))"

definition build_disk :: "u32 \<Rightarrow> u8 list \<Rightarrow> u8 list \<Rightarrow> u8 list \<Rightarrow> u8 list \<Rightarrow> u8 list \<Rightarrow> image_error + disk_image" where
  "build_disk sizeMiB efi kernel32 kernel64 grub ext4 =
     (let l = compute_layout kBootPartitionMiB;
          totalDisk = ucast sizeMiB * 1024 * 1024 div 512 :: u64;
          persistStart = kPartitionAlignmentSectors + ucast (totalSectors l);
          persistCount = (if persistStart < totalDisk then totalDisk - persistStart else 0);
          efiC = clusters_for efi; k32C = clusters_for kernel32; k64C = clusters_for kernel64; grubC = clusters_for grub in
      if clusterCount l < efiC + k32C + k64C + grubC + 4 then Inl Boot_Partition_Too_Small
      else if persistCount = 0 then Inl Disk_Too_Small
      else if (ucast (persistCount * 512 div (1024 * 1024)) :: u32) = 0 then Inl Persistent_Size_Zero
      else if length ext4 \<noteq> unat persistCount * 512 then Inl Ext4_Size_Mismatch
      else
        let base = unat kPartitionAlignmentSectors * 512; k32 = 6 + efiC; k64 = k32 + k32C; gr = k64 + k64C;
            img = write_mbr \<lparr>startSector = kPartitionAlignmentSectors, sectorCount = ucast (totalSectors l), part_type = 0xEF, bootable = True\<rparr>
              \<lparr>startSector = persistStart, sectorCount = persistCount, part_type = 0x83, bootable = False\<rparr> (\<lambda>_. 0);
            img = write_boot_sector l base img;
            img = write_fat_tables l base (fat_table l efiC k32C k64C 0 grubC True) img;
            img = write_root_directory l base True img;
            img = write_directory_clusters l base (6, of_nat (length efi)) (k32, of_nat (length kernel32)) (k64, of_nat (length kernel64))
              (0, 0) (gr, of_nat (length grub)) True img;
            img = write_file_clusters l base efi 6 img;
            img = write_file_clusters l base kernel32 (ucast (ucast k32 :: u16)) img;
            img = write_file_clusters l base kernel64 (ucast (ucast k64 :: u16)) img;
            img = write_file_clusters l base grub (ucast (ucast gr :: u16)) img in
        Inr (write_at (unat persistStart * 512) ext4 img))"

end
