(* ===== verification/Efifs.thy ===== *)
theory Efifs
  imports Efi_Image RamFs_Correct "HOL-Library.Monad_Syntax"
begin

text \<open>
  The reader of the EFI partition, \<open>src/kernel/efifs.cpp\<close>, and the image builder: the reader follows the chains that
  the builder wrote and gets back its files, but it never finds the partition of a whole disk. The two backends are arguments: a
  function from sector numbers to what reading that sector gives.
\<close>

type_synonym reader = "u64 \<Rightarrow> u8 list option"

section \<open>The reader\<close>

definition fat11_equal :: "u8 list \<Rightarrow> u8 list \<Rightarrow> bool" where
  "fat11_equal entry expected11 = list_all (\<lambda>i. entry ! i = expected11 ! i) [0..<11]"

text \<open>The names compared with, eleven bytes each, the second with the final zero byte of its ten characters.\<close>

definition boot_name :: "u8 list" where
  "boot_name = bytes_of ''BOOT       ''"

definition seed_name :: "u8 list" where
  "seed_name = bytes_of ''ROOTFSSEED'' @ [0]"

fun read_run :: "reader \<Rightarrow> u32 \<Rightarrow> nat \<Rightarrow> u8 list option" where
  "read_run rd sector 0 = Some []"
| "read_run rd sector (Suc n) =
     (case rd (ucast sector) of None \<Rightarrow> None | Some bs \<Rightarrow> map_option (\<lambda>r. bs @ r) (read_run rd (sector + 1) n))"

fun find_boot :: "u8 list \<Rightarrow> nat list \<Rightarrow> u16" where
  "find_boot root [] = 0"
| "find_boot root (i # is) =
     (let e = drop (i * 32) root in
      if e ! 0 = 0 then 0
      else if e ! 0 = 0xE5 then find_boot root is
      else if e ! 11 AND 0x10 = 0 then find_boot root is
      else if fat11_equal e boot_name then le16 e 26
      else find_boot root is)"

definition next_cluster :: "u8 list \<Rightarrow> u16 \<Rightarrow> u16" where
  "next_cluster fat c = (if length fat \<le> unat c * 2 + 1 then 0xFFFF else le16 fat (unat c * 2))"

fun scan_dir_sector :: "u8 list \<Rightarrow> nat list \<Rightarrow> (u16 \<times> u32) option" where
  "scan_dir_sector bs [] = None"
| "scan_dir_sector bs (i # is) =
     (let e = drop (i * 32) bs in
      if e ! 0 = 0 then None
      else if e ! 0 = 0xE5 then scan_dir_sector bs is
      else if e ! 11 AND 0x08 \<noteq> 0 then scan_dir_sector bs is
      else if fat11_equal e seed_name then Some (le16 e 26, le32 e 28)
      else scan_dir_sector bs is)"

text \<open>The sectors of one directory cluster; the outer \<open>None\<close> is a sector that cannot be read.\<close>

fun scan_dir_cluster :: "reader \<Rightarrow> u32 \<Rightarrow> nat \<Rightarrow> (u16 \<times> u32) option option" where
  "scan_dir_cluster rd sector 0 = Some None"
| "scan_dir_cluster rd sector (Suc n) =
     (case rd (ucast sector) of
        None \<Rightarrow> None
      | Some bs \<Rightarrow> (case scan_dir_sector bs [0..<16] of
          Some r \<Rightarrow> Some (Some r)
        | None \<Rightarrow> scan_dir_cluster rd (sector + 1) n))"

definition cluster_sector :: "u32 \<Rightarrow> u8 \<Rightarrow> u16 \<Rightarrow> u32" where
  "cluster_sector first_data spc c = first_data + (ucast c - 2) * ucast spc"

partial_function (option) find_seed :: "reader \<Rightarrow> u8 list \<Rightarrow> u32 \<Rightarrow> u8 \<Rightarrow> u16 \<Rightarrow> (u16 \<times> u32) option option option" where
  "find_seed rd fat first_data spc c =
     (if \<not> (2 \<le> c \<and> c < 0xFFF8) then Some (Some None)
      else case scan_dir_cluster rd (cluster_sector first_data spc c) (unat spc) of
        None \<Rightarrow> Some None
      | Some (Some r) \<Rightarrow> Some (Some (Some r))
      | Some None \<Rightarrow> if next_cluster fat c = 0xFFFF then Some (Some None) else find_seed rd fat first_data spc (next_cluster fat c))"

text \<open>The bytes of a file still to be read and the buffer filled so far.\<close>

fun read_cluster :: "reader \<Rightarrow> u32 \<Rightarrow> nat \<Rightarrow> u32 \<times> u8 list \<Rightarrow> (u32 \<times> u8 list) option" where
  "read_cluster rd sector 0 (remaining, buf) = Some (remaining, buf)"
| "read_cluster rd sector (Suc n) (remaining, buf) =
     (if remaining = 0 then Some (remaining, buf)
      else case rd (ucast sector) of
        None \<Rightarrow> None
      | Some bs \<Rightarrow>
          let to_copy = (if remaining < 512 then remaining else 512) in
          read_cluster rd (sector + 1) n (remaining - to_copy, buf @ take (unat to_copy) bs))"

partial_function (option) read_seed :: "reader \<Rightarrow> u8 list \<Rightarrow> u32 \<Rightarrow> u8 \<Rightarrow> u16 \<Rightarrow> u32 \<Rightarrow> u8 list \<Rightarrow> u8 list option option" where
  "read_seed rd fat first_data spc fc remaining buf =
     (if \<not> (2 \<le> fc \<and> fc < 0xFFF8 \<and> 0 < remaining) then Some (Some buf)
      else case read_cluster rd (cluster_sector first_data spc fc) (unat spc) (remaining, buf) of
        None \<Rightarrow> Some None
      | Some (remaining, buf) \<Rightarrow>
          if next_cluster fat fc = 0xFFFF then Some (Some buf)
          else read_seed rd fat first_data spc (next_cluster fat fc) remaining buf)"

definition is_blank :: "char \<Rightarrow> bool" where
  "is_blank c \<longleftrightarrow> c = CHR 0x20 \<or> c = CHR 0x09"

definition apply_line :: "cstring \<Rightarrow> ramfs \<Rightarrow> ramfs" where
  "apply_line l fs =
     (let cursor = dropWhile is_blank (takeWhile (\<lambda>c. c \<noteq> CHR 0x00) l) in
      if cursor = [] \<or> hd cursor = CHR ''#'' then fs
      else let cmd = takeWhile (\<lambda>c. \<not> is_blank c) cursor; arg = dropWhile is_blank (dropWhile (\<lambda>c. \<not> is_blank c) cursor) in
        if take 2 cmd = ''md'' then fst (ramfs_md (Some arg) fs) else fs)"

fun apply_seed :: "cstring \<Rightarrow> cstring \<Rightarrow> ramfs \<Rightarrow> ramfs" where
  "apply_seed [] linebuf fs = (if linebuf \<noteq> [] then apply_line linebuf fs else fs)"
| "apply_seed (ch # cs) linebuf fs =
     (if ch = CHR 0x0D \<or> ch = CHR 0x0A then apply_seed cs [] (if linebuf \<noteq> [] then apply_line linebuf fs else fs)
      else apply_seed cs (if length linebuf + 1 < 128 then linebuf @ [ch] else linebuf) fs)"

text \<open>The part after the choice of a backend, with the first sector already read.\<close>

definition load_from :: "reader \<Rightarrow> u8 list \<Rightarrow> ramfs option \<Rightarrow> (ramfs option \<times> bool) option" where
  "load_from rd sector g_fs =
     (let bps = le16 sector 11; spc = sector ! 13; reserved = le16 sector 14; fats = sector ! 16; entries = le16 sector 17; spf = le16 sector 22 in
      if bps \<noteq> 512 then Some (g_fs, False)
      else
        let root_sectors = (ucast entries * 32 + ucast bps - 1) div ucast bps :: u32;
            first_root = ucast reserved + ucast fats * ucast spf; first_data = first_root + root_sectors in
        if 16 * 1024 < root_sectors * ucast bps then Some (g_fs, False)
        else case read_run rd first_root (unat root_sectors) of
          None \<Rightarrow> Some (g_fs, False)
        | Some root \<Rightarrow>
            let c = find_boot root [0..<unat entries] in
            if c = 0 then Some (g_fs, False)
            else if 16 * 1024 < (ucast spf * ucast bps :: u32) then Some (g_fs, False)
            else case read_run rd (ucast reserved) (unat spf) of
              None \<Rightarrow> Some (g_fs, False)
            | Some fat \<Rightarrow>
                find_seed rd fat first_data spc c \<bind> (\<lambda>found.
                  case found of
                    Some (Some (start, file_size)) \<Rightarrow>
                      if start = 0 \<or> 32 * 1024 < file_size then Some (g_fs, False)
                      else read_seed rd fat first_data spc start file_size [] \<bind> (\<lambda>r.
                        case (r, g_fs) of
                          (Some file, Some fs) \<Rightarrow>
                            Some (Some (apply_seed (map (\<lambda>b. char_of (unat b)) (take (unat file_size) (file @ replicate (32 * 1024) 0))) [] fs), True)
                        | _ \<Rightarrow> Some (g_fs, False))
                  | _ \<Rightarrow> Some (g_fs, False)))"

text \<open>The USB device comes first, then the IDE disk; \<open>None\<close> is a device that is not there.\<close>

definition try_load_rootfs_seed_from_esp :: "reader option \<Rightarrow> reader option \<Rightarrow> ramfs option \<Rightarrow> (ramfs option \<times> bool) option" where
  "try_load_rootfs_seed_from_esp usb ide g_fs =
     (case usb \<bind> (\<lambda>rd. rd 0 \<bind> (\<lambda>s. Some (rd, s))) of
        Some (rd, sector) \<Rightarrow> load_from rd sector g_fs
      | None \<Rightarrow> (case ide \<bind> (\<lambda>rd. rd 0 \<bind> (\<lambda>s. Some (rd, s))) of
          Some (rd, sector) \<Rightarrow> load_from rd sector g_fs
        | None \<Rightarrow> Some (g_fs, False)))"

section \<open>The chains\<close>

text \<open>The file's chain in the table: one cluster after the other, then the end mark.\<close>

fun chained :: "u8 list \<Rightarrow> nat \<Rightarrow> nat \<Rightarrow> bool" where
  "chained fat c 0 = True"
| "chained fat c (Suc n) \<longleftrightarrow> next_cluster fat (of_nat c) = (if n = 0 then 0xFFFF else of_nat (Suc c)) \<and> chained fat (Suc c) n"

lemma set_entry_length [simp]: "length (set_fat_entry c v fat) = length fat"
  by (simp add: set_fat_entry_def Let_def)

lemma write_chain_length [simp]: "length (write_chain s n fat) = length fat"
  by (induction s n fat rule: write_chain.induct) (simp_all add: Let_def)

lemma next_set_entry:
  assumes "unat c * 2 + 2 \<le> length fat" "unat d * 2 + 2 \<le> length fat"
  shows "next_cluster (set_fat_entry c v fat) d = (if d = c then v else next_cluster fat d)"
proof (cases "d = c")
  case True
  then show ?thesis using assms by (simp add: next_cluster_def set_fat_entry_def Let_def le16_put mult.commute)
next
  case False
  then have "unat d < unat c \<or> unat c < unat d" by (metis linorder_cases word_unat_eq_iff)
  then have "unat d * 2 + 2 \<le> unat c * 2 \<or> unat c * 2 + 2 \<le> unat d * 2" by auto
  then show ?thesis using assms False by (auto simp: next_cluster_def set_fat_entry_def Let_def intro!: le16_put_other)
qed

lemma cluster_words:
  "c < 2 ^ 16 \<Longrightarrow> unat (of_nat c :: u16) = c" "c < 2 ^ 16 \<Longrightarrow> ucast (of_nat c :: u32) = (of_nat c :: u16)"
  "c < 2 ^ 16 \<Longrightarrow> ucast (of_nat c :: u16) = (of_nat c :: u32)"
  by (simp_all add: unsigned_of_nat take_bit_nat_eq_self)

lemma write_chain_before:
  assumes "unat d < c" "c + n \<le> 0xFFF8" "(c + n) * 2 \<le> length fat"
  shows "next_cluster (write_chain (of_nat c) n fat) d = next_cluster fat d"
  using assms
proof (induction n arbitrary: c fat)
  case (Suc n)
  have lt: "c < 2 ^ 16" using Suc.prems(2) by simp
  note c = cluster_words(1) [OF lt] and u = cluster_words(2) [OF lt]
  have ne: "d \<noteq> of_nat c" using Suc.prems(1) c by auto
  let ?fat = "set_fat_entry (of_nat c) (if n \<noteq> 0 then of_nat c + 1 else 0xFFFF) fat"
  have "next_cluster (write_chain (of_nat (Suc c)) n ?fat) d = next_cluster ?fat d"
    using Suc.prems by (intro Suc.IH) simp_all
  also have "\<dots> = next_cluster fat d" using next_set_entry [of "of_nat c" fat d] c ne Suc.prems by simp
  finally show ?case by (simp add: u Let_def add.commute)
qed simp

lemma write_chain_chained:
  "2 \<le> c \<Longrightarrow> c + n \<le> 0xFFF8 \<Longrightarrow> (c + n) * 2 \<le> length fat \<Longrightarrow> chained (write_chain (of_nat c) n fat) c n"
proof (induction n arbitrary: c fat)
  case (Suc n)
  have lt: "c < 2 ^ 16" using Suc.prems(2) by simp
  note c = cluster_words(1) [OF lt] and u = cluster_words(2) [OF lt]
  let ?v = "if n \<noteq> 0 then of_nat c + 1 else 0xFFFF :: u16"
  let ?fat = "set_fat_entry (of_nat c) ?v fat"
  have w: "write_chain (of_nat c) (Suc n) fat = write_chain (of_nat (Suc c)) n ?fat" by (simp add: u Let_def add.commute)
  have "next_cluster (write_chain (of_nat (Suc c)) n ?fat) (of_nat c) = next_cluster ?fat (of_nat c)"
    by (rule write_chain_before) (use c Suc.prems in simp_all)
  also have "\<dots> = ?v" using next_set_entry [of "of_nat c" fat "of_nat c"] c Suc.prems by simp
  finally have "next_cluster (write_chain (of_nat c) (Suc n) fat) (of_nat c) = ?v" unfolding w .
  moreover have "chained (write_chain (of_nat (Suc c)) n ?fat) (Suc c) n" by (rule Suc.IH) (use Suc.prems in simp_all)
  ultimately show ?case unfolding w by (simp add: add.commute del: write_chain.simps)
qed simp

section \<open>Reading a file back\<close>

definition sector_at :: "nat \<Rightarrow> disk_image \<Rightarrow> reader" where
  "sector_at base img lba = Some (map (\<lambda>i. img (base + unat lba * 512 + i)) [0..<512])"

text \<open>The sectors of a file from \<open>sector\<close> on.\<close>

definition holds_file :: "reader \<Rightarrow> nat \<Rightarrow> u8 list \<Rightarrow> bool" where
  "holds_file rd sector body \<longleftrightarrow> (\<forall>k. 512 * k < length body \<longrightarrow>
     (\<exists>bs. rd (of_nat (sector + k)) = Some bs \<and> take (min 512 (length body - 512 * k)) bs = take 512 (drop (512 * k) body)))"

lemma holds_tl: "holds_file rd sector body \<Longrightarrow> holds_file rd (sector + j) (drop (512 * j) body)"
proof (unfold holds_file_def, intro allI impI)
  fix k
  assume h: "\<forall>k. 512 * k < length body \<longrightarrow>
     (\<exists>bs. rd (of_nat (sector + k)) = Some bs \<and> take (min 512 (length body - 512 * k)) bs = take 512 (drop (512 * k) body))"
    and k: "512 * k < length (drop (512 * j) body)"
  then have "512 * (j + k) < length body" by simp
  with h obtain bs where "rd (of_nat (sector + (j + k))) = Some bs"
    "take (min 512 (length body - 512 * (j + k))) bs = take 512 (drop (512 * (j + k)) body)" by blast
  then show "\<exists>bs. rd (of_nat (sector + j + k)) = Some bs \<and>
      take (min 512 (length (drop (512 * j) body) - 512 * k)) bs = take 512 (drop (512 * k) (drop (512 * j) body))"
    by (auto simp: ac_simps add_mult_distrib2)
qed

lemma read_cluster_holds:
  assumes "holds_file rd s body" "s + n < 2 ^ 32" "length body < 2 ^ 32"
  shows "read_cluster rd (of_nat s) n (of_nat (length body), buf) =
    Some (of_nat (length body - 512 * n), buf @ take (512 * n) body)"
  using assms
proof (induction n arbitrary: s body buf)
  case (Suc n)
  show ?case
  proof (cases "body = []")
    case False
    have u: "unat (of_nat (length body) :: u32) = length body" using Suc.prems(3) by simp
    have nz: "(of_nat (length body) :: u32) \<noteq> 0" using False u by (metis length_0_conv unat_0)
    have us: "ucast (of_nat s :: u32) = (of_nat s :: u64)" using Suc.prems(2) by (simp add: unsigned_of_nat take_bit_nat_eq_self)
    obtain bs where bs: "rd (of_nat s) = Some bs" "take (min 512 (length body)) bs = take 512 body"
      using Suc.prems(1) False unfolding holds_file_def by (metis add_0_right drop0 length_greater_0_conv minus_nat.diff_0 mult_0_right)
    define t where "t = (if (of_nat (length body) :: u32) < 512 then of_nat (length body) else 512 :: u32)"
    have t: "unat t = min 512 (length body)" using u by (auto simp: t_def word_less_nat_alt min_def)
    have rem: "of_nat (length body) - t = of_nat (length (drop 512 body))"
      using t u Suc.prems(3) by (auto simp: t_def word_less_nat_alt of_nat_diff not_less split: if_splits)
    have "read_cluster rd (of_nat s) (Suc n) (of_nat (length body), buf) =
        read_cluster rd (of_nat (s + 1)) n (of_nat (length (drop 512 body)), buf @ take 512 body)"
      using nz us bs rem t by (simp add: Let_def t_def [symmetric] add.commute)
    also have "\<dots> = Some (of_nat (length (drop 512 body) - 512 * n), (buf @ take 512 body) @ take (512 * n) (drop 512 body))"
      by (rule Suc.IH) (use holds_tl [OF Suc.prems(1), of 1] Suc.prems(2,3) in simp_all)
    finally show ?thesis by (simp add: take_add [symmetric])
  qed simp
qed simp

lemma read_seed_chain:
  assumes "chained fat c n" "2 \<le> c" "c + n \<le> 0xFFF8" "holds_file rd (unat first_data + (c - 2) * 8) body"
    "4096 * n < length body + 4096" "length body \<le> 4096 * n" "unat first_data + (c + n) * 8 < 2 ^ 32" "length body < 2 ^ 32"
  shows "read_seed rd fat first_data 8 (of_nat c) (of_nat (length body)) buf = Some (Some (buf @ body))"
  using assms
proof (induction n arbitrary: c body buf)
  case 0
  then show ?case by (subst read_seed.simps) simp
next
  case (Suc n)
  note P = Suc.prems
  have lt: "c < 2 ^ 16" using P(3) by simp
  note c = cluster_words(1) [OF lt] and u = cluster_words(3) [OF lt]
  have pos: "0 < length body" using P(5) by (cases body) auto
  have nz: "(0 :: u32) < of_nat (length body)" using pos P(8) by (simp add: word_less_nat_alt)
  have guard: "2 \<le> (of_nat c :: u16)" "(of_nat c :: u16) < 0xFFF8" using c P(2,3) by (simp_all add: word_le_nat_alt word_less_nat_alt)
  have sec: "cluster_sector first_data 8 (of_nat c) = of_nat (unat first_data + (c - 2) * 8)"
    using P(2) u by (simp add: cluster_sector_def of_nat_diff)
  have rc: "read_cluster rd (cluster_sector first_data 8 (of_nat c)) 8 (of_nat (length body), buf) =
      Some (of_nat (length body - 4096), buf @ take 4096 body)"
    unfolding sec using read_cluster_holds [OF P(4), of 8 buf] P(2,7,8) by simp
  show ?case
  proof (cases "n = 0")
    case True
    then have "take 4096 body = body" "next_cluster fat (of_nat c) = 0xFFFF" using P(1,6) by simp_all
    then show ?thesis using guard nz rc by (subst read_seed.simps) simp
  next
    case False
    have nx: "next_cluster fat (of_nat c) = of_nat (Suc c)" and ch: "chained fat (Suc c) n" using P(1) False by simp_all
    have "Suc c < 2 ^ 16" using P(3) by simp
    then have "(of_nat (Suc c) :: u16) \<noteq> 0xFFFF" using cluster_words(1) [of "Suc c"] P(3) False by (auto simp: word_unat_eq_iff)
    then have "read_seed rd fat first_data 8 (of_nat c) (of_nat (length body)) buf =
        read_seed rd fat first_data 8 (of_nat (Suc c)) (of_nat (length (drop 4096 body))) (buf @ take 4096 body)"
      using guard nz rc nx by (subst read_seed.simps) simp
    moreover have e: "unat first_data + (c - 2) * 8 + 8 = unat first_data + (Suc c - 2) * 8" using P(2) by linarith
    have "read_seed rd fat first_data 8 (of_nat (Suc c)) (of_nat (length (drop 4096 body))) (buf @ take 4096 body) =
        Some (Some ((buf @ take 4096 body) @ drop 4096 body))"
    proof (rule Suc.IH [OF ch])
      show "holds_file rd (unat first_data + (Suc c - 2) * 8) (drop 4096 body)"
        using holds_tl [OF P(4), of 8] e by simp
    qed (use P False in auto)
    ultimately show ?thesis by simp
  qed
qed

subsection \<open>The clusters the builder wrote\<close>

lemma write_at_same: "k < length bs \<Longrightarrow> write_at off bs img (off + k) = bs ! k"
  by (simp add: write_at_def)

lemma write_at_other: "i < off \<or> off + length bs \<le> i \<Longrightarrow> write_at off bs img i = img i"
  by (auto simp: write_at_def)

lemma len32: "2 ^ LENGTH(32) = (2 ^ 32 :: nat)"
  by simp

lemma len64: "2 ^ LENGTH(64) = (2 ^ 64 :: nat)"
  by simp

lemma cluster_offset:
  assumes "2 \<le> c" "unat (firstDataSector l) + c * 8 < 2 ^ 32"
  shows "sector_offset base (cluster_to_sector l (of_nat c)) = base + (unat (firstDataSector l) + (c - 2) * 8) * 512"
proof -
  have "cluster_to_sector l (of_nat c) = of_nat (unat (firstDataSector l) + (c - 2) * 8)"
    using assms(1) by (simp add: cluster_to_sector_def of_nat_diff)
  moreover have "unat (firstDataSector l) + (c - 2) * 8 < 2 ^ 32" using assms by simp
  ultimately have "unat (cluster_to_sector l (of_nat c)) = unat (firstDataSector l) + (c - 2) * 8"
    by (simp only: unat_of_nat len32 mod_less)
  then show ?thesis by (simp only: sector_offset_def)
qed

text \<open>Writing a file leaves everything before its first cluster, and puts its bytes in a row from there.\<close>

lemma write_file_clusters_bytes:
  assumes "2 \<le> c" "unat (firstDataSector l) + c * 8 + length body < 2 ^ 32"
    and "p = base + (unat (firstDataSector l) + (c - 2) * 8) * 512"
  shows "(\<forall>i < p. write_file_clusters l base body (of_nat c) img i = img i) \<and>
    (\<forall>k < length body. write_file_clusters l base body (of_nat c) img (p + k) = body ! k)"
  using assms
proof (induction "length body" arbitrary: body c p img rule: less_induct)
  case less
  show ?case
  proof (cases "body = []")
    case True
    then show ?thesis by (simp add: write_file_clusters.simps)
  next
    case False
    let ?bs = "take 4096 body @ replicate (4096 - length body) 0" and ?r = "drop 4096 body"
    let ?img = "write_at p ?bs img" and ?c = "of_nat (Suc c) :: u32"
    have p': "p + 4096 = base + (unat (firstDataSector l) + (Suc c - 2) * 8) * 512"
      using less.prems(1,3) by (simp add: Suc_diff_le algebra_simps)
    have run: "write_file_clusters l base body (of_nat c) img = write_file_clusters l base ?r ?c ?img"
      using False less.prems cluster_offset [of c l base]
      by (subst write_file_clusters.simps) (simp add: write_cluster_def add.commute)
    have len: "length ?r < length body" using False by (cases body) auto
    have IH: "(\<forall>i < p + 4096. write_file_clusters l base ?r ?c ?img i = ?img i) \<and>
        (\<forall>k < length ?r. write_file_clusters l base ?r ?c ?img (p + 4096 + k) = ?r ! k)"
    proof (cases "?r = []")
      case True
      then show ?thesis by (simp add: write_file_clusters.simps)
    next
      case ne: False
      show ?thesis
      proof (rule less.hyps [OF len _ _ p'])
        show "unat (firstDataSector l) + Suc c * 8 + length ?r < 2 ^ 32" using less.prems(2) ne by simp
      qed (use less.prems in simp)
    qed
    have "write_file_clusters l base body (of_nat c) img i = img i" if "i < p" for i
      using IH that write_at_other [of i p ?bs img] unfolding run by simp
    moreover have "write_file_clusters l base body (of_nat c) img (p + k) = body ! k" if "k < length body" for k
    proof (cases "k < 4096")
      case True
      then have "?img (p + k) = body ! k" using that write_at_same [of k ?bs p img] by (simp add: nth_append)
      then show ?thesis using IH True unfolding run by simp
    next
      case ge: False
      then have "p + 4096 + (k - 4096) = p + k" "?r ! (k - 4096) = body ! k" "k - 4096 < length ?r" using that by auto
      then show ?thesis using IH unfolding run by metis
    qed
    ultimately show ?thesis by blast
  qed
qed

lemma write_file_holds:
  assumes "2 \<le> c" "unat (firstDataSector l) + c * 8 + length body < 2 ^ 32"
  shows "holds_file (sector_at base (write_file_clusters l base body (of_nat c) img)) (unat (firstDataSector l) + (c - 2) * 8) body"
proof (unfold holds_file_def, intro allI impI)
  fix k assume k: "512 * k < length body"
  let ?s = "unat (firstDataSector l) + (c - 2) * 8" and ?img = "write_file_clusters l base body (of_nat c) img"
  let ?bs = "map (\<lambda>i. ?img (base + (?s + k) * 512 + i)) [0..<512]"
  have "?s + k < 2 ^ 64" using assms(2) k by simp
  then have "unat (of_nat (?s + k) :: u64) = ?s + k" by (simp only: unat_of_nat len64 mod_less)
  then have "sector_at base ?img (of_nat (?s + k)) = Some ?bs" by (simp only: sector_at_def)
  moreover have "take (min 512 (length body - 512 * k)) ?bs = take 512 (drop (512 * k) body)"
  proof (rule nth_equalityI)
    fix i assume "i < length (take (min 512 (length body - 512 * k)) ?bs)"
    then have i: "i < 512" "512 * k + i < length body" by auto
    have "?img (base + ?s * 512 + (512 * k + i)) = body ! (512 * k + i)"
      using write_file_clusters_bytes [OF assms refl, of base img] i(2) by blast
    moreover have "base + (?s + k) * 512 + i = base + ?s * 512 + (512 * k + i)" by simp
    ultimately have "?img (base + (?s + k) * 512 + i) = body ! (512 * k + i)" by presburger
    then show "take (min 512 (length body - 512 * k)) ?bs ! i = take 512 (drop (512 * k) body) ! i" using i by simp
  qed simp
  ultimately show "\<exists>bs. sector_at base ?img (of_nat (?s + k)) = Some bs \<and>
      take (min 512 (length body - 512 * k)) bs = take 512 (drop (512 * k) body)" by blast
qed

text \<open>
  C25. The kernel reads back what the image builder wrote. For every file and start cluster within the volume, following the
  chain that \<open>write_chain\<close> entered in the table and reading the clusters that \<open>write_file_clusters\<close> wrote gives, after
  finitely many clusters, exactly the bytes of the file.
\<close>

theorem image_file_read_back:
  assumes "2 \<le> c" "c + n \<le> 0xFFF8" "(c + n) * 2 \<le> length fat" "4096 * n < length body + 4096" "length body \<le> 4096 * n"
    and "unat (firstDataSector l) + (c + n) * 8 + length body < 2 ^ 32"
  shows "read_seed (sector_at base (write_file_clusters l base body (of_nat c) img)) (write_chain (of_nat c) n fat)
    (firstDataSector l) 8 (of_nat c) (of_nat (length body)) [] = Some (Some body)"
proof -
  have fit: "unat (firstDataSector l) + c * 8 + length body < 2 ^ 32" using assms(6) by simp
  show ?thesis
    using read_seed_chain [OF write_chain_chained [OF assms(1-3)] assms(1,2) write_file_holds [OF assms(1) fit, of base img] assms(4,5), of "[]"]
      assms(6) by simp
qed

definition small_layout :: layout where
  "small_layout = compute_layout 32"

theorem image_file_read_back_witness:
  "read_seed (sector_at 0 (write_file_clusters small_layout 0 (replicate 5000 7) 6 (\<lambda>_. 0))) (write_chain 6 2 (replicate 64 0))
     (firstDataSector small_layout) 8 6 5000 [] = Some (Some (replicate 5000 7))"
proof -
  have "firstDataSector small_layout = 0x61" by (simp add: small_layout_def) code_simp
  then show ?thesis using image_file_read_back [of 6 2 "replicate 64 0" "replicate 5000 7" small_layout 0 "\<lambda>_. 0"] by simp
qed

section \<open>The seed of the root file system\<close>

lemma write_cluster_before: "i < base \<Longrightarrow> write_cluster l base c bs img i = img i"
  by (simp add: write_cluster_def write_at_other sector_offset_def)

lemma write_file_clusters_before: "i < base \<Longrightarrow> write_file_clusters l base body c img i = img i"
  by (induction l base body c img rule: write_file_clusters.induct)
    (subst write_file_clusters.simps, simp add: write_cluster_before)

lemma write_directory_clusters_before: "i < base \<Longrightarrow> write_directory_clusters l base e k32 k64 r g b img i = img i"
  by (simp add: write_directory_clusters_def Let_def write_cluster_before)

lemma write_tables_before:
  "i < base \<Longrightarrow> write_root_directory l base b img i = img i"
  "i < base \<Longrightarrow> write_fat_tables l base fat img i = img i"
  by (simp_all add: write_root_directory_def write_fat_tables_def Let_def write_at_other sector_offset_def)

lemma write_boot_sector_before: "i < base \<Longrightarrow> write_boot_sector l base img i = img i"
  unfolding write_boot_sector_def Let_def by (rule write_at_other) (rule disjI1)

lemmas writes_before = write_file_clusters_before write_directory_clusters_before write_tables_before write_boot_sector_before

lemma partition_bytes_length [simp]: "length (partition_bytes p) = 16"
  by (simp add: partition_bytes_def le32_bytes_def)

lemma write_mbr_no_bpb: "write_mbr p q img 11 = 0" "write_mbr p q img 12 = 0"
  by (simp_all add: write_mbr_def write_at_def put_bytes_def nth_append)

lemma build_disk_no_bpb:
  assumes "build_disk sizeMiB efi kernel32 kernel64 grub ext4 = Inr img" "i = 11 \<or> i = 12"
  shows "img i = 0"
proof -
  have "totalSectors (compute_layout kBootPartitionMiB) = 65536"
    by (simp add: compute_layout_def split: prod.split)
  then show ?thesis
    using assms by (auto simp: build_disk_def Let_def write_at_other writes_before write_mbr_no_bpb split: if_splits)
qed

text \<open>A directory whose chain comes back to its cluster and has no seed is searched for ever.\<close>

lemma find_seed_cycle:
  assumes "2 \<le> c" "c < 0xFFF8" "next_cluster fat c = c" "scan_dir_cluster rd (cluster_sector fd spc c) (unat spc) = Some None"
  shows "find_seed rd fat fd spc c = None"
proof (rule ccontr)
  assume "find_seed rd fat fd spc c \<noteq> None"
  then obtain y where y: "find_seed rd fat fd spc c = Some y" by blast
  have c: "c \<noteq> 0xFFFF" using assms(2) by auto
  show False
    by (rule find_seed.raw_induct [where P = "\<lambda>r f d n k x. \<not> (r = rd \<and> f = fat \<and> d = fd \<and> n = spc \<and> k = c)", OF _ y, simplified])
      (use assms c in \<open>auto split: if_splits option.splits\<close>)
qed

text \<open>
  C38. The kernel never loads the seed from a disk the builder made. The reader takes the first sector of the disk for
  the boot sector of the volume, but on a disk with kernels that sector is the partition table; whatever the files, the
  load fails and the file system stays as it was.
\<close>

theorem disk_seed_never_loaded:
  assumes "build_disk sizeMiB efi kernel32 kernel64 grub ext4 = Inr img"
  shows "try_load_rootfs_seed_from_esp (Some (sector_at 0 img)) ide fs = Some (fs, False)"
proof -
  have "le16 (map img [0..<512]) 11 = 0"
    using build_disk_no_bpb [OF assms] by (simp add: le16_def)
  then show ?thesis
    by (simp add: try_load_rootfs_seed_from_esp_def sector_at_def load_from_def)
qed

lemma boot_layout: "clusterCount (compute_layout kBootPartitionMiB) = 8179" "totalSectors (compute_layout kBootPartitionMiB) = 65536"
  by code_simp+

theorem disk_seed_never_loaded_witness:
  "\<exists>img. build_disk 34 [1] [2] [3] [4] (replicate 1048576 0) = Inr img \<and>
     try_load_rootfs_seed_from_esp (Some (sector_at 0 img)) None None = Some (None, False)"
proof -
  obtain img where "build_disk 34 [1] [2] [3] [4] (replicate 1048576 0) = Inr img"
    by (simp add: build_disk_def Let_def boot_layout clusters_for_def)
  then show ?thesis using disk_seed_never_loaded by blast
qed

text \<open>The name the reader looks for is not the one the builder writes: it has no blanks between name and extension.\<close>

lemma seed_name_not_written:
  "fat11_equal (write_dir_entry ''ROOTFS'' ''SEED'' a c n) seed_name = False"
proof -
  have "replicate 2 (32 :: u8) = [32, 32]" by (simp add: numeral_2_eq_2)
  then have "write_dir_entry ''ROOTFS'' ''SEED'' a c n ! 6 \<noteq> seed_name ! 6"
    by (simp add: write_dir_entry_def set_dir_entry_name_def seed_name_def put_bytes_def bytes_of_def)
  then show ?thesis by (auto simp: fat11_equal_def list_all_iff)
qed

end
