(* ===== verification/Console.thy ===== *)
theory Console
  imports Prelude
begin

text \<open>
  The keyboard's buffer, \<open>src/kernel/input/keyboard.cpp\<close>, and the text screen, \<open>src/kernel/video.cpp\<close>. The bytes that the
  keyboard controller has ready are an argument of \<open>drain_poll\<close>; the memory of the screen is a list of cells.
\<close>

section \<open>The keyboard\<close>

record keyboard =
  g_kbuf :: string
  g_head :: u32
  g_tail :: u32

definition knext :: "u32 \<Rightarrow> u32" where
  "knext i = (i + 1) AND (256 - 1)"

definition scancodes :: "(u8 \<times> char) list" where
  "scancodes =
     [(0x1C, CHR 0x0A), (0x0E, CHR 0x08), (0x39, CHR '' ''),
      (0x02, CHR ''1''), (0x03, CHR ''2''), (0x04, CHR ''3''), (0x05, CHR ''4''), (0x06, CHR ''5''), (0x07, CHR ''6''),
      (0x08, CHR ''7''), (0x09, CHR ''8''), (0x0A, CHR ''9''), (0x0B, CHR ''0''),
      (0x10, CHR ''q''), (0x11, CHR ''w''), (0x12, CHR ''e''), (0x13, CHR ''r''), (0x14, CHR ''t''), (0x15, CHR ''y''),
      (0x16, CHR ''u''), (0x17, CHR ''i''), (0x18, CHR ''o''), (0x19, CHR ''p''),
      (0x1E, CHR ''a''), (0x1F, CHR ''s''), (0x20, CHR ''d''), (0x21, CHR ''f''), (0x22, CHR ''g''), (0x23, CHR ''h''),
      (0x24, CHR ''j''), (0x25, CHR ''k''), (0x26, CHR ''l''),
      (0x2C, CHR ''z''), (0x2D, CHR ''x''), (0x2E, CHR ''c''), (0x2F, CHR ''v''), (0x30, CHR ''b''), (0x31, CHR ''n''),
      (0x32, CHR ''m''), (0x33, CHR '',''), (0x34, CHR ''.''), (0x35, CHR ''/''), (0x27, CHR '';''), (0x28, CHR 0x27),
      (0x29, CHR 0x60), (0x1A, CHR ''[''), (0x1B, CHR '']''), (0x2B, CHR 0x5C), (0x0C, CHR ''-''), (0x0D, CHR ''='')]"

definition enqueue_from_isr :: "u8 \<Rightarrow> keyboard \<Rightarrow> keyboard" where
  "enqueue_from_isr scancode k =
     (case map_of scancodes scancode of
        None \<Rightarrow> k
      | Some ch \<Rightarrow>
          let n = knext (g_head k) in
          if n = g_tail k then k else k\<lparr>g_kbuf := (g_kbuf k)[unat (g_head k) := ch], g_head := n\<rparr>)"

definition dequeue_char :: "keyboard \<Rightarrow> keyboard \<times> char option" where
  "dequeue_char k =
     (if g_head k = g_tail k then (k, None)
      else (k\<lparr>g_tail := knext (g_tail k)\<rparr>, Some (g_kbuf k ! unat (g_tail k))))"

fun drain_poll :: "u8 list \<Rightarrow> keyboard \<Rightarrow> keyboard" where
  "drain_poll [] k = k"
| "drain_poll (sc # scs) k = drain_poll scs (if sc AND 0x80 \<noteq> 0 then k else enqueue_from_isr sc k)"

text \<open>The characters that wait, the oldest first.\<close>

definition waiting :: "keyboard \<Rightarrow> nat" where
  "waiting k = (unat (g_head k) + 256 - unat (g_tail k)) mod 256"

definition kb_queue :: "keyboard \<Rightarrow> string" where
  "kb_queue k = map (\<lambda>i. g_kbuf k ! ((unat (g_tail k) + i) mod 256)) [0..<waiting k]"

definition keyboard_ok :: "keyboard \<Rightarrow> bool" where
  "keyboard_ok k \<longleftrightarrow> length (g_kbuf k) = 256 \<and> unat (g_head k) < 256 \<and> unat (g_tail k) < 256"

lemma unat_knext: "unat i < 256 \<Longrightarrow> unat (knext i) = (unat i + 1) mod 256"
proof -
  assume i: "unat i < 256"
  have "(i + 1) AND 255 = take_bit 8 (i + 1)" by (simp add: take_bit_eq_mask mask_numeral)
  moreover have "unat (i + 1) = unat i + 1" using i by (simp add: unat_word_ariths)
  ultimately show ?thesis by (simp add: knext_def take_bit_eq_mod unat_mod)
qed

lemma waiting_less: "waiting k < 256"
  by (simp add: waiting_def)

text \<open>The places of a ring of 256, and how far one is behind another.\<close>

lemma mod256: "x < 512 \<Longrightarrow> x mod 256 = (if x < 256 then x else x - (256 :: nat))"
  by (simp add: le_mod_geq)

lemma ring_cases:
  fixes h t :: nat
  assumes "h < 256" "t < 256"
  shows "(h + 256 - t) mod 256 = (if t \<le> h then h - t else h + 256 - t)"
  using assms mod256 [of "h + 256 - t"] by (auto split: if_splits)

lemma ring_next:
  fixes h t :: nat
  assumes "h < 256" "t < 256" "(h + 1) mod 256 \<noteq> t"
  shows "((h + 1) mod 256 + 256 - t) mod 256 = Suc ((h + 256 - t) mod 256)" "(t + (h + 256 - t) mod 256) mod 256 = h"
proof -
  have n: "(h + 1) mod 256 = (if h = 255 then 0 else h + 1)" using assms(1) mod256 [of "h + 1"] by auto
  then have "(h + 1) mod 256 < 256" by simp
  from ring_cases [OF this assms(2)] ring_cases [OF assms(1,2)] n assms
  show "((h + 1) mod 256 + 256 - t) mod 256 = Suc ((h + 256 - t) mod 256)" by (auto split: if_splits)
  show "(t + (h + 256 - t) mod 256) mod 256 = h"
    using assms mod256 [of "t + (h + 256 - t) mod 256"] ring_cases [OF assms(1,2)] by (auto split: if_splits)
qed

lemma ring_other:
  fixes h t i :: nat
  assumes "h < 256" "t < 256" "i < (h + 256 - t) mod 256"
  shows "(t + i) mod 256 \<noteq> h"
proof -
  have "i < 256" using assms(3) by (metis less_trans mod_less_divisor zero_less_numeral)
  then show ?thesis using assms mod256 [of "t + i"] ring_cases [OF assms(1,2)] by (auto split: if_splits)
qed

lemma ring_full:
  fixes h t :: nat
  assumes "h < 256" "t < 256"
  shows "(h + 1) mod 256 = t \<longleftrightarrow> (h + 256 - t) mod 256 = 255"
  using assms mod256 [of "h + 1"] ring_cases [OF assms] by (auto split: if_splits)

lemma ring_behind:
  fixes h t :: nat
  assumes "h < 256" "t < 256" "h \<noteq> t"
  shows "(h + 256 - (t + 1) mod 256) mod 256 = (h + 256 - t) mod 256 - 1" "0 < (h + 256 - t) mod 256"
proof -
  have n: "(t + 1) mod 256 = (if t = 255 then 0 else t + 1)" using assms(2) mod256 [of "t + 1"] by auto
  then have "(t + 1) mod 256 < 256" by simp
  from ring_cases [OF assms(1) this] ring_cases [OF assms(1,2)] n assms
  show "(h + 256 - (t + 1) mod 256) mod 256 = (h + 256 - t) mod 256 - 1" "0 < (h + 256 - t) mod 256" by (auto split: if_splits)
qed

lemma kb_queue_length [simp]: "length (kb_queue k) = waiting k"
  by (simp add: kb_queue_def)

lemma enqueue_queue:
  assumes "keyboard_ok k" "map_of scancodes sc = Some ch"
  shows "keyboard_ok (enqueue_from_isr sc k)"
    "kb_queue (enqueue_from_isr sc k) = (if waiting k < 255 then kb_queue k @ [ch] else kb_queue k)"
proof -
  let ?h = "unat (g_head k)" and ?t = "unat (g_tail k)"
  note b = assms(1) [unfolded keyboard_ok_def]
  have n: "unat (knext (g_head k)) = (?h + 1) mod 256" using b by (simp add: unat_knext)
  have full: "knext (g_head k) = g_tail k \<longleftrightarrow> waiting k = 255"
    using b n ring_full [of ?h ?t] by (metis unsigned_word_eqI waiting_def)
  show "keyboard_ok (enqueue_from_isr sc k)"
    using b n assms(2) by (simp add: enqueue_from_isr_def Let_def keyboard_ok_def)
  show "kb_queue (enqueue_from_isr sc k) = (if waiting k < 255 then kb_queue k @ [ch] else kb_queue k)"
  proof (cases "waiting k = 255")
    case True
    then show ?thesis using full assms(2) by (simp add: enqueue_from_isr_def Let_def)
  next
    case False
    let ?k = "k\<lparr>g_kbuf := (g_kbuf k)[?h := ch], g_head := knext (g_head k)\<rparr>"
    have ne: "(?h + 1) mod 256 \<noteq> ?t" using False b ring_full [of ?h ?t] by (simp add: waiting_def)
    have w: "waiting ?k = Suc (waiting k)" using ring_next(1) [OF _ _ ne] b n by (simp add: waiting_def)
    have old: "(g_kbuf k)[?h := ch] ! ((?t + i) mod 256) = g_kbuf k ! ((?t + i) mod 256)" if "i < waiting k" for i
      using ring_other [of ?h ?t i] that b by (metis nth_list_update_neq waiting_def)
    have "(?t + waiting k) mod 256 = ?h" using ring_next(2) [OF _ _ ne] b by (simp add: waiting_def)
    then have "kb_queue ?k = kb_queue k @ [ch]" unfolding kb_queue_def w using old b by simp
    moreover have "enqueue_from_isr sc k = ?k" using False full assms(2) by (simp add: enqueue_from_isr_def Let_def)
    ultimately show ?thesis using False waiting_less [of k] by simp
  qed
qed

lemma dequeue_queue:
  assumes "keyboard_ok k"
  shows "keyboard_ok (fst (dequeue_char k))" "kb_queue (fst (dequeue_char k)) = tl (kb_queue k)"
    "snd (dequeue_char k) = (if kb_queue k = [] then None else Some (hd (kb_queue k)))"
proof -
  let ?h = "unat (g_head k)" and ?t = "unat (g_tail k)" and ?k = "k\<lparr>g_tail := knext (g_tail k)\<rparr>"
  note b = assms(1) [unfolded keyboard_ok_def]
  have n: "unat (knext (g_tail k)) = (?t + 1) mod 256" using b by (simp add: unat_knext)
  show "keyboard_ok (fst (dequeue_char k))" using b n by (simp add: dequeue_char_def keyboard_ok_def)
  show "kb_queue (fst (dequeue_char k)) = tl (kb_queue k)" "snd (dequeue_char k) = (if kb_queue k = [] then None else Some (hd (kb_queue k)))"
  proof (atomize (full), cases "g_head k = g_tail k")
    case True
    then have "kb_queue k = []" using b by (simp add: kb_queue_def waiting_def)
    then show "kb_queue (fst (dequeue_char k)) = tl (kb_queue k) \<and> snd (dequeue_char k) = (if kb_queue k = [] then None else Some (hd (kb_queue k)))"
      using True by (simp add: dequeue_char_def)
  next
    case False
    then have "?h \<noteq> ?t" by (metis unsigned_word_eqI)
    then obtain m where m: "waiting k = Suc m" "waiting ?k = m"
      using ring_behind [of ?h ?t] b n by (cases "waiting k") (auto simp: waiting_def)
    have "[0..<Suc m] = 0 # map Suc [0..<m]" by (simp add: upt_conv_Cons map_Suc_upt)
    then have q: "kb_queue k = g_kbuf k ! ?t # map (\<lambda>i. g_kbuf k ! ((?t + Suc i) mod 256)) [0..<m]"
      using b unfolding kb_queue_def m by (simp add: comp_def)
    have "kb_queue ?k = map (\<lambda>i. g_kbuf k ! ((?t + Suc i) mod 256)) [0..<m]"
      unfolding kb_queue_def m by (simp add: n mod_add_left_eq)
    then show "kb_queue (fst (dequeue_char k)) = tl (kb_queue k) \<and> snd (dequeue_char k) = (if kb_queue k = [] then None else Some (hd (kb_queue k)))"
      using False q by (simp add: dequeue_char_def)
  qed
qed

text \<open>
  C36. The keyboard buffer is a queue of at most 255 characters. A key that has a character appends it, or is dropped when the
  queue is full; reading takes the oldest character; the buffer stays well formed.
\<close>

theorem keyboard_refines_queue:
  assumes "keyboard_ok k"
  shows "keyboard_ok (enqueue_from_isr sc k) \<and>
    kb_queue (enqueue_from_isr sc k) =
      (case map_of scancodes sc of None \<Rightarrow> kb_queue k | Some ch \<Rightarrow> if length (kb_queue k) < 255 then kb_queue k @ [ch] else kb_queue k) \<and>
    keyboard_ok (fst (dequeue_char k)) \<and> kb_queue (fst (dequeue_char k)) = tl (kb_queue k) \<and>
    snd (dequeue_char k) = (if kb_queue k = [] then None else Some (hd (kb_queue k)))"
proof (cases "map_of scancodes sc")
  case None
  then have "enqueue_from_isr sc k = k" by (simp add: enqueue_from_isr_def)
  then show ?thesis using None assms dequeue_queue [OF assms] by simp
next
  case (Some ch)
  then show ?thesis using enqueue_queue [OF assms Some] dequeue_queue [OF assms] by simp
qed

theorem keyboard_refines_queue_witness:
  "kb_queue (enqueue_from_isr 0x1E \<lparr>g_kbuf = replicate 256 CHR 0x00, g_head = 255, g_tail = 255\<rparr>) = [CHR ''a'']"
  using keyboard_refines_queue [of "\<lparr>g_kbuf = replicate 256 CHR 0x00, g_head = 255, g_tail = 255\<rparr>" "0x1E"]
  by (simp add: keyboard_ok_def kb_queue_def waiting_def scancodes_def)

section \<open>The screen\<close>

record screen =
  vga :: "u16 list"
  g_row :: nat
  g_col :: nat

definition blank :: u16 where
  "blank = 0x0720"

definition cell :: "char \<Rightarrow> u16" where
  "cell ch = of_nat (of_char ch) OR push_bit 8 0x07"

definition put_cell :: "u16 \<Rightarrow> screen \<Rightarrow> screen" where
  "put_cell v s = s\<lparr>vga := (vga s)[g_row s * 80 + g_col s := v]\<rparr>"

text \<open>The cells in the order of the loops: row after row moves up, then the last row is cleared.\<close>

definition move_up :: "u16 list \<Rightarrow> u16 list" where
  "move_up v = fold (\<lambda>i v. v[i := blank]) [1920..<2000] (fold (\<lambda>i v. v[i - 80 := v ! i]) [80..<2000] v)"

definition scroll_up :: "screen \<Rightarrow> screen" where
  "scroll_up s = (let s = s\<lparr>vga := move_up (vga s)\<rparr> in if 0 < g_row s then s\<lparr>g_row := 24\<rparr> else s)"

definition video_clear :: "screen \<Rightarrow> screen" where
  "video_clear s = s\<lparr>vga := fold (\<lambda>i v. v[i := blank]) [0..<2000] (vga s), g_row := 0, g_col := 0\<rparr>"

definition next_row :: "screen \<Rightarrow> screen" where
  "next_row s = (let s = s\<lparr>g_col := 0, g_row := g_row s + 1\<rparr> in if 25 \<le> g_row s then scroll_up s else s)"

definition video_write_char :: "char \<Rightarrow> screen \<Rightarrow> screen" where
  "video_write_char ch s =
     (if ch = CHR 0x0D then s\<lparr>g_col := 0\<rparr>
      else if ch = CHR 0x0A then next_row s
      else if ch = CHR 0x08 then
        (if 0 < g_col s then put_cell blank (s\<lparr>g_col := g_col s - 1\<rparr>) else s)
      else if of_char ch < (32 :: nat) \<or> (126 :: nat) < of_char ch then s
      else let s = put_cell (cell ch) s; s = s\<lparr>g_col := g_col s + 1\<rparr> in
        if 80 \<le> g_col s then next_row s else s)"

definition clear_row :: "screen \<Rightarrow> screen" where
  "clear_row s = s\<lparr>vga := fold (\<lambda>c v. v[g_row s * 80 + c := blank]) [0..<80] (vga s), g_col := 0\<rparr>"

definition vt_digit :: "char \<Rightarrow> bool" where
  "vt_digit c \<longleftrightarrow> 48 \<le> (of_char c :: nat) \<and> (of_char c :: nat) \<le> 57"

definition vt_number :: "string \<Rightarrow> nat" where
  "vt_number ds = foldl (\<lambda>n d. n * 10 + (of_char d - 48)) 0 ds"

text \<open>An escape sequence after its bracket: what it does and what follows it; \<open>None\<close> for one that is not known.\<close>

definition escape :: "string \<Rightarrow> ((screen \<Rightarrow> screen) \<times> string) option" where
  "escape cs =
     (let ds = takeWhile vt_digit cs; two = (ds \<noteq> [] \<and> vt_number ds = 2) in
      case dropWhile vt_digit cs of
        [] \<Rightarrow> None
      | cmd # rest \<Rightarrow>
          if cmd = CHR ''J'' \<and> two then Some (video_clear, rest)
          else if cmd = CHR ''K'' \<and> two then Some (clear_row, rest)
          else if cmd = CHR ''H'' then Some (\<lambda>s. s\<lparr>g_row := 0, g_col := 0\<rparr>, rest)
          else None)"

lemma escape_shorter: "escape cs = Some (f, rest) \<Longrightarrow> length rest < length cs"
  using length_dropWhile_le [of vt_digit cs] by (auto simp: escape_def Let_def split: list.splits if_splits)

function video_write :: "string \<Rightarrow> screen \<Rightarrow> screen" where
  "video_write [] s = s"
| "video_write (c # cs) s =
     (if c = CHR 0x1B \<and> cs \<noteq> [] \<and> hd cs = CHR ''['' then
        (case escape (tl cs) of None \<Rightarrow> video_write cs s | Some (f, rest) \<Rightarrow> video_write rest (f s))
      else video_write cs (video_write_char c s))"
  by pat_completeness auto
termination
  by (relation "measure (length \<circ> fst)") (auto dest: escape_shorter)

definition screen_ok :: "screen \<Rightarrow> bool" where
  "screen_ok s \<longleftrightarrow> length (vga s) = 2000 \<and> g_row s < 25 \<and> g_col s < 80"

lemma fold_length: "(\<And>i v. length (f i v) = length v) \<Longrightarrow> length (fold f is v) = length v"
  by (induction "is" arbitrary: v) auto

lemma screen_loops_length [simp]: "length (move_up v) = length v" "length (fold (\<lambda>i v. v[g i := x]) is v) = length v"
  unfolding move_up_def by (simp_all only: fold_length length_list_update)

lemma next_row_ok: "length (vga s) = 2000 \<Longrightarrow> g_row s < 25 \<Longrightarrow> screen_ok (next_row s)"
  by (simp add: next_row_def scroll_up_def Let_def screen_ok_def)

lemma video_write_char_ok: "screen_ok s \<Longrightarrow> screen_ok (video_write_char ch s)"
  using next_row_ok [of s] next_row_ok [of "put_cell (cell ch) s\<lparr>g_col := g_col s + 1\<rparr>"]
  by (auto simp: video_write_char_def screen_ok_def put_cell_def Let_def)

lemma escape_ok: "escape cs = Some (f, rest) \<Longrightarrow> screen_ok s \<Longrightarrow> screen_ok (f s)"
  by (auto simp: escape_def Let_def screen_ok_def video_clear_def clear_row_def split: list.splits if_splits)

text \<open>Whatever is written, the cursor stays on the screen, and with it every cell that is written.\<close>

lemma video_write_ok: "screen_ok s \<Longrightarrow> screen_ok (video_write t s)"
  by (induction t s rule: video_write.induct) (auto simp: video_write_char_ok escape_ok split: option.splits)

end
