(* ===== verification/Spec2Isabelle.thy ===== *)
theory Spec2Isabelle
  imports Syscall_Correct Toolchain Shell_Line Shell_Package Efifs Console
begin

text \<open>
  A verification development of the wirth kernel and its tools.

  \<^bold>\<open>Parts of the program.\<close> The kernel boots from a multiboot2 information structure, builds
  its physical memory manager from the memory map in it, runs a heap on top of that,
  and offers a file system in memory, a scheduler and system calls to programs. Block
  devices and partitions lie below the on-disk file systems. The tools assemble, link and
  run programs for a small virtual machine.

  \<^bold>\<open>Theories.\<close>
  \<^item> \<open>Prelude\<close>: machine word types, searches over fixed tables, arithmetic of aligned words.
  \<^item> \<open>Memory\<close>: byte memory with little-endian accesses.
  \<^item> \<open>Multiboot2\<close>: \<open>src/kernel/boot/multiboot2.cpp\<close>.
  \<^item> \<open>Pmm\<close>: \<open>src/kernel/mm/pmm.cpp\<close>.
  \<^item> \<open>Vmm\<close>: \<open>src/kernel/mm/vmm.cpp\<close>, and the drivers' loop that maps device registers.
  \<^item> \<open>Heap\<close>: \<open>src/kernel/mm/heap.cpp\<close>, the free list in memory; \<open>Heap_Alloc\<close>: the heap's invariant,
    allocation and release.
  \<^item> \<open>RamFs\<close>: \<open>src/kernel/fs/ramfs.cpp\<close>; \<open>RamFs_Inv\<close>: its invariant and abstract state; \<open>RamFs_Ops\<close>: each
    operation against its specification; \<open>Heap_Bytes\<close>: the buffers it gets from the kernel heap; \<open>RamFs_Correct\<close>: initial contents, listings, sequences of calls.
  \<^item> \<open>Scheduler\<close>: \<open>src/kernel/task/scheduler.cpp\<close>; \<open>Scheduler_Inv\<close>: its invariant; \<open>Scheduler_Correct\<close>: each
    operation keeps it; \<open>Scheduler_Run\<close>: interleavings of interrupts and calls, fairness, stacks.
  \<^item> \<open>Syscall\<close>: \<open>src/kernel/syscall/syscall.cpp\<close> and \<open>src/kernel/user_safety.cpp\<close>, on the file system, the scheduler
    and the heap together; \<open>Syscall_Correct\<close>: what a program can change, and the joint invariant.
  \<^item> \<open>Bytes\<close>: little-endian values in byte lists and runs of sectors.
  \<^item> \<open>Block\<close>: \<open>src/kernel/block.cpp\<close> and \<open>src/kernel/block_partition.cpp\<close>; \<open>Block_Correct\<close>: where a device lies on a
    disk, the scan of all devices, writes through partitions.
  \<^item> \<open>Storage\<close>: the first half of \<open>src/kernel/storage.cpp\<close>, superblock, data area and index;
    \<open>Storage_Package\<close>: its second half, restoring packages and saving snapshots; \<open>Storage_Correct\<close>, \<open>Storage_Index\<close>,
    \<open>Storage_Snapshot\<close>: the data area, the index, and the encoding of a snapshot; \<open>Storage_Restore\<close>: the tree that
    restoring makes; \<open>Storage_Examples\<close>: a disk in memory.
  \<^item> \<open>Shell_Text\<close>, \<open>Shell_History\<close>, \<open>Shell\<close>, \<open>Shell_Commands\<close>, \<open>Shell_Line\<close>: \<open>src/kernel/shell.cpp\<close>, its text functions, its
    history, its commands on files, its other commands and their table, and the line editor with the
    main loop; \<open>Shell_Text_Correct\<close>: edit distance, paths, numbers and arguments; \<open>Shell_Correct\<close>: the file commands
    against the abstract file system; \<open>Shell_Package\<close>: the package manager, on the state of \<open>Storage\<close>.
  \<^item> \<open>Efi_Image\<close>: \<open>src/tools/efiImageBuilder/main.cpp\<close>, the builder of boot images; \<open>Efifs\<close>: \<open>src/kernel/efifs.cpp\<close>, the reader
    of the EFI partition, on the images of the builder.
  \<^item> \<open>Console\<close>: \<open>src/kernel/input/keyboard.cpp\<close>, the ring of typed characters, which is a queue, and \<open>src/kernel/video.cpp\<close>,
    the text screen, whose cursor stays on the screen.
  \<^item> \<open>Tool_Text\<close>, \<open>Tool_Json\<close>, \<open>Tool_Macro\<close>, \<open>Tool_Asm\<close>, \<open>Tool_Link\<close>, \<open>Tool_Exec\<close>: \<open>src/tools/macroBuilder/main.cpp\<close>,
    its text utilities, JSON, macro processor, assembler, linker and virtual machine;
    \<open>Tool_Json_Correct\<close>, \<open>Tool_Asm_Correct\<close>, \<open>Tool_Link_Correct\<close>, \<open>Tool_Exec_Correct\<close>: each of them;
    \<open>Tool_Run\<close>: the assembler's bytes and the machine; \<open>Toolchain\<close>: object files through the disk.

  \<^bold>\<open>Conventions.\<close> The kernel is the 32-bit build, so \<open>size_t\<close> and \<open>uintptr_t\<close> are 32-bit words and
  their arithmetic wraps. A fixed array is a list of the array's length, a
  pointer into a table is an index into it and a null pointer is \<open>None\<close>. A loop whose
  progress depends on data read from memory is a partial function into \<open>option\<close>, with
  \<open>None\<close> for a loop that never ends; all other functions are total. An operation is one step: the file system holds its
  lock for the whole of each operation, while the scheduler takes none and a system call can be interrupted
  by the timer, so that its calls are single steps is an assumption. The tables of the file system, the scheduler and the devices are records beside
  the byte memory, which holds the heap and the memory of programs.

  \<^bold>\<open>Interfaces.\<close> \<open>frame_allocator\<close> is the contract of the physical memory manager, \<open>page_mapper\<close> that of
  the virtual memory manager towards code that maps regions, and \<open>byte_allocator\<close> that of the heap
  towards the file system: from a heap in order (well formed and below \<open>0xDFFFF000\<close>) a request of at most 512 MiB returns, with
  a buffer or without one, and the heap is in order again. Each is interpreted on the model of the component that provides it. The drivers
  below the block devices are parameters; \<open>drivers_ok\<close> states what a driver that works does.

  \<^bold>\<open>What is shown.\<close> The frame bitmap hands out each frame once, lowest first. Mapping and unmapping refine
  updates of a map from pages to frames. The heap's free list stays sorted and merged, and a block it
  hands out overlaps no other. The file system refines a tree of nodes with open files. The scheduler's
  counters agree with its tables under every sequence of interrupts and calls in which sleeps and creations come from a runnable
  task, and no runnable task starves. A system call from ring 3 other than \<open>write\<close> changes bytes only in the buffer it was given, which
  lies in user memory, and every call keeps the invariants of file system and scheduler. A write through a partition stays inside it, what storage wrote is read back and found
  again after a restart. From a saved snapshot the code that restores packages makes every saved file again with its contents, and
  a restart does so for the files of an installed package, which stay on the disk when it is removed. The shell runs the commands that are typed, resolves paths by their names, keeps the last lines and copies files; moving a file to a place
  that cannot be opened loses it, and completion drops what was typed. The kernel's reader of the EFI
  partition gets back the files that the image builder wrote, but never the seed of a whole disk. An object file read back is the one written; linking and loading put at every
  site the address of its symbol, the beginning of the module that defines it plus the value there; a label is the place of the
  statements after it; the machine does what the mnemonics of the assembled lines say.

  \<^bold>\<open>Bounds.\<close> The JSON parser's recursion has three units of fuel for each character, and
  \<open>parse_text_no_depth\<close> shows that they never run out. The limits on macro expansion and on the steps
  of the virtual machine are the program's own. The walks over boot information, the walks over the
  free list and the growth of a file's capacity are partial functions, shown to return from
  well-formed states; a zero size in a tag and a capacity above two gigabytes are shown to loop. The properties of the file
  system on the kernel heap are for files of at most 512 MiB, whose buffers the heap can always be asked for. Rounding up to pages wraps
  above \<open>0xFFFFF000\<close>, so the frame manager frees nothing of a region that ends in the last page of the 4 GiB.

  \<^bold>\<open>Not modelled.\<close> The drivers (\<open>ahci.cpp\<close>, \<open>nvme.cpp\<close>, \<open>ide.cpp\<close>, \<open>usb_mass_storage.cpp\<close>, \<open>xhci.cpp\<close>, \<open>pci.cpp\<close>), the
  frame buffer, the serial port, the ACPI tables and the processor's tables under \<open>arch\<close>
  are input and output on device registers. The start-up sequence in \<open>kmain.cpp\<close> and \<open>kmain64.cpp\<close> calls
  the modelled parts and prints; only its scan for partitions is modelled. The shell's commands that
  show devices, processor and tasks and its power commands are a parameter of the table of
  commands, and so is the package manager there, which has a state with the disk. The program loader, which works on program files, has no model yet. Of the tools, the reading and writing of files and
  the parsing of command lines are left out. A double of the tools is a value of an
  abstract type with the operations the code uses.
\<close>

end
